(* ===== verification/Rust_Prelude.thy ===== *)
theory Rust_Prelude
  imports "HOL-Library.Word" "HOL-Library.Monad_Syntax"
begin

unbundle bit_operations_syntax

section \<open>Shared types, standard-library operations and automation\<close>

text \<open>
  The machine integers of the sources, the operations of Rust's standard library the
  components call on them, and the lemmas that read word arithmetic as arithmetic on
  \<^typ>\<open>nat\<close>. The kernel, the shell and every crate are built with \<^verbatim>\<open>--release\<close>
  (\<^verbatim>\<open>tools/runner/src/main.rs\<close>), so \<open>+\<close>, \<open>-\<close> and \<open>*\<close> wrap around and
  \<^verbatim>\<open>debug_assert!\<close> is absent: the operations of \<^typ>\<open>'a word\<close> are the source's.

  A function that may panic has the type \<open>'a rust\<close>; \<^term>\<open>None\<close> is the panic.
  A \<^verbatim>\<open>Result<T, E>\<close> is a sum, \<^term>\<open>Inl\<close> the error.
\<close>

type_synonym u8 = "8 word"
type_synonym u16 = "16 word"
type_synonym u32 = "32 word"
type_synonym u64 = "64 word"
type_synonym usize = "64 word"
type_synonym 'a rust = "'a option"

abbreviation panic :: "'a rust" where
  "panic \<equiv> None"

definition rust_assert :: "bool \<Rightarrow> unit rust" where
  "rust_assert b = (if b then Some () else None)"

lemma rust_assert_simps [simp]:
  "rust_assert True = Some ()"
  "rust_assert False = None"
  "rust_assert b = Some u \<longleftrightarrow> b"
  "rust_assert b = None \<longleftrightarrow> \<not> b"
  by (simp_all add: rust_assert_def)

text \<open>
  A stateful operation that returns a \<^verbatim>\<open>Result\<close> yields the result and the state it leaves;
  \<open>qbind\<close> is the operator \<^verbatim>\<open>?\<close>: on an error the caller returns at once, with the
  state as the callee left it.
\<close>

type_synonym ('e, 'a, 's) outcome = "(('e + 'a) \<times> 's) rust"

definition qbind ::
    "('e, 'a, 's) outcome \<Rightarrow> ('a \<Rightarrow> 's \<Rightarrow> ('e, 'b, 's) outcome) \<Rightarrow> ('e, 'b, 's) outcome" where
  "qbind m f =
     (case m of None \<Rightarrow> None
      | Some (r, s) \<Rightarrow> (case r of Inl e \<Rightarrow> Some (Inl e, s) | Inr a \<Rightarrow> f a s))"

lemma qbind_simps [simp]:
  "qbind None f = None"
  "qbind (Some (Inl e, s)) f = Some (Inl e, s)"
  "qbind (Some (Inr a, s)) f = f a s"
  by (simp_all add: qbind_def)

named_theorems unat_reads \<open>word operations read as operations on naturals\<close>

subsection \<open>Standard-library operations on unsigned integers\<close>

definition checked_add :: "'a::len word \<Rightarrow> 'a word \<Rightarrow> 'a word option" where
  "checked_add a b = (if unat a + unat b < 2 ^ LENGTH('a) then Some (a + b) else None)"

definition checked_sub :: "'a::len word \<Rightarrow> 'a word \<Rightarrow> 'a word option" where
  "checked_sub a b = (if b \<le> a then Some (a - b) else None)"

definition saturating_sub :: "'a::len word \<Rightarrow> 'a word \<Rightarrow> 'a word" where
  "saturating_sub a b = (if b \<le> a then a - b else 0)"

definition div_ceil :: "'a::len word \<Rightarrow> 'a word \<Rightarrow> 'a word" where
  "div_ceil a b = (let d = a div b; r = a mod b in if r > 0 then d + 1 else d)"

definition next_multiple_of :: "'a::len word \<Rightarrow> 'a word \<Rightarrow> 'a word rust" where
  "next_multiple_of a b =
     (if b = 0 then panic
      else let r = a mod b in if r = 0 then Some a else Some (a + (b - r)))"

definition trailing_zeros :: "'a::len word \<Rightarrow> nat" where
  "trailing_zeros w = length (takeWhile (\<lambda>i. \<not> bit w i) [0..<LENGTH('a)])"

definition is_power_of_two :: "'a::len word \<Rightarrow> bool" where
  "is_power_of_two w = list_ex (\<lambda>k. w = 2 ^ k) [0..<LENGTH('a)]"

lemma is_power_of_two_iff:
  "is_power_of_two (w :: 'a::len word) \<longleftrightarrow> (\<exists>k < LENGTH('a). w = 2 ^ k)"
  by (auto simp: is_power_of_two_def list_ex_iff Bex_def)

lemma trailing_zeros_bit:
  assumes "(w :: 'a::len word) \<noteq> 0"
  shows "trailing_zeros w < LENGTH('a)" "bit w (trailing_zeros w)"
proof -
  from assms obtain n where n: "n < LENGTH('a)" "bit w n"
    by (metis bit_0_eq bit_word_eqI bot_apply bot_bool_def)
  have "length (takeWhile (\<lambda>i. \<not> bit w i) [0..<LENGTH('a)]) < length [0..<LENGTH('a)]"
  proof (rule ccontr)
    assume "\<not> ?thesis"
    then have "takeWhile (\<lambda>i. \<not> bit w i) [0..<LENGTH('a)] = [0..<LENGTH('a)]"
      by (metis length_takeWhile_le le_neq_implies_less takeWhile_eq_take take_all_iff order_refl)
    then have "\<forall>i \<in> set [0..<LENGTH('a)]. \<not> bit w i" by (simp only: takeWhile_eq_all_conv)
    with n show False by simp
  qed
  from this nth_length_takeWhile [OF this]
  show "trailing_zeros w < LENGTH('a)" "bit w (trailing_zeros w)"
    by (simp_all add: trailing_zeros_def)
qed

lemma checked_add_eq_Some [simp]:
  "checked_add a b = Some c \<longleftrightarrow> unat (a :: 'a::len word) + unat b < 2 ^ LENGTH('a) \<and> c = a + b"
  by (auto simp: checked_add_def)

lemma checked_sub_eq_Some [simp]:
  "checked_sub a b = Some c \<longleftrightarrow> b \<le> a \<and> c = a - b"
  by (auto simp: checked_sub_def)

subsection \<open>Words as naturals\<close>

lemma unat_add_no_overflow [unat_reads]:
  "unat (a :: 'a::len word) + unat b < 2 ^ LENGTH('a) \<Longrightarrow> unat (a + b) = unat a + unat b"
  by (simp add: unat_plus_if')

lemma unat_diff_le [unat_reads]:
  "b \<le> a \<Longrightarrow> unat (a - b) = unat a - unat (b :: 'a::len word)"
  by (rule unat_sub)

lemma unat_take_bit [unat_reads]: "unat (take_bit n (w :: 'a::len word)) = unat w mod 2 ^ n"
  by (simp only: unsigned_take_bit_eq) (simp only: take_bit_eq_mod)

lemma unat_drop_bit [unat_reads]: "unat (drop_bit n (w :: 'a::len word)) = unat w div 2 ^ n"
  by (simp only: unat_drop_bit_eq) (simp only: drop_bit_eq_div)

lemma unat_pow2 [unat_reads]: "k < LENGTH('a) \<Longrightarrow> unat (2 ^ k :: 'a::len word) = 2 ^ k"
proof -
  assume "k < LENGTH('a)"
  moreover have "(2 ^ k :: 'a word) = word_of_nat (2 ^ k)" by simp
  ultimately show ?thesis by (simp only: unat_of_nat) simp
qed

lemma unat_mask [unat_reads]: "k < LENGTH('a) \<Longrightarrow> unat (mask k :: 'a::len word) = 2 ^ k - 1"
  by (simp add: mask_eq_exp_minus_1 unat_minus_one unat_pow2)

lemma and_not_mask: "a AND NOT (mask k) = a - take_bit k (a :: 'a::len word)"
proof -
  have "a AND NOT (mask k) = push_bit k (drop_bit k a)"
    by (rule bit_word_eqI) (auto simp: bit_simps)
  then show ?thesis
    using bits_ident [of k a] by (simp add: algebra_simps)
qed

lemma take_bit_le: "take_bit k (a :: 'a::len word) \<le> a"
  by (simp add: word_le_nat_alt unat_take_bit)

lemma unat_and_not_mask [unat_reads]:
  "unat ((a :: 'a::len word) AND NOT (mask k)) = unat a div 2 ^ k * 2 ^ k"
  by (simp add: and_not_mask unat_sub [OF take_bit_le] unat_take_bit minus_mod_eq_div_mult)

lemma unat_and_mask [unat_reads]:
  "unat ((a :: 'a::len word) AND mask k) = unat a mod 2 ^ k"
  by (simp add: unat_take_bit flip: take_bit_eq_mask)

lemma take_bit_word_eqI:
  "(\<And>n. n < k \<Longrightarrow> bit a n = bit b n) \<Longrightarrow> take_bit k a = take_bit k (b :: 'a::len word)"
  by (rule bit_word_eqI) (auto simp: bit_simps)

lemma take_bit_word_id: "a < 2 ^ k \<Longrightarrow> k < LENGTH('a) \<Longrightarrow> take_bit k a = (a :: 'a::len word)"
  by (rule unsigned_word_eqI [where ?'a = nat]) (simp add: word_less_nat_alt unat_reads)

lemma unat_usize: "unat (a :: usize) < 18446744073709551616"
  using unsigned_less [of a, where ?'a = nat] by simp

subsection \<open>Ranges of words\<close>

text \<open>The values a \<^verbatim>\<open>for i in a..b\<close> loop takes.\<close>

definition word_range :: "'a::len word \<Rightarrow> 'a word \<Rightarrow> 'a word list" where
  "word_range a b = map word_of_nat [unat a ..< unat b]"

lemma unat_word_range: "map unat (word_range a b) = [unat a ..< unat (b :: 'a::len word)]"
proof -
  have "x < 2 ^ LENGTH('a)" if "x < unat b" for x
    using that unsigned_less [of b, where ?'a = nat] by (rule less_trans)
  then show ?thesis
    unfolding word_range_def map_map by (intro map_idI) (auto simp: unat_of_nat)
qed

subsection \<open>Rounding naturals to a multiple\<close>

definition round_up :: "nat \<Rightarrow> nat \<Rightarrow> nat" where
  "round_up n m = (n + m - 1) div m * m"

lemma round_up_dvd [simp]: "m dvd round_up n m"
  by (simp add: round_up_def)

lemma round_up_ge: "0 < m \<Longrightarrow> n \<le> round_up n m"
proof -
  assume m: "0 < m"
  have "n + m - 1 = (n + m - 1) div m * m + (n + m - 1) mod m"
    by simp
  moreover have "(n + m - 1) mod m \<le> m - 1"
    using m by (simp add: Suc_leI less_Suc_eq_le [symmetric])
  ultimately show ?thesis
    using m unfolding round_up_def by linarith
qed

lemma round_up_le: "0 < m \<Longrightarrow> round_up n m \<le> n + m - 1"
  by (simp add: round_up_def)

lemma round_up_least:
  assumes "m dvd k" and "n \<le> k" and "0 < m"
  shows "round_up n m \<le> k"
proof -
  from assms(1) obtain q where k: "k = m * q" by (auto elim: dvdE)
  have "(n + m - 1) div m \<le> q"
  proof (rule less_Suc_eq_le [THEN iffD1])
    have "n + m - 1 < Suc q * m" using assms k by (simp add: algebra_simps)
    then show "(n + m - 1) div m < Suc q" using assms(3) by (simp add: less_mult_imp_div_less)
  qed
  then show ?thesis by (simp add: round_up_def k mult.commute)
qed

lemma round_up_id [simp]:
  assumes "m dvd n" and "0 < m"
  shows "round_up n m = n"
  using round_up_least [of m n n] round_up_ge [of m n] assms by simp

lemma unat_div_ceil:
  assumes "unat (b :: 'a::len word) > 1"
  shows "unat (div_ceil a b) = round_up (unat a) (unat b) div unat b"
proof -
  let ?a = "unat a" and ?b = "unat b"
  have lt: "?a div ?b + 1 < 2 ^ LENGTH('a)"
  proof -
    have "?a div ?b \<le> ?a div 2" using assms by (intro div_le_mono2) simp_all
    moreover have "?a < 2 ^ LENGTH('a)" by (rule unsigned_less)
    moreover have "2 \<le> (2 :: nat) ^ LENGTH('a)"
      using self_le_power [of "2 :: nat" "LENGTH('a)"] by simp
    ultimately show ?thesis by linarith
  qed
  have "unat (div_ceil a b) = ?a div ?b + (if 0 < ?a mod ?b then 1 else 0)"
    using lt by (simp add: div_ceil_def Let_def word_less_nat_alt unat_mod unat_plus_if' unat_div)
  also have "\<dots> = (?a + ?b - 1) div ?b"
  proof -
    define q r where "q = ?a div ?b" and "r = ?a mod ?b"
    have a: "?a = q * ?b + r" "r < ?b" using assms by (simp_all add: q_def r_def)
    have "?a + ?b - 1 = (r + ?b - 1) + q * ?b" using assms by (simp add: a(1))
    then have "(?a + ?b - 1) div ?b = q + (r + ?b - 1) div ?b"
      using assms by (simp only: div_mult_self1)
    moreover have "(r + ?b - 1) div ?b = (if 0 < r then 1 else 0)"
      using a(2) assms by (auto intro!: div_nat_eqI)
    ultimately show ?thesis by (simp add: q_def r_def)
  qed
  finally show ?thesis using assms by (simp add: round_up_def)
qed

end
