(* ===== verification/Memory_Types.thy ===== *)
theory Memory_Types
  imports Rust_Prelude
begin

section \<open>Addresses, pages, frames and page-table entries\<close>

text \<open>
  The value types of \<^verbatim>\<open>crates/memory-types\<close>: \<^verbatim>\<open>Address\<close>, \<^verbatim>\<open>Page\<close>,
  \<^verbatim>\<open>Frame\<close>, \<^verbatim>\<open>AddressDomain\<close>, \<^verbatim>\<open>PageTableFlags\<close>, \<^verbatim>\<open>PageTableEntry\<close>
  and \<^verbatim>\<open>PageRange\<close>, with their constructors and accessors. An \<^verbatim>\<open>Address\<close> is a
  transparent wrapper of \<^verbatim>\<open>usize\<close> and is modelled as the word itself.
\<close>

subsection \<open>Sizes and rounding (memory_types.rs)\<close>

definition KIBIBYTE :: usize where "KIBIBYTE = 1024"
definition MEBIBYTE :: usize where "MEBIBYTE = 1024 * 1024"
definition GIBIBYTE :: usize where "GIBIBYTE = 1024 * 1024 * 1024"
definition PAGE_SIZE :: usize where "PAGE_SIZE = 4 * KIBIBYTE"

definition align_down :: "usize \<Rightarrow> usize \<Rightarrow> usize" where
  "align_down addr align = addr AND NOT (align - 1)"

definition align_up :: "usize \<Rightarrow> usize \<Rightarrow> usize" where
  "align_up addr align = (addr + align - 1) AND NOT (align - 1)"

lemma PAGE_SIZE_eq: "PAGE_SIZE = 4096"
  by (simp add: PAGE_SIZE_def KIBIBYTE_def)

lemma unat_PAGE_SIZE [simp]: "unat PAGE_SIZE = 4096"
  by (simp add: PAGE_SIZE_eq)

lemma unat_align_down:
  "k < 64 \<Longrightarrow> unat (align_down a (2 ^ k)) = unat a div 2 ^ k * 2 ^ k"
  by (simp add: align_down_def unat_reads flip: mask_eq_exp_minus_1)

lemma unat_align_up:
  assumes "k < 64" and "unat a + 2 ^ k \<le> 2 ^ 64"
  shows "unat (align_up a (2 ^ k)) = round_up (unat a) (2 ^ k)"
proof -
  have e: "a + 2 ^ k - 1 = a + mask k" by (simp add: mask_eq_exp_minus_1)
  have m: "unat (mask k :: usize) = 2 ^ k - 1"
    using assms(1) by (simp add: unat_mask)
  have "unat (a + mask k) = unat a + (2 ^ k - 1)"
  proof -
    have "unat a + unat (mask k :: usize) < 2 ^ 64"
      using assms(2) by (simp add: m)
    then show ?thesis using unat_add_no_overflow [of a "mask k"] by (simp add: m)
  qed
  then show ?thesis
    by (simp add: align_up_def e unat_reads round_up_def flip: mask_eq_exp_minus_1)
qed

text \<open>Within the last \<open>2 ^ k - 1\<close> bytes of the address space the sum wraps and the result is 0.\<close>

lemma align_up_wraps:
  assumes "k < 64" and "2 ^ 64 < unat a + 2 ^ k"
  shows "align_up a (2 ^ k) = 0"
proof -
  have e: "a + 2 ^ k - 1 = a + mask k" by (simp add: mask_eq_exp_minus_1)
  have m: "unat (mask k :: usize) = 2 ^ k - 1"
    using assms(1) by (simp add: unat_mask)
  have a: "unat a < 2 ^ 64" using unat_usize [of a] by simp
  have p: "(2::nat) ^ k < 2 ^ 64" by (rule power_strict_increasing) (use assms(1) in auto)
  have "unat (a + mask k) = unat a + (2 ^ k - 1) - 2 ^ 64"
    using assms(2) a p by (simp add: unat_plus_if' m)
  moreover have "x + (y - 1) - 2 ^ 64 < y" if "0 < y" "x < 2 ^ 64" for x y :: nat
    using that by simp
  ultimately have "unat (a + mask k) < 2 ^ k"
    using a by simp
  then have "unat (align_up a (2 ^ k)) = 0"
    by (simp add: align_up_def e unat_reads flip: mask_eq_exp_minus_1)
  then show ?thesis by (simp add: unat_eq_zero)
qed

subsection \<open>Page-table geometry (paging.rs, virtual_memory.rs)\<close>

definition PAGE_TABLE_ENTRY_SIZE :: usize where "PAGE_TABLE_ENTRY_SIZE = 8"
definition ENTRIES_PER_PAGE_TABLE :: usize where
  "ENTRIES_PER_PAGE_TABLE = PAGE_SIZE div PAGE_TABLE_ENTRY_SIZE"
definition PAGE_TABLE_INDEX_WIDTH :: nat where
  "PAGE_TABLE_INDEX_WIDTH = trailing_zeros ENTRIES_PER_PAGE_TABLE"
definition PAGE_TABLE_OFFSET_WIDTH :: nat where
  "PAGE_TABLE_OFFSET_WIDTH = trailing_zeros PAGE_SIZE"
definition L2_HUGE_PAGE_SIZE :: usize where
  "L2_HUGE_PAGE_SIZE = ENTRIES_PER_PAGE_TABLE * ENTRIES_PER_PAGE_TABLE * PAGE_TABLE_ENTRY_SIZE"
definition L3_HUGE_PAGE_SIZE :: usize where
  "L3_HUGE_PAGE_SIZE = ENTRIES_PER_PAGE_TABLE * ENTRIES_PER_PAGE_TABLE
     * ENTRIES_PER_PAGE_TABLE * PAGE_TABLE_ENTRY_SIZE"
definition PAGES_PER_L2_HUGE_PAGE :: usize where
  "PAGES_PER_L2_HUGE_PAGE = L2_HUGE_PAGE_SIZE div PAGE_SIZE"
definition PAGES_PER_L3_HUGE_PAGE :: usize where
  "PAGES_PER_L3_HUGE_PAGE = L3_HUGE_PAGE_SIZE div PAGE_SIZE"

definition VIRTUAL_MEMORY_SHIFT :: nat where "VIRTUAL_MEMORY_SHIFT = 47"
definition L1_INDEX_SHIFT :: nat where
  "L1_INDEX_SHIFT = PAGE_TABLE_OFFSET_WIDTH + PAGE_TABLE_INDEX_WIDTH * 0"
definition L2_INDEX_SHIFT :: nat where
  "L2_INDEX_SHIFT = PAGE_TABLE_OFFSET_WIDTH + PAGE_TABLE_INDEX_WIDTH * 1"
definition L3_INDEX_SHIFT :: nat where
  "L3_INDEX_SHIFT = PAGE_TABLE_OFFSET_WIDTH + PAGE_TABLE_INDEX_WIDTH * 2"
definition L4_INDEX_SHIFT :: nat where
  "L4_INDEX_SHIFT = PAGE_TABLE_OFFSET_WIDTH + PAGE_TABLE_INDEX_WIDTH * 3"

lemma ENTRIES_PER_PAGE_TABLE_eq: "ENTRIES_PER_PAGE_TABLE = 512"
  by (simp add: ENTRIES_PER_PAGE_TABLE_def PAGE_SIZE_eq PAGE_TABLE_ENTRY_SIZE_def)

lemma PAGE_TABLE_INDEX_WIDTH_eq: "PAGE_TABLE_INDEX_WIDTH = 9"
  unfolding PAGE_TABLE_INDEX_WIDTH_def ENTRIES_PER_PAGE_TABLE_eq by code_simp

lemma PAGE_TABLE_OFFSET_WIDTH_eq: "PAGE_TABLE_OFFSET_WIDTH = 12"
  unfolding PAGE_TABLE_OFFSET_WIDTH_def PAGE_SIZE_eq by code_simp

lemma index_shift_eqs:
  "L1_INDEX_SHIFT = 12" "L2_INDEX_SHIFT = 21" "L3_INDEX_SHIFT = 30" "L4_INDEX_SHIFT = 39"
  by (simp_all add: L1_INDEX_SHIFT_def L2_INDEX_SHIFT_def L3_INDEX_SHIFT_def L4_INDEX_SHIFT_def
      PAGE_TABLE_INDEX_WIDTH_eq PAGE_TABLE_OFFSET_WIDTH_eq)

lemma huge_page_eqs:
  "PAGES_PER_L2_HUGE_PAGE = 512" "PAGES_PER_L3_HUGE_PAGE = 262144"
  by (simp_all add: PAGES_PER_L2_HUGE_PAGE_def PAGES_PER_L3_HUGE_PAGE_def L2_HUGE_PAGE_SIZE_def
      L3_HUGE_PAGE_SIZE_def ENTRIES_PER_PAGE_TABLE_eq PAGE_TABLE_ENTRY_SIZE_def PAGE_SIZE_eq)

subsection \<open>Addresses (virtual_memory.rs)\<close>

type_synonym address = usize

definition Address_new :: "usize \<Rightarrow> address" where
  "Address_new addr = signed_drop_bit 16 (push_bit 16 addr)"

definition Address_new_unchecked :: "usize \<Rightarrow> address" where
  "Address_new_unchecked addr = addr"

definition PHYSICAL_MAX :: address where
  "PHYSICAL_MAX = Address_new (push_bit 47 1 - 1)"

definition Address_from_table_indices :: "usize \<Rightarrow> usize \<Rightarrow> usize \<Rightarrow> usize \<Rightarrow> address" where
  "Address_from_table_indices l4_index l3_index l2_index l1_index =
     Address_new (0 OR push_bit L4_INDEX_SHIFT l4_index
       OR push_bit L3_INDEX_SHIFT l3_index
       OR push_bit L2_INDEX_SHIFT l2_index
       OR push_bit L1_INDEX_SHIFT l1_index)"

definition Address_from_l4_index :: "usize \<Rightarrow> address" where
  "Address_from_l4_index l4_index = Address_new (0 OR push_bit L4_INDEX_SHIFT l4_index)"

definition is_null :: "address \<Rightarrow> bool" where "is_null a \<longleftrightarrow> a = 0"
definition is_physical :: "address \<Rightarrow> bool" where "is_physical a \<longleftrightarrow> a \<le> PHYSICAL_MAX"
definition is_page_aligned :: "address \<Rightarrow> bool" where
  "is_page_aligned a \<longleftrightarrow> a AND (PAGE_SIZE - 1) = 0"
definition page_align_down :: "address \<Rightarrow> address" where
  "page_align_down a = align_down a PAGE_SIZE"
definition page_align_up :: "address \<Rightarrow> address" where
  "page_align_up a = align_up a PAGE_SIZE"
definition page_offset :: "address \<Rightarrow> usize" where
  "page_offset a = a mod push_bit PAGE_TABLE_OFFSET_WIDTH 1"

definition l1_index :: "address \<Rightarrow> usize" where
  "l1_index a = drop_bit L1_INDEX_SHIFT a mod ENTRIES_PER_PAGE_TABLE"
definition l2_index :: "address \<Rightarrow> usize" where
  "l2_index a = drop_bit L2_INDEX_SHIFT a mod ENTRIES_PER_PAGE_TABLE"
definition l3_index :: "address \<Rightarrow> usize" where
  "l3_index a = drop_bit L3_INDEX_SHIFT a mod ENTRIES_PER_PAGE_TABLE"
definition l4_index :: "address \<Rightarrow> usize" where
  "l4_index a = drop_bit L4_INDEX_SHIFT a mod ENTRIES_PER_PAGE_TABLE"

definition Address_add :: "address \<Rightarrow> usize \<Rightarrow> address rust" where
  "Address_add a rhs = map_option Address_new (checked_add a rhs)"
definition Address_sub :: "address \<Rightarrow> usize \<Rightarrow> address rust" where
  "Address_sub a rhs = map_option Address_new (checked_sub a rhs)"

text \<open>
  A canonical address repeats bit 47 in the bits above it: the addresses the MMU accepts.
\<close>

definition canonical :: "address \<Rightarrow> bool" where
  "canonical a \<longleftrightarrow> list_all (\<lambda>n. bit a n = bit a 47) [48..<64]"

lemma canonical_iff: "canonical a \<longleftrightarrow> (\<forall>n. 48 \<le> n \<and> n < 64 \<longrightarrow> bit a n = bit a 47)"
  by (auto simp only: canonical_def list_all_iff set_upt atLeastLessThan_iff)

lemma bit_Address_new: "bit (Address_new a) n \<longleftrightarrow> n < 64 \<and> bit a (if n < 48 then n else 47)"
  by (auto simp: Address_new_def bit_simps)

lemma canonical_Address_new: "canonical (Address_new a)"
  by (auto simp: canonical_iff bit_Address_new)

lemma Address_new_id: "canonical a \<Longrightarrow> Address_new a = a"
  by (rule bit_word_eqI) (auto simp: bit_Address_new canonical_iff)

lemma mod_512_take_bit: "(a :: usize) mod ENTRIES_PER_PAGE_TABLE = take_bit 9 a"
  by (simp add: ENTRIES_PER_PAGE_TABLE_eq take_bit_eq_mod)

lemmas index_defs = l1_index_def l2_index_def l3_index_def l4_index_def
  index_shift_eqs mod_512_take_bit

lemma index_less:
  "unat (l1_index a) < 512" "unat (l2_index a) < 512"
  "unat (l3_index a) < 512" "unat (l4_index a) < 512"
  by (simp_all add: index_defs unat_reads)

lemma page_offset_take_bit: "page_offset a = take_bit 12 a"
  by (simp add: page_offset_def PAGE_TABLE_OFFSET_WIDTH_eq take_bit_eq_mod)

lemma take_bit_9_indices:
  fixes i4 i3 i2 i1 :: usize
  defines "a \<equiv> Address_from_table_indices (take_bit 9 i4) (take_bit 9 i3) (take_bit 9 i2)
    (take_bit 9 i1)"
  shows "l4_index a = take_bit 9 i4" "l3_index a = take_bit 9 i3"
    "l2_index a = take_bit 9 i2" "l1_index a = take_bit 9 i1" "page_offset a = 0"
proof -
  note s = Address_from_table_indices_def bit_simps bit_Address_new index_shift_eqs
  show "l4_index a = take_bit 9 i4" "l3_index a = take_bit 9 i3"
    "l2_index a = take_bit 9 i2" "l1_index a = take_bit 9 i1"
    unfolding a_def index_defs by (rule take_bit_word_eqI, simp add: s)+
  have "take_bit 12 a = take_bit 12 0"
    unfolding a_def by (rule take_bit_word_eqI) (simp add: s)
  then show "page_offset a = 0" by (simp add: page_offset_take_bit)
qed

lemma table_indices_of_address:
  assumes "canonical a"
  shows "Address_from_table_indices (l4_index a) (l3_index a) (l2_index a) (l1_index a)
    = a AND NOT (mask 12)"
proof (rule bit_word_eqI)
  fix n
  assume n: "n < LENGTH(64)"
  have c: "bit a n = bit a 47" if "48 \<le> n"
    using assms n that by (simp add: canonical_iff)
  consider "n < 12" | "12 \<le> n" "n < 21" | "21 \<le> n" "n < 30" | "30 \<le> n" "n < 39"
    | "39 \<le> n" "n < 48" | "48 \<le> n" by linarith
  then show "bit (Address_from_table_indices (l4_index a) (l3_index a) (l2_index a) (l1_index a)) n
      \<longleftrightarrow> bit (a AND NOT (mask 12)) n"
    using n c
    by cases (simp_all add: index_defs Address_from_table_indices_def bit_simps bit_Address_new
        less_diff_conv2)
qed

subsection \<open>Address domains (virtual_memory.rs)\<close>

definition MAX_PHYSICAL_L4_INDEX :: usize where
  "MAX_PHYSICAL_L4_INDEX = push_bit (VIRTUAL_MEMORY_SHIFT - L4_INDEX_SHIFT) 1 - 1"
definition USER_STACK_L4_INDEX :: usize where "USER_STACK_L4_INDEX = 506"
definition USER_CODE_L4_INDEX :: usize where "USER_CODE_L4_INDEX = 507"
definition USER_HEAP_L4_INDEX :: usize where "USER_HEAP_L4_INDEX = 508"
definition KERNEL_HEAP_L4_INDEX :: usize where "KERNEL_HEAP_L4_INDEX = 509"
definition KERNEL_MAPPING_L4_INDEX :: usize where "KERNEL_MAPPING_L4_INDEX = 510"

datatype address_domain =
  Physical | UserStack | UserCode | UserHeap | KernelHeap | KernelMapping | Invalid

definition Address_domain :: "address \<Rightarrow> address_domain" where
  "Address_domain a =
     (let i = l4_index a in
      if i \<le> MAX_PHYSICAL_L4_INDEX then Physical
      else if i = USER_STACK_L4_INDEX then UserStack
      else if i = USER_CODE_L4_INDEX then UserCode
      else if i = USER_HEAP_L4_INDEX then UserHeap
      else if i = KERNEL_HEAP_L4_INDEX then KernelHeap
      else if i = KERNEL_MAPPING_L4_INDEX then KernelMapping
      else Invalid)"

fun AddressDomain_base_addr :: "address_domain \<Rightarrow> address" where
  "AddressDomain_base_addr Physical = Address_from_l4_index 0"
| "AddressDomain_base_addr UserStack = Address_from_l4_index USER_STACK_L4_INDEX"
| "AddressDomain_base_addr UserCode = Address_from_l4_index USER_CODE_L4_INDEX"
| "AddressDomain_base_addr UserHeap = Address_from_l4_index USER_HEAP_L4_INDEX"
| "AddressDomain_base_addr KernelHeap = Address_from_l4_index KERNEL_HEAP_L4_INDEX"
| "AddressDomain_base_addr KernelMapping = Address_from_l4_index KERNEL_MAPPING_L4_INDEX"
| "AddressDomain_base_addr Invalid = Address_from_l4_index (MAX_PHYSICAL_L4_INDEX + 1)"

lemma MAX_PHYSICAL_L4_INDEX_eq: "MAX_PHYSICAL_L4_INDEX = 255"
  by (simp add: MAX_PHYSICAL_L4_INDEX_def VIRTUAL_MEMORY_SHIFT_def index_shift_eqs)

lemmas l4_constants = MAX_PHYSICAL_L4_INDEX_eq USER_STACK_L4_INDEX_def USER_CODE_L4_INDEX_def
  USER_HEAP_L4_INDEX_def KERNEL_HEAP_L4_INDEX_def KERNEL_MAPPING_L4_INDEX_def

lemma from_l4_index_eq:
  "Address_from_l4_index i = Address_from_table_indices i 0 0 0"
  by (simp add: Address_from_l4_index_def Address_from_table_indices_def)

lemma l4_index_from_l4_index: "i < 512 \<Longrightarrow> l4_index (Address_from_l4_index i) = i"
  using take_bit_9_indices(1) [of i 0 0 0]
  by (simp add: from_l4_index_eq take_bit_word_id [of i 9])

lemma PHYSICAL_MAX_eq: "PHYSICAL_MAX = mask 47"
proof -
  have "push_bit 47 1 - 1 = (mask 47 :: usize)"
    by (simp add: mask_eq_exp_minus_1 push_bit_eq_mult)
  then have "PHYSICAL_MAX = Address_new (mask 47)"
    by (simp only: PHYSICAL_MAX_def)
  moreover have "Address_new (mask 47) = (mask 47 :: usize)"
    by (rule bit_word_eqI) (auto simp: bit_Address_new bit_mask_iff)
  ultimately show ?thesis by simp
qed

lemma is_physical_iff: "is_physical a \<longleftrightarrow> unat a < 2 ^ 47"
  by (simp add: is_physical_def PHYSICAL_MAX_eq word_le_nat_alt unat_mask less_eq_Suc_le)

lemma Address_new_physical: "unat a < 2 ^ 47 \<Longrightarrow> Address_new a = a"
proof (rule Address_new_id)
  assume "unat a < 2 ^ 47"
  then have "take_bit 47 a = a" by (intro take_bit_word_id) (simp_all add: word_less_nat_alt)
  then have "\<not> bit a n" if "47 \<le> n" for n using that by (metis bit_take_bit_iff leD)
  then show "canonical a" by (simp add: canonical_iff)
qed

subsection \<open>Pages (virtual_memory.rs) and frames (physical_memory.rs)\<close>

datatype page = Page (page_number: usize)

definition Page_containing_addr :: "address \<Rightarrow> page" where
  "Page_containing_addr a = Page (a div PAGE_SIZE)"

definition Page_from_table_indices :: "usize \<Rightarrow> usize \<Rightarrow> usize \<Rightarrow> usize \<Rightarrow> page" where
  "Page_from_table_indices l4 l3 l2 l1 =
     Page_containing_addr (Address_from_table_indices l4 l3 l2 l1)"

definition page_base_addr :: "page \<Rightarrow> address" where
  "page_base_addr p = Address_new_unchecked (page_number p * PAGE_SIZE)"

definition page_l1_index :: "page \<Rightarrow> usize" where "page_l1_index p = l1_index (page_base_addr p)"
definition page_l2_index :: "page \<Rightarrow> usize" where "page_l2_index p = l2_index (page_base_addr p)"
definition page_l3_index :: "page \<Rightarrow> usize" where "page_l3_index p = l3_index (page_base_addr p)"
definition page_l4_index :: "page \<Rightarrow> usize" where "page_l4_index p = l4_index (page_base_addr p)"

definition page_add :: "page \<Rightarrow> usize \<Rightarrow> page rust" where
  "page_add p rhs = map_option Page (checked_add (page_number p) rhs)"

definition page_sub :: "page \<Rightarrow> usize \<Rightarrow> page rust" where
  "page_sub p rhs = map_option Page (checked_sub (page_number p) rhs)"

instantiation page :: linorder
begin
definition less_eq_page :: "page \<Rightarrow> page \<Rightarrow> bool" where
  "less_eq_page p q \<longleftrightarrow> page_number p \<le> page_number q"
definition less_page :: "page \<Rightarrow> page \<Rightarrow> bool" where
  "less_page p q \<longleftrightarrow> page_number p < page_number q"
instance
  by standard (auto simp: less_eq_page_def less_page_def page.expand)
end

datatype frame = Frame (frame_number: usize)

definition Frame_containing_addr :: "address \<Rightarrow> frame rust" where
  "Frame_containing_addr a =
     (if is_physical a then Some (Frame (a div PAGE_SIZE)) else panic)"

definition Frame_from_base_addr :: "address \<Rightarrow> frame option rust" where
  "Frame_from_base_addr a =
     (if is_page_aligned a then map_option Some (Frame_containing_addr a) else Some None)"

definition frame_base_addr :: "frame \<Rightarrow> address" where
  "frame_base_addr f = Address_new_unchecked (frame_number f * PAGE_SIZE)"

lemma unat_page_base_addr:
  assumes "unat (page_number p) < 2 ^ 52"
  shows "unat (page_base_addr p) = unat (page_number p) * 4096"
  using assms by (simp add: page_base_addr_def Address_new_unchecked_def PAGE_SIZE_eq unat_word_ariths)

lemma unat_page_number_containing: "unat (page_number (Page_containing_addr a)) = unat a div 4096"
  by (simp add: Page_containing_addr_def unat_div)

lemma page_base_addr_containing: "page_base_addr (Page_containing_addr a) = page_align_down a"
proof -
  have "unat (page_base_addr (Page_containing_addr a)) = unat a div 4096 * 4096"
    using unat_usize [of a] by (subst unat_page_base_addr) (simp_all add: unat_page_number_containing)
  moreover have "unat (page_align_down a) = unat a div 4096 * 4096"
    using unat_align_down [of 12 a] by (simp add: page_align_down_def PAGE_SIZE_eq)
  ultimately show ?thesis by (simp add: word_unat_eq_iff)
qed

lemma unat_frame_base_addr:
  assumes "unat (frame_number f) < 2 ^ 52"
  shows "unat (frame_base_addr f) = unat (frame_number f) * 4096"
  using assms by (simp add: frame_base_addr_def Address_new_unchecked_def PAGE_SIZE_eq unat_word_ariths)

text \<open>A frame that lies in the identity-mapped half of memory, as every frame
  made by \<^verbatim>\<open>Frame::containing_addr\<close> does.\<close>

definition frame_physical :: "frame \<Rightarrow> bool" where
  "frame_physical f \<longleftrightarrow> frame_number f < 2 ^ 35"

lemma frame_physical_iff: "frame_physical f \<longleftrightarrow> unat (frame_number f) < 2 ^ 35"
  by (simp add: frame_physical_def word_less_nat_alt)

lemma frame_physical_base:
  assumes "frame_physical f"
  shows "unat (frame_base_addr f) = unat (frame_number f) * 4096"
    and "is_physical (frame_base_addr f)" and "is_page_aligned (frame_base_addr f)"
proof -
  show u: "unat (frame_base_addr f) = unat (frame_number f) * 4096"
    using assms by (intro unat_frame_base_addr) (simp add: frame_physical_iff)
  then show "is_physical (frame_base_addr f)"
    using assms by (simp add: is_physical_iff frame_physical_iff)
  have "unat (frame_base_addr f AND mask 12) = 0"
    by (simp add: unat_and_mask u)
  then show "is_page_aligned (frame_base_addr f)"
    by (simp add: is_page_aligned_def PAGE_SIZE_eq unat_eq_zero mask_eq_exp_minus_1)
qed

lemma Frame_containing_base:
  assumes "frame_physical f"
  shows "Frame_containing_addr (frame_base_addr f) = Some f"
proof -
  have "unat (frame_base_addr f div PAGE_SIZE) = unat (frame_number f)"
    using frame_physical_base(1) [OF assms] by (simp add: unat_div)
  then have "frame_base_addr f div PAGE_SIZE = frame_number f"
    by (simp add: word_unat_eq_iff)
  then show ?thesis
    using frame_physical_base(2) [OF assms] by (simp add: Frame_containing_addr_def)
qed

lemma Frame_containing_physical: "Frame_containing_addr a = Some f \<Longrightarrow> frame_physical f"
  by (auto simp: Frame_containing_addr_def frame_physical_iff is_physical_iff unat_div
      less_mult_imp_div_less split: if_splits)

subsection \<open>Page-table entries (paging.rs)\<close>

type_synonym pt_flags = usize

definition flag_bit :: "nat \<Rightarrow> pt_flags" where "flag_bit n = push_bit n 1"
definition NONE :: pt_flags where "NONE = 0"
definition PRESENT :: pt_flags where "PRESENT = flag_bit 0"
definition WRITABLE :: pt_flags where "WRITABLE = flag_bit 1"
definition USER_ACCESSIBLE :: pt_flags where "USER_ACCESSIBLE = flag_bit 2"
definition WRITE_THROUGH :: pt_flags where "WRITE_THROUGH = flag_bit 3"
definition NO_CACHE :: pt_flags where "NO_CACHE = flag_bit 4"
definition ACCESSED :: pt_flags where "ACCESSED = flag_bit 5"
definition DIRTY :: pt_flags where "DIRTY = flag_bit 6"
definition HUGE_PAGE :: pt_flags where "HUGE_PAGE = flag_bit 7"
definition GLOBAL :: pt_flags where "GLOBAL = flag_bit 8"
definition NO_EXECUTE :: pt_flags where "NO_EXECUTE = flag_bit 63"

definition flags_get :: "pt_flags \<Rightarrow> pt_flags \<Rightarrow> bool" where
  "flags_get self flag \<longleftrightarrow> self AND flag = flag"

lemma flags_get_bit: "n < 64 \<Longrightarrow> flags_get f (flag_bit n) \<longleftrightarrow> bit f n"
proof -
  assume n: "n < 64"
  have "f AND push_bit n 1 = (if bit f n then push_bit n 1 else 0)"
    by (rule bit_word_eqI) (auto simp: bit_simps)
  moreover have "bit (push_bit n 1 :: usize) n"
    using n by (simp add: bit_simps)
  then have "push_bit n 1 \<noteq> (0 :: usize)" using n by auto
  ultimately show ?thesis by (simp add: flags_get_def flag_bit_def)
qed

type_synonym pte = usize

datatype entry_frame_error = NotPresent | HugePage

definition ADDRESS_MASK :: usize where "ADDRESS_MASK = 0x000FFFFFFFFFF000"

definition pte_new :: pte where "pte_new = 0"
definition pte_is_unused :: "pte \<Rightarrow> bool" where "pte_is_unused v \<longleftrightarrow> v = 0"
definition pte_flags :: "pte \<Rightarrow> pt_flags" where "pte_flags v = v AND NOT ADDRESS_MASK"
definition pte_is_present :: "pte \<Rightarrow> bool" where
  "pte_is_present v \<longleftrightarrow> flags_get (pte_flags v) PRESENT"
definition pte_is_writable :: "pte \<Rightarrow> bool" where
  "pte_is_writable v \<longleftrightarrow> flags_get (pte_flags v) WRITABLE"
definition pte_is_huge_page :: "pte \<Rightarrow> bool" where
  "pte_is_huge_page v \<longleftrightarrow> flags_get (pte_flags v) HUGE_PAGE"
definition pte_addr :: "pte \<Rightarrow> address" where "pte_addr v = Address_new (v AND ADDRESS_MASK)"

definition pte_frame :: "pte \<Rightarrow> (entry_frame_error + frame) rust" where
  "pte_frame v =
     (if \<not> pte_is_present v then Some (Inl NotPresent)
      else if pte_is_huge_page v then Some (Inl HugePage)
      else map_option Inr (Frame_containing_addr (pte_addr v)))"

definition pte_set_unused :: "pte \<Rightarrow> pte" where "pte_set_unused v = 0"

definition pte_set_addr :: "pte \<Rightarrow> address \<Rightarrow> pt_flags \<Rightarrow> pte rust" where
  "pte_set_addr v a flags =
     (if is_page_aligned a \<and> is_physical a then Some (a OR flags) else panic)"

definition pte_set_frame :: "pte \<Rightarrow> frame \<Rightarrow> pt_flags \<Rightarrow> pte rust" where
  "pte_set_frame v f flags =
     (if flags AND HUGE_PAGE \<noteq> HUGE_PAGE then pte_set_addr v (frame_base_addr f) flags
      else panic)"

definition pte_set_flags :: "pte \<Rightarrow> pt_flags \<Rightarrow> pte" where
  "pte_set_flags v flags = pte_addr v OR flags"

text \<open>The flag bits lie outside the address field of an entry.\<close>

definition flags_ok :: "pt_flags \<Rightarrow> bool" where "flags_ok f \<longleftrightarrow> f AND ADDRESS_MASK = 0"

lemma bit_ADDRESS_MASK: "bit ADDRESS_MASK n \<longleftrightarrow> 12 \<le> n \<and> n < 52"
proof -
  have "ADDRESS_MASK = push_bit 12 (mask 40)"
    by (simp add: ADDRESS_MASK_def mask_eq_exp_minus_1 push_bit_eq_mult)
  moreover have "bit (push_bit 12 (mask 40) :: usize) n \<longleftrightarrow> 12 \<le> n \<and> n < 52"
    by (auto simp: bit_simps)
  ultimately show ?thesis by simp
qed

lemma flags_okD: "flags_ok f \<Longrightarrow> 12 \<le> n \<Longrightarrow> n < 52 \<Longrightarrow> \<not> bit f n"
  unfolding flags_ok_def by (metis bit_0_eq bit_ADDRESS_MASK bit_and_iff bot_apply bot_bool_def)

lemma frame_base_bits:
  assumes "frame_physical f"
  shows "bit (frame_base_addr f) n \<longleftrightarrow> 12 \<le> n \<and> n < 47 \<and> bit (frame_number f) (n - 12)"
proof -
  have e: "frame_base_addr f = push_bit 12 (frame_number f)"
    by (simp add: frame_base_addr_def Address_new_unchecked_def PAGE_SIZE_eq push_bit_eq_mult)
  have "frame_number f = take_bit 35 (frame_number f)"
    using assms by (intro take_bit_word_id [symmetric]) (simp_all add: frame_physical_def)
  then have "bit (frame_number f) m \<Longrightarrow> m < 35" for m
    by (metis bit_take_bit_iff)
  then have "bit (frame_number f) (n - 12) \<Longrightarrow> n - 12 < 35" .
  then show ?thesis unfolding e by (auto simp: bit_push_bit_iff)
qed

lemma pte_bits:
  assumes "frame_physical f" "flags_ok flags"
  shows pte_flags_or: "pte_flags (frame_base_addr f OR flags) = flags"
    and pte_addr_or: "pte_addr (frame_base_addr f OR flags) = frame_base_addr f"
proof -
  show "pte_flags (frame_base_addr f OR flags) = flags"
  proof (rule bit_word_eqI)
    fix n assume "n < LENGTH(64)"
    then show "bit (pte_flags (frame_base_addr f OR flags)) n = bit flags n"
      using flags_okD [OF assms(2), of n]
      by (auto simp: pte_flags_def bit_simps frame_base_bits [OF assms(1)] bit_ADDRESS_MASK)
  qed
  have "(frame_base_addr f OR flags) AND ADDRESS_MASK = frame_base_addr f"
  proof (rule bit_word_eqI)
    fix n assume "n < LENGTH(64)"
    then show "bit ((frame_base_addr f OR flags) AND ADDRESS_MASK) n = bit (frame_base_addr f) n"
      using flags_okD [OF assms(2), of n]
      by (auto simp: bit_simps frame_base_bits [OF assms(1)] bit_ADDRESS_MASK)
  qed
  moreover have "Address_new (frame_base_addr f) = frame_base_addr f"
    by (rule bit_word_eqI) (auto simp: bit_Address_new frame_base_bits [OF assms(1)])
  ultimately show "pte_addr (frame_base_addr f OR flags) = frame_base_addr f"
    by (simp add: pte_addr_def)
qed

lemma pte_set_frame_ok:
  assumes "frame_physical f" "\<not> flags_get flags HUGE_PAGE"
  shows "pte_set_frame v f flags = Some (frame_base_addr f OR flags)"
  using assms frame_physical_base(2,3) [OF assms(1)]
  by (simp add: pte_set_frame_def pte_set_addr_def flags_get_def)

lemma pte_frame_or:
  assumes "frame_physical f" "flags_ok flags"
    and "flags_get flags PRESENT" "\<not> flags_get flags HUGE_PAGE"
  shows "pte_frame (frame_base_addr f OR flags) = Some (Inr f)"
  using assms
  by (simp add: pte_frame_def pte_is_present_def pte_is_huge_page_def pte_bits
      Frame_containing_base)

lemma pte_addr_set_flags:
  assumes "flags_ok flags" "pte_addr v = frame_base_addr f" "frame_physical f"
  shows "pte_addr (pte_set_flags v flags) = pte_addr v"
    and "pte_flags (pte_set_flags v flags) = flags"
  using assms by (simp_all add: pte_set_flags_def pte_bits)

lemma flags_ok_or: "flags_ok f \<Longrightarrow> flags_ok g \<Longrightarrow> flags_ok (f OR g)"
  by (auto simp: flags_ok_def bit_eq_iff bit_simps)

lemma flags_ok_pte: "flags_ok (pte_flags v)"
  by (auto simp: flags_ok_def pte_flags_def bit_eq_iff bit_simps)

subsection \<open>Page ranges (paging.rs)\<close>

record page_range =
  pr_start :: page
  pr_end :: page

definition PageRange_new :: "page \<Rightarrow> page \<Rightarrow> page_range" where
  "PageRange_new s e = \<lparr> pr_start = s, pr_end = e \<rparr>"

definition PageRange_from_start_len :: "page \<Rightarrow> usize \<Rightarrow> page_range rust" where
  "PageRange_from_start_len s n = map_option (PageRange_new s) (page_add s n)"

definition PageRange_from_end_size :: "page \<Rightarrow> usize \<Rightarrow> page_range rust" where
  "PageRange_from_end_size e sz =
     (let n = div_ceil sz PAGE_SIZE in map_option (\<lambda>s. PageRange_new s e) (page_sub e n))"

definition PageRange_from_base_size :: "address \<Rightarrow> usize \<Rightarrow> page_range rust" where
  "PageRange_from_base_size base sz =
     (let s = Page_containing_addr base; n = div_ceil sz PAGE_SIZE
      in map_option (PageRange_new s) (page_add s n))"

definition PageRange_from_base_len :: "address \<Rightarrow> usize \<Rightarrow> page_range rust" where
  "PageRange_from_base_len base n =
     map_option (PageRange_new (Page_containing_addr base))
       (page_add (Page_containing_addr base) n)"

definition PageRange_len :: "page_range \<Rightarrow> usize" where
  "PageRange_len r = page_number (pr_end r) - page_number (pr_start r)"

definition PageRange_next :: "page_range \<Rightarrow> (page option \<times> page_range) rust" where
  "PageRange_next r =
     (if pr_start r < pr_end r
      then map_option (\<lambda>s. (Some (pr_start r), r\<lparr> pr_start := s \<rparr>)) (page_add (pr_start r) 1)
      else Some (None, r))"

text \<open>The pages a \<^verbatim>\<open>for\<close> loop over the range visits, in order; the next two
  lemmas tie the list to the iterator.\<close>

definition PageRange_pages :: "page_range \<Rightarrow> page list" where
  "PageRange_pages r =
     map (Page \<circ> of_nat) [unat (page_number (pr_start r)) ..< unat (page_number (pr_end r))]"

lemma PageRange_next_pages:
  assumes "PageRange_pages r = p # ps"
  obtains r' where "PageRange_next r = Some (Some p, r')" "PageRange_pages r' = ps"
proof -
  let ?s = "page_number (pr_start r)" and ?e = "page_number (pr_end r)"
  from assms have lt: "unat ?s < unat ?e"
    by (cases "unat ?s < unat ?e") (simp_all add: PageRange_pages_def)
  with assms have p: "p = pr_start r" and ps: "ps = map (Page \<circ> of_nat) [Suc (unat ?s) ..< unat ?e]"
    by (auto simp add: PageRange_pages_def upt_conv_Cons)
  have u: "unat ?s + unat (1 :: usize) < 2 ^ 64" using lt unat_usize [of ?e] by simp
  then have "unat (?s + 1) = Suc (unat ?s)"
    using unat_add_no_overflow [of ?s 1] by simp
  moreover have "checked_add ?s 1 = Some (?s + 1)" using u by (simp add: checked_add_def)
  ultimately show thesis
    using lt by (intro that [of "r\<lparr> pr_start := Page (?s + 1) \<rparr>"])
      (simp_all add: PageRange_next_def page_add_def less_page_def word_less_nat_alt p ps
        PageRange_pages_def)
qed

lemma PageRange_next_done: "PageRange_pages r = [] \<Longrightarrow> PageRange_next r = Some (None, r)"
  by (auto simp: PageRange_pages_def PageRange_next_def less_page_def word_less_nat_alt)

lemma PageRange_pages_props:
  shows distinct_PageRange_pages: "distinct (PageRange_pages r)"
    and set_PageRange_pages: "p \<in> set (PageRange_pages r) \<longleftrightarrow> pr_start r \<le> p \<and> p < pr_end r"
proof -
  have "inj_on (Page \<circ> of_nat) {unat (page_number (pr_start r)) ..< unat (page_number (pr_end r))}"
  proof (rule inj_onI)
    fix x y assume "x \<in> {unat (page_number (pr_start r)) ..< unat (page_number (pr_end r))}"
      "y \<in> {unat (page_number (pr_start r)) ..< unat (page_number (pr_end r))}"
    then have "x < 2 ^ 64" "y < 2 ^ 64" using unat_usize [of "page_number (pr_end r)"] by auto
    moreover assume "(Page \<circ> of_nat) x = (Page \<circ> of_nat) y"
    ultimately show "x = y" by (auto dest: arg_cong [of _ _ unat] simp: unat_of_nat)
  qed
  then show "distinct (PageRange_pages r)" by (simp add: PageRange_pages_def distinct_map)
  show "p \<in> set (PageRange_pages r) \<longleftrightarrow> pr_start r \<le> p \<and> p < pr_end r"
  proof
    assume "p \<in> set (PageRange_pages r)"
    then obtain x where "p = Page (of_nat x)" "unat (page_number (pr_start r)) \<le> x"
      "x < unat (page_number (pr_end r))" by (auto simp: PageRange_pages_def)
    moreover from this have "x < 2 ^ 64" using unat_usize [of "page_number (pr_end r)"] by simp
    ultimately show "pr_start r \<le> p \<and> p < pr_end r"
      by (simp add: less_eq_page_def less_page_def word_le_nat_alt word_less_nat_alt unat_of_nat)
  next
    assume "pr_start r \<le> p \<and> p < pr_end r"
    then have "unat (page_number p) \<in> {unat (page_number (pr_start r)) ..< unat (page_number (pr_end r))}"
      by (simp add: less_eq_page_def less_page_def word_le_nat_alt word_less_nat_alt)
    then show "p \<in> set (PageRange_pages r)"
      by (auto simp: PageRange_pages_def intro!: image_eqI [of _ _ "unat (page_number p)"])
  qed
qed

lemma PageRange_pages_single:
  assumes "n \<noteq> - 1"
  shows "PageRange_pages (PageRange_new (Page n) (Page (n + 1))) = [Page n]"
proof -
  have "unat (n + 1) = Suc (unat n)" using assms unatSuc [of n] by (simp add: add.commute add_eq_0_iff)
  then show ?thesis by (simp add: PageRange_pages_def PageRange_new_def)
qed

lemma length_PageRange_pages:
  assumes "pr_start r \<le> pr_end r"
  shows "length (PageRange_pages r) = unat (PageRange_len r)"
  using assms
  by (simp add: PageRange_pages_def PageRange_len_def less_eq_page_def unat_sub word_le_nat_alt)

subsection \<open>The FrameAllocator trait (memory_types.rs)\<close>

text \<open>
  What the clients of \<^verbatim>\<open>FrameAllocator::allocate_frame\<close> rely on: as long as a frame is
  free the call returns one and takes it out of the free set, otherwise it returns
  \<^verbatim>\<open>None\<close> and changes nothing; every frame handed out lies in physical memory.
\<close>

locale frame_source =
  fixes alloc :: "'s \<Rightarrow> (frame option \<times> 's) rust"
    and ok :: "'s \<Rightarrow> bool"
    and free :: "'s \<Rightarrow> frame set"
  assumes alloc_free: "ok s \<Longrightarrow> free s \<noteq> {} \<Longrightarrow>
      \<exists>f s'. alloc s = Some (Some f, s') \<and> f \<in> free s \<and> free s' = free s - {f} \<and> ok s'"
    and alloc_empty: "ok s \<Longrightarrow> free s = {} \<Longrightarrow> alloc s = Some (None, s)"
    and free_physical: "ok s \<Longrightarrow> f \<in> free s \<Longrightarrow> frame_physical f"

lemma frame_base_addr_inj:
  assumes "frame_physical f" "frame_physical g" "frame_base_addr f = frame_base_addr g"
  shows "f = g"
proof -
  from assms frame_physical_base(1) have "unat (frame_number f) = unat (frame_number g)"
    by (metis mult_cancel2 zero_neq_numeral)
  then show ?thesis by (intro frame.expand) (simp add: word_unat_eq_iff)
qed

subsection \<open>Properties\<close>

lemma canonical_unat:
  assumes "canonical a"
  shows "unat a < 2 ^ 47 \<or> 2 ^ 64 - 2 ^ 47 \<le> unat a"
proof (cases "bit a 47")
  case False
  have "a = take_bit 47 a"
  proof (rule bit_word_eqI)
    fix n assume "n < LENGTH(64)"
    then show "bit a n = bit (take_bit 47 a) n"
      using assms False by (cases "n < 47"; cases "n = 47") (auto simp: bit_simps canonical_iff)
  qed
  then have "unat a < 2 ^ 47" by (metis take_bit_nat_less_exp unsigned_take_bit_eq)
  then show ?thesis ..
next
  case True
  have "NOT a = take_bit 47 (NOT a)"
  proof (rule bit_word_eqI)
    fix n assume "n < LENGTH(64)"
    then show "bit (NOT a) n = bit (take_bit 47 (NOT a)) n"
      using assms True by (cases "n < 47"; cases "n = 47") (auto simp: bit_simps canonical_iff)
  qed
  then have "unat (NOT a) < 2 ^ 47" by (metis take_bit_nat_less_exp unsigned_take_bit_eq)
  moreover have "unat (NOT a) = 2 ^ 64 - 1 - unat a"
  proof -
    have "NOT a = - 1 - a" by (simp add: not_eq_complement)
    then show ?thesis by (simp add: unat_sub unsigned_minus_1_eq_mask mask_eq_exp_minus_1)
  qed
  ultimately show ?thesis using unat_usize [of a] by (simp, linarith)
qed

lemma canonical_high:
  assumes "2 ^ 64 - 2 ^ 47 \<le> unat a"
  shows "canonical a"
proof -
  have n: "NOT a = - 1 - a" by (simp add: not_eq_complement)
  have "unat (NOT a) = 2 ^ 64 - 1 - unat a"
    unfolding n by (simp add: unat_sub unsigned_minus_1_eq_mask mask_eq_exp_minus_1)
  then have "unat (NOT a) < 2 ^ 47" using assms unat_usize [of a] by simp
  then have "take_bit 47 (NOT a) = NOT a"
    by (intro take_bit_word_id) (simp_all add: word_less_nat_alt)
  then have "\<not> bit (NOT a) n" if "47 \<le> n" for n using that by (metis bit_take_bit_iff leD)
  then have "bit a n" if "47 \<le> n" "n < 64" for n using that by (auto simp: bit_not_iff)
  then show ?thesis by (simp add: canonical_iff)
qed

lemma unat_l4_index: "unat (l4_index a) = unat a div 2 ^ 39 mod 512"
  by (simp add: index_defs unat_reads)

lemma domain_base_eqs:
  "Address_from_l4_index 506 = 0xFFFFFD0000000000" "Address_from_l4_index 507 = 0xFFFFFD8000000000"
  "Address_from_l4_index 508 = 0xFFFFFE0000000000" "Address_from_l4_index 509 = 0xFFFFFE8000000000"
  "Address_from_l4_index 510 = 0xFFFFFF0000000000"
  unfolding Address_from_l4_index_def index_shift_eqs by code_simp+

lemma upper_half_l4:
  fixes u :: nat
  assumes "2 ^ 64 - 2 ^ 47 \<le> u" "u < 2 ^ 64"
  shows "u div 2 ^ 39 = u div 2 ^ 39 mod 512 + 512 * 65535" "256 \<le> u div 2 ^ 39 mod 512"
proof -
  define q r where "q = u div 2 ^ 39" and "r = u mod 2 ^ 39"
  have "u = q * 2 ^ 39 + r" "r < 2 ^ 39" by (simp_all add: q_def r_def)
  with assms have "33554176 \<le> q" "q < 33554432" by simp_all
  then obtain k where k: "q = k + 512 * 65535" "256 \<le> k" "k < 512"
    by (intro that [of "q - 33553920"]) simp_all
  have "q mod 512 = k" using k(3) unfolding k(1) mod_mult_self2 by simp
  with k show "u div 2 ^ 39 = u div 2 ^ 39 mod 512 + 512 * 65535" "256 \<le> u div 2 ^ 39 mod 512"
    unfolding q_def [symmetric] by simp_all
qed

lemma l4_domain_arith:
  fixes u c :: nat
  assumes "2 ^ 64 - 2 ^ 47 \<le> u" "u < 2 ^ 64" "c < 512"
  shows "u div 2 ^ 39 mod 512 = c \<longleftrightarrow>
    (2 ^ 25 - 512 + c) * 2 ^ 39 \<le> u \<and> u < (2 ^ 25 - 512 + c) * 2 ^ 39 + 2 ^ 39"
proof -
  define r k where "r = u mod 2 ^ 39" and "k = u div 2 ^ 39 mod 512"
  have "u = (k + 512 * 65535) * 2 ^ 39 + r" "r < 2 ^ 39"
    using upper_half_l4(1) [OF assms(1,2)] unfolding k_def [symmetric] r_def
    by (metis div_mult_mod_eq, simp)
  then show ?thesis using assms(3) unfolding k_def [symmetric] by auto
qed

lemma domain_region_iff:
  assumes "canonical a" "256 \<le> c" "c < 512"
    and b: "unat b = (2 ^ 25 - 512 + c) * 2 ^ 39"
  shows "unat (l4_index a) = c \<longleftrightarrow> b \<le> a \<and> unat a < unat b + 2 ^ 39"
  using canonical_unat [OF assms(1)]
proof
  assume "unat a < 2 ^ 47"
  then have "unat a div 2 ^ 39 < 256" "unat a < unat b" using assms(2) by (simp_all add: b less_mult_imp_div_less)
  then show ?thesis using assms(2) by (simp add: unat_l4_index word_le_nat_alt)
next
  assume "2 ^ 64 - 2 ^ 47 \<le> unat a"
  then show ?thesis
    using l4_domain_arith [of "unat a" c] unat_usize [of a] assms(2,3)
    by (simp add: unat_l4_index word_le_nat_alt b)
qed

lemma Address_domain_iff:
  "Address_domain a = Physical \<longleftrightarrow> unat (l4_index a) \<le> 255"
  "Address_domain a = UserStack \<longleftrightarrow> unat (l4_index a) = 506"
  "Address_domain a = UserCode \<longleftrightarrow> unat (l4_index a) = 507"
  "Address_domain a = UserHeap \<longleftrightarrow> unat (l4_index a) = 508"
  "Address_domain a = KernelHeap \<longleftrightarrow> unat (l4_index a) = 509"
  "Address_domain a = KernelMapping \<longleftrightarrow> unat (l4_index a) = 510"
  by (auto simp: Address_domain_def Let_def l4_constants word_unat_eq_iff word_le_nat_alt)

text \<open>
  Splitting an address into page-table indices inverts building it. For indices below
  512, \<^verbatim>\<open>Address::from_table_indices\<close> yields a canonical, page-aligned address whose
  \<^verbatim>\<open>l4_index\<close> .. \<^verbatim>\<open>l1_index\<close> are the indices given.
\<close>

lemma table_indices_roundtrip:
  assumes "i4 < 512" "i3 < 512" "i2 < 512" "i1 < 512"
  shows "let a = Address_from_table_indices i4 i3 i2 i1 in
     l4_index a = i4 \<and> l3_index a = i3 \<and> l2_index a = i2 \<and> l1_index a = i1
    \<and> page_offset a = 0 \<and> canonical a"
proof -
  have "take_bit 9 i = i" if "i < 512" for i :: usize
    using that by (intro take_bit_word_id) simp_all
  with take_bit_9_indices [of i4 i3 i2 i1] assms show ?thesis
    by (simp add: Address_from_table_indices_def canonical_Address_new)
qed

lemma table_indices_roundtrip_witness:
  "l4_index (Address_from_table_indices 510 3 511 17) = 510
    \<and> l1_index (Address_from_table_indices 510 3 511 17) = 17"
  using table_indices_roundtrip [of 510 3 511 17] by (simp add: Let_def)

text \<open>
  \<^verbatim>\<open>Address::domain\<close> classifies every canonical address by the region it lies in.
  An address is classified \<^verbatim>\<open>Physical\<close> exactly when \<^verbatim>\<open>is_physical\<close> accepts it, and each of the
  five user and kernel domains is exactly the 512 GiB that start at its \<^verbatim>\<open>base_addr\<close>.
\<close>

lemma domain_regions:
  assumes "canonical a"
  shows "(Address_domain a = Physical \<longleftrightarrow> is_physical a) \<and>
    (d \<noteq> Physical \<and> d \<noteq> Invalid \<longrightarrow>
      (Address_domain a = d \<longleftrightarrow>
        AddressDomain_base_addr d \<le> a \<and> unat a < unat (AddressDomain_base_addr d) + 2 ^ 39))"
proof
  have "unat a div 2 ^ 39 mod 512 \<le> 255 \<longleftrightarrow> unat a < 2 ^ 47"
    using canonical_unat [OF assms]
  proof
    assume "2 ^ 64 - 2 ^ 47 \<le> unat a"
    then show ?thesis using upper_half_l4(2) [of "unat a"] unat_usize [of a] by simp
  qed (simp add: less_mult_imp_div_less mod_less_eq_dividend [THEN order_trans])
  then show "Address_domain a = Physical \<longleftrightarrow> is_physical a"
    by (simp add: Address_domain_iff is_physical_iff unat_l4_index)
next
  note r = domain_region_iff [OF assms] 
  show "d \<noteq> Physical \<and> d \<noteq> Invalid \<longrightarrow>
      (Address_domain a = d \<longleftrightarrow>
        AddressDomain_base_addr d \<le> a \<and> unat a < unat (AddressDomain_base_addr d) + 2 ^ 39)"
    using r [of 506 "0xFFFFFD0000000000"] r [of 507 "0xFFFFFD8000000000"]
     r [of 508 "0xFFFFFE0000000000"] r [of 509 "0xFFFFFE8000000000"] r [of 510 "0xFFFFFF0000000000"]
    by (cases d) (simp_all add: Address_domain_iff l4_constants domain_base_eqs)
qed

lemma domain_regions_witness:
  "Address_domain 0xFFFFFE0000001000 = UserHeap \<and> \<not> is_physical 0xFFFFFE0000001000"
proof -
  have "canonical 0xFFFFFE0000001000" by code_simp
  from domain_regions [OF this, of UserHeap] domain_regions [OF this, of Physical] show ?thesis
    by (simp add: l4_constants domain_base_eqs)
qed

text \<open>
  A page-table entry stores what \<^verbatim>\<open>set_frame\<close> is given. For a frame in physical memory and
  flags outside the address field and without \<^verbatim>\<open>HUGE_PAGE\<close>, the write does not panic, and the
  entry then reads back the same flags, the frame's base address and, when \<^verbatim>\<open>PRESENT\<close> is
  among the flags, the frame itself.
\<close>

lemma pte_set_frame_roundtrip:
  assumes "frame_physical f" "flags_ok flags" "\<not> flags_get flags HUGE_PAGE"
  shows "\<exists>v'. pte_set_frame v f flags = Some v' \<and> pte_flags v' = flags
    \<and> pte_addr v' = frame_base_addr f
    \<and> pte_frame v' = Some (if flags_get flags PRESENT then Inr f else Inl NotPresent)"
  using assms pte_frame_or [OF assms(1,2)]
  by (auto simp: pte_set_frame_ok pte_bits pte_frame_def pte_is_present_def)

lemma pte_set_frame_roundtrip_witness:
  "\<exists>v'. pte_set_frame 0 (Frame 0x300) (PRESENT OR WRITABLE) = Some v'
    \<and> pte_flags v' = PRESENT OR WRITABLE \<and> pte_frame v' = Some (Inr (Frame 0x300))"
proof -
  have h: "frame_physical (Frame 0x300)" "flags_ok (PRESENT OR WRITABLE)"
    "\<not> flags_get (PRESENT OR WRITABLE) HUGE_PAGE" "flags_get (PRESENT OR WRITABLE) PRESENT"
    by code_simp+
  from pte_set_frame_roundtrip [OF h(1,2,3), of 0] h(4) show ?thesis by auto
qed

end
