(* ===== verification/Paging.thy ===== *)
theory Paging
  imports Memory_Types
begin

section \<open>Four-level page tables (crates/memory-types/src/paging.rs)\<close>

text \<open>
  \<^verbatim>\<open>Level4PageTable\<close>: mapping a page, changing the flags of a range and translating an
  address. Page tables live in identity-mapped physical memory and are reached
  through raw pointers, so the model keeps a store from table addresses to their 512
  entries and an operation takes the address of the level 4 table. The frame
  allocator of the trait bound is an argument, used through the locale \<open>frame_source\<close>.
\<close>

subsection \<open>Tables in memory\<close>

type_synonym page_table = "usize \<Rightarrow> pte"
type_synonym table_store = "address \<Rightarrow> page_table"

datatype mapping_error = PageAlreadyMapped frame | FrameAllocationFailed | MappedToHugePage
datatype translation_error = NotMapped | TranslationHugePage | InvalidFrameAddress address

fun TranslationError_from :: "entry_frame_error \<Rightarrow> translation_error" where
  "TranslationError_from NotPresent = NotMapped"
| "TranslationError_from HugePage = TranslationHugePage"

record address_translation =
  at_frame :: frame
  at_offset :: usize
  at_flags :: pt_flags

definition PageTable_new :: page_table where
  "PageTable_new = (\<lambda>_. pte_new)"

definition PageTable_clear :: "table_store \<Rightarrow> address \<Rightarrow> table_store" where
  "PageTable_clear mem t = mem(t := (\<lambda>i. pte_set_unused (mem t i)))"

definition set_entry :: "table_store \<Rightarrow> address \<Rightarrow> usize \<Rightarrow> pte \<Rightarrow> table_store" where
  "set_entry mem t i e = mem(t := (mem t)(i := e))"

definition get_table :: "pte \<Rightarrow> (entry_frame_error + address) rust" where
  "get_table e = do {
     r \<leftarrow> pte_frame e;
     Some (case r of Inl err \<Rightarrow> Inl err | Inr f \<Rightarrow> Inr (frame_base_addr f))
   }"

subsection \<open>Mapping\<close>

definition next_table ::
    "('s \<Rightarrow> (frame option \<times> 's) rust) \<Rightarrow> address \<Rightarrow> usize \<Rightarrow> pt_flags \<Rightarrow> table_store \<times> 's
     \<Rightarrow> (mapping_error, address, table_store \<times> 's) outcome" where
  "next_table alloc t i flags = (\<lambda>(mem, s).
     let entry = mem t i; new = pte_is_unused entry in
     qbind
       (if new then do {
          (fo, s) \<leftarrow> alloc s;
          case fo of
            Some f \<Rightarrow> do { e \<leftarrow> pte_set_frame entry f flags; Some (Inr (), set_entry mem t i e, s) }
          | None \<Rightarrow> Some (Inl FrameAllocationFailed, mem, s)
        }
        else if flags \<noteq> NONE \<and> pte_flags entry AND flags \<noteq> flags
        then Some (Inr (), set_entry mem t i (pte_set_flags entry (pte_flags entry OR flags)), s)
        else Some (Inr (), mem, s))
       (\<lambda>_ (mem, s). do {
          r \<leftarrow> get_table (mem t i);
          case r of
            Inr tbl \<Rightarrow> Some (Inr tbl, if new then PageTable_clear mem tbl else mem, s)
          | Inl HugePage \<Rightarrow> Some (Inl MappedToHugePage, mem, s)
          | Inl NotPresent \<Rightarrow> panic
        }))"

definition parent_table_flags :: "pt_flags \<Rightarrow> pt_flags" where
  "parent_table_flags flags = flags AND (PRESENT OR WRITABLE OR USER_ACCESSIBLE)"

definition map_to ::
    "('s \<Rightarrow> (frame option \<times> 's) rust) \<Rightarrow> address \<Rightarrow> page \<Rightarrow> frame \<Rightarrow> pt_flags \<Rightarrow> table_store \<times> 's
     \<Rightarrow> (mapping_error, page, table_store \<times> 's) outcome" where
  "map_to alloc l4 page frame flags st =
     qbind (next_table alloc l4 (page_l4_index page) (parent_table_flags flags) st) (\<lambda>l3 st.
     qbind (next_table alloc l3 (page_l3_index page) (parent_table_flags flags) st) (\<lambda>l2 st.
     qbind (next_table alloc l2 (page_l2_index page) (parent_table_flags flags) st) (\<lambda>l1 (mem, s).
       if \<not> pte_is_unused (mem l1 (page_l1_index page))
       then Some (Inl (PageAlreadyMapped frame), mem, s)
       else do {
         e \<leftarrow> pte_set_frame (mem l1 (page_l1_index page)) frame flags;
         Some (Inr page, set_entry mem l1 (page_l1_index page) e, s)
       })))"

subsection \<open>Translation\<close>

definition get_table_t :: "pte \<Rightarrow> (translation_error + address) rust" where
  "get_table_t e = do {
     r \<leftarrow> get_table e;
     Some (case r of Inl err \<Rightarrow> Inl (TranslationError_from err) | Inr t \<Rightarrow> Inr t)
   }"

definition leaf_frame :: "pte \<Rightarrow> (translation_error + frame) rust" where
  "leaf_frame e = do {
     fo \<leftarrow> Frame_from_base_addr (pte_addr e);
     Some (case fo of Some f \<Rightarrow> Inr f | None \<Rightarrow> Inl (InvalidFrameAddress (pte_addr e)))
   }"

definition translate_page ::
    "table_store \<Rightarrow> address \<Rightarrow> page \<Rightarrow> (translation_error + frame) rust" where
  "translate_page mem l4 page = do {
     r3 \<leftarrow> get_table_t (mem l4 (page_l4_index page));
     case r3 of Inl e \<Rightarrow> Some (Inl e) | Inr l3 \<Rightarrow> do {
     r2 \<leftarrow> get_table_t (mem l3 (page_l3_index page));
     case r2 of Inl e \<Rightarrow> Some (Inl e) | Inr l2 \<Rightarrow> do {
     r1 \<leftarrow> get_table_t (mem l2 (page_l2_index page));
     case r1 of Inl e \<Rightarrow> Some (Inl e) | Inr l1 \<Rightarrow>
       let l1_entry = mem l1 (page_l1_index page) in
       if pte_is_unused l1_entry then Some (Inl NotMapped) else leaf_frame l1_entry }}}"

definition translate_addr ::
    "table_store \<Rightarrow> address \<Rightarrow> address \<Rightarrow> (translation_error + address_translation) rust" where
  "translate_addr mem l4 addr = do {
     r3 \<leftarrow> get_table_t (mem l4 (l4_index addr));
     case r3 of Inl e \<Rightarrow> Some (Inl e) | Inr l3 \<Rightarrow> do {
     r2 \<leftarrow> get_table_t (mem l3 (l3_index addr));
     case r2 of Inl e \<Rightarrow> Some (Inl e) | Inr l2 \<Rightarrow> do {
     r1 \<leftarrow> get_table_t (mem l2 (l2_index addr));
     case r1 of Inl e \<Rightarrow> Some (Inl e) | Inr l1 \<Rightarrow>
       let l1_entry = mem l1 (l1_index addr) in
       if pte_is_unused l1_entry then Some (Inl NotMapped)
       else do {
         r \<leftarrow> leaf_frame l1_entry;
         Some (case r of Inl e \<Rightarrow> Inl e
           | Inr f \<Rightarrow> Inr \<lparr> at_frame = f, at_offset = page_offset addr, at_flags = pte_flags l1_entry \<rparr>)
       } }}}"

subsection \<open>Changing flags\<close>

text \<open>The iterator is consumed \<^term>\<open>n\<close> more times, or until it is exhausted.\<close>

primrec skip_pages :: "nat \<Rightarrow> page list \<Rightarrow> page list" where
  "skip_pages 0 ps = ps"
| "skip_pages (Suc n) ps = (case ps of [] \<Rightarrow> [] | _ # ps \<Rightarrow> skip_pages n ps)"

lemma skip_pages_drop: "skip_pages n ps = drop n ps"
  by (induction n arbitrary: ps) (auto split: list.split)

text \<open>One iteration of the loop of \<^verbatim>\<open>set_flags\<close>: the state and the number of pages to skip.\<close>

definition set_flags_step ::
    "('s \<Rightarrow> (frame option \<times> 's) rust) \<Rightarrow> address \<Rightarrow> pt_flags \<Rightarrow> page \<Rightarrow> table_store \<times> 's
     \<Rightarrow> (mapping_error, nat, table_store \<times> 's) outcome" where
  "set_flags_step alloc l4 flags page st =
     qbind (next_table alloc l4 (page_l4_index page) (parent_table_flags flags) st) (\<lambda>l3 (mem, s).
       let e3 = mem l3 (page_l3_index page) in
       if pte_is_huge_page e3 then
         Some (Inr (unat PAGES_PER_L3_HUGE_PAGE),
           set_entry mem l3 (page_l3_index page) (pte_set_flags e3 (flags OR HUGE_PAGE)), s)
       else
     qbind (next_table alloc l3 (page_l3_index page) (parent_table_flags flags) (mem, s)) (\<lambda>l2 (mem, s).
       let e2 = mem l2 (page_l2_index page) in
       if pte_is_huge_page e2 then
         Some (Inr (unat PAGES_PER_L2_HUGE_PAGE),
           set_entry mem l2 (page_l2_index page) (pte_set_flags e2 (flags OR HUGE_PAGE)), s)
       else
     qbind (next_table alloc l2 (page_l2_index page) (parent_table_flags flags) (mem, s)) (\<lambda>l1 (mem, s).
       let e1 = mem l1 (page_l1_index page) in
       if \<not> pte_is_unused e1
       then Some (Inr 0, set_entry mem l1 (page_l1_index page) (pte_set_flags e1 flags), s)
       else Some (Inr 0, mem, s))))"

function set_flags_pages ::
    "('s \<Rightarrow> (frame option \<times> 's) rust) \<Rightarrow> address \<Rightarrow> pt_flags \<Rightarrow> page list \<Rightarrow> table_store \<times> 's
     \<Rightarrow> (mapping_error, unit, table_store \<times> 's) outcome" where
  "set_flags_pages alloc l4 flags [] st = Some (Inr (), st)"
| "set_flags_pages alloc l4 flags (page # ps) st =
     qbind (set_flags_step alloc l4 flags page st)
       (\<lambda>n st. set_flags_pages alloc l4 flags (skip_pages n ps) st)"
  by pat_completeness auto
termination
  by (relation "measure (\<lambda>(_, _, _, ps, _). length ps)") (auto simp: skip_pages_drop less_Suc_eq_le)

definition Level4_set_flags ::
    "('s \<Rightarrow> (frame option \<times> 's) rust) \<Rightarrow> address \<Rightarrow> page_range \<Rightarrow> pt_flags \<Rightarrow> table_store \<times> 's
     \<Rightarrow> (mapping_error, unit, table_store \<times> 's) outcome" where
  "Level4_set_flags alloc l4 pages flags st =
     set_flags_pages alloc l4 flags (PageRange_pages pages) st"

subsection \<open>The tree of tables\<close>

text \<open>
  The tables reached from a root that has \<open>d\<close> levels below it, and the
  well-formedness of the tree: every entry of an inner table is unused or present and points into
  physical memory, and no table is reached twice.
\<close>

definition child :: "table_store \<Rightarrow> address \<Rightarrow> usize \<Rightarrow> address option" where
  "child mem t i = (case get_table (mem t i) of Some (Inr c) \<Rightarrow> Some c | _ \<Rightarrow> None)"

definition entry_ok :: "pte \<Rightarrow> bool" where
  "entry_ok e \<longleftrightarrow> pte_is_unused e \<or>
     pte_is_present e \<and> (\<exists>f. frame_physical f \<and> pte_addr e = frame_base_addr f)"

fun tables :: "table_store \<Rightarrow> nat \<Rightarrow> address \<Rightarrow> address set" where
  "tables mem 0 t = {t}"
| "tables mem (Suc d) t =
     insert t (\<Union>i \<in> {i. i < 512}. \<Union>c \<in> set_option (child mem t i). tables mem d c)"

fun wf_tables :: "table_store \<Rightarrow> nat \<Rightarrow> address \<Rightarrow> bool" where
  "wf_tables mem 0 t \<longleftrightarrow> True"
| "wf_tables mem (Suc d) t \<longleftrightarrow>
     (\<forall>i < 512. entry_ok (mem t i)) \<and>
     (\<forall>i < 512. \<forall>c. child mem t i = Some c \<longrightarrow> wf_tables mem d c \<and> t \<notin> tables mem d c) \<and>
     (\<forall>i < 512. \<forall>j < 512. \<forall>c c'. i \<noteq> j \<longrightarrow> child mem t i = Some c \<longrightarrow> child mem t j = Some c' \<longrightarrow>
        tables mem d c \<inter> tables mem d c' = {})"

text \<open>The leaf entry a list of indices leads to.\<close>

fun lookup :: "table_store \<Rightarrow> address \<Rightarrow> usize list \<Rightarrow> (translation_error + pte) rust" where
  "lookup mem t [] = Some (Inl NotMapped)"
| "lookup mem t [i] = Some (if pte_is_unused (mem t i) then Inl NotMapped else Inr (mem t i))"
| "lookup mem t (i # p) = do {
     r \<leftarrow> get_table_t (mem t i);
     case r of Inl e \<Rightarrow> Some (Inl e) | Inr c \<Rightarrow> lookup mem c p }"

definition page_path :: "page \<Rightarrow> usize list" where
  "page_path p = [page_l4_index p, page_l3_index p, page_l2_index p, page_l1_index p]"

definition table_path :: "nat \<Rightarrow> usize list \<Rightarrow> bool" where
  "table_path d p \<longleftrightarrow> length p = Suc d \<and> (\<forall>i \<in> set p. i < 512)"

lemma table_path_Suc:
  "table_path (Suc d) p \<longleftrightarrow> (\<exists>i q. p = i # q \<and> i < 512 \<and> table_path d q)"
  by (cases p) (auto simp: table_path_def)

lemma table_path_0: "table_path 0 p \<longleftrightarrow> (\<exists>i. p = [i] \<and> i < 512)"
  by (cases p) (auto simp: table_path_def)

lemma page_index_less:
  "page_l4_index p < 512" "page_l3_index p < 512" "page_l2_index p < 512" "page_l1_index p < 512"
  using index_less [of "page_base_addr p"]
  by (simp_all add: page_l4_index_def page_l3_index_def page_l2_index_def page_l1_index_def
      word_less_nat_alt)

lemma table_path_page: "table_path 3 (page_path p)"
  by (simp add: table_path_def page_path_def page_index_less)

lemma lookup_Cons:
  "p \<noteq> [] \<Longrightarrow> lookup mem t (i # p) = do {
     r \<leftarrow> get_table_t (mem t i);
     case r of Inl e \<Rightarrow> Some (Inl e) | Inr c \<Rightarrow> lookup mem c p }"
  by (cases p) simp_all

lemma lookup_child:
  "p \<noteq> [] \<Longrightarrow> child mem t i = Some c \<Longrightarrow> lookup mem t (i # p) = lookup mem c p"
  by (simp add: lookup_Cons get_table_t_def child_def split: option.splits sum.splits)

lemma table_path_nonempty: "table_path d p \<Longrightarrow> p \<noteq> []"
  by (auto simp: table_path_def)

lemma translate_page_lookup:
  "translate_page mem l4 page = do {
     r \<leftarrow> lookup mem l4 (page_path page);
     case r of Inl e \<Rightarrow> Some (Inl e) | Inr e \<Rightarrow> leaf_frame e }"
  by (auto simp: translate_page_def page_path_def Let_def split: Option.bind_split sum.split)

lemma root_in_tables [simp]: "t \<in> tables mem d t"
  by (cases d) auto

lemma tables_child: "i < 512 \<Longrightarrow> child mem t i = Some c \<Longrightarrow> tables mem d c \<subseteq> tables mem (Suc d) t"
  by force

lemma child_cong: "mem' t i = mem t i \<Longrightarrow> child mem' t i = child mem t i"
  by (simp add: child_def)

lemma tables_frame:
  assumes "\<forall>a \<in> tables mem d t. mem' a = mem a"
  shows "tables mem' d t = tables mem d t"
  using assms
proof (induction d arbitrary: t)
  case (Suc d)
  have c: "child mem' t i = child mem t i" for i using Suc.prems by (simp add: child_def)
  have "tables mem' d x = tables mem d x" if "i < 512" "child mem t i = Some x" for i x
    using Suc.prems tables_child [OF that] by (intro Suc.IH) blast
  then show ?case by (auto simp: c)
qed simp

lemma wf_tables_frame:
  assumes "\<forall>a \<in> tables mem d t. mem' a = mem a"
  shows "wf_tables mem' d t = wf_tables mem d t"
  using assms
proof (induction d arbitrary: t)
  case (Suc d)
  have c: "mem' t = mem t" "child mem' t i = child mem t i" for i
    using Suc.prems by (simp_all add: child_def)
  have s: "\<forall>a \<in> tables mem d x. mem' a = mem a" if "i < 512" "child mem t i = Some x" for i x
    using Suc.prems tables_child [OF that] by blast
  from Suc.IH [OF s] tables_frame [OF s] show ?case by (simp add: c)
qed simp

lemma lookup_frame:
  assumes "\<forall>a \<in> tables mem d t. mem' a = mem a" and "table_path d p"
  shows "lookup mem' t p = lookup mem t p"
  using assms
proof (induction d arbitrary: t p)
  case 0
  then show ?case by (auto simp: table_path_0)
next
  case (Suc d)
  from Suc.prems(2) obtain i q where p: "p = i # q" "i < 512" "table_path d q"
    by (auto simp: table_path_Suc)
  have e: "mem' t = mem t" using Suc.prems(1) by simp
  have "lookup mem' c q = lookup mem c q" if "child mem t i = Some c" for c
    using Suc.prems(1) tables_child [OF p(2) that] by (intro Suc.IH p(3)) blast
  then show ?case
    using table_path_nonempty [OF p(3)] 
    by (auto simp: p(1) lookup_Cons e get_table_t_def child_def split: Option.bind_split sum.split)
qed

lemma empty_table:
  assumes "mem t = (\<lambda>_. 0)"
  shows "tables mem d t = {t}" "wf_tables mem d t" "lookup mem t p = Some (Inl NotMapped)"
proof -
  have g: "get_table 0 = Some (Inl NotPresent)" by code_simp
  then have c: "child mem t i = None" for i using assms by (simp add: child_def)
  then show "tables mem d t = {t}" by (cases d) simp_all
  show "wf_tables mem d t"
    using assms c by (cases d) (simp_all add: entry_ok_def pte_is_unused_def)
  show "lookup mem t p = Some (Inl NotMapped)"
    using assms g by (cases "(mem, t, p)" rule: lookup.cases)
      (simp_all add: pte_is_unused_def get_table_t_def)
qed

subsection \<open>Changes confined to a tree\<close>

text \<open>
  \<open>evolves d t mem F mem' F'\<close>: an operation on the tree at \<open>t\<close> turned the store \<open>mem\<close>
  and the free frames \<open>F\<close> into \<open>mem'\<close> and \<open>F'\<close>, changing only tables of the tree and
  frames it took, and left a well-formed tree.
\<close>

definition evolves ::
    "nat \<Rightarrow> address \<Rightarrow> table_store \<Rightarrow> frame set \<Rightarrow> table_store \<Rightarrow> frame set \<Rightarrow> bool" where
  "evolves d t mem F mem' F' \<longleftrightarrow>
     F' \<subseteq> F \<and> wf_tables mem' d t \<and>
     tables mem' d t \<subseteq> tables mem d t \<union> frame_base_addr ` (F - F') \<and>
     (\<forall>a. a \<notin> tables mem d t \<union> frame_base_addr ` (F - F') \<longrightarrow> mem' a = mem a)"

definition avoids :: "frame set \<Rightarrow> table_store \<Rightarrow> nat \<Rightarrow> address \<Rightarrow> bool" where
  "avoids F mem d t \<longleftrightarrow> (\<forall>f \<in> F. frame_physical f \<and> frame_base_addr f \<notin> tables mem d t)"

lemma avoids_evolves:
  assumes "avoids F mem d t" "evolves d t mem F mem' F'"
  shows "avoids F' mem' d t"
  using assms frame_base_addr_inj unfolding avoids_def evolves_def by blast

lemma evolves_refl: "wf_tables mem d t \<Longrightarrow> evolves d t mem F mem F"
  by (simp add: evolves_def)

lemma evolves_trans:
  assumes "evolves d t mem F mem1 F1" "evolves d t mem1 F1 mem2 F2"
  shows "evolves d t mem F mem2 F2"
proof -
  have "F - F2 = (F - F1) \<union> (F1 - F2)" using assms by (auto simp: evolves_def)
  then show ?thesis using assms unfolding evolves_def by (auto simp: image_Un)
qed

lemma graft:
  assumes wf: "wf_tables mem (Suc d) t" and i: "i < 512" "child mem t i = Some c"
    and av: "avoids F mem (Suc d) t" and ev: "evolves d c mem F mem' F'"
  shows "evolves (Suc d) t mem F mem' F'" "mem' t = mem t"
    and "j < 512 \<Longrightarrow> j \<noteq> i \<Longrightarrow> table_path d p \<Longrightarrow> lookup mem' t (j # p) = lookup mem t (j # p)"
proof -
  let ?N = "frame_base_addr ` (F - F')"
  have t: "t \<notin> tables mem d c" "t \<notin> ?N"
    using wf i av by (auto simp: avoids_def)
  then show mt: "mem' t = mem t" using ev by (simp add: evolves_def)
  then have ch: "child mem' t j = child mem t j" for j by (simp add: child_def)
  have tc: "tables mem' d c \<subseteq> tables mem d c \<union> ?N" using ev by (simp add: evolves_def)
  have sib: "\<forall>a \<in> tables mem d x. mem' a = mem a" "tables mem d x \<inter> (tables mem d c \<union> ?N) = {}"
    if j: "j < 512" "j \<noteq> i" "child mem t j = Some x" for j x
  proof -
    have "tables mem d x \<inter> tables mem d c = {}" using wf i j by simp
    moreover have "tables mem d x \<inter> ?N = {}"
      using av tables_child [OF j(1,3), of d] by (auto simp: avoids_def)
    ultimately show "tables mem d x \<inter> (tables mem d c \<union> ?N) = {}" by blast
    then show "\<forall>a \<in> tables mem d x. mem' a = mem a" using ev by (auto simp: evolves_def)
  qed
  have tx: "tables mem' d x = tables mem d x" "wf_tables mem' d x = wf_tables mem d x"
    if "j < 512" "j \<noteq> i" "child mem t j = Some x" for j x
    using tables_frame [OF sib(1)] wf_tables_frame [OF sib(1)] that by blast+
  have "wf_tables mem' (Suc d) t"
    unfolding wf_tables.simps
  proof (intro conjI allI impI)
    fix j :: usize assume "j < 512"
    then show "entry_ok (mem' t j)" using wf by (simp add: mt)
  next
    fix j x assume "j < (512 :: usize)" "child mem' t j = Some x"
    then show "wf_tables mem' d x" "t \<notin> tables mem' d x"
      using tx [of j x] wf i ev t tc by (cases "j = i"; auto simp: ch evolves_def)+
  next
    fix j k x y assume jk: "j < (512 :: usize)" "k < (512 :: usize)" "j \<noteq> k"
      "child mem' t j = Some x" "child mem' t k = Some y"
    consider "j = i" | "k = i" | "j \<noteq> i" "k \<noteq> i" by blast
    then show "tables mem' d x \<inter> tables mem' d y = {}"
    proof cases
      case 1
      then show ?thesis using jk i tx(1) [of k y] sib(2) [of k y] tc by (auto simp: ch)
    next
      case 2
      then show ?thesis using jk i tx(1) [of j x] sib(2) [of j x] tc by (auto simp: ch)
    next
      case 3
      then show ?thesis using jk wf tx(1) [of j x] tx(1) [of k y] by (simp add: ch)
    qed
  qed
  moreover have "tables mem' (Suc d) t \<subseteq> tables mem (Suc d) t \<union> ?N"
  proof
    fix a assume "a \<in> tables mem' (Suc d) t"
    then consider "a = t" | j x where "j < 512" "child mem t j = Some x" "a \<in> tables mem' d x"
      by (auto simp: ch)
    then show "a \<in> tables mem (Suc d) t \<union> ?N"
    proof cases
      case (2 j x)
      then show ?thesis
        using tx(1) [of j x] tc i tables_child [of j mem t x d] by (cases "j = i") auto
    qed simp
  qed
  ultimately show "evolves (Suc d) t mem F mem' F'"
    using ev tables_child [OF i, of d]
    by (auto simp: evolves_def simp del: tables.simps wf_tables.simps)
  show "lookup mem' t (j # p) = lookup mem t (j # p)"
    if j: "j < 512" "j \<noteq> i" "table_path d p"
  proof -
    have "lookup mem' x p = lookup mem x p" if "child mem t j = Some x" for x
      using lookup_frame [OF sib(1) j(3)] j that by blast
    then show ?thesis
      using table_path_nonempty [OF j(3)]
      by (auto simp: lookup_Cons mt get_table_t_def child_def split: Option.bind_split sum.split)
  qed
qed

text \<open>Rewriting an entry without changing where it leads.\<close>

lemma same_target:
  assumes wf: "wf_tables mem (Suc d) t" and e: "get_table e = get_table (mem t i)" "entry_ok e"
  defines "mem' \<equiv> set_entry mem t i e"
  shows "evolves (Suc d) t mem F mem' F" "child mem' t j = child mem t j"
    and "table_path (Suc d) p \<Longrightarrow> lookup mem' t p = lookup mem t p"
    and "j < 512 \<Longrightarrow> child mem t j = Some c \<Longrightarrow> \<forall>a \<in> tables mem d c. mem' a = mem a"
    and "j < 512 \<Longrightarrow> child mem t j = Some c \<Longrightarrow> tables mem' d c = tables mem d c"
proof -
  have o: "mem' a = mem a" if "a \<noteq> t" for a using that by (simp add: mem'_def set_entry_def)
  show ch: "child mem' t j = child mem t j" for j
    using e(1) by (simp add: child_def mem'_def set_entry_def)
  show fr: "\<forall>a \<in> tables mem d c. mem' a = mem a" if "j < 512" "child mem t j = Some c" for j c
    using wf that by (auto intro!: o)
  show tx: "tables mem' d c = tables mem d c" if "j < 512" "child mem t j = Some c" for j c
    by (rule tables_frame [OF fr [OF that]])
  have wx: "wf_tables mem' d c = wf_tables mem d c" if "j < 512" "child mem t j = Some c" for j c
    by (rule wf_tables_frame [OF fr [OF that]])
  have "entry_ok (mem' t j)" if "j < 512" for j
    using that wf e(2) by (simp add: mem'_def set_entry_def)
  then have "wf_tables mem' (Suc d) t"
    using wf by (simp add: ch tx wx)
  moreover have "tables mem' (Suc d) t = tables mem (Suc d) t"
    by (auto simp: ch tx)
  ultimately show "evolves (Suc d) t mem F mem' F"
    by (auto simp: evolves_def intro!: o)
  show "lookup mem' t p = lookup mem t p" if "table_path (Suc d) p"
  proof -
    from that obtain j q where p: "p = j # q" "j < 512" "table_path d q"
      by (auto simp: table_path_Suc)
    have "lookup mem' x q = lookup mem x q" if "child mem t j = Some x" for x
      by (rule lookup_frame [OF fr [OF p(2) that] p(3)])
    moreover have "get_table (mem' t j) = get_table (mem t j)"
      using e(1) by (simp add: mem'_def set_entry_def)
    ultimately show ?thesis
      using table_path_nonempty [OF p(3)]
      by (auto simp: p(1) lookup_Cons get_table_t_def child_def split: Option.bind_split sum.split)
  qed
qed

subsection \<open>One level of the walk\<close>

definition table_flags :: "pt_flags \<Rightarrow> bool" where
  "table_flags pf \<longleftrightarrow> flags_ok pf \<and> flags_get pf PRESENT \<and> \<not> flags_get pf HUGE_PAGE"

lemma flag_bits:
  "flags_get f PRESENT \<longleftrightarrow> bit f 0" "flags_get f HUGE_PAGE \<longleftrightarrow> bit f 7"
  by (simp_all add: PRESENT_def HUGE_PAGE_def flags_get_bit)

lemma parent_table_flags_ok:
  "flags_get flags PRESENT \<Longrightarrow> table_flags (parent_table_flags flags)"
proof -
  assume p: "flags_get flags PRESENT"
  have "PRESENT OR WRITABLE OR USER_ACCESSIBLE = (7 :: usize)" by code_simp
  also have "\<dots> = mask 3" by (simp add: mask_eq_exp_minus_1)
  finally have b: "bit (parent_table_flags flags) n \<longleftrightarrow> bit flags n \<and> n < 3" for n
    by (simp only: parent_table_flags_def bit_and_iff bit_mask_iff) auto
  then have "flags_ok (parent_table_flags flags)"
    by (auto simp: flags_ok_def bit_eq_iff bit_simps bit_ADDRESS_MASK)
  then show ?thesis using p by (simp add: table_flags_def flag_bits b)
qed

lemma add_flags_same_target:
  assumes e: "entry_ok e" "\<not> pte_is_unused e" and pf: "table_flags pf"
  defines "e' \<equiv> pte_set_flags e (pte_flags e OR pf)"
  shows "get_table e' = get_table e" "entry_ok e'"
proof -
  from e obtain f where f: "frame_physical f" "pte_addr e = frame_base_addr f"
    and p: "pte_is_present e" by (auto simp: entry_ok_def)
  have fo: "flags_ok (pte_flags e OR pf)"
    using pf by (simp add: flags_ok_or flags_ok_pte table_flags_def)
  note a = pte_addr_set_flags [OF fo f(2,1), folded e'_def]
  have pr: "pte_is_present e'" and "pte_is_huge_page e' = pte_is_huge_page e"
    using p pf by (simp_all add: pte_is_present_def pte_is_huge_page_def a flag_bits table_flags_def bit_or_iff)
  then show "get_table e' = get_table e" using p by (simp add: get_table_def pte_frame_def a)
  show "entry_ok e'" using pr a(1) f by (auto simp: entry_ok_def)
qed

lemma get_table_used:
  assumes "entry_ok e" "\<not> pte_is_unused e"
  obtains "get_table e = Some (Inl HugePage)" | c where "get_table e = Some (Inr c)"
proof -
  from assms obtain f where "frame_physical f" "pte_addr e = frame_base_addr f" "pte_is_present e"
    by (auto simp: entry_ok_def)
  then show thesis
    by (cases "pte_is_huge_page e") (auto simp: get_table_def pte_frame_def Frame_containing_base
        intro: that)
qed

text \<open>A fresh table linked into the tree.\<close>

lemma link_table:
  assumes wf: "wf_tables mem (Suc d) t" and i: "i < 512" "pte_is_unused (mem t i)"
    and f: "f \<in> F" and av: "avoids F mem (Suc d) t" and pf: "table_flags pf"
  defines "mem' \<equiv> PageTable_clear (set_entry mem t i (frame_base_addr f OR pf)) (frame_base_addr f)"
  shows "evolves (Suc d) t mem F mem' (F - {f})" "child mem' t i = Some (frame_base_addr f)"
    and "table_path (Suc d) p \<Longrightarrow> lookup mem' t p = lookup mem t p"
proof -
  let ?b = "frame_base_addr f"
  have fp: "frame_physical f" and bt: "?b \<notin> tables mem (Suc d) t" using f av by (auto simp: avoids_def)
  then have bne: "?b \<noteq> t" by auto
  note m = mem'_def PageTable_clear_def set_entry_def pte_set_unused_def
  have mt: "mem' t = (mem t)(i := ?b OR pf)" and mb: "mem' ?b = (\<lambda>_. 0)"
    using bne by (auto simp: m)
  have mo: "mem' a = mem a" if "a \<noteq> t" "a \<noteq> ?b" for a
    using that by (simp add: m)
  have g: "get_table (?b OR pf) = Some (Inr ?b)"
    using pf fp by (simp add: get_table_def table_flags_def pte_frame_or)
  show ci: "child mem' t i = Some ?b" by (simp add: child_def mt g)
  have "get_table 0 = Some (Inl NotPresent)" by code_simp
  then have g0: "get_table (mem t i) = Some (Inl NotPresent)" using i(2) by (simp add: pte_is_unused_def)
  have ch: "child mem' t j = child mem t j" if "j \<noteq> i" for j using that by (simp add: child_def mt)
  have cn: "child mem t i = None" by (simp add: child_def g0)
  have eb: "tables mem' d ?b = {?b}" "wf_tables mem' d ?b"
    "lookup mem' ?b q = Some (Inl NotMapped)" for q
    by (rule empty_table [of mem' ?b, OF mb])+
  have fr: "\<forall>a \<in> tables mem d x. mem' a = mem a" if "j < 512" "child mem t j = Some x" for j x
    using wf that bt tables_child [OF that, of d] by (auto intro!: mo)
  note tx = tables_frame [OF fr] and wx = wf_tables_frame [OF fr] 
  have ok: "entry_ok (?b OR pf)"
    using pf fp by (auto simp: entry_ok_def pte_is_present_def table_flags_def pte_bits)
  have nb: "?b \<notin> tables mem d x" if "j < 512" "child mem t j = Some x" for j x
    using bt tables_child [OF that, of d] by blast
  have "wf_tables mem' (Suc d) t"
    unfolding wf_tables.simps
  proof (intro conjI allI impI)
    fix j :: usize assume "j < 512"
    then show "entry_ok (mem' t j)" using wf ok by (simp add: mt)
  next
    fix j x assume "j < (512 :: usize)" "child mem' t j = Some x"
    then show "wf_tables mem' d x" "t \<notin> tables mem' d x"
      using wf tx [of j x] wx [of j x] eb bne ci by (cases "j = i"; auto simp: ch)+
  next
    fix j k x y assume "j < (512 :: usize)" "k < (512 :: usize)" "j \<noteq> k"
      "child mem' t j = Some x" "child mem' t k = Some y"
    then show "tables mem' d x \<inter> tables mem' d y = {}"
      using wf tx [of j x] tx [of k y] nb [of j x] nb [of k y] eb(1) ci
      by (cases "j = i"; cases "k = i"; auto simp: ch)
  qed
  moreover have "tables mem' (Suc d) t \<subseteq> insert ?b (tables mem (Suc d) t)"
  proof
    fix a assume "a \<in> tables mem' (Suc d) t"
    then consider "a = t" | j x where "j < 512" "child mem' t j = Some x" "a \<in> tables mem' d x" by auto
    then show "a \<in> insert ?b (tables mem (Suc d) t)"
    proof cases
      case (2 j x)
      then show ?thesis
        using tx [of j x] eb(1) ci tables_child [of j mem t x d]
        by (cases "j = i") (auto simp: ch simp del: tables.simps)
    qed simp
  qed
  moreover have "F - (F - {f}) = {f}" using f by blast
  moreover have "mem' a = mem a" if "a \<notin> tables mem (Suc d) t \<union> {?b}" for a
    using that by (intro mo) auto
  ultimately show "evolves (Suc d) t mem F mem' (F - {f})"
    by (auto simp: evolves_def simp del: tables.simps wf_tables.simps)
  show "lookup mem' t p = lookup mem t p" if "table_path (Suc d) p"
  proof -
    from that obtain j q where p: "p = j # q" "j < 512" "table_path d q"
      by (auto simp: table_path_Suc)
    note ne = table_path_nonempty [OF p(3)]
    show ?thesis
    proof (cases "j = i")
      case True
      then show ?thesis
        using ne eb(3) by (simp add: p(1) lookup_child [OF _ ci]) (simp add: lookup_Cons get_table_t_def g0)
    next
      case False
      have "lookup mem' x q = lookup mem x q" if "child mem t j = Some x" for x
        by (rule lookup_frame [OF fr [OF p(2) that] p(3)])
      then show ?thesis
        using False ne
        by (auto simp: p(1) lookup_Cons mt get_table_t_def child_def split: Option.bind_split sum.split)
    qed
  qed
qed

text \<open>The walk of \<^verbatim>\<open>map_to\<close> as a recursion over the indices.\<close>

fun map_path ::
    "('s \<Rightarrow> (frame option \<times> 's) rust) \<Rightarrow> page \<Rightarrow> frame \<Rightarrow> pt_flags \<Rightarrow> address \<Rightarrow> usize list
     \<Rightarrow> table_store \<times> 's \<Rightarrow> (mapping_error, page, table_store \<times> 's) outcome" where
  "map_path alloc page frame flags t [] st = Some (Inr page, st)"
| "map_path alloc page frame flags t [i] (mem, s) =
     (if \<not> pte_is_unused (mem t i) then Some (Inl (PageAlreadyMapped frame), mem, s)
      else do { e \<leftarrow> pte_set_frame (mem t i) frame flags; Some (Inr page, set_entry mem t i e, s) })"
| "map_path alloc page frame flags t (i # p) st =
     qbind (next_table alloc t i (parent_table_flags flags) st)
       (\<lambda>c st. map_path alloc page frame flags c p st)"

lemma map_to_path:
  "map_to alloc l4 page frame flags st = map_path alloc page frame flags l4 (page_path page) st"
  by (simp add: map_to_def page_path_def split_def qbind_def split: option.split sum.split)

lemma map_path_Cons:
  "p \<noteq> [] \<Longrightarrow> map_path alloc page frame flags t (i # p) st =
     qbind (next_table alloc t i (parent_table_flags flags) st)
       (\<lambda>c st. map_path alloc page frame flags c p st)"
  by (cases p) simp_all

definition page_flags :: "pt_flags \<Rightarrow> bool" where
  "page_flags flags \<longleftrightarrow> flags_ok flags \<and> flags_get flags PRESENT \<and> \<not> flags_get flags HUGE_PAGE"

definition map_outcome ::
    "nat \<Rightarrow> page \<Rightarrow> frame \<Rightarrow> frame set \<Rightarrow> (translation_error + pte) rust \<Rightarrow> mapping_error + page \<Rightarrow> bool" where
  "map_outcome d page frame F before r \<longleftrightarrow>
     (case before of
        Some (Inl NotMapped) \<Rightarrow>
          r = Inr page \<or> r = Inl FrameAllocationFailed \<and> finite F \<and> card F < d
      | Some (Inl TranslationHugePage) \<Rightarrow> r = Inl MappedToHugePage
      | Some (Inr _) \<Rightarrow> r = Inl (PageAlreadyMapped frame)
      | _ \<Rightarrow> False)"

context frame_source
begin

lemma next_table_spec:
  assumes ok: "ok s" and wf: "wf_tables mem (Suc d) t" and i: "i < 512"
    and av: "avoids (free s) mem (Suc d) t" and pf: "table_flags pf"
  obtains (failed) "next_table alloc t i pf (mem, s) = Some (Inl FrameAllocationFailed, mem, s)"
      "free s = {}" "get_table (mem t i) = Some (Inl NotPresent)"
  | (huge) mem' where "next_table alloc t i pf (mem, s) = Some (Inl MappedToHugePage, mem', s)"
      "get_table (mem t i) = Some (Inl HugePage)" "evolves (Suc d) t mem (free s) mem' (free s)"
      "\<forall>p. table_path (Suc d) p \<longrightarrow> lookup mem' t p = lookup mem t p"
  | (got) c mem' s' where "next_table alloc t i pf (mem, s) = Some (Inr c, mem', s')" "ok s'"
      "child mem' t i = Some c" "evolves (Suc d) t mem (free s) mem' (free s')"
      "\<forall>p. table_path (Suc d) p \<longrightarrow> lookup mem' t p = lookup mem t p"
      "finite (free s') \<Longrightarrow> finite (free s) \<and> card (free s) \<le> Suc (card (free s'))"
proof (cases "pte_is_unused (mem t i)")
  case True
  then have g: "get_table (mem t i) = Some (Inl NotPresent)"
    unfolding pte_is_unused_def by (simp only:) code_simp
  show ?thesis
  proof (cases "free s = {}")
    case empty: True
    then show ?thesis
      using True alloc_empty [OF ok empty] g by (intro failed) (simp_all add: next_table_def)
  next
    case False
    obtain f s' where a: "alloc s = Some (Some f, s')" "f \<in> free s" "free s' = free s - {f}" "ok s'"
      using alloc_free [OF ok False] by blast
    have fp: "frame_physical f" using free_physical [OF ok a(2)] .
    note l = link_table [OF wf i True a(2) av pf]
    have "get_table (frame_base_addr f OR pf) = Some (Inr (frame_base_addr f))"
      using pf fp by (simp add: get_table_def table_flags_def pte_frame_or)
    then have n: "next_table alloc t i pf (mem, s) = Some (Inr (frame_base_addr f),
        PageTable_clear (set_entry mem t i (frame_base_addr f OR pf)) (frame_base_addr f), s')"
      using True a(1) pf fp
      by (simp add: next_table_def pte_set_frame_ok table_flags_def set_entry_def)
    show ?thesis
      by (rule got [OF n a(4) l(2)]) (use l(1,3) a(2) in \<open>auto simp: a(3) card_Diff_singleton_if\<close>)
  qed
next
  case False
  have e: "entry_ok (mem t i)" using wf i by simp
  define mem' where "mem' = (if pf \<noteq> NONE \<and> pte_flags (mem t i) AND pf \<noteq> pf
     then set_entry mem t i (pte_set_flags (mem t i) (pte_flags (mem t i) OR pf)) else mem)"
  note st = same_target [OF wf add_flags_same_target [OF e False pf]]
  have ev: "evolves (Suc d) t mem (free s) mem' (free s)"
    and ch: "child mem' t i = child mem t i"
    and lk: "\<forall>p. table_path (Suc d) p \<longrightarrow> lookup mem' t p = lookup mem t p"
    and g: "get_table (mem' t i) = get_table (mem t i)"
    using st(1) [of "free s"] st(2,3) evolves_refl [OF wf] add_flags_same_target(1) [OF e False pf]
    by (simp_all add: mem'_def set_entry_def)
  have n: "next_table alloc t i pf (mem, s) = (case get_table (mem t i) of None \<Rightarrow> None
     | Some (Inr c) \<Rightarrow> Some (Inr c, mem', s) | Some (Inl HugePage) \<Rightarrow> Some (Inl MappedToHugePage, mem', s)
     | Some (Inl NotPresent) \<Rightarrow> None)"
  proof -
    have x: "(if pf \<noteq> NONE \<and> pte_flags (mem t i) AND pf \<noteq> pf
        then Some (Inr (), set_entry mem t i (pte_set_flags (mem t i) (pte_flags (mem t i) OR pf)), s)
        else Some (Inr (), mem, s)) = Some (Inr (), mem', s)" by (simp add: mem'_def)
    have "next_table alloc t i pf (mem, s) = qbind (Some (Inr (), mem', s)) (\<lambda>_ (mem, s). do {
          r \<leftarrow> get_table (mem t i);
          case r of Inr tbl \<Rightarrow> Some (Inr tbl, mem, s)
          | Inl HugePage \<Rightarrow> Some (Inl MappedToHugePage, mem, s) | Inl NotPresent \<Rightarrow> panic })"
      unfolding next_table_def Let_def split x [symmetric] using False by simp
    then show ?thesis
      by (simp add: g split: option.split sum.split entry_frame_error.split)
  qed
  show ?thesis
  proof (cases rule: get_table_used [OF e False])
    case 1
    then show ?thesis using n ev lk by (intro huge [of mem']) simp_all
  next
    case (2 c)
    then have "child mem t i = Some c" by (simp add: child_def)
    then show ?thesis using 2 n ev lk ch ok by (intro got [of c mem' s]) simp_all
  qed
qed

lemma map_path_spec:
  assumes "ok s" "wf_tables mem d t" "table_path d p" "avoids (free s) mem d t"
    and flags: "page_flags flags" and frame: "frame_physical frame"
  shows "\<exists>r mem' s'. map_path alloc page frame flags t p (mem, s) = Some (r, mem', s')
    \<and> ok s' \<and> evolves d t mem (free s) mem' (free s')
    \<and> (finite (free s) \<longrightarrow> card (free s) \<le> d + card (free s'))
    \<and> map_outcome d page frame (free s) (lookup mem t p) r
    \<and> (\<forall>q. table_path d q \<longrightarrow> lookup mem' t q =
          (if r = Inr page \<and> q = p then Some (Inr (frame_base_addr frame OR flags)) else lookup mem t q))"
  using assms(1-4)
proof (induction d arbitrary: mem s t p)
  case 0
  then obtain i where p: "p = [i]" "i < 512" by (auto simp: table_path_0)
  let ?e = "frame_base_addr frame OR flags"
  show ?case
  proof (cases "pte_is_unused (mem t i)")
    case True
    have "pte_set_frame (mem t i) frame flags = Some ?e"
      using frame flags by (simp add: pte_set_frame_ok page_flags_def)
    moreover have "bit ?e 0" using flags by (simp add: page_flags_def flag_bits bit_or_iff)
    then have u: "\<not> pte_is_unused ?e" by (auto simp: pte_is_unused_def)
    have "lookup (set_entry mem t i ?e) t q = (if q = p then Some (Inr ?e) else lookup mem t q)"
      if "table_path 0 q" for q
    proof -
      from that obtain j where "q = [j]" by (auto simp: table_path_0)
      then show ?thesis using u by (cases "j = i") (simp_all add: p(1) set_entry_def)
    qed
    ultimately show ?thesis
      using True 0 by (simp add: p(1) map_outcome_def evolves_def) (simp add: set_entry_def)
  next
    case False
    then show ?thesis
      using 0 p by (auto simp: map_outcome_def evolves_def)
  qed
next
  case (Suc d)
  from Suc.prems(3) obtain i q where p: "p = i # q" "i < 512" "table_path d q"
    by (auto simp: table_path_Suc)
  note ne = table_path_nonempty [OF p(3)]
  have pf: "table_flags (parent_table_flags flags)"
    using flags by (simp add: page_flags_def parent_table_flags_ok)
  from Suc.prems(1,2) p(2) Suc.prems(4) pf show ?case
  proof (cases rule: next_table_spec)
    case failed
    then have "lookup mem t p = Some (Inl NotMapped)"
      using ne by (simp add: p(1) lookup_Cons get_table_t_def)
    then show ?thesis
      using failed ne Suc.prems evolves_refl [OF Suc.prems(2)]
      by (simp add: p(1) map_path_Cons map_outcome_def)
  next
    case (huge mem')
    then have "lookup mem t p = Some (Inl TranslationHugePage)"
      using ne by (simp add: p(1) lookup_Cons get_table_t_def)
    then show ?thesis
      using huge ne Suc.prems by (simp add: p(1) map_path_Cons map_outcome_def)
  next
    case (got c mem1 s1)
    have wf1: "wf_tables mem1 (Suc d) t" using got(4) by (simp add: evolves_def)
    have av1: "avoids (free s1) mem1 (Suc d) t" by (rule avoids_evolves [OF Suc.prems(4) got(4)])
    have wfc: "wf_tables mem1 d c" using wf1 p(2) got(3) by simp
    have avc: "avoids (free s1) mem1 d c"
      using av1 tables_child [OF p(2) got(3), of d] by (auto simp: avoids_def)
    obtain r mem2 s2 where m: "map_path alloc page frame flags c q (mem1, s1) = Some (r, mem2, s2)"
      "ok s2" "evolves d c mem1 (free s1) mem2 (free s2)"
      "finite (free s1) \<longrightarrow> card (free s1) \<le> d + card (free s2)"
      and mo: "map_outcome d page frame (free s1) (lookup mem1 c q) r"
      and lk: "\<And>q'. table_path d q' \<Longrightarrow> lookup mem2 c q' =
          (if r = Inr page \<and> q' = q then Some (Inr (frame_base_addr frame OR flags)) else lookup mem1 c q')"
      using Suc.IH [OF got(2) wfc p(3) avc] by blast
    note gr = graft [OF wf1 p(2) got(3) av1 m(3)]
    have l1: "lookup mem1 c q = lookup mem t p"
      using got(5) Suc.prems(3) lookup_child [OF ne got(3)] by (simp add: p(1))
    have ch2: "child mem2 t i = Some c" using got(3) gr(2) by (simp add: child_def)
    have "lookup mem2 t q' = (if r = Inr page \<and> q' = p then Some (Inr (frame_base_addr frame OR flags))
        else lookup mem t q')" if q': "table_path (Suc d) q'" for q'
    proof -
      from q' obtain j u where u: "q' = j # u" "j < 512" "table_path d u" by (auto simp: table_path_Suc)
      have "lookup mem t q' = lookup mem1 t q'" using got(5) q' by simp
      moreover have "lookup mem2 t q' = (if j = i then lookup mem2 c u else lookup mem1 t q')"
        using gr(3) [OF u(2) _ u(3)] lookup_child [OF table_path_nonempty [OF u(3)] ch2] by (auto simp: u(1))
      moreover have "j = i \<Longrightarrow> lookup mem1 t q' = lookup mem1 c u"
        using lookup_child [OF table_path_nonempty [OF u(3)] got(3)] by (simp add: u(1))
      ultimately show ?thesis using lk [OF u(3)] by (auto simp: u(1) p(1))
    qed
    moreover have "map_outcome (Suc d) page frame (free s) (lookup mem t p) r"
      using mo got(6) by (auto simp: map_outcome_def l1 split: option.splits sum.splits translation_error.splits)
    moreover have "map_path alloc page frame flags t p (mem, s) = Some (r, mem2, s2)"
      using got(1) m(1) ne by (simp add: p(1) map_path_Cons)
    moreover have "finite (free s) \<longrightarrow> card (free s) \<le> Suc d + card (free s2)"
    proof
      assume "finite (free s)"
      moreover have "free s1 \<subseteq> free s" using got(4) by (simp add: evolves_def)
      ultimately have "finite (free s1)" by (rule rev_finite_subset)
      then show "card (free s) \<le> Suc d + card (free s2)" using got(6) m(4) by simp
    qed
    ultimately show ?thesis using m(2) evolves_trans [OF got(4) gr(1)] by blast
  qed
qed

end

subsection \<open>Pages and their paths\<close>

definition canonical_page :: "page \<Rightarrow> bool" where
  "canonical_page p \<longleftrightarrow> canonical (page_base_addr p) \<and> page_number p < 2 ^ 52"

lemma page_base_addr_inj:
  assumes "page_number p < 2 ^ 52" "page_number q < 2 ^ 52" "page_base_addr p = page_base_addr q"
  shows "p = q"
proof -
  have "unat (page_number p) * 4096 = unat (page_number q) * 4096"
    using assms unat_page_base_addr [of p] unat_page_base_addr [of q] by (simp add: word_less_nat_alt)
  then show ?thesis by (intro page.expand) (simp add: word_unat_eq_iff)
qed

lemma page_base_aligned:
  assumes "page_number p < 2 ^ 52"
  shows "page_base_addr p AND NOT (mask 12) = page_base_addr p"
proof -
  have "unat (page_base_addr p) = unat (page_number p) * 4096"
    using assms by (intro unat_page_base_addr) (simp add: word_less_nat_alt)
  then have "unat (page_base_addr p AND NOT (mask 12)) = unat (page_base_addr p)"
    by (simp add: unat_and_not_mask)
  then show ?thesis by (simp only: word_unat_eq_iff)
qed

lemma page_path_inj:
  assumes "canonical_page p" "canonical_page q" "page_path p = page_path q"
  shows "p = q"
proof -
  have "page_base_addr r = Address_from_table_indices (page_l4_index r) (page_l3_index r)
      (page_l2_index r) (page_l1_index r)" if "canonical_page r" for r
    using that table_indices_of_address [of "page_base_addr r"] page_base_aligned [of r]
    by (simp add: canonical_page_def page_l4_index_def page_l3_index_def page_l2_index_def page_l1_index_def)
  from this [OF assms(1)] this [OF assms(2)] assms(3) have "page_base_addr p = page_base_addr q"
    by (simp add: page_path_def)
  then show ?thesis using assms(1,2) by (intro page_base_addr_inj) (simp_all add: canonical_page_def)
qed

lemma leaf_frame_or:
  assumes "frame_physical f" "flags_ok flags"
  shows "leaf_frame (frame_base_addr f OR flags) = Some (Inr f)"
  using assms
  by (simp add: leaf_frame_def pte_bits Frame_from_base_addr_def frame_physical_base(3)
      Frame_containing_base)

lemma lookup_translate:
  "translate_page mem l4 p = Some (Inl NotMapped) \<longleftrightarrow> lookup mem l4 (page_path p) = Some (Inl NotMapped)"
  "translate_page mem l4 p = Some (Inl TranslationHugePage)
    \<longleftrightarrow> lookup mem l4 (page_path p) = Some (Inl TranslationHugePage)"
  "translate_page mem l4 p = Some (Inr f) \<Longrightarrow> \<exists>e. lookup mem l4 (page_path p) = Some (Inr e)"
  by (auto simp: translate_page_lookup leaf_frame_def split: Option.bind_splits sum.splits option.splits)

context frame_source
begin

text \<open>\<^verbatim>\<open>map_to\<close> refines the update of a map from pages to frames.\<close>

lemma map_to_spec:
  assumes "ok s" "wf_tables mem 3 l4" "avoids (free s) mem 3 l4" "page_flags flags"
    and "frame_physical frame" and page: "canonical_page page"
  obtains r mem' s' where "map_to alloc l4 page frame flags (mem, s) = Some (r, mem', s')"
    "ok s'" "evolves 3 l4 mem (free s) mem' (free s')" "avoids (free s') mem' 3 l4"
    "finite (free s) \<Longrightarrow> card (free s) \<le> 3 + card (free s')"
    "map_outcome 3 page frame (free s) (lookup mem l4 (page_path page)) r"
    "\<And>q. canonical_page q \<Longrightarrow> lookup mem' l4 (page_path q) =
       (if r = Inr page \<and> q = page then Some (Inr (frame_base_addr frame OR flags))
        else lookup mem l4 (page_path q))"
    "\<And>q. canonical_page q \<Longrightarrow> translate_page mem' l4 q =
       (if r = Inr page \<and> q = page then Some (Inr frame) else translate_page mem l4 q)"
proof -
  obtain r mem' s' where m: "map_to alloc l4 page frame flags (mem, s) = Some (r, mem', s')"
    "ok s'" "evolves 3 l4 mem (free s) mem' (free s')"
    "finite (free s) \<longrightarrow> card (free s) \<le> 3 + card (free s')"
    "map_outcome 3 page frame (free s) (lookup mem l4 (page_path page)) r"
    and lk: "\<And>q. table_path 3 q \<Longrightarrow> lookup mem' l4 q = (if r = Inr page \<and> q = page_path page
        then Some (Inr (frame_base_addr frame OR flags)) else lookup mem l4 q)"
    using map_path_spec [OF assms(1,2) table_path_page assms(3-5)] unfolding map_to_path by blast
  have l: "lookup mem' l4 (page_path q) =
       (if r = Inr page \<and> q = page then Some (Inr (frame_base_addr frame OR flags))
        else lookup mem l4 (page_path q))" if "canonical_page q" for q
    using lk [OF table_path_page, of q] page_path_inj [OF that page] by auto
  have "translate_page mem' l4 q =
       (if r = Inr page \<and> q = page then Some (Inr frame) else translate_page mem l4 q)"
    if "canonical_page q" for q
    using l [OF that] leaf_frame_or [OF assms(5)] assms(4)
    by (auto simp: translate_page_lookup page_flags_def)
  then show thesis using m l avoids_evolves [OF assms(3) m(3)] that by blast
qed

lemma map_to_ex:
  assumes "ok s" "wf_tables mem 3 l4" "avoids (free s) mem 3 l4" "page_flags flags"
    and "frame_physical frame" "canonical_page page"
  shows "\<exists>r mem' s'. map_to alloc l4 page frame flags (mem, s) = Some (r, mem', s')
    \<and> ok s' \<and> evolves 3 l4 mem (free s) mem' (free s') \<and> avoids (free s') mem' 3 l4
    \<and> (finite (free s) \<longrightarrow> card (free s) \<le> 3 + card (free s'))
    \<and> map_outcome 3 page frame (free s) (lookup mem l4 (page_path page)) r
    \<and> (\<forall>q. canonical_page q \<longrightarrow> translate_page mem' l4 q =
         (if r = Inr page \<and> q = page then Some (Inr frame) else translate_page mem l4 q))"
proof -
  obtain r mem' s' where "map_to alloc l4 page frame flags (mem, s) = Some (r, mem', s')"
    "ok s'" "evolves 3 l4 mem (free s) mem' (free s')" "avoids (free s') mem' 3 l4"
    "finite (free s) \<Longrightarrow> card (free s) \<le> 3 + card (free s')"
    "map_outcome 3 page frame (free s) (lookup mem l4 (page_path page)) r"
    "\<And>q. canonical_page q \<Longrightarrow> translate_page mem' l4 q =
       (if r = Inr page \<and> q = page then Some (Inr frame) else translate_page mem l4 q)"
    by (rule map_to_spec [OF assms]) blast
  then show ?thesis by (intro exI conjI allI impI) auto
qed

end

subsection \<open>Translating an address\<close>

lemma page_indices_containing:
  "page_l4_index (Page_containing_addr a) = l4_index a"
  "page_l3_index (Page_containing_addr a) = l3_index a"
  "page_l2_index (Page_containing_addr a) = l2_index a"
  "page_l1_index (Page_containing_addr a) = l1_index a"
proof -
  have p: "page_base_addr (Page_containing_addr a) = a AND NOT (mask 12)"
    by (simp add: page_base_addr_containing page_align_down_def align_down_def PAGE_SIZE_eq
        mask_eq_exp_minus_1)
  note d = page_l4_index_def page_l3_index_def page_l2_index_def page_l1_index_def p index_defs
  show "page_l4_index (Page_containing_addr a) = l4_index a"
    "page_l3_index (Page_containing_addr a) = l3_index a"
    "page_l2_index (Page_containing_addr a) = l2_index a"
    "page_l1_index (Page_containing_addr a) = l1_index a"
    unfolding d by (rule take_bit_word_eqI; auto simp: bit_simps)+
qed

text \<open>
  The two translations agree. Translating an address finds the frame that translating its
  page finds, with the same error otherwise, and pairs it with the address's offset in the page.
\<close>

lemma translate_addr_page:
  "map_option (map_sum id (\<lambda>tr. (at_frame tr, at_offset tr))) (translate_addr mem l4 a) =
   map_option (map_sum id (\<lambda>f. (f, page_offset a))) (translate_page mem l4 (Page_containing_addr a))"
  unfolding translate_addr_def translate_page_def page_indices_containing Let_def
  by (simp split: Option.bind_split sum.split)

end
