(* ===== verification/Frame_Alloc.thy ===== *)
theory Frame_Alloc
  imports Paging
begin

section \<open>The physical frame allocator (kernel/src/memory.rs)\<close>

text \<open>
  \<^verbatim>\<open>FrameAllocator\<close> hands out the frames of the first GiB of physical memory from a bitmap in
  which a set bit is a frame in use. The model keeps the bitmap as the list of its 4096 words, the
  counters as \<^typ>\<open>usize\<close> words, and every index into the array as a possible panic.
  The invariant says that \<^verbatim>\<open>free_frames\<close> counts the clear bits; each operation
  is specified by its effect on the set of free frames.
\<close>

subsection \<open>State\<close>

definition MAX_PHYSICAL_MEMORY :: usize where "MAX_PHYSICAL_MEMORY = 1 * GIBIBYTE"
definition MAX_FRAMES :: usize where "MAX_FRAMES = MAX_PHYSICAL_MEMORY div PAGE_SIZE"
definition BITMAP_LEN :: usize where "BITMAP_LEN = MAX_FRAMES div 64"

record frame_allocator =
  bitmap :: "u64 list"
  total_frames :: usize
  free_frames :: usize
  next_free_hint :: usize

datatype frame_allocator_error = OutOfMemory | InvalidFrame

datatype memory_region_kind = Free | Bootloader | Uefi u32

record memory_region =
  region_base :: usize
  region_size :: usize
  region_kind :: memory_region_kind

text \<open>The boot information the kernel is started with (crates/boot-info).\<close>

datatype pixel_format =
  PF_NONE | RGBA8 | RGBX8 | ARGB8 | XRGB8 | BGRA8 | BGRX8 | ABGR8 | XBGR8

record display_info =
  di_width :: u32
  di_height :: u32
  di_stride :: u32
  di_format :: pixel_format
  framebuffer_addr :: u64
  framebuffer_size :: usize

record root_object_info =
  ro_name :: "u8 list"
  ro_addr :: usize
  ro_size :: usize

record boot_info =
  rsdp_address :: "u64 option"
  kernel_start :: usize
  kernel_end :: usize
  memory_map :: "memory_region list"
  root_object_map :: "root_object_info list"
  display_info :: display_info

subsection \<open>Operations\<close>

definition FrameAllocator_new :: frame_allocator where
  "FrameAllocator_new =
     \<lparr> bitmap = replicate (unat BITMAP_LEN) 0, total_frames = 0, free_frames = 0, next_free_hint = 0 \<rparr>"

definition is_allocated :: "frame_allocator \<Rightarrow> usize \<Rightarrow> bool rust" where
  "is_allocated fa n =
     (let word_idx = unat (n div 64); bit_idx = unat (n mod 64) in
      if word_idx < length (bitmap fa)
      then Some (bitmap fa ! word_idx AND push_bit bit_idx 1 \<noteq> 0) else panic)"

definition mark_used :: "frame_allocator \<Rightarrow> usize \<Rightarrow> frame_allocator rust" where
  "mark_used fa n =
     (let word_index = unat (n div 64); bit_index = unat (n mod 64); bm = bitmap fa in
      if word_index < length bm
      then Some (fa\<lparr> bitmap := bm[word_index := bm ! word_index OR push_bit bit_index 1] \<rparr>)
      else panic)"

definition mark_free :: "frame_allocator \<Rightarrow> usize \<Rightarrow> frame_allocator rust" where
  "mark_free fa n =
     (let word_index = unat (n div 64); bit_index = unat (n mod 64); bm = bitmap fa in
      if word_index < length bm
      then Some (fa\<lparr> bitmap := bm[word_index := bm ! word_index AND NOT (push_bit bit_index 1)] \<rparr>)
      else panic)"

fun init_frames :: "usize list \<Rightarrow> frame_allocator \<Rightarrow> frame_allocator rust" where
  "init_frames [] fa = Some fa"
| "init_frames (frame_num # ns) fa =
     (if frame_num < MAX_FRAMES then do {
        fa \<leftarrow> mark_free fa frame_num;
        init_frames ns (fa\<lparr> total_frames := total_frames fa + 1, free_frames := free_frames fa + 1 \<rparr>)
      } else init_frames ns fa)"

definition init_region :: "memory_region \<Rightarrow> frame_allocator \<Rightarrow> frame_allocator rust" where
  "init_region region fa =
     (if region_kind region = Free then do {
        start_frame \<leftarrow> Frame_containing_addr (Address_new (region_base region));
        let end_addr = region_base region + region_size region;
        end_frame \<leftarrow> Frame_containing_addr (Address_new end_addr);
        let first_frame = (if is_page_aligned (Address_new (region_base region))
                           then frame_number start_frame else frame_number start_frame + 1);
        let last_frame = frame_number end_frame;
        init_frames (word_range first_frame last_frame) fa
      } else Some fa)"

fun init_regions :: "memory_region list \<Rightarrow> frame_allocator \<Rightarrow> frame_allocator rust" where
  "init_regions [] fa = Some fa"
| "init_regions (r # rs) fa = do { fa \<leftarrow> init_region r fa; init_regions rs fa }"

definition FrameAllocator_init ::
    "frame_allocator \<Rightarrow> memory_region list \<Rightarrow> frame_allocator rust" where
  "FrameAllocator_init fa regions = do {
     let fa = fa\<lparr> bitmap := map (\<lambda>_. NOT 0) (bitmap fa), total_frames := 0, free_frames := 0 \<rparr>;
     fa \<leftarrow> init_regions regions fa;
     Some (fa\<lparr> next_free_hint := 0 \<rparr>)
   }"

fun reserve_frames :: "usize \<Rightarrow> usize list \<Rightarrow> frame_allocator \<Rightarrow> frame_allocator rust" where
  "reserve_frames start_frame [] fa = Some fa"
| "reserve_frames start_frame (i # is) fa =
     (let frame_num = start_frame + i in
      if frame_num < MAX_FRAMES then do {
        allocated \<leftarrow> is_allocated fa frame_num;
        if \<not> allocated then do {
          fa \<leftarrow> mark_used fa frame_num;
          reserve_frames start_frame is
            (if free_frames fa > 0 then fa\<lparr> free_frames := free_frames fa - 1 \<rparr> else fa)
        } else reserve_frames start_frame is fa
      } else reserve_frames start_frame is fa)"

definition reserve_range :: "frame_allocator \<Rightarrow> address \<Rightarrow> usize \<Rightarrow> frame_allocator rust" where
  "reserve_range fa base sz = do {
     f \<leftarrow> Frame_containing_addr base;
     let start_frame = frame_number f;
     let frame_count = div_ceil sz PAGE_SIZE;
     reserve_frames start_frame (word_range 0 frame_count) fa
   }"

text \<open>The scan of both loops of \<^verbatim>\<open>allocate\<close>: the first word of the range with a clear bit.\<close>

fun first_nonfull :: "u64 list \<Rightarrow> nat list \<Rightarrow> nat option rust" where
  "first_nonfull bm [] = Some None"
| "first_nonfull bm (word_index # is) =
     (if word_index < length bm then
        (if bm ! word_index \<noteq> NOT 0 then Some (Some word_index) else first_nonfull bm is)
      else panic)"

definition take_frame ::
    "frame_allocator \<Rightarrow> nat \<Rightarrow> ((frame_allocator_error + frame) \<times> frame_allocator) rust" where
  "take_frame fa word_index =
     (let free_bit = trailing_zeros (NOT (bitmap fa ! word_index));
          frame_num = word_of_nat word_index * 64 + word_of_nat free_bit in
      do { fa \<leftarrow> mark_used fa frame_num;
           Some (Inr (Frame frame_num),
             fa\<lparr> free_frames := free_frames fa - 1, next_free_hint := frame_num + 1 \<rparr>) })"

definition FrameAllocator_allocate ::
    "frame_allocator \<Rightarrow> ((frame_allocator_error + frame) \<times> frame_allocator) rust" where
  "FrameAllocator_allocate fa =
     (if free_frames fa = 0 then Some (Inl OutOfMemory, fa)
      else do {
        let start_word = unat (next_free_hint fa div 64);
        found \<leftarrow> first_nonfull (bitmap fa) [start_word ..< unat BITMAP_LEN];
        case found of Some word_index \<Rightarrow> take_frame fa word_index
        | None \<Rightarrow> do {
            found \<leftarrow> first_nonfull (bitmap fa) [0 ..< start_word];
            case found of Some word_index \<Rightarrow> take_frame fa word_index
            | None \<Rightarrow> Some (Inl OutOfMemory, fa) } })"

definition FrameAllocator_deallocate ::
    "frame_allocator \<Rightarrow> frame \<Rightarrow> ((frame_allocator_error + unit) \<times> frame_allocator) rust" where
  "FrameAllocator_deallocate fa f =
     (let frame_num = frame_number f in
      if frame_num \<ge> MAX_FRAMES then Some (Inl InvalidFrame, fa)
      else do {
        allocated \<leftarrow> is_allocated fa frame_num;
        if \<not> allocated then Some (Inr (), fa)
        else do {
          fa \<leftarrow> mark_free fa frame_num;
          let fa = fa\<lparr> free_frames := free_frames fa + 1 \<rparr>;
          Some (Inr (), if frame_num < next_free_hint fa
                        then fa\<lparr> next_free_hint := frame_num \<rparr> else fa)
        }
      })"

definition FrameAllocator_allocate_frame ::
    "frame_allocator \<Rightarrow> (frame option \<times> frame_allocator) rust" where
  "FrameAllocator_allocate_frame fa = do {
     (r, fa) \<leftarrow> FrameAllocator_allocate fa;
     Some (case r of Inr f \<Rightarrow> Some f | Inl _ \<Rightarrow> None, fa)
   }"

text \<open>The block of \<^verbatim>\<open>memory::init\<close> that sets the allocator up, before its self-test.\<close>

definition init_frame_allocator :: "boot_info \<Rightarrow> frame_allocator \<Rightarrow> frame_allocator rust" where
  "init_frame_allocator boot_info fa = do {
     fa \<leftarrow> FrameAllocator_init fa (memory_map boot_info);
     fa \<leftarrow> reserve_range fa (Address_new 0) MEBIBYTE;
     fa \<leftarrow> reserve_range fa (Address_new (kernel_start boot_info))
             (kernel_end boot_info - kernel_start boot_info);
     reserve_range fa (Address_new (framebuffer_addr (display_info boot_info)))
       (framebuffer_addr (display_info boot_info) + framebuffer_size (display_info boot_info))
   }"

definition initial_frame_allocation_test :: "frame_allocator \<Rightarrow> frame_allocator rust" where
  "initial_frame_allocation_test fa = do {
     (r, fa) \<leftarrow> FrameAllocator_allocate fa;
     case r of
       Inr f \<Rightarrow> do {
         (r, fa) \<leftarrow> FrameAllocator_deallocate fa f;
         case r of Inl _ \<Rightarrow> panic | Inr _ \<Rightarrow> Some fa }
     | Inl _ \<Rightarrow> panic
   }"

subsection \<open>The set of free frames and the invariant\<close>

definition frame_free :: "frame_allocator \<Rightarrow> nat \<Rightarrow> bool" where
  "frame_free fa n \<longleftrightarrow> \<not> bit (bitmap fa ! (n div 64)) (n mod 64)"

definition free_set :: "frame_allocator \<Rightarrow> nat set" where
  "free_set fa = {n. n < 262144 \<and> frame_free fa n}"

definition fa_inv :: "frame_allocator \<Rightarrow> bool" where
  "fa_inv fa \<longleftrightarrow> length (bitmap fa) = 4096 \<and> unat (free_frames fa) = card (free_set fa)
     \<and> unat (next_free_hint fa) \<le> 262144"

lemma allocator_sizes: "MAX_FRAMES = 262144" "BITMAP_LEN = 4096"
  by (simp_all add: MAX_FRAMES_def BITMAP_LEN_def MAX_PHYSICAL_MEMORY_def GIBIBYTE_def PAGE_SIZE_eq)

lemma finite_free_set [simp]: "finite (free_set fa)"
  by (simp add: free_set_def)

lemma card_free_set: "card (free_set fa) \<le> 262144"
  using card_mono [of "{..<262144}" "free_set fa"] by (auto simp: free_set_def)

lemma free_set_cong: "bitmap fa = bitmap fb \<Longrightarrow> free_set fa = free_set fb"
  by (simp add: free_set_def frame_free_def)

lemma word_index_less: "n < MAX_FRAMES \<Longrightarrow> unat (n div 64) < 4096" for n :: usize
  by (simp add: allocator_sizes word_less_nat_alt unat_div less_mult_imp_div_less)

lemma is_allocated_eq:
  assumes "length (bitmap fa) = 4096" "n < MAX_FRAMES"
  shows "is_allocated fa n = Some (unat n \<notin> free_set fa)"
proof -
  have "w AND push_bit k 1 \<noteq> 0 \<longleftrightarrow> bit w k" if "k < 64" for w :: u64 and k
    using flags_get_bit [OF that, of w] that
    by (auto simp: flags_get_def flag_bit_def and_exp_eq_0_iff_not_bit push_bit_of_1)
  then show ?thesis
    using assms word_index_less [OF assms(2)]
    by (simp add: is_allocated_def free_set_def frame_free_def allocator_sizes word_less_nat_alt
        unat_div unat_mod Let_def)
qed

lemma div_mod_64_eq: "m div 64 = n div 64 \<Longrightarrow> m mod 64 = n mod (64::nat) \<Longrightarrow> m = n"
  by (metis div_mult_mod_eq)

lemma mark_used_eq:
  assumes "length (bitmap fa) = 4096" "n < MAX_FRAMES"
  obtains bm where "mark_used fa n = Some (fa\<lparr> bitmap := bm \<rparr>)" "length bm = 4096"
    "free_set (fa\<lparr> bitmap := bm \<rparr>) = free_set fa - {unat n}"
proof
  let ?k = "unat (n div 64)" and ?b = "unat (n mod 64)"
  let ?bm = "(bitmap fa)[?k := bitmap fa ! ?k OR push_bit ?b 1]"
  have k: "?k < 4096" by (rule word_index_less [OF assms(2)])
  then show "mark_used fa n = Some (fa\<lparr> bitmap := ?bm \<rparr>)"
    using assms(1) by (simp add: mark_used_def Let_def)
  show "length ?bm = 4096" using assms(1) by simp
  have "frame_free (fa\<lparr> bitmap := ?bm \<rparr>) m \<longleftrightarrow> frame_free fa m \<and> m \<noteq> unat n" for m
    using k assms(1) div_mod_64_eq [of m "unat n"]
    by (auto simp: frame_free_def nth_list_update unat_div unat_mod bit_simps)
  then show "free_set (fa\<lparr> bitmap := ?bm \<rparr>) = free_set fa - {unat n}"
    by (auto simp: free_set_def)
qed

lemma mark_free_eq:
  assumes "length (bitmap fa) = 4096" "n < MAX_FRAMES"
  obtains bm where "mark_free fa n = Some (fa\<lparr> bitmap := bm \<rparr>)" "length bm = 4096"
    "free_set (fa\<lparr> bitmap := bm \<rparr>) = insert (unat n) (free_set fa)"
proof
  let ?k = "unat (n div 64)" and ?b = "unat (n mod 64)"
  let ?bm = "(bitmap fa)[?k := bitmap fa ! ?k AND NOT (push_bit ?b 1)]"
  have k: "?k < 4096" by (rule word_index_less [OF assms(2)])
  then show "mark_free fa n = Some (fa\<lparr> bitmap := ?bm \<rparr>)"
    using assms(1) by (simp add: mark_free_def Let_def)
  show "length ?bm = 4096" using assms(1) by simp
  have "frame_free (fa\<lparr> bitmap := ?bm \<rparr>) m \<longleftrightarrow> frame_free fa m \<or> m = unat n" if "m < 262144" for m
    using k assms(1) div_mod_64_eq [of m "unat n"]
    by (auto simp: frame_free_def nth_list_update unat_div unat_mod bit_simps)
  then show "free_set (fa\<lparr> bitmap := ?bm \<rparr>) = insert (unat n) (free_set fa)"
    using assms(2) by (auto simp: free_set_def allocator_sizes word_less_nat_alt)
qed

subsection \<open>Allocation\<close>

lemma first_nonfull_find:
  "\<forall>i \<in> set is. i < length bm \<Longrightarrow>
    first_nonfull bm is = Some (find (\<lambda>i. bm ! i \<noteq> NOT 0) is)"
  by (induction "is") auto

lemma take_frame_spec:
  assumes inv: "fa_inv fa" and i: "i < 4096" "bitmap fa ! i \<noteq> NOT 0"
  obtains n fa' where "take_frame fa i = Some (Inr (Frame n), fa')" "unat n \<in> free_set fa"
    "free_set fa' = free_set fa - {unat n}" "fa_inv fa'"
proof -
  define tz where "tz = trailing_zeros (NOT (bitmap fa ! i))"
  define n :: usize where "n = word_of_nat i * 64 + word_of_nat tz"
  have "NOT (bitmap fa ! i) \<noteq> 0" using i(2) by (metis bit.double_compl)
  from trailing_zeros_bit [OF this] have tz: "tz < 64" "\<not> bit (bitmap fa ! i) tz"
    by (simp_all add: tz_def bit_not_iff)
  have "n = word_of_nat (i * 64 + tz)" by (simp add: n_def)
  then have n: "unat n = i * 64 + tz" using i(1) tz(1) by (simp add: unat_of_nat del: of_nat_add)
  then have lt: "n < MAX_FRAMES" and free: "unat n \<in> free_set fa"
    using i(1) tz by (simp_all add: allocator_sizes word_less_nat_alt free_set_def frame_free_def)
  have len: "length (bitmap fa) = 4096" using inv by (simp add: fa_inv_def)
  obtain bm where m: "mark_used fa n = Some (fa\<lparr> bitmap := bm \<rparr>)" "length bm = 4096"
    "free_set (fa\<lparr> bitmap := bm \<rparr>) = free_set fa - {unat n}"
    by (rule mark_used_eq [OF len lt])
  define fa' where "fa' = fa\<lparr> bitmap := bm, free_frames := free_frames fa - 1, next_free_hint := n + 1 \<rparr>"
  have fs: "free_set fa' = free_set fa - {unat n}"
    using m(3) by (simp add: fa'_def free_set_def frame_free_def)
  have "0 < unat (free_frames fa)"
    using inv free by (auto simp: fa_inv_def card_gt_0_iff)
  then have "unat (free_frames fa - 1) = unat (free_frames fa) - 1"
    by (simp add: unat_minus_one unat_gt_0)
  moreover have "unat (n + 1) \<le> 262144"
    using lt by (simp add: unat_plus_if' allocator_sizes word_less_nat_alt)
  ultimately have "fa_inv fa'"
    using inv m(2) fs free by (simp add: fa_inv_def fa'_def [THEN arg_cong, of bitmap]
        fa'_def [THEN arg_cong, of free_frames] fa'_def [THEN arg_cong, of next_free_hint])
  moreover have "take_frame fa i = Some (Inr (Frame n), fa')"
    using m(1) by (simp add: take_frame_def fa'_def Let_def flip: tz_def n_def)
  ultimately show thesis using free fs that by blast
qed

lemma full_word_no_free: "bitmap fa ! (n div 64) = NOT 0 \<Longrightarrow> \<not> frame_free fa n"
  by (simp add: frame_free_def bit_not_iff)

lemma FrameAllocator_allocate_empty:
  "fa_inv fa \<Longrightarrow> free_set fa = {} \<Longrightarrow> FrameAllocator_allocate fa = Some (Inl OutOfMemory, fa)"
  by (simp add: FrameAllocator_allocate_def fa_inv_def unat_eq_zero)

lemma FrameAllocator_allocate_free:
  assumes inv: "fa_inv fa" and ne: "free_set fa \<noteq> {}"
  obtains n fa' where "FrameAllocator_allocate fa = Some (Inr (Frame n), fa')"
    "unat n \<in> free_set fa" "free_set fa' = free_set fa - {unat n}" "fa_inv fa'"
proof -
  let ?P = "\<lambda>i. bitmap fa ! i \<noteq> NOT 0"
  define s where "s = unat (next_free_hint fa div 64)"
  have len: "length (bitmap fa) = 4096" and s: "s \<le> 4096"
    using inv div_le_mono [of "unat (next_free_hint fa)" 262144 64]
    by (simp_all add: fa_inv_def s_def unat_div)
  have ff: "free_frames fa \<noteq> 0" using inv ne by (auto simp: fa_inv_def)
  have eq: "FrameAllocator_allocate fa =
      (case find ?P [s..<4096] of Some i \<Rightarrow> take_frame fa i
       | None \<Rightarrow> case find ?P [0..<s] of Some i \<Rightarrow> take_frame fa i
         | None \<Rightarrow> Some (Inl OutOfMemory, fa))"
    using ff s len
    by (simp add: FrameAllocator_allocate_def first_nonfull_find allocator_sizes Let_def
        split: option.split flip: s_def)
  from ne obtain m where "m < 262144" "frame_free fa m" by (auto simp: free_set_def)
  then have m: "m div 64 < 4096" "?P (m div 64)"
    using full_word_no_free [of fa m] by auto
  consider i where "find ?P [s..<4096] = Some i"
    | i where "find ?P [s..<4096] = None" "find ?P [0..<s] = Some i"
    | "find ?P [s..<4096] = None" "find ?P [0..<s] = None" by fastforce
  then show thesis
  proof cases
    case (1 i)
    then have "i < 4096" "?P i" by (auto simp: find_Some_iff)
    from take_frame_spec [OF inv this] show thesis using eq 1 that by (metis option.simps(5))
  next
    case (2 i)
    then have "i < 4096" "?P i" using s by (auto simp: find_Some_iff)
    from take_frame_spec [OF inv this] show thesis
      using eq 2 that by (metis option.simps(4) option.simps(5))
  next
    case 3
    then have False using m by (cases "m div 64 < s") (auto simp: find_None_iff)
    then show thesis ..
  qed
qed

lemma FrameAllocator_deallocate_spec:
  assumes inv: "fa_inv fa" and f: "frame_number f < MAX_FRAMES"
  obtains fa' where "FrameAllocator_deallocate fa f = Some (Inr (), fa')" "fa_inv fa'"
    "free_set fa' = insert (unat (frame_number f)) (free_set fa)"
proof -
  let ?n = "frame_number f"
  have len: "length (bitmap fa) = 4096" using inv by (simp add: fa_inv_def)
  note al = is_allocated_eq [OF len f]
  show thesis
  proof (cases "unat ?n \<in> free_set fa")
    case True
    then show thesis
      using f al inv by (intro that [of fa]) (auto simp: FrameAllocator_deallocate_def Let_def insert_absorb)
  next
    case False
    obtain bm where m: "mark_free fa ?n = Some (fa\<lparr> bitmap := bm \<rparr>)" "length bm = 4096"
      "free_set (fa\<lparr> bitmap := bm \<rparr>) = insert (unat ?n) (free_set fa)"
      by (rule mark_free_eq [OF len f])
    define h where "h = (if ?n < next_free_hint fa then ?n else next_free_hint fa)"
    define fa' where "fa' = fa\<lparr> bitmap := bm, free_frames := free_frames fa + 1, next_free_hint := h \<rparr>"
    have sel: "bitmap fa' = bm" "free_frames fa' = free_frames fa + 1" "next_free_hint fa' = h"
      by (simp_all add: fa'_def)
    have fs: "free_set fa' = insert (unat ?n) (free_set fa)"
      using m(3) by (simp add: fa'_def free_set_def frame_free_def)
    have "unat (free_frames fa) \<le> 262144" using inv card_free_set [of fa] by (simp add: fa_inv_def)
    then have "unat (free_frames fa + 1) = Suc (unat (free_frames fa))"
      by (simp add: unat_plus_if')
    moreover have "unat h \<le> 262144"
      using f inv by (simp add: h_def fa_inv_def allocator_sizes word_less_nat_alt)
    ultimately have "fa_inv fa'"
      using inv m(2) False by (simp add: fa_inv_def sel fs)
    moreover have "FrameAllocator_deallocate fa f = Some (Inr (), fa')"
      using f al False m(1) by (simp add: FrameAllocator_deallocate_def Let_def fa'_def h_def)
    ultimately show thesis using fs that by blast
  qed
qed

subsection \<open>Reserving a range\<close>

lemma reserve_frames_spec:
  assumes "fa_inv fa"
  shows "\<exists>fa'. reserve_frames a is fa = Some fa' \<and> fa_inv fa'
    \<and> free_set fa' = free_set fa - (\<lambda>i. unat (a + i)) ` set is"
  using assms
proof (induction "is" arbitrary: fa)
  case (Cons i "is")
  let ?n = "a + i"
  have len: "length (bitmap fa) = 4096" using Cons.prems by (simp add: fa_inv_def)
  show ?case
  proof (cases "?n < MAX_FRAMES \<and> unat ?n \<in> free_set fa")
    case True
    then have n: "?n < MAX_FRAMES" "unat ?n \<in> free_set fa" by simp_all
    obtain bm where m: "mark_used fa ?n = Some (fa\<lparr> bitmap := bm \<rparr>)" "length bm = 4096"
      "free_set (fa\<lparr> bitmap := bm \<rparr>) = free_set fa - {unat ?n}"
      by (rule mark_used_eq [OF len n(1)])
    have "0 < unat (free_frames fa)" using Cons.prems n(2) by (auto simp: fa_inv_def card_gt_0_iff)
    then have ff: "0 < free_frames fa" "unat (free_frames fa - 1) = unat (free_frames fa) - 1"
      by (simp_all add: unat_minus_one unat_gt_0 word_gt_0)
    define fa1 where "fa1 = fa\<lparr> bitmap := bm, free_frames := free_frames fa - 1 \<rparr>"
    have sel: "bitmap fa1 = bm" "free_frames fa1 = free_frames fa - 1"
      "next_free_hint fa1 = next_free_hint fa" by (simp_all add: fa1_def)
    have fs: "free_set fa1 = free_set fa - {unat ?n}"
      using m(3) by (simp add: fa1_def free_set_def frame_free_def)
    then have "fa_inv fa1" using Cons.prems m(2) ff(2) n(2) by (simp add: fa_inv_def sel)
    from Cons.IH [OF this] show ?thesis
      using n m(1) ff(1) is_allocated_eq [OF len n(1)] fs by (auto simp: Let_def fa1_def)
  next
    case False
    then have "unat ?n \<notin> free_set fa" by (auto simp: free_set_def allocator_sizes word_less_nat_alt)
    then show ?thesis
      using Cons.IH [OF Cons.prems] is_allocated_eq [OF len, of ?n]
      by (cases "?n < MAX_FRAMES") (auto simp: Let_def)
  qed
qed simp

lemma word_range_offset:
  assumes "unat a + unat (b :: 'a::len word) \<le> 2 ^ LENGTH('a)"
  shows "(\<lambda>i. unat (a + i)) ` set (word_range 0 b) = {unat a ..< unat a + unat b}"
proof -
  have "unat (a + i) = unat a + unat i" if "i \<in> set (word_range 0 b)" for i
  proof -
    have "unat i \<in> set (map unat (word_range 0 b))" using that by (simp only: set_map image_eqI)
    then have "unat i < unat b" by (simp add: unat_word_range)
    then show ?thesis using assms by (intro unat_add_no_overflow) simp
  qed
  then have "(\<lambda>i. unat (a + i)) ` set (word_range 0 b) = (+) (unat a) ` set (map unat (word_range 0 b))"
    by (simp add: image_image)
  also have "\<dots> = {unat a ..< unat a + unat b}"
    by (simp add: unat_word_range image_add_atLeastLessThan add.commute)
  finally show ?thesis .
qed

definition pages_spanned :: "usize \<Rightarrow> nat" where
  "pages_spanned sz = round_up (unat sz) 4096 div 4096"

lemma unat_div_ceil_PAGE: "unat (div_ceil sz PAGE_SIZE) = pages_spanned sz"
  by (simp add: unat_div_ceil pages_spanned_def)

lemma pages_spanned_le: "pages_spanned sz \<le> 2 ^ 52"
proof -
  have "pages_spanned sz = (unat sz + 4096 - 1) div 4096" by (simp add: pages_spanned_def round_up_def)
  also have "\<dots> \<le> (2 ^ 64 + 4095) div 4096" using unat_usize [of sz] by (intro div_le_mono) simp
  finally show ?thesis by simp
qed

lemma reserve_range_spec:
  assumes inv: "fa_inv fa" and base: "is_physical base"
  obtains fa' where "reserve_range fa base sz = Some fa'" "fa_inv fa'"
    "free_set fa' = free_set fa - {unat base div 4096 ..< unat base div 4096 + pages_spanned sz}"
proof -
  let ?a = "base div PAGE_SIZE" and ?n = "div_ceil sz PAGE_SIZE"
  have a: "unat ?a = unat base div 4096" by (simp add: unat_div)
  have "unat base div 4096 < 2 ^ 35" using base by (simp add: is_physical_iff less_mult_imp_div_less)
  then have "unat ?a + unat ?n \<le> 2 ^ 64" using pages_spanned_le [of sz] by (simp add: a unat_div_ceil_PAGE)
  then have r: "(\<lambda>i. unat (?a + i)) ` set (word_range 0 ?n)
      = {unat base div 4096 ..< unat base div 4096 + pages_spanned sz}"
    using word_range_offset [of ?a ?n] by (simp add: a unat_div_ceil_PAGE)
  obtain fa' where "reserve_frames ?a (word_range 0 ?n) fa = Some fa'" "fa_inv fa'"
    "free_set fa' = free_set fa - (\<lambda>i. unat (?a + i)) ` set (word_range 0 ?n)"
    using reserve_frames_spec [OF inv] by blast
  then show thesis
    using base r by (intro that [of fa']) (simp_all add: reserve_range_def Frame_containing_addr_def)
qed

subsection \<open>Initialisation from the memory map\<close>

text \<open>The invariant while the memory map is read: the hint is set at the end.\<close>

definition fa_counted :: "frame_allocator \<Rightarrow> bool" where
  "fa_counted fa \<longleftrightarrow> length (bitmap fa) = 4096 \<and> unat (free_frames fa) = card (free_set fa)
     \<and> total_frames fa = free_frames fa"

lemma init_frames_spec:
  assumes "fa_counted fa" "distinct ns" "unat ` set ns \<inter> free_set fa = {}"
  shows "\<exists>fa'. init_frames ns fa = Some fa' \<and> fa_counted fa'
    \<and> free_set fa' = free_set fa \<union> {n \<in> unat ` set ns. n < 262144}"
  using assms
proof (induction ns arbitrary: fa)
  case (Cons n ns)
  have len: "length (bitmap fa) = 4096" using Cons.prems(1) by (simp add: fa_counted_def)
  have lt: "n < MAX_FRAMES \<longleftrightarrow> unat n < 262144" by (simp add: allocator_sizes word_less_nat_alt)
  show ?case
  proof (cases "n < MAX_FRAMES")
    case True
    obtain bm where m: "mark_free fa n = Some (fa\<lparr> bitmap := bm \<rparr>)" "length bm = 4096"
      "free_set (fa\<lparr> bitmap := bm \<rparr>) = insert (unat n) (free_set fa)"
      by (rule mark_free_eq [OF len True])
    define fa1 where "fa1 = fa\<lparr> bitmap := bm, total_frames := total_frames fa + 1,
      free_frames := free_frames fa + 1 \<rparr>"
    have sel: "bitmap fa1 = bm" "free_frames fa1 = free_frames fa + 1"
      "total_frames fa1 = total_frames fa + 1" by (simp_all add: fa1_def)
    have fs: "free_set fa1 = insert (unat n) (free_set fa)"
      using m(3) by (simp add: fa1_def free_set_def frame_free_def)
    have "unat (free_frames fa) \<le> 262144" using Cons.prems(1) card_free_set [of fa] by (simp add: fa_counted_def)
    then have "unat (free_frames fa + 1) = Suc (unat (free_frames fa))" by (simp add: unat_plus_if')
    then have c: "fa_counted fa1" using Cons.prems m(2) by (simp add: fa_counted_def sel fs)
    have "unat ` set ns \<inter> free_set fa1 = {}" using Cons.prems(2,3) by (auto simp: fs dest!: word_unat_eq_iff [THEN iffD2])
    from Cons.IH [OF c _ this] Cons.prems(2) show ?thesis
      using True m(1) fs lt by (auto simp: fa1_def)
  next
    case False
    then show ?thesis using Cons.IH [OF Cons.prems(1)] Cons.prems(2,3) lt by auto
  qed
qed simp

text \<open>The frames that lie wholly inside a free region of the memory map.\<close>

definition region_frames :: "memory_region \<Rightarrow> nat set" where
  "region_frames r = (if region_kind r = Free then
     {n. unat (region_base r) \<le> n * 4096 \<and> n * 4096 + 4096 \<le> unat (region_base r) + unat (region_size r)}
   else {})"

definition region_ok :: "memory_region \<Rightarrow> bool" where
  "region_ok r \<longleftrightarrow> (region_kind r = Free \<longrightarrow> unat (region_base r) + unat (region_size r) < 2 ^ 47)"

lemma init_region_spec:
  assumes c: "fa_counted fa" and r: "region_ok r" and dis: "region_frames r \<inter> free_set fa = {}"
  shows "\<exists>fa'. init_region r fa = Some fa' \<and> fa_counted fa'
    \<and> free_set fa' = free_set fa \<union> {n \<in> region_frames r. n < 262144}"
proof (cases "region_kind r = Free")
  case True
  let ?b = "region_base r" and ?e = "region_base r + region_size r"
  have lim: "unat ?b + unat (region_size r) < 2 ^ 47" using r True by (simp add: region_ok_def)
  have e: "unat ?e = unat ?b + unat (region_size r)" using lim by (intro unat_add_no_overflow) simp
  have ib: "Address_new ?b = ?b" and ie: "Address_new ?e = ?e" using lim by (simp_all add: Address_new_physical e)
  have pb: "is_physical ?b" "is_physical ?e" using lim by (simp_all add: is_physical_iff e)
  have al: "is_page_aligned ?b \<longleftrightarrow> unat ?b mod 4096 = 0"
    using unat_and_mask [of ?b 12] unat_eq_zero [of "?b AND mask 12"]
    by (simp add: is_page_aligned_def PAGE_SIZE_eq mask_eq_exp_minus_1)
  define first where "first = (if is_page_aligned ?b then ?b div PAGE_SIZE else ?b div PAGE_SIZE + 1)"
  have q: "unat (?b div PAGE_SIZE) = unat ?b div 4096" by (simp add: unat_div)
  then have "unat ?b div 4096 < 2 ^ 35" using lim by (simp add: less_mult_imp_div_less)
  then have fst: "unat first = (if unat ?b mod 4096 = 0 then unat ?b div 4096 else unat ?b div 4096 + 1)"
    using q by (simp add: first_def al unat_plus_if')
  let ?ns = "word_range first (?e div PAGE_SIZE)"
  have "unat ` set ?ns = set (map unat ?ns)" by simp
  also have "\<dots> = {unat first ..< unat ?e div 4096}" by (simp add: unat_word_range unat_div)
  also have "\<dots> = region_frames r"
  proof -
    define u v where "u = unat ?b div 4096" and "v = unat ?b mod 4096"
    have "unat ?b = u * 4096 + v" "v < 4096" by (simp_all add: u_def v_def)
    then have "unat first \<le> n \<longleftrightarrow> unat ?b \<le> n * 4096" for n
      unfolding fst by (cases "v = 0") (auto simp flip: u_def v_def)
    moreover have "n < unat ?e div 4096 \<longleftrightarrow> n * 4096 + 4096 \<le> unat ?e" for n
      using less_eq_div_iff_mult_less_eq [of 4096 "Suc n" "unat ?e"] by (simp add: Suc_le_eq add.commute)
    ultimately show ?thesis using True by (auto simp: region_frames_def e)
  qed
  finally have ns: "unat ` set ?ns = region_frames r" .
  have "distinct (map unat ?ns)" by (simp add: unat_word_range)
  then have "distinct ?ns" by (simp add: distinct_map)
  moreover have "init_region r fa = init_frames ?ns fa"
    using True pb by (simp add: init_region_def ib ie Frame_containing_addr_def Let_def first_def)
  ultimately show ?thesis using init_frames_spec [OF c, of ?ns] dis by (simp add: ns)
next
  case False
  then show ?thesis using c by (simp add: init_region_def region_frames_def)
qed

definition regions_disjoint :: "memory_region list \<Rightarrow> bool" where
  "regions_disjoint rs \<longleftrightarrow> (\<forall>i j. i < j \<and> j < length rs \<longrightarrow>
     region_frames (rs ! i) \<inter> region_frames (rs ! j) = {})"

lemma regions_disjoint_Cons:
  "regions_disjoint (r # rs) \<longleftrightarrow>
    regions_disjoint rs \<and> (\<forall>r' \<in> set rs. region_frames r \<inter> region_frames r' = {})"
proof
  assume d: "regions_disjoint (r # rs)"
  have "regions_disjoint rs"
    unfolding regions_disjoint_def
  proof (intro allI impI)
    fix i j assume "i < j \<and> j < length rs"
    then show "region_frames (rs ! i) \<inter> region_frames (rs ! j) = {}"
      using d [unfolded regions_disjoint_def, rule_format, of "Suc i" "Suc j"] by simp
  qed
  moreover have "region_frames r \<inter> region_frames r' = {}" if "r' \<in> set rs" for r'
  proof -
    from that obtain j where "j < length rs" "r' = rs ! j" by (auto simp: in_set_conv_nth)
    then show ?thesis using d [unfolded regions_disjoint_def, rule_format, of 0 "Suc j"] by simp
  qed
  ultimately show "regions_disjoint rs \<and> (\<forall>r' \<in> set rs. region_frames r \<inter> region_frames r' = {})" by blast
next
  assume d: "regions_disjoint rs \<and> (\<forall>r' \<in> set rs. region_frames r \<inter> region_frames r' = {})"
  show "regions_disjoint (r # rs)"
    unfolding regions_disjoint_def
  proof (intro allI impI)
    fix i j assume "i < j \<and> j < length (r # rs)"
    then show "region_frames ((r # rs) ! i) \<inter> region_frames ((r # rs) ! j) = {}"
      using d by (cases i; cases j) (auto simp: regions_disjoint_def)
  qed
qed

lemma init_regions_spec:
  assumes "fa_counted fa" "\<forall>r \<in> set rs. region_ok r" "regions_disjoint rs"
    and "\<forall>r \<in> set rs. region_frames r \<inter> free_set fa = {}"
  shows "\<exists>fa'. init_regions rs fa = Some fa' \<and> fa_counted fa'
    \<and> free_set fa' = free_set fa \<union> {n \<in> \<Union> (region_frames ` set rs). n < 262144}"
  using assms
proof (induction rs arbitrary: fa)
  case (Cons r rs)
  then obtain fa1 where 1: "init_region r fa = Some fa1" "fa_counted fa1"
    "free_set fa1 = free_set fa \<union> {n \<in> region_frames r. n < 262144}"
    using init_region_spec [of fa r] by auto
  have d: "regions_disjoint rs" "\<forall>r' \<in> set rs. region_frames r \<inter> region_frames r' = {}"
    using Cons.prems(3) by (simp_all add: regions_disjoint_Cons)
  have "\<forall>r' \<in> set rs. region_frames r' \<inter> free_set fa1 = {}"
    using Cons.prems(4) d(2) unfolding 1(3) by auto
  then obtain fa2 where "init_regions rs fa1 = Some fa2" "fa_counted fa2"
    "free_set fa2 = free_set fa1 \<union> {n \<in> \<Union> (region_frames ` set rs). n < 262144}"
    using Cons.IH [OF 1(2) _ d(1)] Cons.prems(2) by auto
  then show ?case using 1 by auto
qed simp

lemma FrameAllocator_init_spec:
  assumes "length (bitmap fa) = 4096" "\<forall>r \<in> set rs. region_ok r" "regions_disjoint rs"
  shows "\<exists>fa'. FrameAllocator_init fa rs = Some fa' \<and> fa_inv fa' \<and> total_frames fa' = free_frames fa'
    \<and> free_set fa' = {n \<in> \<Union> (region_frames ` set rs). n < 262144}"
proof -
  let ?fa = "fa\<lparr> bitmap := map (\<lambda>_. NOT 0) (bitmap fa), total_frames := 0, free_frames := 0 \<rparr>"
  have e: "free_set ?fa = {}"
    using assms(1) by (auto simp: free_set_def frame_free_def bit_not_iff)
  then have "fa_counted ?fa" using assms(1) by (simp add: fa_counted_def)
  from init_regions_spec [OF this assms(2,3)] e obtain fa1 where 1: "init_regions rs ?fa = Some fa1"
    "fa_counted fa1" "free_set fa1 = {n \<in> \<Union> (region_frames ` set rs). n < 262144}"
    by auto
  have "free_set (fa1\<lparr> next_free_hint := 0 \<rparr>) = free_set fa1" by (rule free_set_cong) simp
  then show ?thesis
    using 1 by (intro exI [of _ "fa1\<lparr> next_free_hint := 0 \<rparr>"])
      (simp add: FrameAllocator_init_def Let_def fa_counted_def fa_inv_def)
qed

subsection \<open>The allocator as a source of frames\<close>

definition fa_free :: "frame_allocator \<Rightarrow> frame set" where
  "fa_free fa = {f. unat (frame_number f) \<in> free_set fa}"

lemma fa_free_physical: "f \<in> fa_free fa \<Longrightarrow> frame_physical f"
  by (simp add: fa_free_def free_set_def frame_physical_iff)

lemma unat_frame_number_eq: "unat (frame_number f) = unat n \<longleftrightarrow> f = Frame n"
  by (cases f) (simp add: word_unat_eq_iff)

lemma bij_fa_free: "bij_betw (\<lambda>f. unat (frame_number f)) (fa_free fa) (free_set fa)"
proof (rule bij_betw_imageI)
  show "inj_on (\<lambda>f. unat (frame_number f)) (fa_free fa)"
    by (rule inj_onI) (metis frame.collapse unat_frame_number_eq)
  show "(\<lambda>f. unat (frame_number f)) ` fa_free fa = free_set fa"
  proof
    show "free_set fa \<subseteq> (\<lambda>f. unat (frame_number f)) ` fa_free fa"
    proof
      fix n assume n: "n \<in> free_set fa"
      then have "n < 2 ^ 64" by (simp add: free_set_def)
      then have "unat (word_of_nat n :: usize) = n" by (simp add: unat_of_nat)
      then show "n \<in> (\<lambda>f. unat (frame_number f)) ` fa_free fa"
        using n by (intro image_eqI [of _ _ "Frame (word_of_nat n)"]) (simp_all add: fa_free_def)
    qed
  qed (auto simp: fa_free_def)
qed

lemma card_fa_free: "finite (fa_free fa)" "card (fa_free fa) = card (free_set fa)"
  using bij_betw_finite [OF bij_fa_free, of fa] bij_betw_same_card [OF bij_fa_free, of fa] by simp_all

interpretation kernel_frames: frame_source FrameAllocator_allocate_frame fa_inv fa_free
proof unfold_locales
  fix fa assume inv: "fa_inv fa"
  show "fa_free fa = {} \<Longrightarrow> FrameAllocator_allocate_frame fa = Some (None, fa)"
    using FrameAllocator_allocate_empty [OF inv] card_fa_free [of fa]
    by (simp add: FrameAllocator_allocate_frame_def)
  assume "fa_free fa \<noteq> {}"
  then have "free_set fa \<noteq> {}" by (auto simp: fa_free_def)
  then obtain n fa' where "FrameAllocator_allocate fa = Some (Inr (Frame n), fa')"
    "unat n \<in> free_set fa" "free_set fa' = free_set fa - {unat n}" "fa_inv fa'"
    by (rule FrameAllocator_allocate_free [OF inv])
  moreover from this(3) have "fa_free fa' = fa_free fa - {Frame n}"
    by (auto simp: fa_free_def unat_frame_number_eq)
  ultimately show "\<exists>f fa'. FrameAllocator_allocate_frame fa = Some (Some f, fa') \<and> f \<in> fa_free fa
      \<and> fa_free fa' = fa_free fa - {f} \<and> fa_inv fa'"
    by (intro exI [of _ "Frame n"] exI [of _ fa']) (simp add: FrameAllocator_allocate_frame_def fa_free_def)
qed (rule fa_free_physical)

subsection \<open>Boot\<close>

lemma init_frame_allocator_free_set:
  assumes "length (bitmap fa) = 4096"
    and "\<forall>r \<in> set (memory_map bi). region_ok r" "regions_disjoint (memory_map bi)"
    and k: "is_physical (kernel_start bi)"
    and f: "is_physical (framebuffer_addr (display_info bi))"
  shows "\<exists>fa'. init_frame_allocator bi fa = Some fa' \<and> fa_inv fa' \<and> free_set fa' =
    {n \<in> \<Union> (region_frames ` set (memory_map bi)). n < 262144}
    - {..<256}
    - {unat (kernel_start bi) div 4096 ..<
         unat (kernel_start bi) div 4096 + pages_spanned (kernel_end bi - kernel_start bi)}
    - {unat (framebuffer_addr (display_info bi)) div 4096 ..<
         unat (framebuffer_addr (display_info bi)) div 4096
           + pages_spanned (framebuffer_addr (display_info bi) + framebuffer_size (display_info bi))}"
proof -
  let ?fb = "framebuffer_addr (display_info bi)"
  obtain fa1 where 1: "FrameAllocator_init fa (memory_map bi) = Some fa1" "fa_inv fa1"
    "free_set fa1 = {n \<in> \<Union> (region_frames ` set (memory_map bi)). n < 262144}"
    using FrameAllocator_init_spec [OF assms(1-3)] by blast
  have "is_physical 0" by (simp add: is_physical_iff)
  from reserve_range_spec [OF 1(2) this, of MEBIBYTE] obtain fa2 where
    2: "reserve_range fa1 0 MEBIBYTE = Some fa2" "fa_inv fa2" "free_set fa2 = free_set fa1 - {..<256}"
    by (auto simp: pages_spanned_def round_up_def MEBIBYTE_def atLeast0LessThan)
  from reserve_range_spec [OF 2(2) k, of "kernel_end bi - kernel_start bi"] obtain fa3 where
    3: "reserve_range fa2 (kernel_start bi) (kernel_end bi - kernel_start bi) = Some fa3" "fa_inv fa3"
    "free_set fa3 = free_set fa2 - {unat (kernel_start bi) div 4096 ..<
         unat (kernel_start bi) div 4096 + pages_spanned (kernel_end bi - kernel_start bi)}" by metis
  from reserve_range_spec [OF 3(2) f, of "?fb + framebuffer_size (display_info bi)"] obtain fa4 where
    4: "reserve_range fa3 ?fb (?fb + framebuffer_size (display_info bi)) = Some fa4" "fa_inv fa4"
    "free_set fa4 = free_set fa3 - {unat ?fb div 4096 ..<
         unat ?fb div 4096 + pages_spanned (?fb + framebuffer_size (display_info bi))}" by metis
  have "Address_new 0 = 0" "Address_new (kernel_start bi) = kernel_start bi" "Address_new ?fb = ?fb"
    using k f by (simp_all add: Address_new_physical is_physical_iff)
  then have "init_frame_allocator bi fa = Some fa4"
    using 1(1) 2(1) 3(1) 4(1) by (simp add: init_frame_allocator_def)
  then show ?thesis using 1(3) 2(3) 3(3) 4(2,3) by (intro exI [of _ fa4]) simp
qed

lemma length_new_bitmap: "length (bitmap FrameAllocator_new) = 4096"
  by (simp only: FrameAllocator_new_def frame_allocator.select_convs length_replicate)
    (simp add: allocator_sizes)

text \<open>A small machine: five free frames from 2 MiB on.\<close>

definition sample_map :: "memory_region list" where
  "sample_map =
    [\<lparr> region_base = 0x1000, region_size = 0x1000, region_kind = Bootloader \<rparr>,
     \<lparr> region_base = 0x200000, region_size = 0x5800, region_kind = Free \<rparr>]"

definition sample_boot :: boot_info where
  "sample_boot = \<lparr> rsdp_address = None, kernel_start = 0x100000, kernel_end = 0x201000,
     memory_map = sample_map, root_object_map = [],
     display_info = \<lparr> di_width = 640, di_height = 480, di_stride = 640, di_format = BGRX8,
       framebuffer_addr = 0x80000000, framebuffer_size = 0x12C000 \<rparr> \<rparr>"

lemma sample_region_frames: "\<Union> (region_frames ` set sample_map) = {512, 513, 514, 515, 516}"
proof -
  have "(512 * 4096 \<le> n * 4096 \<and> n * 4096 + 4096 \<le> 517 * 4096 + 2048) = (n \<in> {512, 513, 514, 515, 516})"
    for n :: nat by auto
  then show ?thesis by (auto simp: sample_map_def region_frames_def)
qed

lemma sample_map_ok: "\<forall>r \<in> set sample_map. region_ok r" "regions_disjoint sample_map"
  by (simp_all add: sample_map_def region_ok_def regions_disjoint_Cons region_frames_def)
    (simp add: regions_disjoint_def)

lemma sample_allocator:
  "\<exists>fa. FrameAllocator_init FrameAllocator_new sample_map = Some fa \<and> fa_inv fa
     \<and> free_set fa = {512, 513, 514, 515, 516}"
proof -
  obtain fa where fa: "FrameAllocator_init FrameAllocator_new sample_map = Some fa" "fa_inv fa"
    "free_set fa = {n \<in> \<Union> (region_frames ` set sample_map). n < 262144}"
    using FrameAllocator_init_spec [OF length_new_bitmap sample_map_ok] by blast
  have "{n \<in> {512, 513, 514, 515, 516}. n < 262144} = {512, 513, 514, 515, 516 :: nat}" by auto
  with fa show ?thesis unfolding sample_region_frames by blast
qed

subsection \<open>Properties\<close>

text \<open>
  C22: \<^verbatim>\<open>FrameAllocator::allocate\<close> is correct on every branch. From a state whose
  counter agrees with the bitmap it never panics. When some frame is free it returns one that was
  free, marks exactly that frame as used and keeps the invariant, wherever the hint points.
  Otherwise it reports \<^verbatim>\<open>OutOfMemory\<close> and changes nothing.
\<close>

theorem allocate_correct:
  assumes "fa_inv fa"
  shows "(free_set fa = {} \<and> FrameAllocator_allocate fa = Some (Inl OutOfMemory, fa))
    \<or> (\<exists>n fa'. FrameAllocator_allocate fa = Some (Inr (Frame n), fa') \<and> unat n \<in> free_set fa
         \<and> free_set fa' = free_set fa - {unat n} \<and> fa_inv fa')"
  using FrameAllocator_allocate_empty [OF assms] FrameAllocator_allocate_free [OF assms]
  by (cases "free_set fa = {}") blast+

theorem allocate_correct_witness:
  "\<exists>fa n fa'. FrameAllocator_init FrameAllocator_new sample_map = Some fa
     \<and> FrameAllocator_allocate fa = Some (Inr (Frame n), fa') \<and> unat n \<in> {512, 513, 514, 515, 516}
     \<and> free_set fa' = {512, 513, 514, 515, 516} - {unat n}"
proof -
  obtain fa where fa: "FrameAllocator_init FrameAllocator_new sample_map = Some fa" "fa_inv fa"
    "free_set fa = {512, 513, 514, 515, 516}" using sample_allocator by blast
  from allocate_correct [OF fa(2)] obtain n fa' where
    "FrameAllocator_allocate fa = Some (Inr (Frame n), fa')" "unat n \<in> free_set fa"
    "free_set fa' = free_set fa - {unat n}" by (auto simp: fa(3))
  with fa(1) show ?thesis unfolding fa(3) by (intro exI conjI)
qed

text \<open>
  C23: \<^verbatim>\<open>FrameAllocator::deallocate\<close> is correct on every branch. It never panics from a state
  that satisfies the invariant, and keeps the invariant. A frame of the managed memory is free
  afterwards and no other frame changes, so a double free changes nothing; any other frame is
  rejected with \<^verbatim>\<open>InvalidFrame\<close> and the state is unchanged.
\<close>

theorem deallocate_correct:
  assumes "fa_inv fa"
  shows "if frame_number f < MAX_FRAMES
     then \<exists>fa'. FrameAllocator_deallocate fa f = Some (Inr (), fa') \<and> fa_inv fa'
       \<and> free_set fa' = insert (unat (frame_number f)) (free_set fa)
     else FrameAllocator_deallocate fa f = Some (Inl InvalidFrame, fa)"
proof (cases "frame_number f < MAX_FRAMES")
  case True
  obtain fa' where "FrameAllocator_deallocate fa f = Some (Inr (), fa')" "fa_inv fa'"
    "free_set fa' = insert (unat (frame_number f)) (free_set fa)"
    by (rule FrameAllocator_deallocate_spec [OF assms True])
  with True show ?thesis by simp
next
  case False
  then show ?thesis by (simp add: FrameAllocator_deallocate_def Let_def not_less)
qed

theorem deallocate_correct_witness:
  "\<exists>fa fa'. FrameAllocator_init FrameAllocator_new sample_map = Some fa
     \<and> FrameAllocator_deallocate fa (Frame 7) = Some (Inr (), fa')
     \<and> free_set fa' = {7, 512, 513, 514, 515, 516}
     \<and> FrameAllocator_deallocate fa (Frame 262144) = Some (Inl InvalidFrame, fa)"
proof -
  obtain fa where fa: "FrameAllocator_init FrameAllocator_new sample_map = Some fa" "fa_inv fa"
    "free_set fa = {512, 513, 514, 515, 516}" using sample_allocator by blast
  from deallocate_correct [OF fa(2), of "Frame 7"] obtain fa' where
    "FrameAllocator_deallocate fa (Frame 7) = Some (Inr (), fa')" "free_set fa' = insert 7 (free_set fa)"
    by (auto simp: allocator_sizes)
  moreover from deallocate_correct [OF fa(2), of "Frame 262144"]
  have "FrameAllocator_deallocate fa (Frame 262144) = Some (Inl InvalidFrame, fa)"
    by (simp add: allocator_sizes)
  ultimately show ?thesis using fa(1) unfolding fa(3) by (intro exI conjI)
qed

text \<open>
  C24: what the physical allocator owns after boot. For a memory map whose free regions lie in the
  47-bit physical range and do not overlap, and a kernel and framebuffer at physical addresses,
  the set-up of \<^verbatim>\<open>memory::init\<close> does not panic and leaves free exactly the frames
  below 1 GiB that lie wholly inside a free region, except the first MiB, the kernel image and
  the range reserved for the framebuffer. That last range extends for the framebuffer's address
  plus its size, not for its size.
\<close>

theorem boot_free_frames:
  assumes "\<forall>r \<in> set (memory_map bi). region_ok r" "regions_disjoint (memory_map bi)"
    and "is_physical (kernel_start bi)" "is_physical (framebuffer_addr (display_info bi))"
  shows "\<exists>fa'. init_frame_allocator bi FrameAllocator_new = Some fa' \<and> fa_inv fa' \<and> free_set fa' =
    {n \<in> \<Union> (region_frames ` set (memory_map bi)). n < 262144}
    - {..<256}
    - {unat (kernel_start bi) div 4096 ..<
         unat (kernel_start bi) div 4096 + pages_spanned (kernel_end bi - kernel_start bi)}
    - {unat (framebuffer_addr (display_info bi)) div 4096 ..<
         unat (framebuffer_addr (display_info bi)) div 4096
           + pages_spanned (framebuffer_addr (display_info bi) + framebuffer_size (display_info bi))}"
  by (rule init_frame_allocator_free_set [OF length_new_bitmap assms])

theorem boot_free_frames_witness:
  "\<exists>fa. init_frame_allocator sample_boot FrameAllocator_new = Some fa \<and> free_set fa = {513, 514, 515, 516}"
proof -
  have h: "is_physical (kernel_start sample_boot)"
    "is_physical (framebuffer_addr (display_info sample_boot))"
    "memory_map sample_boot = sample_map"
    by (simp_all add: sample_boot_def is_physical_iff)
  have "\<exists>fa'. init_frame_allocator sample_boot FrameAllocator_new = Some fa' \<and> free_set fa' =
      {n \<in> {512, 513, 514, 515, 516}. n < 262144} - {..<256} - {256 ..< 513} - {524288 ..< 1048876}"
    using boot_free_frames [of sample_boot, unfolded h(3), OF sample_map_ok h(1,2)]
    unfolding sample_region_frames
    by (simp add: sample_boot_def pages_spanned_def round_up_def) (elim exE conjE, intro exI conjI)
  moreover have "{n \<in> {512, 513, 514, 515, 516}. n < 262144} - {..<256} - {256 ..< 513} - {524288 ..< 1048876}
      = {513, 514, 515, 516 :: nat}" by auto
  ultimately show ?thesis by simp
qed

text \<open>
  Allocating a frame and giving it back restores the set of free frames. The boot self-test
  \<^verbatim>\<open>initial_frame_allocation_test\<close> panics exactly when no frame is free, and otherwise
  leaves the same frames free.
\<close>

lemma allocation_test_roundtrip:
  assumes "fa_inv fa"
  shows "(initial_frame_allocation_test fa = None \<longleftrightarrow> free_set fa = {})
    \<and> (\<forall>fa'. initial_frame_allocation_test fa = Some fa' \<longrightarrow> fa_inv fa' \<and> free_set fa' = free_set fa)"
proof (cases "free_set fa = {}")
  case True
  then show ?thesis
    using FrameAllocator_allocate_empty [OF assms] by (simp add: initial_frame_allocation_test_def)
next
  case False
  obtain n fa1 where 1: "FrameAllocator_allocate fa = Some (Inr (Frame n), fa1)"
    "unat n \<in> free_set fa" "free_set fa1 = free_set fa - {unat n}" "fa_inv fa1"
    by (rule FrameAllocator_allocate_free [OF assms False])
  have "frame_number (Frame n) < MAX_FRAMES"
    using 1(2) by (simp add: free_set_def allocator_sizes word_less_nat_alt)
  from FrameAllocator_deallocate_spec [OF 1(4) this] obtain fa2 where
    "FrameAllocator_deallocate fa1 (Frame n) = Some (Inr (), fa2)" "fa_inv fa2"
    "free_set fa2 = insert (unat n) (free_set fa1)" by (metis frame.sel)
  then show ?thesis
    using 1 False by (auto simp: initial_frame_allocation_test_def)
qed

lemma allocation_test_roundtrip_witness:
  "\<exists>fa fa'. FrameAllocator_init FrameAllocator_new sample_map = Some fa
     \<and> initial_frame_allocation_test fa = Some fa' \<and> free_set fa' = {512, 513, 514, 515, 516}"
proof -
  obtain fa where fa: "FrameAllocator_init FrameAllocator_new sample_map = Some fa" "fa_inv fa"
    "free_set fa = {512, 513, 514, 515, 516}" using sample_allocator by blast
  from allocation_test_roundtrip [OF fa(2)] fa(3) obtain fa' where
    "initial_frame_allocation_test fa = Some fa'" by auto
  moreover from this allocation_test_roundtrip [OF fa(2)] have "free_set fa' = {512, 513, 514, 515, 516}"
    by (simp add: fa(3))
  ultimately show ?thesis using fa(1) by (intro exI conjI)
qed

end
