(* ===== verification/Heap_LLFF.thy ===== *)
theory Heap_LLFF
  imports Memory_Types
begin

section \<open>The userspace heap (crates/heap)\<close>

text \<open>
  The linked-list first-fit allocator behind every userspace process. A free
  region of memory holds a \<^verbatim>\<open>Hole\<close> with its size and a unique reference to the next
  hole, so the chain \<^verbatim>\<open>first -> next -> ...\<close> is modelled as the list of its holes with
  their addresses; the head of the list is the dummy hole of size 0 kept in
  \<^verbatim>\<open>HoleList\<close>. Addresses and sizes are 64-bit words and wrap where the source wraps.
\<close>

subsection \<open>Layouts\<close>

record layout =
  lay_size :: usize
  lay_align :: usize

text \<open>\<^verbatim>\<open>Layout::from_size_align\<close> of the standard library: the alignment is a power of two
  and the size rounded up to it does not exceed \<^verbatim>\<open>isize::MAX\<close>.\<close>

definition Layout_from_size_align :: "usize \<Rightarrow> usize \<Rightarrow> layout option" where
  "Layout_from_size_align sz align =
     (if is_power_of_two align \<and> sz \<le> 2 ^ 63 - align
      then Some \<lparr> lay_size = sz, lay_align = align \<rparr> else None)"

definition layout_ok :: "layout \<Rightarrow> bool" where
  "layout_ok l \<longleftrightarrow> Layout_from_size_align (lay_size l) (lay_align l) = Some l"

subsection \<open>Holes\<close>

record hole =
  h_addr :: usize
  h_size :: usize

text \<open>\<^verbatim>\<open>HoleInfo\<close> has the fields of a hole without the link, so both are this record.\<close>

record allocation =
  al_info :: hole
  front_padding :: "hole option"
  back_padding :: "hole option"

type_synonym hole_list = "hole list"

definition MIN_ALLOC_SIZE :: usize where "MIN_ALLOC_SIZE = 16"
definition HOLE_ALIGN :: usize where "HOLE_ALIGN = 8"

record heap =
  used :: usize
  holes :: hole_list

definition HoleList_empty :: "usize \<Rightarrow> hole_list" where
  "HoleList_empty self_addr = [\<lparr> h_addr = self_addr, h_size = 0 \<rparr>]"

definition Heap_empty :: "usize \<Rightarrow> heap" where
  "Heap_empty self_addr = \<lparr> used = 0, holes = HoleList_empty self_addr \<rparr>"

definition HoleList_init :: "hole_list \<Rightarrow> usize \<Rightarrow> usize \<Rightarrow> hole_list" where
  "HoleList_init hl hole_addr hole_size =
     (let aligned_hole_addr = align_up hole_addr HOLE_ALIGN in
      [\<lparr> h_addr = h_addr (hd hl), h_size = 0 \<rparr>,
       \<lparr> h_addr = aligned_hole_addr,
         h_size = saturating_sub hole_size (aligned_hole_addr - hole_addr) \<rparr>])"

definition Heap_init :: "heap \<Rightarrow> usize \<Rightarrow> usize \<Rightarrow> heap" where
  "Heap_init h heap_bottom heap_size =
     h\<lparr> used := 0, holes := HoleList_init (holes h) heap_bottom heap_size \<rparr>"

definition align_layout_for_hole :: "layout \<Rightarrow> layout rust" where
  "align_layout_for_hole l =
     (let sz = lay_size l;
          sz = (if sz < MIN_ALLOC_SIZE then MIN_ALLOC_SIZE else sz);
          sz = align_up sz HOLE_ALIGN
      in Layout_from_size_align sz (lay_align l))"

subsection \<open>Allocation\<close>

definition split_hole :: "hole \<Rightarrow> layout \<Rightarrow> allocation option" where
  "split_hole hole required_layout =
     (let required_size = lay_size required_layout;
          required_align = lay_align required_layout;
          (aligned_addr, front) =
            (if h_addr hole = align_up (h_addr hole) required_align then (h_addr hole, None)
             else let aligned_addr = align_up (h_addr hole + MIN_ALLOC_SIZE) required_align in
               (aligned_addr, Some \<lparr> h_addr = h_addr hole, h_size = aligned_addr - h_addr hole \<rparr>))
      in
      if aligned_addr + required_size > h_addr hole + h_size hole then None
      else
        let aligned_hole = \<lparr> h_addr = aligned_addr, h_size = h_size hole - (aligned_addr - h_addr hole) \<rparr> in
        if h_size aligned_hole = required_size then
          Some \<lparr> al_info = \<lparr> h_addr = h_addr aligned_hole, h_size = required_size \<rparr>,
                 front_padding = front, back_padding = None \<rparr>
        else if h_size aligned_hole - required_size < MIN_ALLOC_SIZE then None
        else
          Some \<lparr> al_info = \<lparr> h_addr = h_addr aligned_hole, h_size = required_size \<rparr>,
                 front_padding = front,
                 back_padding = Some \<lparr> h_addr = h_addr aligned_hole + required_size,
                                       h_size = h_size aligned_hole - required_size \<rparr> \<rparr>)"

definition option_list :: "'a option \<Rightarrow> 'a list" where
  "option_list x = (case x of None \<Rightarrow> [] | Some a \<Rightarrow> [a])"

text \<open>The paddings are written at their addresses, which must not be null: that write is undefined.\<close>

fun allocate_first_fit :: "hole_list \<Rightarrow> layout \<Rightarrow> ((unit + hole) \<times> hole_list) rust" where
  "allocate_first_fit [] l = Some (Inl (), [])"
| "allocate_first_fit [previous] l = Some (Inl (), [previous])"
| "allocate_first_fit (previous # current # rest) l =
     (case split_hole current l of
        Some a \<Rightarrow> do {
          let padding = option_list (front_padding a) @ option_list (back_padding a);
          rust_assert (\<forall>p \<in> set padding. h_addr p \<noteq> 0);
          Some (Inr (al_info a), previous # padding @ rest)
        }
      | None \<Rightarrow> do {
          (r, hs) \<leftarrow> allocate_first_fit (current # rest) l;
          Some (r, previous # hs)
        })"

definition HoleList_allocate_first_fit ::
    "hole_list \<Rightarrow> layout \<Rightarrow> ((unit + usize \<times> layout) \<times> hole_list) rust" where
  "HoleList_allocate_first_fit hl l = do {
     aligned_layout \<leftarrow> align_layout_for_hole l;
     (r, hl) \<leftarrow> allocate_first_fit hl aligned_layout;
     case r of
       Inl e \<Rightarrow> Some (Inl e, hl)
     | Inr info \<Rightarrow>
         if h_addr info = 0 then panic else Some (Inr (h_addr info, aligned_layout), hl)
   }"

definition Heap_allocate_first_fit :: "heap \<Rightarrow> layout \<Rightarrow> ((unit + usize) \<times> heap) rust" where
  "Heap_allocate_first_fit h l = do {
     (r, hl) \<leftarrow> HoleList_allocate_first_fit (holes h) l;
     case r of
       Inr (ptr, aligned_layout) \<Rightarrow>
         Some (Inr ptr, h\<lparr> used := used h + lay_size aligned_layout, holes := hl \<rparr>)
     | Inl err \<Rightarrow> Some (Inl err, h\<lparr> holes := hl \<rparr>)
   }"

subsection \<open>Deallocation\<close>

text \<open>The head of the list is the hole the loop stands at.\<close>

function deallocate :: "hole_list \<Rightarrow> usize \<Rightarrow> usize \<Rightarrow> hole_list rust" where
  "deallocate [] addr sz = panic"
| "deallocate (hole # hs) addr sz =
     (if \<not> sz \<ge> MIN_ALLOC_SIZE then panic
      else let hole_addr = (if h_size hole = 0 then 0 else h_addr hole) in
      if \<not> hole_addr + h_size hole \<le> addr then panic
      else case hs of
        [] \<Rightarrow>
          if hole_addr + h_size hole = addr then Some [hole\<lparr> h_size := h_size hole + sz \<rparr>]
          else Some [hole, \<lparr> h_addr = addr, h_size = sz \<rparr>]
      | next # rest \<Rightarrow>
          if hole_addr + h_size hole = addr \<and> addr + sz = h_addr next
          then Some (hole\<lparr> h_size := h_size hole + (sz + h_size next) \<rparr> # rest)
          else if hole_addr + h_size hole = addr
          then Some (hole\<lparr> h_size := h_size hole + sz \<rparr> # hs)
          else if addr + sz = h_addr next
          then deallocate (hole # rest) addr (sz + h_size next)
          else if h_addr next \<le> addr
          then map_option (Cons hole) (deallocate (next # rest) addr sz)
          else Some (hole # \<lparr> h_addr = addr, h_size = sz \<rparr> # hs))"
  by pat_completeness auto
termination
  by (relation "measure (\<lambda>(hl, _, _). length hl)") auto

definition HoleList_deallocate :: "hole_list \<Rightarrow> usize \<Rightarrow> layout \<Rightarrow> (layout \<times> hole_list) rust" where
  "HoleList_deallocate hl ptr l = do {
     aligned_layout \<leftarrow> align_layout_for_hole l;
     hl \<leftarrow> deallocate hl ptr (lay_size aligned_layout);
     Some (aligned_layout, hl)
   }"

definition Heap_deallocate :: "heap \<Rightarrow> usize \<Rightarrow> layout \<Rightarrow> heap rust" where
  "Heap_deallocate h ptr l = do {
     (aligned_layout, hl) \<leftarrow> HoleList_deallocate (holes h) ptr l;
     Some (h\<lparr> used := used h - lay_size aligned_layout, holes := hl \<rparr>)
   }"

subsection \<open>The global allocator (heap.rs)\<close>

definition HEAP_BASE_ADDR :: usize where
  "HEAP_BASE_ADDR = AddressDomain_base_addr UserHeap"
definition HEAP_DEFAULT_SIZE :: usize where
  "HEAP_DEFAULT_SIZE = 8 * MEBIBYTE"

definition Allocator_alloc :: "heap \<Rightarrow> layout \<Rightarrow> (usize \<times> heap) rust" where
  "Allocator_alloc h l = do {
     (r, h) \<leftarrow> Heap_allocate_first_fit h l;
     Some (case r of Inl _ \<Rightarrow> 0 | Inr ptr \<Rightarrow> ptr, h)
   }"

definition Allocator_dealloc :: "heap \<Rightarrow> usize \<Rightarrow> layout \<Rightarrow> heap rust" where
  "Allocator_dealloc h ptr l = Heap_deallocate h ptr l"

subsection \<open>Blocks and the invariant of the hole list\<close>

definition bytes :: "hole \<Rightarrow> nat set" where
  "bytes h = {unat (h_addr h) ..< unat (h_addr h) + unat (h_size h)}"

definition free_bytes :: "hole list \<Rightarrow> nat set" where
  "free_bytes hs = \<Union> (bytes ` set hs)"

definition block_ok :: "nat \<Rightarrow> nat \<Rightarrow> hole \<Rightarrow> bool" where
  "block_ok lo hi h \<longleftrightarrow> lo \<le> unat (h_addr h) \<and> unat (h_addr h) + unat (h_size h) \<le> hi
     \<and> 16 \<le> unat (h_size h) \<and> 8 dvd unat (h_addr h) \<and> 8 dvd unat (h_size h)"

text \<open>The holes behind the dummy: in address order, never adjacent, within the heap.\<close>

fun holes_ok :: "nat \<Rightarrow> nat \<Rightarrow> hole list \<Rightarrow> bool" where
  "holes_ok lo hi [] \<longleftrightarrow> True"
| "holes_ok lo hi (h # hs) \<longleftrightarrow>
     block_ok lo hi h \<and> holes_ok (Suc (unat (h_addr h) + unat (h_size h))) hi hs"

text \<open>A layout as \<^verbatim>\<open>align_layout_for_hole\<close> makes it, small enough that no address computed
  for it passes the end of the address space.\<close>

definition request_ok :: "nat \<Rightarrow> layout \<Rightarrow> bool" where
  "request_ok hi l \<longleftrightarrow> is_power_of_two (lay_align l) \<and> 16 \<le> unat (lay_size l) \<and> 8 dvd unat (lay_size l)
     \<and> hi + unat (lay_size l) + unat (lay_align l) + 16 \<le> 2 ^ 64"

text \<open>Where a block is placed in a hole.\<close>

definition fit_addr :: "hole \<Rightarrow> layout \<Rightarrow> nat" where
  "fit_addr h l =
     (if unat (lay_align l) dvd unat (h_addr h) then unat (h_addr h)
      else round_up (unat (h_addr h) + 16) (unat (lay_align l)))"

lemma holes_ok_mono: "holes_ok lo hi hs \<Longrightarrow> lo' \<le> lo \<Longrightarrow> holes_ok lo' hi hs"
  by (cases hs) (auto simp: block_ok_def)

lemma holes_ok_bounds: "holes_ok lo hi hs \<Longrightarrow> x \<in> free_bytes hs \<Longrightarrow> lo \<le> x \<and> x < hi"
proof (induction hs arbitrary: lo)
  case (Cons h hs)
  then consider "x \<in> bytes h" | "x \<in> free_bytes hs" by (auto simp: free_bytes_def)
  then show ?case
  proof cases
    case 2
    from Cons.IH [OF _ 2] Cons.prems(1) show ?thesis by (fastforce simp: block_ok_def)
  qed (use Cons.prems(1) in \<open>auto simp: bytes_def block_ok_def\<close>)
qed (simp add: free_bytes_def)

lemma free_bytes_simps [simp]:
  "free_bytes [] = {}" "free_bytes (h # hs) = bytes h \<union> free_bytes hs"
  "free_bytes (hs @ hs') = free_bytes hs \<union> free_bytes hs'"
  by (auto simp: free_bytes_def)

lemma round_up_eq_iff: "0 < m \<Longrightarrow> round_up n m = n \<longleftrightarrow> m dvd n"
  by (metis round_up_dvd round_up_id)

lemma pow2_align:
  assumes "is_power_of_two (w :: usize)"
  obtains k where "k < 64" "w = 2 ^ k" "unat w = 2 ^ k"
  using assms unat_pow2 [where ?'a = 64] by (auto simp: is_power_of_two_iff)

lemma fit_addr_props:
  assumes b: "block_ok lo hi h" and r: "request_ok hi l"
  shows "unat (lay_align l) dvd fit_addr h l" "8 dvd fit_addr h l" "unat (h_addr h) \<le> fit_addr h l"
    and "fit_addr h l \<le> unat (h_addr h) + 15 + unat (lay_align l)"
    and "fit_addr h l \<noteq> unat (h_addr h) \<Longrightarrow> unat (h_addr h) + 16 \<le> fit_addr h l"
proof -
  obtain k where k: "lay_align l = 2 ^ k" "unat (lay_align l) = 2 ^ k"
    using r by (auto simp: request_ok_def elim: pow2_align)
  have pos: "0 < (2 :: nat) ^ k" by simp
  show "unat (lay_align l) dvd fit_addr h l" by (simp add: fit_addr_def)
  note ge = round_up_ge [OF pos, of "unat (h_addr h) + 16"]
  note le = round_up_le [OF pos, of "unat (h_addr h) + 16"]
  show "unat (h_addr h) \<le> fit_addr h l" using ge by (simp add: fit_addr_def k(2))
  show "fit_addr h l \<le> unat (h_addr h) + 15 + unat (lay_align l)"
    using le by (simp add: fit_addr_def k(2))
  show "fit_addr h l \<noteq> unat (h_addr h) \<Longrightarrow> unat (h_addr h) + 16 \<le> fit_addr h l"
    using ge by (simp add: fit_addr_def k(2) split: if_splits)
  show "8 dvd fit_addr h l"
  proof (cases "2 ^ k dvd unat (h_addr h)")
    case True
    then show ?thesis using b by (simp add: fit_addr_def k(2) block_ok_def)
  next
    case False
    have "3 \<le> k"
    proof (rule ccontr)
      assume "\<not> 3 \<le> k"
      then have "(2 :: nat) ^ k dvd 2 ^ 3" by (intro le_imp_power_dvd) simp
      then show False using False b dvd_trans [of "2 ^ k" 8 "unat (h_addr h)"] by (simp add: block_ok_def)
    qed
    then have "(2 :: nat) ^ 3 dvd 2 ^ k" by (rule le_imp_power_dvd)
    then have "8 dvd (2 :: nat) ^ k" by simp
    then show ?thesis
      using False dvd_trans [OF _ round_up_dvd] by (simp add: fit_addr_def k(2))
  qed
qed

lemma split_hole_words:
  assumes b: "block_ok lo hi h" and r: "request_ok hi l"
  defines "x \<equiv> if h_addr h = align_up (h_addr h) (lay_align l) then h_addr h
      else align_up (h_addr h + MIN_ALLOC_SIZE) (lay_align l)"
  shows "unat x = fit_addr h l" "x = h_addr h \<longleftrightarrow> h_addr h = align_up (h_addr h) (lay_align l)"
    and "unat (x + lay_size l) = fit_addr h l + unat (lay_size l)"
    and "unat (h_addr h + h_size h) = unat (h_addr h) + unat (h_size h)"
proof -
  obtain k where k: "k < 64" "lay_align l = 2 ^ k" "unat (lay_align l) = 2 ^ k"
    using r by (auto simp: request_ok_def elim: pow2_align)
  have lim: "unat (h_addr h) + unat (h_size h) + unat (lay_size l) + 2 ^ k + 16 \<le> 2 ^ 64"
    using b r by (simp add: block_ok_def request_ok_def k(3))
  have pos: "0 < (2 :: nat) ^ k" by simp
  have up: "unat (align_up (h_addr h) (lay_align l)) = round_up (unat (h_addr h)) (2 ^ k)"
    using lim k(1) unfolding k(2) by (intro unat_align_up) simp_all
  then have al: "h_addr h = align_up (h_addr h) (lay_align l) \<longleftrightarrow> 2 ^ k dvd unat (h_addr h)"
    using round_up_eq_iff [OF pos, of "unat (h_addr h)"] by (metis word_unat_eq_iff)
  have a16: "unat (h_addr h + MIN_ALLOC_SIZE) = unat (h_addr h) + 16"
    using lim b by (subst unat_add_no_overflow) (simp_all add: MIN_ALLOC_SIZE_def block_ok_def)
  have "unat (align_up (h_addr h + MIN_ALLOC_SIZE) (lay_align l)) = round_up (unat (h_addr h) + 16) (2 ^ k)"
    using lim k(1) a16 unfolding k(2) by (subst unat_align_up) simp_all
  then show x: "unat x = fit_addr h l" by (simp add: x_def fit_addr_def al k(3))
  show "x = h_addr h \<longleftrightarrow> h_addr h = align_up (h_addr h) (lay_align l)"
  proof
    assume "x = h_addr h"
    then have "fit_addr h l = unat (h_addr h)" using x by simp
    then have "2 ^ k dvd unat (h_addr h)" using fit_addr_props(1) [OF b r] k(3) by metis
    then show "h_addr h = align_up (h_addr h) (lay_align l)" by (simp only: al)
  qed (simp add: x_def)
  show "unat (x + lay_size l) = fit_addr h l + unat (lay_size l)"
    using lim fit_addr_props(4) [OF b r] b unfolding x [symmetric]
    by (intro unat_add_no_overflow) (simp add: k(3) block_ok_def)
  show "unat (h_addr h + h_size h) = unat (h_addr h) + unat (h_size h)"
    using lim by (intro unat_add_no_overflow) simp
qed

text \<open>The parts of a hole that is split: padding, block, padding.\<close>

definition split_into :: "hole \<Rightarrow> layout \<Rightarrow> allocation \<Rightarrow> bool" where
  "split_into h l a \<longleftrightarrow>
     unat (h_addr (al_info a)) = fit_addr h l \<and> h_size (al_info a) = lay_size l \<and>
     fit_addr h l + unat (lay_size l) \<le> unat (h_addr h) + unat (h_size h) \<and>
     (case front_padding a of
        None \<Rightarrow> fit_addr h l = unat (h_addr h)
      | Some f \<Rightarrow> unat (h_addr f) = unat (h_addr h) \<and> 16 \<le> unat (h_size f)
          \<and> unat (h_addr f) + unat (h_size f) = fit_addr h l) \<and>
     (case back_padding a of
        None \<Rightarrow> fit_addr h l + unat (lay_size l) = unat (h_addr h) + unat (h_size h)
      | Some b \<Rightarrow> unat (h_addr b) = fit_addr h l + unat (lay_size l) \<and> 16 \<le> unat (h_size b)
          \<and> unat (h_addr b) + unat (h_size b) = unat (h_addr h) + unat (h_size h))"

definition fits :: "hole \<Rightarrow> layout \<Rightarrow> bool" where
  "fits h l \<longleftrightarrow>
     fit_addr h l + unat (lay_size l) = unat (h_addr h) + unat (h_size h) \<or>
     fit_addr h l + unat (lay_size l) + 16 \<le> unat (h_addr h) + unat (h_size h)"

lemma split_hole_cases:
  assumes b: "block_ok lo hi h" and r: "request_ok hi l"
  shows "if fits h l then \<exists>a. split_hole h l = Some a \<and> split_into h l a else split_hole h l = None"
proof -
  define x where "x = (if h_addr h = align_up (h_addr h) (lay_align l) then h_addr h
      else align_up (h_addr h + MIN_ALLOC_SIZE) (lay_align l))"
  define front where "front = (if x = h_addr h then None
      else Some \<lparr> h_addr = h_addr h, h_size = x - h_addr h \<rparr>)"
  note w = split_hole_words [OF b r, folded x_def]
  let ?f = "fit_addr h l" and ?a = "unat (h_addr h)" and ?s = "unat (h_size h)" and ?r = "unat (lay_size l)"
  define rest where "rest = h_size h - (x - h_addr h)"
  have sp: "split_hole h l =
      (if x + lay_size l > h_addr h + h_size h then None
       else if rest = lay_size l then
         Some \<lparr> al_info = \<lparr> h_addr = x, h_size = lay_size l \<rparr>, front_padding = front, back_padding = None \<rparr>
       else if rest - lay_size l < MIN_ALLOC_SIZE then None
       else Some \<lparr> al_info = \<lparr> h_addr = x, h_size = lay_size l \<rparr>, front_padding = front,
              back_padding = Some \<lparr> h_addr = x + lay_size l, h_size = rest - lay_size l \<rparr> \<rparr>)"
  proof (cases "h_addr h = align_up (h_addr h) (lay_align l)")
    case True
    then have "x = h_addr h" by (simp add: x_def)
    with True show ?thesis by (simp add: split_hole_def Let_def front_def rest_def)
  next
    case False
    then have "x \<noteq> h_addr h" "align_up (h_addr h + MIN_ALLOC_SIZE) (lay_align l) = x"
      using w(2) by (simp_all add: x_def)
    with False show ?thesis by (simp add: split_hole_def Let_def front_def rest_def)
  qed
  have ge: "?a \<le> ?f" by (rule fit_addr_props(3) [OF b r])
  then have xa: "unat (x - h_addr h) = ?f - ?a" by (subst unat_sub) (simp_all add: word_le_nat_alt w(1))
  have fr: "case front of None \<Rightarrow> ?f = ?a
      | Some f \<Rightarrow> unat (h_addr f) = ?a \<and> 16 \<le> unat (h_size f) \<and> unat (h_addr f) + unat (h_size f) = ?f"
    using fit_addr_props(5) [OF b r] ge w(1) by (auto simp: front_def xa word_unat_eq_iff)
  have big: "x + lay_size l > h_addr h + h_size h \<longleftrightarrow> ?a + ?s < ?f + ?r"
    by (simp add: word_less_nat_alt w(3,4))
  show ?thesis
  proof (cases "?a + ?s < ?f + ?r")
    case True
    then show ?thesis using sp big by (simp add: fits_def)
  next
    case False
    then have re: "unat rest = ?a + ?s - ?f"
      unfolding rest_def by (subst unat_sub) (use ge xa in \<open>simp_all add: word_le_nat_alt\<close>)
    have e: "rest = lay_size l \<longleftrightarrow> ?f + ?r = ?a + ?s"
      using False ge by (auto simp: word_unat_eq_iff re)
    have rr: "unat (rest - lay_size l) = ?a + ?s - ?f - ?r"
      using False by (subst unat_sub) (simp_all add: word_le_nat_alt re)
    have m: "rest - lay_size l < MIN_ALLOC_SIZE \<longleftrightarrow> ?a + ?s < ?f + ?r + 16"
      using False by (simp add: word_less_nat_alt MIN_ALLOC_SIZE_def rr less_diff_conv2) linarith
    show ?thesis
      using False fr by (auto simp: sp big e m fits_def split_into_def w(1,3) rr)
  qed
qed

lemma split_into_parts:
  assumes b: "block_ok lo hi h" and r: "request_ok hi l" and s: "split_into h l a"
  shows "block_ok lo hi (al_info a)" "unat (lay_align l) dvd unat (h_addr (al_info a))"
    and "bytes (al_info a) \<subseteq> bytes h"
    and "free_bytes (option_list (front_padding a) @ option_list (back_padding a))
      = bytes h - bytes (al_info a)"
    and "holes_ok (Suc (unat (h_addr h) + unat (h_size h))) hi hs \<Longrightarrow>
      holes_ok lo hi (option_list (front_padding a) @ option_list (back_padding a) @ hs)"
proof -
  note p = fit_addr_props [OF b r]
  have d: "8 dvd unat (lay_size l)" "16 \<le> unat (lay_size l)" using r by (simp_all add: request_ok_def)
  have hd: "8 dvd unat (h_addr h)" "8 dvd unat (h_addr h) + unat (h_size h)"
    using b by (simp_all add: block_ok_def)
  show "block_ok lo hi (al_info a)" "unat (lay_align l) dvd unat (h_addr (al_info a))"
    "bytes (al_info a) \<subseteq> bytes h"
    using s p d b by (auto simp: split_into_def block_ok_def bytes_def)
  show "free_bytes (option_list (front_padding a) @ option_list (back_padding a))
      = bytes h - bytes (al_info a)"
    using s p(3) by (auto simp: split_into_def bytes_def option_list_def split: option.splits)
  assume hs: "holes_ok (Suc (unat (h_addr h) + unat (h_size h))) hi hs"
  have fr: "8 dvd unat (h_size f)" if "front_padding a = Some f" for f
  proof -
    have e: "unat (h_addr f) + unat (h_size f) = fit_addr h l" "unat (h_addr f) = unat (h_addr h)"
      using s that by (simp_all add: split_into_def)
    have "8 dvd unat (h_addr f) + unat (h_size f)" using p(2) by (simp only: e(1))
    moreover have "8 dvd unat (h_addr f)" using hd(1) by (simp only: e(2))
    ultimately show ?thesis by (simp add: dvd_add_right_iff)
  qed
  have bk: "8 dvd unat (h_size f)" "8 dvd unat (h_addr f)"
    "holes_ok (Suc (unat (h_addr f) + unat (h_size f))) hi hs" if "back_padding a = Some f" for f
  proof -
    have e: "unat (h_addr f) + unat (h_size f) = unat (h_addr h) + unat (h_size h)"
      "unat (h_addr f) = fit_addr h l + unat (lay_size l)"
      using s that by (simp_all add: split_into_def)
    show "holes_ok (Suc (unat (h_addr f) + unat (h_size f))) hi hs" using hs by (simp only: e(1))
    have "8 dvd unat (h_addr f) + unat (h_size f)" using hd(2) by (simp only: e(1))
    moreover have "8 dvd unat (h_addr f)" using p(2) d(1) by (simp add: e(2))
    ultimately show "8 dvd unat (h_size f)" "8 dvd unat (h_addr f)" by (simp_all add: dvd_add_right_iff)
  qed
  show "holes_ok lo hi (option_list (front_padding a) @ option_list (back_padding a) @ hs)"
    using s b hs fr bk d p(3)
      holes_ok_mono [OF hs, of lo] holes_ok_mono [OF hs, of "Suc (fit_addr h l)"]
    by (auto simp: split_into_def block_ok_def option_list_def split: option.splits)
qed

lemma split_into_nonnull:
  assumes "block_ok lo hi h" "request_ok hi l" and s: "split_into h l a"
  shows "\<forall>p \<in> set (option_list (front_padding a) @ option_list (back_padding a)). h_addr p \<noteq> 0"
proof -
  have "fit_addr h l = 0" if "unat (h_addr h) = 0"
    using that by (simp add: fit_addr_def)
  then show ?thesis
    using assms by (auto simp: split_into_def request_ok_def option_list_def split: option.splits)
qed

subsection \<open>First fit\<close>

lemma allocate_first_fit_spec:
  assumes "holes_ok lo hi hs" and r: "request_ok hi l"
  shows "\<exists>res hl. allocate_first_fit (d # hs) l = Some (res, hl) \<and>
    (case res of
       Inl _ \<Rightarrow> hl = d # hs \<and> (\<forall>h \<in> set hs. \<not> fits h l)
     | Inr b \<Rightarrow> \<exists>hs'. hl = d # hs' \<and> holes_ok lo hi hs' \<and> block_ok lo hi b \<and> h_size b = lay_size l
         \<and> unat (lay_align l) dvd unat (h_addr b)
         \<and> bytes b \<subseteq> free_bytes hs \<and> free_bytes hs' = free_bytes hs - bytes b)"
  using assms(1)
proof (induction hs arbitrary: lo d)
  case (Cons h hs)
  have b: "block_ok lo hi h" and hs: "holes_ok (Suc (unat (h_addr h) + unat (h_size h))) hi hs"
    using Cons.prems by simp_all
  have dis: "bytes h \<inter> free_bytes hs = {}"
    using holes_ok_bounds [OF hs] by (fastforce simp: bytes_def)
  show ?case
  proof (cases "fits h l")
    case True
    then obtain a where a: "split_hole h l = Some a" "split_into h l a"
      using split_hole_cases [OF b r] by auto
    note p = split_into_parts [OF b r a(2)]
    have "\<forall>p \<in> set (option_list (front_padding a) @ option_list (back_padding a)). h_addr p \<noteq> 0"
      by (rule split_into_nonnull [OF b r a(2)])
    moreover have "h_size (al_info a) = lay_size l" using a(2) by (simp add: split_into_def)
    moreover have "free_bytes (option_list (front_padding a) @ option_list (back_padding a) @ hs)
        = free_bytes (h # hs) - bytes (al_info a)"
      using p(3,4) dis by auto
    ultimately show ?thesis using a(1) p(1,2,3) p(5) [OF hs] by (auto simp: Let_def)
  next
    case False
    then have n: "split_hole h l = None" using split_hole_cases [OF b r] by auto
    obtain res hl where ih: "allocate_first_fit (h # hs) l = Some (res, hl)" using Cons.IH [OF hs, of h] by auto
    show ?thesis
    proof (cases res)
      case (Inl e)
      then show ?thesis using Cons.IH [OF hs, of h] ih n False by auto
    next
      case (Inr blk)
      then obtain hs' where hs': "hl = h # hs'" "holes_ok (Suc (unat (h_addr h) + unat (h_size h))) hi hs'"
        "block_ok (Suc (unat (h_addr h) + unat (h_size h))) hi blk" "h_size blk = lay_size l"
        "unat (lay_align l) dvd unat (h_addr blk)"
        "bytes blk \<subseteq> free_bytes hs" "free_bytes hs' = free_bytes hs - bytes blk"
        using Cons.IH [OF hs, of h] ih by auto
      moreover have "block_ok lo hi blk" using hs'(3) b by (simp add: block_ok_def)
      moreover have "bytes h \<union> (free_bytes hs - bytes blk) = bytes h \<union> free_bytes hs - bytes blk"
        using dis hs'(6) by blast
      ultimately show ?thesis using ih n Inr b by auto
    qed
  qed
qed simp

subsection \<open>Deallocation keeps the list coalesced\<close>

lemma hole_words:
  assumes "block_ok lo hi h" "hi < 2 ^ 64"
  shows "unat (h_addr h + h_size h) = unat (h_addr h) + unat (h_size h)" "h_size h \<noteq> 0"
    and "h_size h \<ge> MIN_ALLOC_SIZE"
  using assms by (auto simp: block_ok_def MIN_ALLOC_SIZE_def word_le_nat_alt intro!: unat_add_no_overflow)

lemma merge_next:
  assumes b: "block_ok lo hi b" and n: "block_ok lo' hi n"
    and adj: "h_addr b + h_size b = h_addr n" and hi: "hi < 2 ^ 64"
  shows "unat (h_size b + h_size n) = unat (h_size b) + unat (h_size n)"
    and "unat (h_addr n) = unat (h_addr b) + unat (h_size b)"
    and "block_ok lo hi (b\<lparr> h_size := h_size b + h_size n \<rparr>)"
    and "bytes (b\<lparr> h_size := h_size b + h_size n \<rparr>) = bytes b \<union> bytes n"
proof -
  show e: "unat (h_addr n) = unat (h_addr b) + unat (h_size b)"
    using hole_words(1) [OF b hi] adj by simp
  have "unat (h_addr b) + unat (h_size b) + unat (h_size n) \<le> hi" using n e by (simp add: block_ok_def)
  then show u: "unat (h_size b + h_size n) = unat (h_size b) + unat (h_size n)"
    using hi by (intro unat_add_no_overflow) simp
  show "block_ok lo hi (b\<lparr> h_size := h_size b + h_size n \<rparr>)"
    using b n u e by (simp add: block_ok_def)
  show "bytes (b\<lparr> h_size := h_size b + h_size n \<rparr>) = bytes b \<union> bytes n"
    using u e by (auto simp: bytes_def)
qed

lemma block_order:
  assumes b: "block_ok lo hi b" and n: "block_ok lo' hi n" and dis: "bytes b \<inter> bytes n = {}"
  shows "h_addr n \<le> h_addr b \<Longrightarrow> unat (h_addr n) + unat (h_size n) \<le> unat (h_addr b)"
    and "\<not> h_addr n \<le> h_addr b \<Longrightarrow> unat (h_addr b) + unat (h_size b) \<le> unat (h_addr n)"
proof -
  have "unat (h_addr b) \<notin> bytes n" "unat (h_addr n) \<notin> bytes b"
    using dis b n by (auto simp: bytes_def block_ok_def)
  then show "h_addr n \<le> h_addr b \<Longrightarrow> unat (h_addr n) + unat (h_size n) \<le> unat (h_addr b)"
    and "\<not> h_addr n \<le> h_addr b \<Longrightarrow> unat (h_addr b) + unat (h_size b) \<le> unat (h_addr n)"
    by (auto simp: bytes_def word_le_nat_alt)
qed

text \<open>A block that does not touch the holes around it.\<close>

lemma block_apart:
  assumes "block_ok lo hi b" "hi < 2 ^ 64" "unat (h_addr b) + unat (h_size b) \<le> k"
    and "h_addr b + h_size b \<noteq> x" "k = unat x"
  shows "unat (h_addr b) + unat (h_size b) < k"
  using assms hole_words(1) [OF assms(1,2)] by (metis le_neq_implies_less word_unat_eq_iff)

lemma deallocate_hole:
  assumes "block_ok lo hi hole" "holes_ok (Suc (unat (h_addr hole) + unat (h_size hole))) hi hs"
    and "block_ok lo' hi b" and hi: "hi < 2 ^ 64"
    and "unat (h_addr hole) + unat (h_size hole) \<le> unat (h_addr b)"
    and "bytes b \<inter> free_bytes hs = {}"
  shows "\<exists>hl. deallocate (hole # hs) (h_addr b) (h_size b) = Some hl \<and> holes_ok lo hi hl
    \<and> free_bytes hl = free_bytes (hole # hs) \<union> bytes b"
  using assms(1-3,5,6)
proof (induction hs arbitrary: hole b lo)
  case Nil
  note w = hole_words [OF Nil.prems(1) hi] and z = hole_words(3) [OF Nil.prems(3) hi]
  show ?case
  proof (cases "h_addr hole + h_size hole = h_addr b")
    case True
    from merge_next [OF Nil.prems(1,3) True hi] show ?thesis
      using True w z by (simp add: word_le_nat_alt)
  next
    case False
    from block_apart [OF Nil.prems(1) hi Nil.prems(4) False] show ?thesis
      using False w z Nil.prems by (auto simp: word_le_nat_alt block_ok_def bytes_def)
  qed
next
  case (Cons nx hs)
  note w = hole_words [OF Cons.prems(1) hi] and z = hole_words(3) [OF Cons.prems(3) hi]
  let ?e = "unat (h_addr hole) + unat (h_size hole)"
  have le: "h_addr hole + h_size hole \<le> h_addr b" using w(1) Cons.prems(4) by (simp add: word_le_nat_alt)
  have nx: "block_ok (Suc ?e) hi nx" and hs: "holes_ok (Suc (unat (h_addr nx) + unat (h_size nx))) hi hs"
    using Cons.prems(2) by simp_all
  have dis: "bytes b \<inter> bytes nx = {}" "bytes b \<inter> free_bytes hs = {}"
    using Cons.prems(5) by auto
  have dhs: "bytes nx \<inter> free_bytes hs = {}"
    using holes_ok_bounds [OF hs] by (fastforce simp: bytes_def)
  consider (both) "h_addr hole + h_size hole = h_addr b" "h_addr b + h_size b = h_addr nx"
    | (left) "h_addr hole + h_size hole = h_addr b" "h_addr b + h_size b \<noteq> h_addr nx"
    | (right) "h_addr hole + h_size hole \<noteq> h_addr b" "h_addr b + h_size b = h_addr nx"
    | (later) "h_addr hole + h_size hole \<noteq> h_addr b" "h_addr b + h_size b \<noteq> h_addr nx" "h_addr nx \<le> h_addr b"
    | (between) "h_addr hole + h_size hole \<noteq> h_addr b" "h_addr b + h_size b \<noteq> h_addr nx" "\<not> h_addr nx \<le> h_addr b"
    by blast
  then show ?case
  proof cases
    case both
    note m1 = merge_next [OF Cons.prems(3) nx both(2) hi]
    have adj: "h_addr hole + h_size hole = h_addr (b\<lparr> h_size := h_size b + h_size nx \<rparr>)" using both(1) by simp
    note m2 = merge_next [OF Cons.prems(1) m1(3) adj hi]
    have "unat (h_addr hole) + unat (h_size hole + (h_size b + h_size nx)) = unat (h_addr nx) + unat (h_size nx)"
      using m1(1,2) m2(1,2) by simp
    then show ?thesis
      using both w z m2(3,4) m1(4) hs le by (simp add: Un_ac)
  next
    case left
    note m = merge_next [OF Cons.prems(1,3) left(1) hi]
    have "\<not> h_addr nx \<le> h_addr b" using m(2) nx by (simp add: block_ok_def word_le_nat_alt)
    from block_order(2) [OF Cons.prems(3) nx dis(1) this]
    have "unat (h_addr b) + unat (h_size b) < unat (h_addr nx)"
      by (rule block_apart [OF Cons.prems(3) hi _ left(2)]) simp
    then have "holes_ok (Suc (unat (h_addr hole) + unat (h_size hole + h_size b))) hi (nx # hs)"
      using nx hs m(1,2) by (simp add: block_ok_def)
    then show ?thesis using left w z m(3,4) le by auto
  next
    case right
    note m = merge_next [OF Cons.prems(3) nx right(2) hi]
    let ?b = "b\<lparr> h_size := h_size b + h_size nx \<rparr>"
    have "holes_ok (Suc ?e) hi hs" using holes_ok_mono [OF hs] nx by (simp add: block_ok_def)
    moreover have "bytes ?b \<inter> free_bytes hs = {}" using m(4) dis(2) dhs by auto
    ultimately have "\<exists>hl. deallocate (hole # hs) (h_addr ?b) (h_size ?b) = Some hl \<and> holes_ok lo hi hl
        \<and> free_bytes hl = free_bytes (hole # hs) \<union> bytes ?b"
      using Cons.prems(1,4) m(3) by (intro Cons.IH) simp_all
    moreover have "deallocate (hole # nx # hs) (h_addr b) (h_size b)
        = deallocate (hole # hs) (h_addr ?b) (h_size ?b)"
      using right w z le by (subst deallocate.simps) (simp del: deallocate.simps)
    ultimately show ?thesis using m(4) by (auto simp del: deallocate.simps)
  next
    case later
    have "unat (h_addr nx) + unat (h_size nx) \<le> unat (h_addr b)"
      by (rule block_order(1) [OF Cons.prems(3) nx dis(1) later(3)])
    note ih = Cons.IH [OF nx hs Cons.prems(3) this dis(2)]
    have "deallocate (hole # nx # hs) (h_addr b) (h_size b)
        = map_option (Cons hole) (deallocate (nx # hs) (h_addr b) (h_size b))"
      using later w z le by (subst deallocate.simps) (simp del: deallocate.simps)
    then show ?thesis using ih Cons.prems(1) by (auto simp del: deallocate.simps)
  next
    case between
    have lt: "unat (h_addr b) + unat (h_size b) < unat (h_addr nx)"
      by (rule block_apart [OF Cons.prems(3) hi block_order(2) [OF Cons.prems(3) nx dis(1) between(3)] between(2)])
        simp
    have "?e < unat (h_addr b)"
      by (rule block_apart [OF Cons.prems(1) hi Cons.prems(4) between(1)]) simp
    then have "holes_ok lo hi (hole # \<lparr> h_addr = h_addr b, h_size = h_size b \<rparr> # nx # hs)"
      using Cons.prems(1,3) nx hs lt by (simp add: block_ok_def)
    then show ?thesis using between w z le by (auto simp: bytes_def)
  qed
qed

lemma deallocate_list:
  assumes "holes_ok lo hi hs" "block_ok lo hi b" and hi: "hi < 2 ^ 64" and lo: "0 < lo"
    and d: "h_size d = 0" and "bytes b \<inter> free_bytes hs = {}"
  shows "\<exists>hs'. deallocate (d # hs) (h_addr b) (h_size b) = Some (d # hs') \<and> holes_ok lo hi hs'
    \<and> free_bytes hs' = free_bytes hs \<union> bytes b"
  using assms(1,2,6)
proof (induction hs arbitrary: b)
  case Nil
  have "h_addr b \<noteq> 0" using Nil.prems(2) lo by (auto simp: block_ok_def)
  then show ?case
    using hole_words(3) [OF Nil.prems(2) hi] Nil.prems(2) d
    by (auto simp: block_ok_def bytes_def)
next
  case (Cons nx hs)
  have b0: "h_addr b \<noteq> 0" using Cons.prems(2) lo by (auto simp: block_ok_def)
  note z = hole_words(3) [OF Cons.prems(2) hi]
  have nx: "block_ok lo hi nx" and hs: "holes_ok (Suc (unat (h_addr nx) + unat (h_size nx))) hi hs"
    using Cons.prems(1) by simp_all
  have dis: "bytes b \<inter> bytes nx = {}" "bytes b \<inter> free_bytes hs = {}"
    using Cons.prems(3) by auto
  have dhs: "bytes nx \<inter> free_bytes hs = {}"
    using holes_ok_bounds [OF hs] by (fastforce simp: bytes_def)
  consider (right) "h_addr b + h_size b = h_addr nx"
    | (later) "h_addr b + h_size b \<noteq> h_addr nx" "h_addr nx \<le> h_addr b"
    | (between) "h_addr b + h_size b \<noteq> h_addr nx" "\<not> h_addr nx \<le> h_addr b" by blast
  then show ?case
  proof cases
    case right
    note m = merge_next [OF Cons.prems(2) nx right hi]
    let ?b = "b\<lparr> h_size := h_size b + h_size nx \<rparr>"
    have "holes_ok lo hi hs" using holes_ok_mono [OF hs] nx by (simp add: block_ok_def)
    moreover have "bytes ?b \<inter> free_bytes hs = {}" using m(4) dis(2) dhs by auto
    ultimately have "\<exists>hs'. deallocate (d # hs) (h_addr ?b) (h_size ?b) = Some (d # hs')
        \<and> holes_ok lo hi hs' \<and> free_bytes hs' = free_bytes hs \<union> bytes ?b"
      using m(3) by (intro Cons.IH) simp_all
    moreover have "deallocate (d # nx # hs) (h_addr b) (h_size b)
        = deallocate (d # hs) (h_addr ?b) (h_size ?b)"
      using right z d b0 by (subst deallocate.simps) (simp del: deallocate.simps)
    ultimately show ?thesis using m(4) by (auto simp del: deallocate.simps)
  next
    case later
    have "unat (h_addr nx) + unat (h_size nx) \<le> unat (h_addr b)"
      by (rule block_order(1) [OF Cons.prems(2) nx dis(1) later(2)])
    note nxt = deallocate_hole [OF nx hs Cons.prems(2) hi this dis(2)]
    have "deallocate (d # nx # hs) (h_addr b) (h_size b)
        = map_option (Cons d) (deallocate (nx # hs) (h_addr b) (h_size b))"
      using later z d b0 by (subst deallocate.simps) (simp del: deallocate.simps)
    then show ?thesis using nxt by (auto simp del: deallocate.simps)
  next
    case between
    have lt: "unat (h_addr b) + unat (h_size b) < unat (h_addr nx)"
      by (rule block_apart [OF Cons.prems(2) hi block_order(2) [OF Cons.prems(2) nx dis(1) between(2)] between(1)])
        simp
    then have "holes_ok lo hi (\<lparr> h_addr = h_addr b, h_size = h_size b \<rparr> # nx # hs)"
      using Cons.prems(2) nx hs by (simp add: block_ok_def)
    then show ?thesis using between z d b0 by (auto simp: bytes_def)
  qed
qed

subsection \<open>A coalesced list is determined by its free bytes\<close>

lemma first_hole_eq:
  assumes h: "holes_ok lo hi (h # hs)" and g: "holes_ok lo' hi' (g # gs)"
    and e: "free_bytes (h # hs) = free_bytes (g # gs)"
  shows "h = g"
proof -
  have low: "unat (h_addr h) \<le> x" if "holes_ok lo hi (h # hs)" "x \<in> free_bytes (h # hs)" for lo hi h hs x
    using that holes_ok_bounds [of "Suc (unat (h_addr h) + unat (h_size h))" hi hs x] by (auto simp: bytes_def)
  have mem: "unat (h_addr h) \<in> free_bytes (h # hs)" if "holes_ok lo hi (h # hs)" for lo hi h hs
    using that by (simp add: bytes_def block_ok_def)
  have a: "unat (h_addr h) = unat (h_addr g)"
    using low [OF h] low [OF g] mem [OF h] mem [OF g] unfolding e by (meson le_antisym)
  have fin: "unat (h_addr h) + unat (h_size h) \<notin> free_bytes (h # hs)"
    if "holes_ok lo hi (h # hs)" for lo hi h hs
    using that holes_ok_bounds [of "Suc (unat (h_addr h) + unat (h_size h))" hi hs]
    by (fastforce simp: bytes_def)
  have run: "x \<in> free_bytes (h # hs)" if "unat (h_addr h) \<le> x" "x < unat (h_addr h) + unat (h_size h)" for x h hs
    using that by (simp add: bytes_def)
  have "\<not> unat (h_size h) < unat (h_size g)" "\<not> unat (h_size g) < unat (h_size h)"
    using fin [OF h] fin [OF g] run [of g "unat (h_addr h) + unat (h_size h)" gs]
      run [of h "unat (h_addr g) + unat (h_size g)" hs] a e by auto
  then show ?thesis using a by (intro hole.equality) (simp_all add: word_unat_eq_iff)
qed

lemma holes_canonical:
  "holes_ok lo hi hs \<Longrightarrow> holes_ok lo' hi' gs \<Longrightarrow> free_bytes hs = free_bytes gs \<Longrightarrow> hs = gs"
proof (induction hs arbitrary: gs lo lo')
  case Nil
  then show ?case by (cases gs) (auto simp: bytes_def block_ok_def)
next
  case (Cons h hs)
  show ?case
  proof (cases gs)
    case Nil
    then show ?thesis using Cons.prems by (auto simp: bytes_def block_ok_def)
  next
    case (Cons g gs')
    have hg: "h = g" using first_hole_eq [of lo hi h hs lo' hi' g gs'] Cons.prems Cons by simp
    have ok: "holes_ok (Suc (unat (h_addr h) + unat (h_size h))) hi hs"
      "holes_ok (Suc (unat (h_addr h) + unat (h_size h))) hi' gs'"
      using Cons.prems(1,2) Cons hg by simp_all
    have "bytes h \<inter> free_bytes hs = {}" "bytes h \<inter> free_bytes gs' = {}"
      using holes_ok_bounds [OF ok(1)] holes_ok_bounds [OF ok(2)] by (fastforce simp: bytes_def)+
    then have "free_bytes hs = free_bytes gs'" using Cons.prems(3) Cons hg by auto
    then show ?thesis using Cons.IH [OF ok] Cons hg by simp
  qed
qed

subsection \<open>Heap requests and the invariant of the heap\<close>

definition footprint :: "layout \<Rightarrow> nat" where
  "footprint l = round_up (max 16 (unat (lay_size l))) 8"

definition block_at :: "usize \<Rightarrow> layout \<Rightarrow> nat set" where
  "block_at p l = {unat p ..< unat p + footprint l}"

text \<open>A layout for which no address computed in a heap that ends at \<open>hi\<close> wraps around.\<close>

definition heap_request :: "nat \<Rightarrow> layout \<Rightarrow> bool" where
  "heap_request hi l \<longleftrightarrow> is_power_of_two (lay_align l)
     \<and> hi + unat (lay_size l) + unat (lay_align l) + 48 \<le> 2 ^ 64
     \<and> unat (lay_size l) + unat (lay_align l) + 32 \<le> 2 ^ 63"

definition heap_free :: "heap \<Rightarrow> nat set" where
  "heap_free h = free_bytes (tl (holes h))"

definition heap_inv :: "nat \<Rightarrow> nat \<Rightarrow> heap \<Rightarrow> bool" where
  "heap_inv lo hi h \<longleftrightarrow> 0 < lo \<and> lo \<le> hi \<and> hi < 2 ^ 64
     \<and> holes h \<noteq> [] \<and> h_size (hd (holes h)) = 0 \<and> holes_ok lo hi (tl (holes h))
     \<and> unat (used h) + card (heap_free h) = hi - lo"

lemma footprint_props: "8 dvd footprint l" "16 \<le> footprint l" "unat (lay_size l) \<le> footprint l"
  "footprint l \<le> unat (lay_size l) + 23"
  using round_up_ge [of 8 "max 16 (unat (lay_size l))"] round_up_le [of 8 "max 16 (unat (lay_size l))"]
  by (auto simp: footprint_def)

lemma align_layout_for_hole_ok:
  assumes "heap_request hi l"
  obtains al where "align_layout_for_hole l = Some al" "request_ok hi al"
    "lay_align al = lay_align l" "unat (lay_size al) = footprint l"
proof -
  define m where "m = (if lay_size l < MIN_ALLOC_SIZE then MIN_ALLOC_SIZE else lay_size l)"
  define z where "z = align_up m HOLE_ALIGN"
  have um: "unat m = max 16 (unat (lay_size l))"
    by (auto simp: m_def MIN_ALLOC_SIZE_def word_less_nat_alt)
  have "unat m + 2 ^ 3 \<le> 2 ^ 64" using assms um by (simp add: heap_request_def)
  then have z: "unat z = footprint l"
    using unat_align_up [of 3 m] um by (simp add: z_def HOLE_ALIGN_def footprint_def)
  have pw: "is_power_of_two (lay_align l)" using assms by (simp add: heap_request_def)
  have "unat (lay_align l) \<le> 2 ^ 63" using assms by (simp add: heap_request_def)
  then have "unat (2 ^ 63 - lay_align l) = 2 ^ 63 - unat (lay_align l)"
    by (subst unat_sub) (simp_all add: word_le_nat_alt)
  then have le: "z \<le> 2 ^ 63 - lay_align l"
    using z footprint_props(4) [of l] assms by (simp add: word_le_nat_alt heap_request_def, linarith)
  show thesis
  proof
    show "align_layout_for_hole l = Some \<lparr> lay_size = z, lay_align = lay_align l \<rparr>"
      using pw le by (simp add: align_layout_for_hole_def Let_def Layout_from_size_align_def
          flip: m_def z_def)
    show "request_ok hi \<lparr> lay_size = z, lay_align = lay_align l \<rparr>"
      using pw z footprint_props [of l] assms by (simp add: request_ok_def heap_request_def)
  qed (simp_all add: z)
qed

lemma card_bytes: "card (bytes b) = unat (h_size b)"
  by (simp add: bytes_def)

lemma finite_free_bytes: "finite (free_bytes hs)"
  by (simp add: free_bytes_def bytes_def)

lemma heap_free_region: "heap_inv lo hi h \<Longrightarrow> heap_free h \<subseteq> {lo ..< hi}"
  using holes_ok_bounds by (fastforce simp: heap_inv_def heap_free_def)

lemma Heap_allocate_spec:
  assumes inv: "heap_inv lo hi h" and req: "heap_request hi l"
  shows "(Heap_allocate_first_fit h l = Some (Inl (), h)
        \<and> (\<forall>al. align_layout_for_hole l = Some al \<longrightarrow> (\<forall>b \<in> set (tl (holes h)). \<not> fits b al)))
    \<or> (\<exists>p h'. Heap_allocate_first_fit h l = Some (Inr p, h') \<and> heap_inv lo hi h'
         \<and> unat (lay_align l) dvd unat p \<and> 8 dvd unat p
         \<and> block_at p l \<subseteq> heap_free h \<and> heap_free h' = heap_free h - block_at p l
         \<and> unat (used h') = unat (used h) + footprint l \<and> hd (holes h') = hd (holes h))"
proof -
  obtain al where al: "align_layout_for_hole l = Some al" "request_ok hi al"
    "lay_align al = lay_align l" "unat (lay_size al) = footprint l"
    by (rule align_layout_for_hole_ok [OF req])
  obtain d hs where dh: "holes h = d # hs" "h_size d = 0" "holes_ok lo hi hs"
    using inv by (cases "holes h") (auto simp: heap_inv_def)
  have fr: "heap_free h = free_bytes hs" by (simp add: heap_free_def dh(1))
  note sp = allocate_first_fit_spec [OF dh(3) al(2), of d]
  then obtain res hl where r: "allocate_first_fit (d # hs) al = Some (res, hl)" by auto
  show ?thesis
  proof (cases res)
    case (Inl u)
    then have "hl = holes h" "\<forall>b \<in> set hs. \<not> fits b al" using sp r dh(1) by auto
    moreover from this have "h\<lparr> holes := hl \<rparr> = h" by simp
    ultimately show ?thesis
      using Inl r al(1) by (simp add: Heap_allocate_first_fit_def HoleList_allocate_first_fit_def dh(1))
  next
    case (Inr b)
    then obtain hs' where b: "hl = d # hs'" "holes_ok lo hi hs'" "block_ok lo hi b" "h_size b = lay_size al"
      "unat (lay_align al) dvd unat (h_addr b)" "bytes b \<subseteq> free_bytes hs"
      "free_bytes hs' = free_bytes hs - bytes b"
      using sp r by auto
    have bb: "bytes b = block_at (h_addr b) l" using b(4) al(4) by (simp add: bytes_def block_at_def)
    have "0 < unat (h_addr b)" using b(3) inv by (simp add: block_ok_def heap_inv_def)
    then have n0: "h_addr b \<noteq> 0" by auto
    define h' where "h' = h\<lparr> used := used h + lay_size al, holes := d # hs' \<rparr>"
    have eq: "Heap_allocate_first_fit h l = Some (Inr (h_addr b), h')"
      using Inr r al(1) n0 b(1) by (simp add: Heap_allocate_first_fit_def HoleList_allocate_first_fit_def
          dh(1) h'_def)
    have sub: "block_at (h_addr b) l \<subseteq> heap_free h" using b(6) by (simp add: fr bb)
    have fr': "heap_free h' = heap_free h - block_at (h_addr b) l"
      using b(7) by (simp add: heap_free_def h'_def bb dh(1))
    have c: "card (heap_free h') + footprint l = card (heap_free h)"
    proof -
      have fin: "finite (block_at (h_addr b) l)" by (simp add: block_at_def)
      moreover have "card (block_at (h_addr b) l) \<le> card (heap_free h)"
        using sub finite_free_bytes by (intro card_mono) (simp_all add: fr)
      ultimately show ?thesis using sub by (simp add: fr' card_Diff_subset block_at_def)
    qed
    have tot: "unat (used h) + card (heap_free h) = hi - lo" "hi < 2 ^ 64"
      using inv by (simp_all add: heap_inv_def)
    then have "unat (used h) + unat (lay_size al) < 2 ^ 64" using c al(4) by linarith
    then have u: "unat (used h') = unat (used h) + footprint l"
      using unat_add_no_overflow [of "used h" "lay_size al"] al(4) by (simp add: h'_def)
    have hs'': "holes h' = d # hs'" by (simp add: h'_def)
    have "heap_inv lo hi h'" using inv u c tot(1) b(2) dh(2) by (simp add: heap_inv_def hs'')
    then show ?thesis using eq sub fr' u b(3,5) al(3) by (auto simp: block_ok_def hs'' dh(1))
  qed
qed

lemma Heap_deallocate_spec:
  assumes inv: "heap_inv lo hi h" and req: "heap_request hi l" and p: "8 dvd unat p"
    and sub: "block_at p l \<subseteq> {lo ..< hi}" and dis: "block_at p l \<inter> heap_free h = {}"
  shows "\<exists>h'. Heap_deallocate h p l = Some h' \<and> heap_inv lo hi h'
    \<and> heap_free h' = heap_free h \<union> block_at p l \<and> unat (used h') + footprint l = unat (used h)
    \<and> hd (holes h') = hd (holes h)"
proof -
  obtain al where al: "align_layout_for_hole l = Some al" "request_ok hi al"
    "lay_align al = lay_align l" "unat (lay_size al) = footprint l"
    by (rule align_layout_for_hole_ok [OF req])
  obtain d hs where dh: "holes h = d # hs" "h_size d = 0" "holes_ok lo hi hs"
    using inv by (cases "holes h") (auto simp: heap_inv_def)
  have fr: "heap_free h = free_bytes hs" by (simp add: heap_free_def dh(1))
  let ?b = "\<lparr> h_addr = p, h_size = lay_size al \<rparr>"
  have bb: "bytes ?b = block_at p l" using al(4) by (simp add: bytes_def block_at_def)
  have "unat p \<in> block_at p l" "unat p + footprint l - 1 \<in> block_at p l"
    using footprint_props(2) [of l] by (auto simp: block_at_def)
  then have b: "block_ok lo hi ?b"
    using sub p footprint_props [of l] al(4) by (fastforce simp: block_ok_def)
  obtain hs' where hs': "deallocate (d # hs) p (lay_size al) = Some (d # hs')" "holes_ok lo hi hs'"
    "free_bytes hs' = free_bytes hs \<union> block_at p l"
    using deallocate_list [OF dh(3) b _ _ dh(2)] inv dis by (auto simp: heap_inv_def bb fr)
  define h' where "h' = h\<lparr> used := used h - lay_size al, holes := d # hs' \<rparr>"
  have eq: "Heap_deallocate h p l = Some h'"
    using al(1) hs'(1) by (simp add: Heap_deallocate_def HoleList_deallocate_def dh(1) h'_def
        del: deallocate.simps)
  have fr': "heap_free h' = heap_free h \<union> block_at p l"
    by (simp add: heap_free_def h'_def hs'(3) dh(1))
  have c: "card (heap_free h') = card (heap_free h) + footprint l"
    unfolding fr' using dis by (subst card_Un_disjoint) (auto simp: fr finite_free_bytes block_at_def)
  have "heap_free h' \<subseteq> {lo ..< hi}" using heap_free_region [OF inv] sub by (simp add: fr')
  then have "card (heap_free h') \<le> hi - lo" using card_mono [of "{lo ..< hi}"] by fastforce
  then have "footprint l \<le> unat (used h)" using inv c by (simp add: heap_inv_def)
  then have u: "unat (used h') + footprint l = unat (used h)"
    using al(4) unat_sub [of "lay_size al" "used h"] by (simp add: h'_def word_le_nat_alt)
  moreover have "heap_inv lo hi h'"
    using inv c u hs'(2) dh(2) by (auto simp: heap_inv_def h'_def)
  ultimately show ?thesis using eq fr' by (auto simp: h'_def dh(1))
qed

subsection \<open>Clients of an allocator\<close>

text \<open>
  What a client of an allocator relies on, whatever the data structure behind it: a block it is
  handed was free and is aligned, freeing a block it holds gives exactly that block back, and
  a failed request changes nothing. A client run is a sequence of requests; it holds
  the blocks it was handed and has not freed.
\<close>

datatype heap_cmd = Alloc layout | Free nat

type_synonym live_blocks = "(usize \<times> layout) list"

fun client_step ::
    "('s \<Rightarrow> layout \<Rightarrow> ((unit + usize) \<times> 's) rust) \<Rightarrow> ('s \<Rightarrow> usize \<Rightarrow> layout \<Rightarrow> 's rust)
     \<Rightarrow> heap_cmd \<Rightarrow> 's \<times> live_blocks \<Rightarrow> ('s \<times> live_blocks) rust" where
  "client_step alloc dealloc (Alloc l) (s, live) =
     (case alloc s l of
        None \<Rightarrow> panic
      | Some (Inl _, s') \<Rightarrow> Some (s', live)
      | Some (Inr p, s') \<Rightarrow> Some (s', (p, l) # live))"
| "client_step alloc dealloc (Free i) (s, live) =
     (if i < length live
      then map_option (\<lambda>s'. (s', take i live @ drop (Suc i) live))
             (dealloc s (fst (live ! i)) (snd (live ! i)))
      else Some (s, live))"

fun client_run ::
    "('s \<Rightarrow> layout \<Rightarrow> ((unit + usize) \<times> 's) rust) \<Rightarrow> ('s \<Rightarrow> usize \<Rightarrow> layout \<Rightarrow> 's rust)
     \<Rightarrow> heap_cmd list \<Rightarrow> 's \<times> live_blocks \<Rightarrow> ('s \<times> live_blocks) rust" where
  "client_run alloc dealloc [] st = Some st"
| "client_run alloc dealloc (c # cs) st =
     do { st \<leftarrow> client_step alloc dealloc c st; client_run alloc dealloc cs st }"

locale heap_allocator =
  fixes alloc :: "'s \<Rightarrow> layout \<Rightarrow> ((unit + usize) \<times> 's) rust"
    and dealloc :: "'s \<Rightarrow> usize \<Rightarrow> layout \<Rightarrow> 's rust"
    and inv :: "'s \<Rightarrow> bool" and free :: "'s \<Rightarrow> nat set" and region :: "nat set"
    and req :: "layout \<Rightarrow> bool" and placed :: "usize \<Rightarrow> layout \<Rightarrow> bool"
    and blk :: "usize \<Rightarrow> layout \<Rightarrow> nat set"
  assumes free_region: "inv s \<Longrightarrow> free s \<subseteq> region"
    and alloc_cases: "inv s \<Longrightarrow> req l \<Longrightarrow> alloc s l = Some (Inl (), s) \<or>
      (\<exists>p s'. alloc s l = Some (Inr p, s') \<and> inv s' \<and> placed p l
         \<and> blk p l \<subseteq> free s \<and> free s' = free s - blk p l)"
    and dealloc_ok: "inv s \<Longrightarrow> req l \<Longrightarrow> placed p l \<Longrightarrow> blk p l \<subseteq> region \<Longrightarrow> blk p l \<inter> free s = {} \<Longrightarrow>
      \<exists>s'. dealloc s p l = Some s' \<and> inv s' \<and> free s' = free s \<union> blk p l"

definition live_ok ::
    "(usize \<Rightarrow> layout \<Rightarrow> nat set) \<Rightarrow> (usize \<Rightarrow> layout \<Rightarrow> bool) \<Rightarrow> nat set \<Rightarrow> nat set \<Rightarrow> live_blocks \<Rightarrow> bool" where
  "live_ok blk placed region free live \<longleftrightarrow>
     sorted_wrt (\<lambda>b c. case_prod blk b \<inter> case_prod blk c = {}) live \<and>
     (\<forall>b \<in> set live. case_prod placed b \<and> case_prod blk b \<inter> free = {}) \<and>
     free \<union> \<Union> (case_prod blk ` set live) = region"

lemma live_ok_add:
  assumes "live_ok blk placed region free live" "placed p l" "blk p l \<subseteq> free"
  shows "live_ok blk placed region (free - blk p l) ((p, l) # live)"
proof -
  have "blk p l \<inter> case_prod blk c = {}" if "c \<in> set live" for c
    using assms(1,3) that by (auto simp: live_ok_def)
  moreover have "(free - blk p l) \<union> (blk p l \<union> X) = free \<union> X" for X using assms(3) by blast
  ultimately show ?thesis using assms(1,2) by (auto simp: live_ok_def)
qed

lemma live_ok_remove:
  assumes "live_ok blk placed region free (xs @ (p, l) # ys)"
  shows "live_ok blk placed region (free \<union> blk p l) (xs @ ys)"
proof -
  have "case_prod blk c \<inter> blk p l = {}" if "c \<in> set (xs @ ys)" for c
    using assms that by (auto simp: live_ok_def sorted_wrt_append)
  then show ?thesis using assms
    by (simp add: live_ok_def sorted_wrt_append ball_Un Int_Un_distrib Un_ac)
qed

context heap_allocator
begin

lemma client_step_ok:
  assumes inv: "inv s" and live: "live_ok blk placed region (free s) live"
    and reqs: "\<forall>(p, l) \<in> set live. req l" and c: "\<forall>l. c = Alloc l \<longrightarrow> req l"
  shows "\<exists>s' live'. client_step alloc dealloc c (s, live) = Some (s', live') \<and> inv s'
    \<and> live_ok blk placed region (free s') live' \<and> (\<forall>(p, l) \<in> set live'. req l)"
proof (cases c)
  case (Alloc l)
  then have r: "req l" using c by simp
  from alloc_cases [OF inv r] show ?thesis
  proof
    assume "alloc s l = Some (Inl (), s)"
    then show ?thesis using Alloc inv live reqs by auto
  next
    assume "\<exists>p s'. alloc s l = Some (Inr p, s') \<and> inv s' \<and> placed p l
         \<and> blk p l \<subseteq> free s \<and> free s' = free s - blk p l"
    then obtain p s' where p: "alloc s l = Some (Inr p, s')" "inv s'" "placed p l"
      "blk p l \<subseteq> free s" "free s' = free s - blk p l" by blast
    have "live_ok blk placed region (free s') ((p, l) # live)"
      unfolding p(5) by (rule live_ok_add [OF live p(3,4)])
    then show ?thesis using Alloc p(1,2) r reqs by auto
  qed
next
  case (Free i)
  show ?thesis
  proof (cases "i < length live")
    case True
    obtain p l where pl: "live ! i = (p, l)" by fastforce
    then have m: "(p, l) \<in> set live" using True by (metis nth_mem)
    have "req l" "placed p l" "blk p l \<inter> free s = {}" "blk p l \<subseteq> region"
      using m reqs live unfolding live_ok_def by fastforce+
    then obtain s' where s': "dealloc s p l = Some s'" "inv s'" "free s' = free s \<union> blk p l"
      using dealloc_ok [OF inv] by blast
    have "set (take i live @ drop (Suc i) live) \<subseteq> set live"
      using set_take_subset [of i live] set_drop_subset [of "Suc i" live] by auto
    moreover have "live_ok blk placed region (free s') (take i live @ drop (Suc i) live)"
      unfolding s'(3) using live live_ok_remove id_take_nth_drop [OF True] pl by metis
    ultimately show ?thesis using Free True pl s'(1,2) reqs by auto
  qed (use Free inv live reqs in auto)
qed

lemma client_run_ok:
  assumes "inv s" "live_ok blk placed region (free s) live"
    and "\<forall>(p, l) \<in> set live. req l" "\<forall>l. Alloc l \<in> set cs \<longrightarrow> req l"
  shows "\<exists>s' live'. client_run alloc dealloc cs (s, live) = Some (s', live') \<and> inv s'
    \<and> live_ok blk placed region (free s') live' \<and> (\<forall>(p, l) \<in> set live'. req l)"
  using assms
proof (induction cs arbitrary: s live)
  case (Cons c cs)
  obtain s1 live1 where 1: "client_step alloc dealloc c (s, live) = Some (s1, live1)" "inv s1"
    "live_ok blk placed region (free s1) live1" "\<forall>(p, l) \<in> set live1. req l"
    using client_step_ok [OF Cons.prems(1,2,3), of c] Cons.prems(4) by auto
  then show ?case using Cons.IH [OF 1(2,3,4)] Cons.prems(4) by simp
qed auto

end

text \<open>The first-fit heap is such an allocator.\<close>

interpretation first_fit: heap_allocator Heap_allocate_first_fit Heap_deallocate
    "heap_inv lo hi" heap_free "{lo ..< hi}" "heap_request hi"
    "\<lambda>p l. 8 dvd unat p \<and> unat (lay_align l) dvd unat p" block_at
  for lo hi
proof unfold_locales
  fix h l
  assume "heap_inv lo hi h"
  then show "heap_free h \<subseteq> {lo ..< hi}" by (rule heap_free_region)
next
  fix h l
  assume "heap_inv lo hi h" "heap_request hi l"
  from Heap_allocate_spec [OF this] show "Heap_allocate_first_fit h l = Some (Inl (), h) \<or>
      (\<exists>p h'. Heap_allocate_first_fit h l = Some (Inr p, h') \<and> heap_inv lo hi h'
         \<and> (8 dvd unat p \<and> unat (lay_align l) dvd unat p)
         \<and> block_at p l \<subseteq> heap_free h \<and> heap_free h' = heap_free h - block_at p l)" by blast
next
  fix h l p
  assume "heap_inv lo hi h" "heap_request hi l" "8 dvd unat p \<and> unat (lay_align l) dvd unat p"
    "block_at p l \<subseteq> {lo ..< hi}" "block_at p l \<inter> heap_free h = {}"
  then show "\<exists>h'. Heap_deallocate h p l = Some h' \<and> heap_inv lo hi h' \<and> heap_free h' = heap_free h \<union> block_at p l"
    using Heap_deallocate_spec [of lo hi h l p] by blast
qed

lemma Heap_init_inv:
  assumes "0 < unat b" "8 dvd unat b" "8 dvd unat z" "16 \<le> unat z" "unat b + unat z < 2 ^ 64"
    and "holes h \<noteq> []"
  shows "heap_inv (unat b) (unat b + unat z) (Heap_init h b z)"
    and "heap_free (Heap_init h b z) = {unat b ..< unat b + unat z}"
proof -
  have "unat (align_up b HOLE_ALIGN) = unat b"
    using unat_align_up [of 3 b] assms by (simp add: HOLE_ALIGN_def)
  then have a: "align_up b HOLE_ALIGN = b" by (simp add: word_unat_eq_iff)
  then have hl: "holes (Heap_init h b z) =
      [\<lparr> h_addr = h_addr (hd (holes h)), h_size = 0 \<rparr>, \<lparr> h_addr = b, h_size = z \<rparr>]"
    by (simp add: Heap_init_def HoleList_init_def Let_def saturating_sub_def)
  then show f: "heap_free (Heap_init h b z) = {unat b ..< unat b + unat z}"
    by (simp add: heap_free_def bytes_def)
  show "heap_inv (unat b) (unat b + unat z) (Heap_init h b z)"
    using assms by (simp add: heap_inv_def f hl block_ok_def) (simp add: Heap_init_def)
qed

lemma card_disjoint_blocks:
  assumes "sorted_wrt (\<lambda>b c. case_prod block_at b \<inter> case_prod block_at c = {}) live"
  shows "card (\<Union> (case_prod block_at ` set live)) = sum_list (map (footprint \<circ> snd) live)"
  using assms
proof (induction live)
  case (Cons b live)
  have "card (case_prod block_at b \<union> \<Union> (case_prod block_at ` set live))
      = card (case_prod block_at b) + card (\<Union> (case_prod block_at ` set live))"
  proof (rule card_Un_disjoint)
    show "finite (case_prod block_at b)" "finite (\<Union> (case_prod block_at ` set live))"
      by (auto simp: block_at_def split: prod.splits)
    show "case_prod block_at b \<inter> \<Union> (case_prod block_at ` set live) = {}" using Cons.prems by auto
  qed
  moreover have "card (case_prod block_at b) = footprint (snd b)"
    by (cases b) (simp add: block_at_def)
  ultimately show ?case using Cons by simp
qed simp

lemma heap_used_live:
  assumes inv: "heap_inv lo hi h" and live: "live_ok block_at placed {lo ..< hi} (heap_free h) live"
  shows "unat (used h) = sum_list (map (footprint \<circ> snd) live)"
proof -
  let ?U = "\<Union> (case_prod block_at ` set live)"
  have dis: "heap_free h \<inter> ?U = {}" and un: "heap_free h \<union> ?U = {lo ..< hi}"
    using live by (auto simp: live_ok_def)
  have "finite (heap_free h \<union> ?U)" unfolding un by simp
  then have "finite (heap_free h)" "finite ?U" by (simp_all only: finite_Un)
  then have "card (heap_free h) + card ?U = card (heap_free h \<union> ?U)"
    using dis by (intro card_Un_disjoint [symmetric])
  then have "card (heap_free h) + card ?U = hi - lo" unfolding un by simp
  then show ?thesis
    using inv card_disjoint_blocks [of live] live by (simp add: heap_inv_def live_ok_def)
qed

subsection \<open>Properties\<close>

text \<open>
  C2: the heap is safe for every sequence of requests. Start from a heap initialised on an
  aligned region and run any sequence of allocations and of deallocations of blocks still held,
  where no request is so large that an address computed for it wraps around. Then no step
  panics, and at the end the held blocks are pairwise disjoint, aligned as requested and inside the
  region, the free bytes are exactly the rest of the region, and \<^verbatim>\<open>used\<close> is the total
  size of the held blocks.
\<close>

theorem heap_client_safe:
  assumes "0 < unat b" "8 dvd unat b" "8 dvd unat z" "16 \<le> unat z" "unat b + unat z < 2 ^ 64"
    and "\<forall>l. Alloc l \<in> set cs \<longrightarrow> heap_request (unat b + unat z) l"
  shows "\<exists>h live. client_run Heap_allocate_first_fit Heap_deallocate cs
        (Heap_init (Heap_empty self_addr) b z, []) = Some (h, live)
    \<and> sorted_wrt (\<lambda>(p, l) (q, m). block_at p l \<inter> block_at q m = {}) live
    \<and> (\<forall>(p, l) \<in> set live. unat (lay_align l) dvd unat p)
    \<and> heap_free h \<inter> (\<Union>(p, l) \<in> set live. block_at p l) = {}
    \<and> heap_free h \<union> (\<Union>(p, l) \<in> set live. block_at p l) = {unat b ..< unat b + unat z}
    \<and> unat (used h) = sum_list (map (footprint \<circ> snd) live)"
proof -
  let ?h0 = "Heap_init (Heap_empty self_addr) b z" and ?hi = "unat b + unat z"
  let ?placed = "\<lambda>p l. 8 dvd unat p \<and> unat (lay_align l) dvd unat p"
  have ne: "holes (Heap_empty self_addr) \<noteq> []" by (simp add: Heap_empty_def HoleList_empty_def)
  note i = Heap_init_inv [OF assms(1-5) ne]
  have "live_ok block_at ?placed {unat b ..< ?hi} (heap_free ?h0) []"
    by (simp add: live_ok_def i(2))
  from first_fit.client_run_ok [OF i(1) this _ assms(6)]
  obtain h live where h: "client_run Heap_allocate_first_fit Heap_deallocate cs (?h0, []) = Some (h, live)"
    "heap_inv (unat b) ?hi h" "live_ok block_at ?placed {unat b ..< ?hi} (heap_free h) live" by auto
  have e: "(\<lambda>b c. case_prod block_at b \<inter> case_prod block_at c = {})
      = (\<lambda>(p, l) (q, m). block_at p l \<inter> block_at q m = {})" by (auto simp: fun_eq_iff)
  show ?thesis
    using h(1,3) heap_used_live [OF h(2,3)]
    by (intro exI [of _ h] exI [of _ live]) (auto simp: live_ok_def e)
qed

theorem heap_client_safe_witness:
  "\<exists>h live. client_run Heap_allocate_first_fit Heap_deallocate
      [Alloc \<lparr> lay_size = 100, lay_align = 8 \<rparr>, Alloc \<lparr> lay_size = 1, lay_align = 4096 \<rparr>, Free 1,
       Alloc \<lparr> lay_size = 40, lay_align = 16 \<rparr>]
      (Heap_init (Heap_empty 0x5000) HEAP_BASE_ADDR HEAP_DEFAULT_SIZE, []) = Some (h, live)
    \<and> unat (used h) = sum_list (map (footprint \<circ> snd) live)"
proof -
  have b: "HEAP_BASE_ADDR = 0xFFFFFE0000000000" "HEAP_DEFAULT_SIZE = 0x800000"
    by (simp_all add: HEAP_BASE_ADDR_def HEAP_DEFAULT_SIZE_def l4_constants domain_base_eqs MEBIBYTE_def)
  have p: "is_power_of_two (8 :: usize)" "is_power_of_two (16 :: usize)" "is_power_of_two (4096 :: usize)"
    by code_simp+
  from heap_client_safe [of HEAP_BASE_ADDR HEAP_DEFAULT_SIZE
      "[Alloc \<lparr> lay_size = 100, lay_align = 8 \<rparr>, Alloc \<lparr> lay_size = 1, lay_align = 4096 \<rparr>, Free 1,
       Alloc \<lparr> lay_size = 40, lay_align = 16 \<rparr>]" "0x5000"]
  show ?thesis using p by (auto simp: b heap_request_def simp del: client_run.simps)
qed

text \<open>
  C25: freeing a block right after it was allocated restores the heap exactly. The list of
  holes keeps no trace of the allocation, because every deallocation merges the block with the
  holes around it and a list without adjacent holes is determined by its free bytes.
\<close>

theorem heap_alloc_dealloc_roundtrip:
  assumes "heap_inv lo hi h" "heap_request hi l"
    and "Heap_allocate_first_fit h l = Some (Inr p, h')"
  shows "Heap_deallocate h' p l = Some h"
proof -
  from Heap_allocate_spec [OF assms(1,2)] assms(3)
  have a: "heap_inv lo hi h'" "8 dvd unat p" "block_at p l \<subseteq> heap_free h"
    "heap_free h' = heap_free h - block_at p l" "unat (used h') = unat (used h) + footprint l"
    "hd (holes h') = hd (holes h)" by auto
  have "block_at p l \<subseteq> {lo ..< hi}" using a(3) heap_free_region [OF assms(1)] by blast
  moreover have "block_at p l \<inter> heap_free h' = {}" using a(4) by blast
  ultimately obtain h'' where d: "Heap_deallocate h' p l = Some h''" "heap_inv lo hi h''"
    "heap_free h'' = heap_free h' \<union> block_at p l" "unat (used h'') + footprint l = unat (used h')"
    "hd (holes h'') = hd (holes h')"
    using Heap_deallocate_spec [OF a(1) assms(2) a(2)] by blast
  have "heap_free h'' = heap_free h" using a(3,4) d(3) by blast
  then have "tl (holes h'') = tl (holes h)"
    using assms(1) d(2) by (intro holes_canonical [of lo hi _ lo hi]) (simp_all add: heap_inv_def heap_free_def)
  then have "holes h'' = holes h"
    using a(6) d(5) assms(1) d(2) by (intro list.expand) (simp_all add: heap_inv_def)
  moreover have "used h'' = used h" using a(5) d(4) by (simp add: word_unat_eq_iff)
  ultimately show ?thesis using d(1) by (simp add: heap.equality)
qed

text \<open>
  C26: a request fails only for lack of room. If some hole is larger than the block by the
  alignment and the room for two holes, the allocation succeeds.
\<close>

theorem heap_alloc_progress:
  assumes "heap_inv lo hi h" "heap_request hi l" "b \<in> set (tl (holes h))"
    and "footprint l + unat (lay_align l) + 31 \<le> unat (h_size b)"
  shows "\<exists>p h'. Heap_allocate_first_fit h l = Some (Inr p, h') \<and> block_at p l \<subseteq> heap_free h"
proof -
  obtain al where al: "align_layout_for_hole l = Some al" "request_ok hi al"
    "lay_align al = lay_align l" "unat (lay_size al) = footprint l"
    by (rule align_layout_for_hole_ok [OF assms(2)])
  have "\<exists>lo'. block_ok lo' hi b" if "holes_ok lo hi hs" "b \<in> set hs" for lo hs
    using that by (induction hs arbitrary: lo) auto
  then obtain lo' where b: "block_ok lo' hi b" using assms(1,3) by (auto simp: heap_inv_def)
  have "fits b al"
    using fit_addr_props(4) [OF b al(2)] assms(4) al(3,4) by (simp add: fits_def)
  then show ?thesis using Heap_allocate_spec [OF assms(1,2)] al(1) assms(3) by blast
qed

text \<open>A heap with one hole of a page, for the examples.\<close>

definition sample_heap :: heap where
  "sample_heap = Heap_init (Heap_empty 0x5000) 0x10000 0x1000"

lemma sample_heap_inv: "heap_inv 0x10000 0x11000 sample_heap"
  using Heap_init_inv(1) [of "0x10000" "0x1000" "Heap_empty 0x5000"]
  by (simp add: sample_heap_def Heap_empty_def HoleList_empty_def)

lemma sample_request: "heap_request 0x11000 \<lparr> lay_size = 100, lay_align = 64 \<rparr>"
proof -
  have "is_power_of_two (64 :: usize)" by code_simp
  then show ?thesis by (simp add: heap_request_def)
qed

theorem heap_alloc_dealloc_roundtrip_witness:
  "\<exists>p h'. Heap_allocate_first_fit sample_heap \<lparr> lay_size = 100, lay_align = 64 \<rparr> = Some (Inr p, h')
     \<and> Heap_deallocate h' p \<lparr> lay_size = 100, lay_align = 64 \<rparr> = Some sample_heap"
proof -
  have "case Heap_allocate_first_fit sample_heap \<lparr> lay_size = 100, lay_align = 64 \<rparr> of
      Some (Inr p, _) \<Rightarrow> p = 0x10000 | _ \<Rightarrow> False" by code_simp
  then obtain p h' where "Heap_allocate_first_fit sample_heap \<lparr> lay_size = 100, lay_align = 64 \<rparr>
      = Some (Inr p, h')" by (auto split: option.splits sum.splits)
  then show ?thesis using heap_alloc_dealloc_roundtrip [OF sample_heap_inv sample_request] by blast
qed

theorem heap_alloc_progress_witness:
  "\<exists>p h'. Heap_allocate_first_fit sample_heap \<lparr> lay_size = 100, lay_align = 64 \<rparr> = Some (Inr p, h')
     \<and> block_at p \<lparr> lay_size = 100, lay_align = 64 \<rparr> \<subseteq> heap_free sample_heap"
proof -
  have "tl (holes sample_heap) = [\<lparr> h_addr = 0x10000, h_size = 0x1000 \<rparr>]" by code_simp
  moreover have "footprint \<lparr> lay_size = 100, lay_align = 64 \<rparr> = 104" by (simp add: footprint_def round_up_def)
  ultimately show ?thesis
    using heap_alloc_progress [OF sample_heap_inv sample_request, of "\<lparr> h_addr = 0x10000, h_size = 0x1000 \<rparr>"]
    by simp
qed

lemma align_up_dvd:
  assumes "k < 64" "2 ^ k dvd unat (a :: usize)"
  shows "align_up a (2 ^ k) = a"
proof -
  obtain m where m: "unat a = 2 ^ k * m" using assms(2) by blast
  have e: "(2 :: nat) ^ 64 = 2 ^ k * 2 ^ (64 - k)" using assms(1) by (simp flip: power_add)
  have "unat a < 2 ^ 64" using unsigned_less [of a, where ?'a = nat] by simp
  then have "m < 2 ^ (64 - k)" unfolding m e by simp
  then have "2 ^ k * Suc m \<le> 2 ^ k * (2 ^ (64 - k) :: nat)" by (intro mult_le_mono2) simp
  then have "unat a + 2 ^ k \<le> 2 ^ 64" unfolding m e by simp
  from unat_align_up [OF assms(1) this] show ?thesis using assms(2) by (simp add: word_unat_eq_iff)
qed

lemma split_hole_wraps:
  assumes al: "is_power_of_two (lay_align l)" "unat (lay_align l) dvd unat (h_addr b)"
    and hole: "unat (h_addr b) + unat (h_size b) < 2 ^ 64"
    and req: "unat (lay_size l) \<le> 2 ^ 63" "2 ^ 64 < unat (h_addr b) + unat (lay_size l)"
  shows "split_hole b l = Some \<lparr> al_info = \<lparr> h_addr = h_addr b, h_size = lay_size l \<rparr>, front_padding = None,
      back_padding = Some \<lparr> h_addr = h_addr b + lay_size l, h_size = h_size b - lay_size l \<rparr> \<rparr>"
    and "unat (h_addr b + lay_size l) = unat (h_addr b) + unat (lay_size l) - 2 ^ 64"
    and "2 ^ 63 \<le> unat (h_size b - lay_size l)"
proof -
  obtain k where k: "k < 64" "lay_align l = 2 ^ k" "unat (lay_align l) = 2 ^ k"
    using al(1) by (auto elim: pow2_align)
  have up: "align_up (h_addr b) (lay_align l) = h_addr b" unfolding k(2) using align_up_dvd [OF k(1)] al(2) [unfolded k(3)] by blast
  have lt: "unat (h_size b) < unat (lay_size l)" using hole req(2) by linarith
  show w: "unat (h_addr b + lay_size l) = unat (h_addr b) + unat (lay_size l) - 2 ^ 64"
    using req(2) unsigned_less [of "h_addr b", where ?'a = nat] unsigned_less [of "lay_size l", where ?'a = nat]
    by (simp add: unat_plus_if')
  have d: "unat (h_size b - lay_size l) = 2 ^ 64 + unat (h_size b) - unat (lay_size l)"
    using lt by (simp add: unat_sub_if')
  then show d63: "2 ^ 63 \<le> unat (h_size b - lay_size l)" using req(1) by simp
  have "unat (h_addr b + h_size b) = unat (h_addr b) + unat (h_size b)"
    using hole by (rule unat_add_no_overflow [OF order_less_le_trans]) simp
  then have "\<not> h_addr b + h_size b < h_addr b + lay_size l"
    using w unsigned_less [of "lay_size l", where ?'a = nat] by (simp add: word_less_nat_alt)
  moreover have "h_size b \<noteq> lay_size l" using lt by auto
  moreover have "\<not> h_size b - lay_size l < MIN_ALLOC_SIZE"
    using d63 by (simp add: word_less_nat_alt MIN_ALLOC_SIZE_def)
  ultimately show "split_hole b l = Some \<lparr> al_info = \<lparr> h_addr = h_addr b, h_size = lay_size l \<rparr>, front_padding = None,
      back_padding = Some \<lparr> h_addr = h_addr b + lay_size l, h_size = h_size b - lay_size l \<rparr> \<rparr>"
    by (simp add: split_hole_def up Let_def)
qed

text \<open>
  C29: the bound on requests is needed. If the first hole has the alignment of a request and the end address of the
  block wraps around past the end of the address space, the comparison with the end of the hole passes: the request
  is granted at the start of the hole although the block is larger than it, and the rest is recorded as a hole
  at the wrapped address, below the heap, with a size of at least half of the address space.
\<close>

theorem heap_huge_request_wraps:
  assumes "holes h = d # b # hs" and "is_power_of_two (lay_align l)" "unat (lay_align l) dvd unat (h_addr b)"
    and "unat (lay_size l) + unat (lay_align l) + 32 \<le> 2 ^ 63"
    and "unat (h_addr b) + unat (h_size b) < 2 ^ 64" "2 ^ 64 < unat (h_addr b) + footprint l"
  shows "unat (h_size b) < footprint l \<and>
    (\<exists>h' b'. Heap_allocate_first_fit h l = Some (Inr (h_addr b), h') \<and> holes h' = d # b' # hs
       \<and> unat (h_addr b') = unat (h_addr b) + footprint l - 2 ^ 64 \<and> unat (h_addr b') < unat (h_addr b)
       \<and> 2 ^ 63 \<le> unat (h_size b'))"
proof -
  have "heap_request 0 l" using assms(2,4) by (simp add: heap_request_def)
  then obtain al where al: "align_layout_for_hole l = Some al" "lay_align al = lay_align l" "unat (lay_size al) = footprint l"
    by (rule align_layout_for_hole_ok)
  have fp: "footprint l \<le> 2 ^ 63" using footprint_props(4) [of l] assms(4) by linarith
  note sp = split_hole_wraps [of al b, unfolded al(2,3), OF assms(2,3,5) fp assms(6)]
  have n0: "h_addr b \<noteq> 0" using assms(6) fp by auto
  have "unat (h_addr b + lay_size al) \<noteq> 0" using sp(2) assms(6) by simp
  then have n1: "h_addr b + lay_size al \<noteq> 0" by auto
  have "Heap_allocate_first_fit h l = Some (Inr (h_addr b), h\<lparr> used := used h + lay_size al,
      holes := d # \<lparr> h_addr = h_addr b + lay_size al, h_size = h_size b - lay_size al \<rparr> # hs \<rparr>)"
    using n0 n1 by (simp add: Heap_allocate_first_fit_def HoleList_allocate_first_fit_def al(1) assms(1) sp(1) option_list_def)
  moreover have "unat (h_addr b) + footprint l - 2 ^ 64 < unat (h_addr b)" using fp assms(6) by simp
  moreover have "unat (h_size b) < footprint l" using assms(5,6) by linarith
  ultimately show ?thesis using sp(2,3) by auto
qed

text \<open>The heap every process starts with, 8 MiB at the user heap base, grants 3 TiB.\<close>

theorem heap_huge_request_wraps_witness:
  "\<exists>h' b'. Heap_allocate_first_fit (Heap_init (Heap_empty 0x5000) HEAP_BASE_ADDR HEAP_DEFAULT_SIZE)
       \<lparr> lay_size = 3 * 2 ^ 40, lay_align = 8 \<rparr> = Some (Inr HEAP_BASE_ADDR, h')
     \<and> holes h' = [\<lparr> h_addr = 0x5000, h_size = 0 \<rparr>, b'] \<and> unat (h_addr b') = 2 ^ 40"
proof -
  have b: "HEAP_BASE_ADDR = 0xFFFFFE0000000000" "HEAP_DEFAULT_SIZE = 0x800000"
    by (simp_all add: HEAP_BASE_ADDR_def HEAP_DEFAULT_SIZE_def l4_constants domain_base_eqs MEBIBYTE_def)
  let ?l = "\<lparr> lay_size = 3 * 2 ^ 40, lay_align = 8 \<rparr> :: layout"
  have h: "holes (Heap_init (Heap_empty 0x5000) 0xFFFFFE0000000000 0x800000) =
      [\<lparr> h_addr = 0x5000, h_size = 0 \<rparr>, \<lparr> h_addr = 0xFFFFFE0000000000, h_size = 0x800000 \<rparr>]" by code_simp
  have p: "is_power_of_two (lay_align ?l)" by code_simp
  have f: "footprint \<lparr> lay_size = 3298534883328, lay_align = 8 \<rparr> = 3298534883328" by (simp add: footprint_def round_up_def)
  show ?thesis unfolding b
    using heap_huge_request_wraps [OF h p] by (auto simp: f)
qed

end
