(* ===== verification/Address_Space.thy ===== *)
theory Address_Space
  imports Frame_Alloc "HOL-Library.AList"
begin

section \<open>Address spaces and kernel mappings (kernel/src/memory.rs)\<close>

text \<open>
  \<^verbatim>\<open>AddressSpace\<close> pairs a level 4 table with the frames taken for it through a
  \<^verbatim>\<open>FrameAllocatorProxy\<close>; \<^verbatim>\<open>KernelMapping\<close> hands out consecutive pages of the kernel
  mapping domain and can be mapped into other address spaces; \<^verbatim>\<open>MemoryTracker\<close> records
  what is mapped where. The statics of the module are the fields of one record. Each operation
  runs with the locks it takes held, so it is a function of that record.
\<close>

subsection \<open>State\<close>

record address_space =
  as_name :: string
  as_frame :: frame
  as_allocated_frames :: "frame list"

record bar_slot =
  bs_bus :: u8
  bs_device :: u8
  bs_function :: u8
  bs_slot :: u8

text \<open>A hash map is the list of its entries in the order it iterates over them.\<close>

record memory_tracker =
  tr_spaces :: "((string \<times> frame) \<times> (string \<times> page_range) list) list"
  tr_kernel_pages :: page_range
  tr_framebuffer_pages :: page_range
  tr_pci_bars :: "(bar_slot \<times> page_range) list"

record kernel_memory =
  km_frames :: frame_allocator
  km_tables :: table_store
  km_cr3 :: address
  km_kernel :: "address_space option"
  km_mapping_offset :: usize
  km_tracker :: memory_tracker

record kernel_mapping =
  kmap_name :: string
  kmap_size :: usize
  kmap_pages :: page_range
  kmap_flags :: pt_flags

definition KERNEL_HEAP_BASE :: usize where
  "KERNEL_HEAP_BASE = Address_from_table_indices KERNEL_HEAP_L4_INDEX 0 0 0"
definition KERNEL_MAPPING_BASE :: usize where
  "KERNEL_MAPPING_BASE = Address_from_table_indices KERNEL_MAPPING_L4_INDEX 0 0 0"

subsection \<open>The frame allocator proxy\<close>

definition Proxy_allocate_frame ::
    "frame list \<times> frame_allocator \<Rightarrow> (frame option \<times> frame list \<times> frame_allocator) rust" where
  "Proxy_allocate_frame = (\<lambda>(allocated, fa). do {
     (fo, fa) \<leftarrow> FrameAllocator_allocate_frame fa;
     Some (fo, case fo of Some f \<Rightarrow> allocated @ [f] | None \<Rightarrow> allocated, fa)
   })"

fun Proxy_drop :: "frame list \<Rightarrow> frame_allocator \<Rightarrow> frame_allocator rust" where
  "Proxy_drop [] fa = Some fa"
| "Proxy_drop (f # fs) fa = do {
     (_, fa) \<leftarrow> FrameAllocator_deallocate fa f;
     Proxy_drop fs fa
   }"

subsection \<open>Mapping ranges of pages\<close>

type_synonym 's map_state = "table_store \<times> 's"

fun map_pages_loop ::
    "('s \<Rightarrow> (frame option \<times> 's) rust) \<Rightarrow> address \<Rightarrow> pt_flags \<Rightarrow> page list \<Rightarrow> 's map_state
     \<Rightarrow> (mapping_error, unit, 's map_state) outcome" where
  "map_pages_loop alloc l4 flags [] st = Some (Inr (), st)"
| "map_pages_loop alloc l4 flags (page # pages) (mem, s) = do {
     (fo, s) \<leftarrow> alloc s;
     frame \<leftarrow> fo;
     (r, st) \<leftarrow> map_to alloc l4 page frame flags (mem, s);
     case r of
       Inr _ \<Rightarrow> map_pages_loop alloc l4 flags pages st
     | Inl (PageAlreadyMapped to) \<Rightarrow>
         if to = frame then map_pages_loop alloc l4 flags pages st
         else Some (Inl (PageAlreadyMapped to), st)
     | Inl e \<Rightarrow> Some (Inl e, st)
   }"

fun map_untracked_loop ::
    "('s \<Rightarrow> (frame option \<times> 's) rust) \<Rightarrow> address \<Rightarrow> pt_flags \<Rightarrow> page list \<Rightarrow> 's map_state
     \<Rightarrow> (mapping_error, unit, 's map_state) outcome" where
  "map_untracked_loop alloc l4 flags [] st = Some (Inr (), st)"
| "map_untracked_loop alloc l4 flags (page # pages) (mem, s) = do {
     (fo, s) \<leftarrow> alloc s;
     frame \<leftarrow> fo;
     qbind (map_to alloc l4 page frame flags (mem, s))
       (\<lambda>_ st. map_untracked_loop alloc l4 flags pages st)
   }"

fun map_kernel_loop ::
    "('s \<Rightarrow> (frame option \<times> 's) rust) \<Rightarrow> address \<Rightarrow> address \<Rightarrow> pt_flags \<Rightarrow> (page \<times> page) list \<Rightarrow> 's map_state
     \<Rightarrow> (mapping_error, unit, 's map_state) outcome" where
  "map_kernel_loop alloc kernel_l4 l4 flags [] st = Some (Inr (), st)"
| "map_kernel_loop alloc kernel_l4 l4 flags ((local_page, kernel_page) # pages) (mem, s) = do {
     r \<leftarrow> translate_page mem kernel_l4 kernel_page;
     frame \<leftarrow> (case r of Inl _ \<Rightarrow> panic | Inr f \<Rightarrow> Some f);
     qbind (map_to alloc l4 local_page frame flags (mem, s))
       (\<lambda>_ st. map_kernel_loop alloc kernel_l4 l4 flags pages st)
   }"

text \<open>Running one of the loops for an address space: its proxy and the statics it changes.\<close>

definition with_space ::
    "address_space \<Rightarrow> kernel_memory
     \<Rightarrow> ((frame list \<times> frame_allocator) map_state \<Rightarrow>
         (mapping_error, unit, (frame list \<times> frame_allocator) map_state) outcome)
     \<Rightarrow> (mapping_error, unit, address_space \<times> kernel_memory) outcome" where
  "with_space sp km f = do {
     (r, mem, allocated, fa) \<leftarrow> f (km_tables km, as_allocated_frames sp, km_frames km);
     Some (r, sp\<lparr> as_allocated_frames := allocated \<rparr>, km\<lparr> km_tables := mem, km_frames := fa \<rparr>)
   }"

definition l4_addr :: "address_space \<Rightarrow> address" where
  "l4_addr sp = frame_base_addr (as_frame sp)"

definition track :: "address_space \<Rightarrow> string \<Rightarrow> page_range \<Rightarrow> kernel_memory \<Rightarrow> kernel_memory" where
  "track sp name pages km =
     (let key = (as_name sp, as_frame sp); spaces = tr_spaces (km_tracker km);
          entry = (case map_of spaces key of None \<Rightarrow> [] | Some ms \<Rightarrow> ms)
      in km\<lparr> km_tracker := (km_tracker km)\<lparr> tr_spaces := AList.update key (entry @ [(name, pages)]) spaces \<rparr> \<rparr>)"

definition AddressSpace_map_pages ::
    "address_space \<Rightarrow> string \<Rightarrow> page_range \<Rightarrow> pt_flags \<Rightarrow> kernel_memory
     \<Rightarrow> (mapping_error, unit, address_space \<times> kernel_memory) outcome" where
  "AddressSpace_map_pages sp name pages flags km =
     qbind (with_space sp km (map_pages_loop Proxy_allocate_frame (l4_addr sp) flags (PageRange_pages pages)))
       (\<lambda>_ (sp, km). Some (Inr (), sp, track sp name pages km))"

definition AddressSpace_map_pages_untracked ::
    "address_space \<Rightarrow> page_range \<Rightarrow> pt_flags \<Rightarrow> kernel_memory
     \<Rightarrow> (mapping_error, unit, address_space \<times> kernel_memory) outcome" where
  "AddressSpace_map_pages_untracked sp pages flags km =
     with_space sp km (map_untracked_loop Proxy_allocate_frame (l4_addr sp) flags (PageRange_pages pages))"

definition AddressSpace_set_flags ::
    "address_space \<Rightarrow> page_range \<Rightarrow> pt_flags \<Rightarrow> kernel_memory
     \<Rightarrow> (mapping_error, unit, address_space \<times> kernel_memory) outcome" where
  "AddressSpace_set_flags sp pages flags km =
     with_space sp km (Level4_set_flags Proxy_allocate_frame (l4_addr sp) pages flags)"

definition AddressSpace_map_kernel_pages_to ::
    "address_space \<Rightarrow> page_range \<Rightarrow> page_range \<Rightarrow> pt_flags \<Rightarrow> kernel_memory
     \<Rightarrow> (mapping_error, unit, address_space \<times> kernel_memory) outcome" where
  "AddressSpace_map_kernel_pages_to sp kernel_pages local_pages flags km = do {
     rust_assert (length (PageRange_pages kernel_pages) = length (PageRange_pages local_pages));
     kernel \<leftarrow> km_kernel km;
     with_space sp km (map_kernel_loop Proxy_allocate_frame (l4_addr kernel) (l4_addr sp) flags
       (zip (PageRange_pages local_pages) (PageRange_pages kernel_pages)))
   }"

definition AddressSpace_translate_address ::
    "address_space \<Rightarrow> kernel_memory \<Rightarrow> address \<Rightarrow> address option rust" where
  "AddressSpace_translate_address sp km addr = do {
     r \<leftarrow> translate_addr (km_tables km) (l4_addr sp) addr;
     case r of Inl _ \<Rightarrow> Some None
     | Inr res \<Rightarrow> map_option Some (Address_add (frame_base_addr (at_frame res)) (at_offset res))
   }"

definition AddressSpace_translate_page ::
    "address_space \<Rightarrow> kernel_memory \<Rightarrow> page \<Rightarrow> frame option rust" where
  "AddressSpace_translate_page sp km page = do {
     r \<leftarrow> translate_page (km_tables km) (l4_addr sp) page;
     Some (case r of Inl _ \<Rightarrow> None | Inr f \<Rightarrow> Some f)
   }"

subsection \<open>Creating, entering and dropping an address space\<close>

definition AddressSpace_is_current :: "address_space \<Rightarrow> kernel_memory \<Rightarrow> bool" where
  "AddressSpace_is_current sp km \<longleftrightarrow> km_cr3 km = l4_addr sp"

definition AddressSpace_enter :: "address_space \<Rightarrow> kernel_memory \<Rightarrow> kernel_memory" where
  "AddressSpace_enter sp km = km\<lparr> km_cr3 := l4_addr sp \<rparr>"

definition init_kernel_address_space :: "kernel_memory \<Rightarrow> kernel_memory rust" where
  "init_kernel_address_space km = do {
     fo \<leftarrow> Frame_from_base_addr (Address_new (km_cr3 km));
     f \<leftarrow> fo;
     Some (km\<lparr> km_kernel := Some \<lparr> as_name = '''', as_frame = f, as_allocated_frames = [] \<rparr> \<rparr>)
   }"

definition AddressSpace_new ::
    "string \<Rightarrow> address_space option \<Rightarrow> kernel_memory \<Rightarrow> (address_space \<times> kernel_memory) rust" where
  "AddressSpace_new name inherit km = do {
     kernel \<leftarrow> km_kernel km;
     rust_assert (AddressSpace_is_current kernel km);
     (fo, allocated, fa) \<leftarrow> Proxy_allocate_frame ([], km_frames km);
     frame \<leftarrow> fo;
     let l4 = frame_base_addr frame;
     let mem = PageTable_clear (km_tables km) l4;
     let mem = (case inherit of
         Some parent \<Rightarrow> mem(l4 := mem (frame_base_addr (as_frame parent)))
       | None \<Rightarrow>
           let kernel_table = mem (l4_addr kernel) in
           mem(l4 := (\<lambda>i. if i \<le> MAX_PHYSICAL_L4_INDEX \<or> i = KERNEL_HEAP_L4_INDEX
                          then kernel_table i else mem l4 i)));
     Some (\<lparr> as_name = name, as_frame = frame, as_allocated_frames = allocated \<rparr>,
           km\<lparr> km_tables := mem, km_frames := fa \<rparr>)
   }"

definition AddressSpace_drop :: "address_space \<Rightarrow> kernel_memory \<Rightarrow> kernel_memory rust" where
  "AddressSpace_drop sp km = do {
     let km = km\<lparr> km_tracker := (km_tracker km)\<lparr>
       tr_spaces := AList.delete (as_name sp, as_frame sp) (tr_spaces (km_tracker km)) \<rparr> \<rparr>;
     fa \<leftarrow> Proxy_drop (as_allocated_frames sp) (km_frames km);
     Some (km\<lparr> km_frames := fa \<rparr>)
   }"

subsection \<open>Kernel mappings\<close>

definition KernelMapping_new ::
    "string \<Rightarrow> usize \<Rightarrow> pt_flags \<Rightarrow> kernel_memory \<Rightarrow> (kernel_mapping \<times> kernel_memory) rust" where
  "KernelMapping_new name size_in_bytes flags km = do {
     let addr = Address_new (km_mapping_offset km);
     let km = km\<lparr> km_mapping_offset := km_mapping_offset km + div_ceil size_in_bytes PAGE_SIZE * PAGE_SIZE \<rparr>;
     pages \<leftarrow> PageRange_from_base_len addr (div_ceil size_in_bytes PAGE_SIZE);
     rust_assert (PageRange_len pages = div_ceil size_in_bytes PAGE_SIZE);
     kernel \<leftarrow> km_kernel km;
     (r, kernel, km) \<leftarrow> AddressSpace_map_pages kernel name pages flags km;
     case r of Inl _ \<Rightarrow> panic
     | Inr _ \<Rightarrow> Some (\<lparr> kmap_name = name, kmap_size = size_in_bytes, kmap_pages = pages, kmap_flags = flags \<rparr>,
                  km\<lparr> km_kernel := Some kernel \<rparr>)
   }"

definition KernelMapping_addr :: "kernel_mapping \<Rightarrow> address" where
  "KernelMapping_addr m = page_base_addr (pr_start (kmap_pages m))"

definition KernelMapping_as_slice_mut ::
    "kernel_mapping \<Rightarrow> kernel_memory \<Rightarrow> usize \<Rightarrow> usize \<Rightarrow> (address \<times> usize) rust" where
  "KernelMapping_as_slice_mut m km offset len = do {
     kernel \<leftarrow> km_kernel km;
     rust_assert (AddressSpace_is_current kernel km);
     rust_assert (offset + len \<le> kmap_size m);
     addr \<leftarrow> Address_add (KernelMapping_addr m) offset;
     Some (addr, len)
   }"

definition KernelMapping_as_mut :: "kernel_mapping \<Rightarrow> usize \<Rightarrow> usize \<Rightarrow> address rust" where
  "KernelMapping_as_mut m size_of_t offset = do {
     rust_assert (size_of_t + offset \<le> kmap_size m);
     addr \<leftarrow> Address_add (KernelMapping_addr m) offset;
     rust_assert (addr \<noteq> 0);
     Some addr
   }"

definition KernelMapping_map_into ::
    "kernel_mapping \<Rightarrow> address_space \<Rightarrow> page_range \<Rightarrow> pt_flags \<Rightarrow> kernel_memory
     \<Rightarrow> (mapping_error, unit, address_space \<times> kernel_memory) outcome" where
  "KernelMapping_map_into m sp pages flags km =
     qbind (AddressSpace_map_kernel_pages_to sp (kmap_pages m) pages flags km)
       (\<lambda>_ (sp, km). Some (Inr (), sp, track sp (kmap_name m) pages km))"

text \<open>The tracker entry of the mapping that \<^verbatim>\<open>extend\<close> changes: the first with its name.\<close>

fun extend_entry :: "string \<Rightarrow> page \<Rightarrow> (string \<times> page_range) list \<Rightarrow> (string \<times> page_range) list rust" where
  "extend_entry name e [] = panic"
| "extend_entry name e ((n, pages) # ms) =
     (if n = name then Some ((n, pages\<lparr> pr_end := e \<rparr>) # ms)
      else map_option (Cons (n, pages)) (extend_entry name e ms))"

definition KernelMapping_extend ::
    "kernel_mapping \<Rightarrow> address_space \<Rightarrow> page_range \<Rightarrow> kernel_memory
     \<Rightarrow> (mapping_error, unit, kernel_mapping \<times> address_space \<times> kernel_memory) outcome" where
  "KernelMapping_extend m sp user_pages km = do {
     new_end \<leftarrow> page_add (pr_end (kmap_pages m)) (PageRange_len user_pages);
     let to_map = PageRange_new (pr_end (kmap_pages m)) new_end;
     let km = km\<lparr> km_mapping_offset := km_mapping_offset km + PageRange_len to_map * PAGE_SIZE \<rparr>;
     kernel \<leftarrow> km_kernel km;
     (r, kernel, km) \<leftarrow> AddressSpace_map_pages_untracked kernel to_map (kmap_flags m) km;
     let km = km\<lparr> km_kernel := Some kernel \<rparr>;
     case r of Inl e \<Rightarrow> Some (Inl e, m, sp, km)
     | Inr _ \<Rightarrow> do {
         (r, sp, km) \<leftarrow> AddressSpace_map_kernel_pages_to sp to_map user_pages (kmap_flags m) km;
         case r of Inl e \<Rightarrow> Some (Inl e, m, sp, km)
         | Inr _ \<Rightarrow> do {
             let m = m\<lparr> kmap_pages := (kmap_pages m)\<lparr> pr_end := new_end \<rparr> \<rparr>;
             let key = (as_name sp, as_frame sp);
             let tr = km_tracker km;
             case map_of (tr_spaces tr) key of
               None \<Rightarrow> Some (Inr (), m, sp, km)
             | Some ms \<Rightarrow> do {
                 ms \<leftarrow> extend_entry (kmap_name m) new_end ms;
                 Some (Inr (), m, sp,
                   km\<lparr> km_tracker := tr\<lparr> tr_spaces := AList.update key ms (tr_spaces tr) \<rparr> \<rparr>)
               } } }
   }"

subsection \<open>The memory tracker\<close>

definition MemoryTracker_new :: memory_tracker where
  "MemoryTracker_new = \<lparr> tr_spaces = [],
     tr_kernel_pages = PageRange_new (Page 0) (Page 0),
     tr_framebuffer_pages = PageRange_new (Page 0) (Page 0), tr_pci_bars = [] \<rparr>"

definition MemoryTracker_init :: "memory_tracker \<Rightarrow> boot_info \<Rightarrow> memory_tracker rust" where
  "MemoryTracker_init tr boot_info = do {
     kernel \<leftarrow> PageRange_from_base_size (Address_new (kernel_start boot_info))
       (kernel_end boot_info - kernel_start boot_info);
     fb \<leftarrow> PageRange_from_base_size (Address_new (framebuffer_addr (display_info boot_info)))
       (framebuffer_size (display_info boot_info));
     Some (tr\<lparr> tr_kernel_pages := kernel, tr_framebuffer_pages := fb \<rparr>)
   }"

definition MemoryTracker_register_pci_bar ::
    "memory_tracker \<Rightarrow> u8 \<Rightarrow> u8 \<Rightarrow> u8 \<Rightarrow> u8 \<Rightarrow> page_range \<Rightarrow> memory_tracker" where
  "MemoryTracker_register_pci_bar tr bus dev func slot pages =
     tr\<lparr> tr_pci_bars := AList.update
       \<lparr> bs_bus = bus, bs_device = dev, bs_function = func, bs_slot = slot \<rparr> pages (tr_pci_bars tr) \<rparr>"

definition MemoryTracker_get_pci_bar ::
    "memory_tracker \<Rightarrow> address \<Rightarrow> (bar_slot \<times> page_range) option" where
  "MemoryTracker_get_pci_bar tr addr =
     find (\<lambda>(_, pages). page_number (pr_start pages) \<le> page_number (Page_containing_addr addr)
        \<and> page_number (pr_end pages) > page_number (Page_containing_addr addr)) (tr_pci_bars tr)"

subsection \<open>Frames are conserved\<close>

text \<open>What an operation that is given an allocator does to it, it does through \<^verbatim>\<open>allocate_frame\<close>.\<close>

definition alloc_closed :: "('s \<Rightarrow> (frame option \<times> 's) rust) \<Rightarrow> ('s \<Rightarrow> bool) \<Rightarrow> bool" where
  "alloc_closed alloc P \<longleftrightarrow> (\<forall>s fo s'. P s \<longrightarrow> alloc s = Some (fo, s') \<longrightarrow> P s')"

lemma next_table_closed:
  assumes "alloc_closed alloc P" "next_table alloc t i pf (mem, s) = Some (r, mem', s')" "P s"
  shows "P s'"
  using assms unfolding alloc_closed_def
  by (auto simp: next_table_def Let_def qbind_def split: if_splits Option.bind_splits option.splits sum.splits
      entry_frame_error.splits prod.splits)

lemma map_to_closed:
  assumes c: "alloc_closed alloc P" and m: "map_to alloc l4 page frame flags (mem, s) = Some (r, mem', s')"
    and "P s"
  shows "P s'"
proof -
  note nt = next_table_closed [OF c]
  obtain r3 m3 s3 where n3: "next_table alloc l4 (page_l4_index page) (parent_table_flags flags) (mem, s)
      = Some (r3, m3, s3)" using m by (auto simp: map_to_def qbind_def split: option.splits)
  have p3: "P s3" by (rule nt [OF n3 \<open>P s\<close>])
  show ?thesis
  proof (cases r3)
    case (Inl e)
    then show ?thesis using m n3 p3 by (simp add: map_to_def)
  next
    case (Inr l3)
    obtain r2 m2 s2 where n2: "next_table alloc l3 (page_l3_index page) (parent_table_flags flags) (m3, s3)
        = Some (r2, m2, s2)" using m n3 Inr by (auto simp: map_to_def qbind_def split: option.splits)
    have p2: "P s2" by (rule nt [OF n2 p3])
    show ?thesis
    proof (cases r2)
      case (Inl e)
      then show ?thesis using m n3 n2 Inr p2 by (simp add: map_to_def)
    next
      case r2: (Inr l2)
      obtain r1 m1 s1 where n1: "next_table alloc l2 (page_l2_index page) (parent_table_flags flags) (m2, s2)
          = Some (r1, m1, s1)" using m n3 n2 Inr r2 by (auto simp: map_to_def qbind_def split: option.splits)
      have "P s1" by (rule nt [OF n1 p2])
      then show ?thesis
        using m n3 n2 n1 Inr r2 by (cases r1) (auto simp: map_to_def split: if_splits Option.bind_splits)
    qed
  qed
qed

lemma map_pages_loop_closed:
  assumes c: "alloc_closed alloc P"
  shows "map_pages_loop alloc l4 flags pages (mem, s) = Some (r, mem', s') \<Longrightarrow> P s \<Longrightarrow> P s'"
proof (induction pages arbitrary: mem s)
  case (Cons page pages)
  from Cons.prems(1) obtain frame s1 r1 mem1 s2 where a: "alloc s = Some (Some frame, s1)"
    "map_to alloc l4 page frame flags (mem, s1) = Some (r1, mem1, s2)"
    by (auto split: Option.bind_splits option.splits)
  have "P s1" using c a(1) Cons.prems(2) by (auto simp: alloc_closed_def)
  then have p2: "P s2" by (rule map_to_closed [OF c a(2)])
  from Cons.prems(1) a consider
    "map_pages_loop alloc l4 flags pages (mem1, s2) = Some (r, mem', s')" | "s' = s2"
    by (auto split: sum.splits mapping_error.splits if_splits)
  then show ?case using Cons.IH p2 by cases auto
qed simp

definition proxy_ok :: "frame set \<Rightarrow> frame list \<times> frame_allocator \<Rightarrow> bool" where
  "proxy_ok C = (\<lambda>(allocated, fa). fa_inv fa \<and> set allocated \<inter> fa_free fa = {}
     \<and> set allocated \<union> fa_free fa = C)"

definition proxy_free :: "frame list \<times> frame_allocator \<Rightarrow> frame set" where
  "proxy_free = (\<lambda>(allocated, fa). fa_free fa)"

interpretation proxy_frames: frame_source Proxy_allocate_frame "proxy_ok C" proxy_free
  for C
proof unfold_locales
  fix st assume ok: "proxy_ok C st"
  obtain al fa where st: "st = (al, fa)" by fastforce
  have inv: "fa_inv fa" using ok by (simp add: st proxy_ok_def)
  show "proxy_free st = {} \<Longrightarrow> Proxy_allocate_frame st = Some (None, st)"
    using kernel_frames.alloc_empty [OF inv] by (simp add: st Proxy_allocate_frame_def proxy_free_def)
  show "f \<in> proxy_free st \<Longrightarrow> frame_physical f" for f
    using kernel_frames.free_physical [OF inv] by (simp add: st proxy_free_def)
  assume "proxy_free st \<noteq> {}"
  then obtain f fa' where f: "FrameAllocator_allocate_frame fa = Some (Some f, fa')" "f \<in> fa_free fa"
    "fa_free fa' = fa_free fa - {f}" "fa_inv fa'"
    using kernel_frames.alloc_free [OF inv] by (auto simp: st proxy_free_def)
  then show "\<exists>f s'. Proxy_allocate_frame st = Some (Some f, s') \<and> f \<in> proxy_free st
      \<and> proxy_free s' = proxy_free st - {f} \<and> proxy_ok C s'"
    using ok by (intro exI [of _ f] exI [of _ "(al @ [f], fa')"])
      (auto simp: st Proxy_allocate_frame_def proxy_free_def proxy_ok_def)
qed

lemma proxy_alloc_closed: "alloc_closed Proxy_allocate_frame (proxy_ok C)"
  unfolding alloc_closed_def
proof (intro allI impI)
  fix s fo s' assume ok: "proxy_ok C s" and a: "Proxy_allocate_frame s = Some (fo, s')"
  show "proxy_ok C s'"
  proof (cases "proxy_free s = {}")
    case True
    then show ?thesis using proxy_frames.alloc_empty [OF ok True] a ok by simp
  next
    case False
    then show ?thesis using proxy_frames.alloc_free [OF ok False] a by auto
  qed
qed

lemma Proxy_drop_spec:
  "fa_inv fa \<Longrightarrow> \<exists>fa'. Proxy_drop fs fa = Some fa' \<and> fa_inv fa'
    \<and> fa_free fa' = fa_free fa \<union> {f \<in> set fs. frame_number f < MAX_FRAMES}"
proof (induction fs arbitrary: fa)
  case (Cons f fs)
  show ?case
  proof (cases "frame_number f < MAX_FRAMES")
    case True
    obtain fa1 where 1: "FrameAllocator_deallocate fa f = Some (Inr (), fa1)" "fa_inv fa1"
      "free_set fa1 = insert (unat (frame_number f)) (free_set fa)"
      by (rule FrameAllocator_deallocate_spec [OF Cons.prems True])
    have "fa_free fa1 = insert f (fa_free fa)"
      using 1(3) by (cases f) (auto simp: fa_free_def unat_frame_number_eq)
    then show ?thesis using Cons.IH [OF 1(2)] 1(1) True by auto
  next
    case False
    then have "FrameAllocator_deallocate fa f = Some (Inl InvalidFrame, fa)"
      by (simp add: FrameAllocator_deallocate_def Let_def not_less)
    then show ?thesis using Cons.IH [OF Cons.prems] False by auto
  qed
qed simp

subsection \<open>Mapping a fresh range\<close>

context frame_source
begin

lemma map_pages_loop_spec:
  assumes "ok s" "wf_tables mem 3 l4" "avoids (free s) mem 3 l4" and flags: "page_flags flags"
    and "\<forall>p \<in> set pages. canonical_page p \<and> translate_page mem l4 p = Some (Inl NotMapped)"
    and "distinct pages" "finite (free s)" "4 * length pages \<le> card (free s)"
  shows "\<exists>mem' s' fs. map_pages_loop alloc l4 flags pages (mem, s) = Some (Inr (), mem', s')
    \<and> ok s' \<and> evolves 3 l4 mem (free s) mem' (free s') \<and> avoids (free s') mem' 3 l4
    \<and> length fs = length pages \<and> distinct fs \<and> set fs \<subseteq> free s - free s'
    \<and> (\<forall>f \<in> set fs. frame_base_addr f \<notin> tables mem' 3 l4)
    \<and> (\<forall>q. canonical_page q \<longrightarrow> translate_page mem' l4 q =
          (case map_of (zip pages fs) q of Some f \<Rightarrow> Some (Inr f) | None \<Rightarrow> translate_page mem l4 q))"
  using assms(1-3,5-)
proof (induction pages arbitrary: mem s)
  case Nil
  then show ?case by (simp add: evolves_refl)
next
  case (Cons page pages)
  have ne: "free s \<noteq> {}" using Cons.prems(7) by auto
  obtain f s1 where a: "alloc s = Some (Some f, s1)" "f \<in> free s" "free s1 = free s - {f}" "ok s1"
    using alloc_free [OF Cons.prems(1) ne] by blast
  have fp: "frame_physical f" by (rule free_physical [OF Cons.prems(1) a(2)])
  have ev0: "evolves 3 l4 mem (free s) mem (free s1)" using Cons.prems(2) a(3) by (auto simp: evolves_def)
  have av1: "avoids (free s1) mem 3 l4" by (rule avoids_evolves [OF Cons.prems(3) ev0])
  have cp: "canonical_page page" "lookup mem l4 (page_path page) = Some (Inl NotMapped)"
    using Cons.prems(4) by (simp_all add: lookup_translate)
  have fin1: "finite (free s1)" "card (free s1) = card (free s) - 1"
    using Cons.prems(6) a(2,3) by simp_all
  obtain r mem1 s2 where m: "map_to alloc l4 page f flags (mem, s1) = Some (r, mem1, s2)" "ok s2"
    "evolves 3 l4 mem (free s1) mem1 (free s2)" "avoids (free s2) mem1 3 l4"
    "card (free s1) \<le> 3 + card (free s2)"
    "map_outcome 3 page f (free s1) (lookup mem l4 (page_path page)) r"
    "\<And>q. canonical_page q \<Longrightarrow> translate_page mem1 l4 q =
       (if r = Inr page \<and> q = page then Some (Inr f) else translate_page mem l4 q)"
    using map_to_ex [OF a(4) Cons.prems(2) av1 flags fp cp(1)] fin1(1) by blast
  have r: "r = Inr page" using m(6) cp(2) fin1(2) Cons.prems(7) by (auto simp: map_outcome_def)
  have fin2: "finite (free s2)" using m(3) fin1(1) by (auto simp: evolves_def intro: finite_subset)
  have nm: "\<forall>p \<in> set pages. canonical_page p \<and> translate_page mem1 l4 p = Some (Inl NotMapped)"
    using Cons.prems(4,5) m(7) by auto
  have card2: "4 * length pages \<le> card (free s2)" using Cons.prems(7) m(5) fin1(2) by simp
  have wf1: "wf_tables mem1 3 l4" using m(3) by (simp add: evolves_def)
  obtain mem' s' fs where ih: "map_pages_loop alloc l4 flags pages (mem1, s2) = Some (Inr (), mem', s')"
    "ok s'" "evolves 3 l4 mem1 (free s2) mem' (free s')" "avoids (free s') mem' 3 l4"
    "length fs = length pages" "distinct fs" "set fs \<subseteq> free s2 - free s'"
    "\<forall>f \<in> set fs. frame_base_addr f \<notin> tables mem' 3 l4"
    "\<forall>q. canonical_page q \<longrightarrow> translate_page mem' l4 q =
          (case map_of (zip pages fs) q of Some f \<Rightarrow> Some (Inr f) | None \<Rightarrow> translate_page mem1 l4 q)"
    using Cons.IH [OF m(2) wf1 m(4) nm _ fin2 card2] Cons.prems(5) by auto
  have ev1: "evolves 3 l4 mem (free s1) mem' (free s')" by (rule evolves_trans [OF m(3) ih(3)])
  have nf: "frame_base_addr f \<notin> tables mem' 3 l4"
  proof
    assume "frame_base_addr f \<in> tables mem' 3 l4"
    moreover have "frame_base_addr f \<notin> tables mem 3 l4" using Cons.prems(3) a(2) by (simp add: avoids_def)
    ultimately obtain g where "g \<in> free s1" "frame_base_addr f = frame_base_addr g"
      using ev1 by (auto simp: evolves_def simp del: tables.simps)
    moreover from this have "frame_physical g" using av1 by (simp add: avoids_def)
    ultimately show False using frame_base_addr_inj [OF fp] a(3) by blast
  qed
  have sub: "free s2 \<subseteq> free s1" using m(3) by (simp add: evolves_def)
  have "free s' \<subseteq> free s1" using ev1 by (simp add: evolves_def)
  then have fs: "f \<notin> set fs" "set (f # fs) \<subseteq> free s - free s'"
    using ih(7) sub a(2,3) by auto
  have page: "page \<notin> set pages" using Cons.prems(5) by simp
  have "translate_page mem' l4 q =
      (case map_of (zip (page # pages) (f # fs)) q of Some f \<Rightarrow> Some (Inr f) | None \<Rightarrow> translate_page mem l4 q)"
    if q: "canonical_page q" for q
  proof (cases "q = page")
    case True
    then have "map_of (zip pages fs) q = None" using page by (auto simp: map_of_eq_None_iff dest: set_zip_leftD)
    then show ?thesis using ih(9) q m(7) [OF q] r True by simp
  next
    case False
    then show ?thesis using ih(9) q m(7) [OF q] by (simp split: option.split)
  qed
  then show ?case
    using a(1) m(1) r ih(1,2,4-6,8) nf fs evolves_trans [OF ev0 ev1]
    by (intro exI [of _ mem'] exI [of _ s'] exI [of _ "f # fs"]) auto
qed

lemma map_pages_loop_returns:
  assumes "ok s" "wf_tables mem 3 l4" "avoids (free s) mem 3 l4" and flags: "page_flags flags"
    and "\<forall>p \<in> set pages. canonical_page p" "finite (free s)" "4 * length pages \<le> card (free s)"
  shows "\<exists>r. map_pages_loop alloc l4 flags pages (mem, s) = Some r"
  using assms(1-3,5-)
proof (induction pages arbitrary: mem s)
  case (Cons page pages)
  have ne: "free s \<noteq> {}" using Cons.prems(6) by auto
  obtain f s1 where a: "alloc s = Some (Some f, s1)" "f \<in> free s" "free s1 = free s - {f}" "ok s1"
    using alloc_free [OF Cons.prems(1) ne] by blast
  have fp: "frame_physical f" by (rule free_physical [OF Cons.prems(1) a(2)])
  have "evolves 3 l4 mem (free s) mem (free s1)" using Cons.prems(2) a(3) by (auto simp: evolves_def)
  then have av1: "avoids (free s1) mem 3 l4" by (rule avoids_evolves [OF Cons.prems(3)])
  have fin1: "finite (free s1)" "card (free s1) = card (free s) - 1"
    using Cons.prems(5) a(2,3) by simp_all
  obtain r mem1 s2 where m: "map_to alloc l4 page f flags (mem, s1) = Some (r, mem1, s2)" "ok s2"
    "evolves 3 l4 mem (free s1) mem1 (free s2)" "avoids (free s2) mem1 3 l4"
    "card (free s1) \<le> 3 + card (free s2)"
    using map_to_ex [OF a(4) Cons.prems(2) av1 flags fp, of page] Cons.prems(4) fin1(1) by auto
  have "finite (free s2)" using m(3) fin1(1) by (auto simp: evolves_def intro: finite_subset)
  moreover have "4 * length pages \<le> card (free s2)" using Cons.prems(6) m(5) fin1(2) by simp
  moreover have "wf_tables mem1 3 l4" using m(3) by (simp add: evolves_def)
  ultimately obtain r' where "map_pages_loop alloc l4 flags pages (mem1, s2) = Some r'"
    using Cons.IH [OF m(2) _ m(4)] Cons.prems(4) by auto
  then show ?case using a(1) m(1) by (cases r') (auto split: sum.split mapping_error.split)
qed simp

end

subsection \<open>A new address space\<close>

lemma AddressSpace_new_spec:
  assumes k: "km_kernel km = Some ks" "AddressSpace_is_current ks km"
    and inv: "fa_inv (km_frames km)" "fa_free (km_frames km) \<noteq> {}"
    and wf: "wf_tables (km_tables km) 3 (l4_addr ks)"
    and av: "avoids (fa_free (km_frames km)) (km_tables km) 3 (l4_addr ks)"
  obtains sp fa' where "AddressSpace_new name None km = Some (sp, km\<lparr>
      km_tables := (km_tables km)(l4_addr sp := (\<lambda>i. if i \<le> 255 \<or> i = 509
        then km_tables km (l4_addr ks) i else 0)), km_frames := fa' \<rparr>)"
    "as_frame sp \<in> fa_free (km_frames km)" "as_allocated_frames sp = [as_frame sp]"
    "fa_inv fa'" "fa_free fa' = fa_free (km_frames km) - {as_frame sp}" "as_name sp = name"
proof -
  obtain f fa' where f: "FrameAllocator_allocate_frame (km_frames km) = Some (Some f, fa')"
    "f \<in> fa_free (km_frames km)" "fa_free fa' = fa_free (km_frames km) - {f}" "fa_inv fa'"
    using kernel_frames.alloc_free [OF inv] by blast
  have "frame_base_addr f \<notin> tables (km_tables km) 3 (l4_addr ks)"
    using av f(2) by (simp add: avoids_def)
  then have ne: "l4_addr ks \<noteq> frame_base_addr f" by auto
  let ?sp = "\<lparr> as_name = name, as_frame = f, as_allocated_frames = [f] \<rparr>"
  have "(PageTable_clear (km_tables km) (frame_base_addr f))(frame_base_addr f := t) =
      (km_tables km)(frame_base_addr f := t)" for t by (simp add: PageTable_clear_def)
  then have "AddressSpace_new name None km = Some (?sp, km\<lparr>
      km_tables := (km_tables km)(l4_addr ?sp := (\<lambda>i. if i \<le> 255 \<or> i = 509
        then km_tables km (l4_addr ks) i else 0)), km_frames := fa' \<rparr>)"
    using k f(1) ne
    by (simp add: AddressSpace_new_def Proxy_allocate_frame_def Let_def l4_constants l4_addr_def
        PageTable_clear_def pte_set_unused_def cong: if_cong)
  then show thesis using f by (intro that [of ?sp fa']) simp_all
qed

lemma translate_page_index:
  assumes "mem' l4' (page_l4_index p) = mem l4 (page_l4_index p)"
    and "\<And>c. child mem l4 (page_l4_index p) = Some c \<Longrightarrow>
      \<forall>a \<in> tables mem 2 c. mem' a = mem a"
  shows "translate_page mem' l4' p = translate_page mem l4 p"
proof -
  have tp: "table_path 2 [page_l3_index p, page_l2_index p, page_l1_index p]"
    by (simp add: table_path_def page_index_less)
  have "lookup mem' l4' (page_path p) = lookup mem l4 (page_path p)"
  proof -
    have "lookup mem' c [page_l3_index p, page_l2_index p, page_l1_index p]
        = lookup mem c [page_l3_index p, page_l2_index p, page_l1_index p]"
      if "child mem l4 (page_l4_index p) = Some c" for c
      using assms(2) [OF that] tp by (rule lookup_frame)
    then show ?thesis
      unfolding page_path_def lookup.simps(3) assms(1)
      by (simp only: get_table_t_def child_def) (auto split: Option.bind_split sum.split)
  qed
  then show ?thesis by (simp add: translate_page_lookup)
qed

lemma new_space_translates:
  assumes wf: "wf_tables mem 3 l4" and ne: "b \<notin> tables mem 3 l4"
    and p: "page_l4_index p \<le> 255 \<or> page_l4_index p = 509"
  shows "translate_page (mem(b := (\<lambda>i. if i \<le> 255 \<or> i = 509 then mem l4 i else 0))) b p
    = translate_page mem l4 p"
proof (rule translate_page_index)
  fix c assume c: "child mem l4 (page_l4_index p) = Some c"
  have "tables mem 2 c \<subseteq> tables mem 3 l4"
    using tables_child [OF page_index_less(1) c, of 2] by (simp add: numeral_3_eq_3 numeral_2_eq_2)
  then show "\<forall>a \<in> tables mem 2 c. (mem(b := (\<lambda>i. if i \<le> 255 \<or> i = 509 then mem l4 i else 0))) a = mem a"
    using ne by auto
qed (use p in simp)

lemma new_space_wf:
  assumes wf: "wf_tables mem 3 l4" and ne: "b \<notin> tables mem 3 l4"
  defines "mem' \<equiv> mem(b := (\<lambda>i. if i \<le> 255 \<or> i = 509 then mem l4 i else 0))"
  shows "wf_tables mem' 3 b" "tables mem' 3 b \<subseteq> insert b (tables mem 3 l4)"
proof -
  have old: "child mem l4 i = Some c" if "child mem' b i = Some c" for i c
  proof -
    have "get_table 0 = Some (Inl NotPresent)" by code_simp
    then show ?thesis using that by (auto simp: child_def mem'_def split: if_splits)
  qed
  have sub: "tables mem 2 c \<subseteq> tables mem 3 l4" if "i < 512" "child mem l4 i = Some c" for i c
    using tables_child [OF that, of 2] by (simp add: numeral_3_eq_3 numeral_2_eq_2)
  have fr: "\<forall>a \<in> tables mem 2 c. mem' a = mem a" if "i < 512" "child mem l4 i = Some c" for i c
    using sub [OF that] ne by (auto simp: mem'_def)
  note tx = tables_frame [OF fr] and wx = wf_tables_frame [OF fr]
  have wf': "\<forall>i < 512. entry_ok (mem l4 i)"
    "\<forall>i < 512. \<forall>c. child mem l4 i = Some c \<longrightarrow> wf_tables mem 2 c"
    "\<forall>i < 512. \<forall>j < 512. \<forall>c c'. i \<noteq> j \<longrightarrow> child mem l4 i = Some c \<longrightarrow> child mem l4 j = Some c' \<longrightarrow>
        tables mem 2 c \<inter> tables mem 2 c' = {}"
    using wf by (simp_all add: numeral_3_eq_3 numeral_2_eq_2 del: tables.simps)
  have "wf_tables mem' (Suc 2) b"
    unfolding wf_tables.simps
  proof (intro conjI allI impI)
    fix i :: usize assume "i < 512"
    moreover have "entry_ok 0" by (simp add: entry_ok_def pte_is_unused_def)
    ultimately show "entry_ok (mem' b i)" using wf'(1) by (simp add: mem'_def)
  next
    fix i :: usize and c assume "i < 512" "child mem' b i = Some c"
    then show "wf_tables mem' 2 c" "b \<notin> tables mem' 2 c"
      using old tx wx wf'(2) sub ne by blast+
  next
    fix i j :: usize and c c' assume "i < 512" "j < 512" "i \<noteq> j" "child mem' b i = Some c" "child mem' b j = Some c'"
    then show "tables mem' 2 c \<inter> tables mem' 2 c' = {}" using old tx wf'(3) by metis
  qed
  then show "wf_tables mem' 3 b" by (simp only: numeral_3_eq_3 numeral_2_eq_2)
  have "tables mem' (Suc 2) b \<subseteq> insert b (tables mem 3 l4)"
    unfolding tables.simps(2) using old tx sub by fastforce
  then show "tables mem' 3 b \<subseteq> insert b (tables mem 3 l4)" by (simp only: numeral_3_eq_3 numeral_2_eq_2)
qed

lemma AddressSpace_new_wf:
  assumes k: "km_kernel km = Some ks" "AddressSpace_is_current ks km"
    and inv: "fa_inv (km_frames km)" "fa_free (km_frames km) \<noteq> {}"
    and wf: "wf_tables (km_tables km) 3 (l4_addr ks)"
    and av: "avoids (fa_free (km_frames km)) (km_tables km) 3 (l4_addr ks)"
  obtains sp km1 where "AddressSpace_new name None km = Some (sp, km1)"
    "as_frame sp \<in> fa_free (km_frames km)" "as_allocated_frames sp = [as_frame sp]"
    "fa_inv (km_frames km1)" "fa_free (km_frames km1) = fa_free (km_frames km) - {as_frame sp}"
    "wf_tables (km_tables km1) 3 (l4_addr sp)"
    "avoids (fa_free (km_frames km1)) (km_tables km1) 3 (l4_addr sp)"
proof -
  let ?F = "fa_free (km_frames km)"
  obtain sp fa' where s: "AddressSpace_new name None km = Some (sp, km\<lparr>
      km_tables := (km_tables km)(l4_addr sp := (\<lambda>i. if i \<le> 255 \<or> i = 509
        then km_tables km (l4_addr ks) i else 0)), km_frames := fa' \<rparr>)"
    "as_frame sp \<in> ?F" "as_allocated_frames sp = [as_frame sp]"
    "fa_inv fa'" "fa_free fa' = ?F - {as_frame sp}"
    by (rule AddressSpace_new_spec [OF assms]) blast
  have b: "l4_addr sp \<notin> tables (km_tables km) 3 (l4_addr ks)"
    using av s(2) by (simp add: avoids_def l4_addr_def)
  note w = new_space_wf [OF wf b]
  have "frame_base_addr f \<noteq> l4_addr sp" if "f \<in> ?F - {as_frame sp}" for f
    using that s(2) av frame_base_addr_inj by (auto simp: avoids_def l4_addr_def)
  then have "avoids (?F - {as_frame sp}) ((km_tables km)(l4_addr sp := (\<lambda>i. if i \<le> 255 \<or> i = 509
        then km_tables km (l4_addr ks) i else 0))) 3 (l4_addr sp)"
    using av w(2) unfolding avoids_def by blast
  then show thesis using s(4,5) w(1) by (intro that [OF s(1,2,3)]) simp_all
qed

subsection \<open>Consecutive kernel mappings\<close>

lemma KernelMapping_new_range:
  assumes n: "KernelMapping_new name sz flags km = Some (m, km')"
    and off: "2 ^ 64 - 2 ^ 47 \<le> unat (km_mapping_offset km)" "4096 dvd unat (km_mapping_offset km)"
    and lim: "unat (km_mapping_offset km) + pages_spanned sz * 4096 < 2 ^ 64"
  shows "unat (km_mapping_offset km') = unat (km_mapping_offset km) + pages_spanned sz * 4096"
    and "unat (page_number (pr_start (kmap_pages m))) * 4096 = unat (km_mapping_offset km)"
    and "unat (page_number (pr_end (kmap_pages m))) * 4096 = unat (km_mapping_offset km')"
proof -
  let ?o = "km_mapping_offset km" and ?n = "div_ceil sz PAGE_SIZE"
  have a: "Address_new ?o = ?o" by (rule Address_new_id [OF canonical_high [OF off(1)]])
  have un: "unat ?n = pages_spanned sz" by (rule unat_div_ceil_PAGE)
  have prod: "unat (?n * PAGE_SIZE) = pages_spanned sz * 4096"
    using lim by (simp add: unat_word_ariths un)
  have o': "km_mapping_offset km' = ?o + ?n * PAGE_SIZE"
    using n by (auto simp: KernelMapping_new_def AddressSpace_map_pages_def with_space_def qbind_def
        track_def Let_def split: Option.bind_splits option.splits sum.splits prod.splits)
  then show e: "unat (km_mapping_offset km') = unat ?o + pages_spanned sz * 4096"
    using lim unat_add_no_overflow [of ?o "?n * PAGE_SIZE"] prod by simp
  have pg: "unat (page_number (Page_containing_addr ?o)) * 4096 = unat ?o"
    using off(2) by (simp add: unat_page_number_containing)
  have "PageRange_from_base_len ?o ?n = Some (kmap_pages m)"
    using n a by (auto simp: KernelMapping_new_def Let_def split: Option.bind_splits sum.splits)
  then obtain e where "page_add (Page_containing_addr ?o) ?n = Some e"
    "kmap_pages m = PageRange_new (Page_containing_addr ?o) e"
    by (auto simp: PageRange_from_base_len_def)
  then have r: "pr_start (kmap_pages m) = Page_containing_addr ?o"
    "page_number (pr_end (kmap_pages m)) = page_number (Page_containing_addr ?o) + ?n"
    "unat (page_number (Page_containing_addr ?o)) + unat ?n < 2 ^ 64"
    by (auto simp: PageRange_new_def page_add_def)
  show "unat (page_number (pr_start (kmap_pages m))) * 4096 = unat ?o" using pg by (simp add: r(1))
  have "unat (page_number (pr_end (kmap_pages m))) = unat (page_number (Page_containing_addr ?o)) + pages_spanned sz"
    using r(2,3) unat_add_no_overflow [of "page_number (Page_containing_addr ?o)" ?n] un by simp
  then show "unat (page_number (pr_end (kmap_pages m))) * 4096 = unat (km_mapping_offset km')"
    using pg e by (simp add: algebra_simps)
qed

subsection \<open>Properties\<close>

text \<open>
  C1: \<^verbatim>\<open>map_to\<close> refines the update of a map from pages to frames. With the kernel's allocator, a
  well-formed tree of tables and no free frame inside it, the call never panics and keeps all of this.
  If the page was unmapped it succeeds, or reports \<^verbatim>\<open>FrameAllocationFailed\<close> when fewer than three
  frames were free; a huge page on the way and a page already mapped are reported as such. On success
  the page translates to the frame, and every other page, and every page after an error,
  translates as before.
\<close>

theorem map_to_refines:
  assumes "fa_inv fa" "wf_tables mem 3 l4" "avoids (fa_free fa) mem 3 l4" "page_flags flags"
    and "frame_physical frame" "canonical_page page"
  shows "\<exists>r mem' fa'. map_to FrameAllocator_allocate_frame l4 page frame flags (mem, fa) = Some (r, mem', fa')
    \<and> fa_inv fa' \<and> wf_tables mem' 3 l4 \<and> avoids (fa_free fa') mem' 3 l4
    \<and> (case translate_page mem l4 page of
         Some (Inl NotMapped) \<Rightarrow>
           r = Inr page \<or> r = Inl FrameAllocationFailed \<and> card (fa_free fa) < 3
       | Some (Inl TranslationHugePage) \<Rightarrow> r = Inl MappedToHugePage
       | _ \<Rightarrow> r = Inl (PageAlreadyMapped frame))
    \<and> (\<forall>q. canonical_page q \<longrightarrow> translate_page mem' l4 q =
         (if r = Inr page \<and> q = page then Some (Inr frame) else translate_page mem l4 q))"
proof -
  obtain r mem' fa' where m: "map_to FrameAllocator_allocate_frame l4 page frame flags (mem, fa) = Some (r, mem', fa')"
    "fa_inv fa'" "wf_tables mem' 3 l4" "avoids (fa_free fa') mem' 3 l4"
    "map_outcome 3 page frame (fa_free fa) (lookup mem l4 (page_path page)) r"
    "\<forall>q. canonical_page q \<longrightarrow> translate_page mem' l4 q =
         (if r = Inr page \<and> q = page then Some (Inr frame) else translate_page mem l4 q)"
    using kernel_frames.map_to_ex [OF assms] by (auto simp: evolves_def)
  moreover have "case translate_page mem l4 page of
         Some (Inl NotMapped) \<Rightarrow>
           r = Inr page \<or> r = Inl FrameAllocationFailed \<and> card (fa_free fa) < 3
       | Some (Inl TranslationHugePage) \<Rightarrow> r = Inl MappedToHugePage
       | _ \<Rightarrow> r = Inl (PageAlreadyMapped frame)"
    using m(5) by (auto simp: map_outcome_def translate_page_lookup leaf_frame_def
        split: option.splits sum.splits translation_error.splits Option.bind_splits)
  ultimately show ?thesis by blast
qed


text \<open>
  C21: mapping a fresh range of pages. If the pages of the range are canonical and unmapped and the
  allocator has four frames for each of them, \<^verbatim>\<open>AddressSpace::map_pages\<close> succeeds. Each page is
  then mapped to a frame of its own that was free before and holds no page table, every other page
  keeps its translation, and the tree of tables stays well formed.
\<close>

theorem map_pages_fresh:
  assumes "proxy_ok C (as_allocated_frames sp, km_frames km)"
    and "wf_tables (km_tables km) 3 (l4_addr sp)"
    and "avoids (fa_free (km_frames km)) (km_tables km) 3 (l4_addr sp)"
    and "page_flags flags"
    and "\<forall>p \<in> set (PageRange_pages pages). canonical_page p
           \<and> translate_page (km_tables km) (l4_addr sp) p = Some (Inl NotMapped)"
    and "4 * length (PageRange_pages pages) \<le> card (fa_free (km_frames km))"
  shows "\<exists>sp' km' fs. AddressSpace_map_pages sp name pages flags km = Some (Inr (), sp', km')
    \<and> proxy_ok C (as_allocated_frames sp', km_frames km') \<and> l4_addr sp' = l4_addr sp
    \<and> wf_tables (km_tables km') 3 (l4_addr sp)
    \<and> avoids (fa_free (km_frames km')) (km_tables km') 3 (l4_addr sp)
    \<and> length fs = length (PageRange_pages pages) \<and> distinct fs
    \<and> (\<forall>f \<in> set fs. f \<in> fa_free (km_frames km) \<and> frame_base_addr f \<notin> tables (km_tables km') 3 (l4_addr sp))
    \<and> (\<forall>q. canonical_page q \<longrightarrow> translate_page (km_tables km') (l4_addr sp) q =
          (case map_of (zip (PageRange_pages pages) fs) q of
             Some f \<Rightarrow> Some (Inr f) | None \<Rightarrow> translate_page (km_tables km) (l4_addr sp) q))"
proof -
  let ?s = "(as_allocated_frames sp, km_frames km)" and ?ps = "PageRange_pages pages"
  have fr: "proxy_free ?s = fa_free (km_frames km)" by (simp add: proxy_free_def)
  from proxy_frames.map_pages_loop_spec [OF assms(1,2) _ assms(4,5) distinct_PageRange_pages, unfolded fr,
      OF assms(3) card_fa_free(1) assms(6)]
  obtain mem' al' fa' fs where m: "map_pages_loop Proxy_allocate_frame (l4_addr sp) flags ?ps
        (km_tables km, ?s) = Some (Inr (), mem', al', fa')"
    "proxy_ok C (al', fa')" "evolves 3 (l4_addr sp) (km_tables km) (fa_free (km_frames km)) mem' (fa_free fa')"
    "avoids (fa_free fa') mem' 3 (l4_addr sp)"
    "length fs = length ?ps" "distinct fs" "set fs \<subseteq> fa_free (km_frames km) - fa_free fa'"
    "\<forall>f \<in> set fs. frame_base_addr f \<notin> tables mem' 3 (l4_addr sp)"
    "\<forall>q. canonical_page q \<longrightarrow> translate_page mem' (l4_addr sp) q =
          (case map_of (zip ?ps fs) q of Some f \<Rightarrow> Some (Inr f)
           | None \<Rightarrow> translate_page (km_tables km) (l4_addr sp) q)"
    by (auto simp: proxy_free_def)
  let ?sp = "sp\<lparr> as_allocated_frames := al' \<rparr>"
  let ?km = "track ?sp name pages (km\<lparr> km_tables := mem', km_frames := fa' \<rparr>)"
  have "AddressSpace_map_pages sp name pages flags km = Some (Inr (), ?sp, ?km)"
    using m(1) by (simp add: AddressSpace_map_pages_def with_space_def)
  moreover have "km_tables ?km = mem'" "km_frames ?km = fa'" by (simp_all add: track_def Let_def)
  ultimately show ?thesis
    using m(2-9) by (intro exI [of _ ?sp] exI [of _ ?km] exI [of _ fs])
      (auto simp: evolves_def l4_addr_def)
qed

text \<open>A machine with an empty address space at frame 600 and the sample frames free.\<close>

definition sample_space :: address_space where
  "sample_space = \<lparr> as_name = ''shell'', as_frame = Frame 600, as_allocated_frames = [] \<rparr>"

definition sample_memory :: "frame_allocator \<Rightarrow> kernel_memory" where
  "sample_memory fa = \<lparr> km_frames = fa, km_tables = (\<lambda>_ _. 0), km_cr3 = frame_base_addr (Frame 600),
     km_kernel = Some sample_space, km_mapping_offset = KERNEL_MAPPING_BASE,
     km_tracker = MemoryTracker_new \<rparr>"

lemma sample_memory_ok:
  assumes "fa_inv fa" "free_set fa = {512, 513, 514, 515, 516}"
  shows "proxy_ok (fa_free fa) (as_allocated_frames sample_space, fa)"
    and "wf_tables (km_tables (sample_memory fa)) 3 (l4_addr sample_space)"
    and "avoids (fa_free fa) (km_tables (sample_memory fa)) 3 (l4_addr sample_space)"
    and "translate_page (km_tables (sample_memory fa)) (l4_addr sample_space) p = Some (Inl NotMapped)"
    and "card (fa_free fa) = 5"
proof -
  have e: "km_tables (sample_memory fa) t = (\<lambda>_. 0)" for t by (simp add: sample_memory_def)
  note em = empty_table [of "km_tables (sample_memory fa)", OF e]
  show "proxy_ok (fa_free fa) (as_allocated_frames sample_space, fa)"
    using assms(1) by (simp add: proxy_ok_def sample_space_def)
  show "wf_tables (km_tables (sample_memory fa)) 3 (l4_addr sample_space)" by (rule em(2))
  have "frame_base_addr f \<noteq> l4_addr sample_space" if "f \<in> fa_free fa" for f
  proof
    assume "frame_base_addr f = l4_addr sample_space"
    moreover have "frame_physical (Frame 600)" by (simp add: frame_physical_def)
    ultimately have "f = Frame 600"
      using frame_base_addr_inj [OF fa_free_physical [OF that]] by (simp add: l4_addr_def sample_space_def)
    then show False using that assms(2) by (simp add: fa_free_def)
  qed
  then show "avoids (fa_free fa) (km_tables (sample_memory fa)) 3 (l4_addr sample_space)"
    using fa_free_physical [of _ fa] by (auto simp: avoids_def em(1))
  show "translate_page (km_tables (sample_memory fa)) (l4_addr sample_space) p = Some (Inl NotMapped)"
    by (simp add: lookup_translate em(3))
  show "card (fa_free fa) = 5" using assms(2) by (simp add: card_fa_free)
qed

theorem map_pages_fresh_witness:
  "\<exists>fa sp' km' f. FrameAllocator_init FrameAllocator_new sample_map = Some fa
     \<and> AddressSpace_map_pages sample_space ''stack'' (PageRange_new (Page 0xFFFFFD0000000) (Page 0xFFFFFD0000001))
         (PRESENT OR WRITABLE OR USER_ACCESSIBLE) (sample_memory fa) = Some (Inr (), sp', km')
     \<and> f \<in> fa_free fa
     \<and> translate_page (km_tables km') (l4_addr sample_space) (Page 0xFFFFFD0000000) = Some (Inr f)"
proof -
  obtain fa where fa: "FrameAllocator_init FrameAllocator_new sample_map = Some fa" "fa_inv fa"
    "free_set fa = {512, 513, 514, 515, 516}" using sample_allocator by blast
  note ok = sample_memory_ok [OF fa(2,3)]
  have kf: "km_frames (sample_memory fa) = fa" by (simp add: sample_memory_def)
  let ?r = "PageRange_new (Page 0xFFFFFD0000000) (Page 0xFFFFFD0000001)" and ?p = "Page 0xFFFFFD0000000"
  have ps: "PageRange_pages ?r = [?p]" using PageRange_pages_single [of "0xFFFFFD0000000"] by simp
  have cp: "canonical_page ?p" by code_simp
  have fl: "page_flags (PRESENT OR WRITABLE OR USER_ACCESSIBLE)" by code_simp
  from map_pages_fresh [of "fa_free fa" sample_space "sample_memory fa", unfolded kf,
      OF ok(1,2,3) fl, of ?r "''stack''", unfolded ps] ok(4,5) cp
  obtain sp' km' fs where m: "AddressSpace_map_pages sample_space ''stack'' ?r
      (PRESENT OR WRITABLE OR USER_ACCESSIBLE) (sample_memory fa) = Some (Inr (), sp', km')"
    "length fs = 1" "\<forall>f \<in> set fs. f \<in> fa_free fa"
    "translate_page (km_tables km') (l4_addr sample_space) ?p = (case map_of (zip [?p] fs) ?p of
        Some f \<Rightarrow> Some (Inr f) | None \<Rightarrow> translate_page (km_tables (sample_memory fa)) (l4_addr sample_space) ?p)"
    by auto
  from m(2) obtain f where "fs = [f]" by (cases fs) auto
  then show ?thesis using fa(1) m by (intro exI [of _ fa] exI [of _ sp'] exI [of _ km'] exI [of _ f]) simp
qed

text \<open>
  C28: mapping over a page that is already mapped goes unnoticed. When the one page of the range is
  already mapped and a frame is free, \<^verbatim>\<open>AddressSpace::map_pages\<close> reports success and
  changes no translation: \<^verbatim>\<open>map_to\<close> puts the requested frame into \<^verbatim>\<open>PageAlreadyMapped\<close>,
  not the one the page is mapped to, so the guard that tells a harmless repetition from a conflict
  always holds. The frame allocated for the page stays allocated.
\<close>

theorem map_pages_conflict_silent:
  assumes "proxy_ok C (as_allocated_frames sp, km_frames km)"
    and "wf_tables (km_tables km) 3 (l4_addr sp)"
    and "avoids (fa_free (km_frames km)) (km_tables km) 3 (l4_addr sp)"
    and "page_flags flags" "canonical_page page" "PageRange_pages pages = [page]"
    and "translate_page (km_tables km) (l4_addr sp) page = Some (Inr g)"
    and "fa_free (km_frames km) \<noteq> {}"
  shows "\<exists>sp' km' f. AddressSpace_map_pages sp name pages flags km = Some (Inr (), sp', km')
    \<and> translate_page (km_tables km') (l4_addr sp) page = Some (Inr g)
    \<and> f \<in> fa_free (km_frames km) \<and> f \<notin> fa_free (km_frames km')"
proof -
  let ?s = "(as_allocated_frames sp, km_frames km)"
  have fr: "proxy_free ?s = fa_free (km_frames km)" by (simp add: proxy_free_def)
  obtain f s1 where a: "Proxy_allocate_frame ?s = Some (Some f, s1)" "f \<in> fa_free (km_frames km)"
    "proxy_free s1 = fa_free (km_frames km) - {f}" "proxy_ok C s1"
    using proxy_frames.alloc_free [OF assms(1)] assms(8) by (auto simp: fr)
  have fp: "frame_physical f" by (rule fa_free_physical [OF a(2)])
  have av: "avoids (proxy_free s1) (km_tables km) 3 (l4_addr sp)"
    using assms(3) a(3) by (auto simp: avoids_def)
  obtain e where e: "lookup (km_tables km) (l4_addr sp) (page_path page) = Some (Inr e)"
    using lookup_translate(3) [OF assms(7)] by blast
  obtain r mem' s' where m: "map_to Proxy_allocate_frame (l4_addr sp) page f flags (km_tables km, s1)
      = Some (r, mem', s')"
    "evolves 3 (l4_addr sp) (km_tables km) (proxy_free s1) mem' (proxy_free s')"
    "map_outcome 3 page f (proxy_free s1) (lookup (km_tables km) (l4_addr sp) (page_path page)) r"
    "translate_page mem' (l4_addr sp) page = (if r = Inr page then Some (Inr f)
        else translate_page (km_tables km) (l4_addr sp) page)"
    using proxy_frames.map_to_ex [OF a(4) assms(2) av assms(4) fp assms(5)] assms(5) by auto
  have r: "r = Inl (PageAlreadyMapped f)" using m(3) e by (simp add: map_outcome_def)
  obtain al' fa' where s': "s' = (al', fa')" by fastforce
  let ?sp = "sp\<lparr> as_allocated_frames := al' \<rparr>"
  let ?km = "track ?sp name pages (km\<lparr> km_tables := mem', km_frames := fa' \<rparr>)"
  have "AddressSpace_map_pages sp name pages flags km = Some (Inr (), ?sp, ?km)"
    using a(1) m(1) r s' by (simp add: AddressSpace_map_pages_def with_space_def assms(6))
  moreover have "km_tables ?km = mem'" "km_frames ?km = fa'" by (simp_all add: track_def Let_def)
  moreover have "f \<notin> fa_free fa'" using m(2) a(3) s' by (auto simp: evolves_def proxy_free_def)
  ultimately show ?thesis
    using m(4) r assms(7) a(2) by (intro exI [of _ ?sp] exI [of _ ?km] exI [of _ f]) simp
qed

theorem map_pages_conflict_silent_witness:
  "\<exists>sp km sp' km'. translate_page (km_tables km) (l4_addr sp) (Page 0xFFFFFD0000000) = Some (Inr (Frame 700))
     \<and> AddressSpace_map_pages sp ''again'' (PageRange_new (Page 0xFFFFFD0000000) (Page 0xFFFFFD0000001))
         (PRESENT OR WRITABLE) km = Some (Inr (), sp', km')
     \<and> translate_page (km_tables km') (l4_addr sp) (Page 0xFFFFFD0000000) = Some (Inr (Frame 700))"
proof -
  obtain fa where fa: "fa_inv fa" "free_set fa = {512, 513, 514, 515, 516}" using sample_allocator by blast
  note ok = sample_memory_ok [OF fa]
  let ?p = "Page 0xFFFFFD0000000" and ?fl = "PRESENT OR WRITABLE" and ?l4 = "l4_addr sample_space"
  have cp: "canonical_page ?p" and fl: "page_flags ?fl" and f700: "frame_physical (Frame 700)" by code_simp+
  have fr: "proxy_free (as_allocated_frames sample_space, fa) = fa_free fa" by (simp add: proxy_free_def)
  have nm: "lookup (km_tables (sample_memory fa)) ?l4 (page_path ?p) = Some (Inl NotMapped)"
    using ok(4) by (simp add: lookup_translate)
  obtain r mem' s' where m0: "proxy_ok (fa_free fa) s'"
    "evolves 3 ?l4 (km_tables (sample_memory fa)) (fa_free fa) mem' (proxy_free s')"
    "avoids (proxy_free s') mem' 3 ?l4" "card (fa_free fa) \<le> 3 + card (proxy_free s')"
    "map_outcome 3 ?p (Frame 700) (fa_free fa)
       (lookup (km_tables (sample_memory fa)) ?l4 (page_path ?p)) r"
    "translate_page mem' ?l4 ?p = (if r = Inr ?p then Some (Inr (Frame 700))
       else translate_page (km_tables (sample_memory fa)) ?l4 ?p)"
    using proxy_frames.map_to_ex [OF ok(1,2) _ fl f700 cp, unfolded fr, OF ok(3)] card_fa_free(1) [of fa] cp
    by auto
  obtain al' fa' where s': "s' = (al', fa')" by fastforce
  note m = m0 [unfolded s' proxy_free_def split]
  have r: "r = Inr ?p" using m(5) nm ok(5) by (auto simp: map_outcome_def)
  define sp where "sp = sample_space\<lparr> as_allocated_frames := al' \<rparr>"
  define km where "km = (sample_memory fa)\<lparr> km_tables := mem', km_frames := fa' \<rparr>"
  have l4: "l4_addr sp = ?l4" by (simp add: sp_def l4_addr_def)
  have tr: "translate_page (km_tables km) (l4_addr sp) ?p = Some (Inr (Frame 700))"
    using m(6) r by (simp add: km_def l4)
  have ps: "PageRange_pages (PageRange_new ?p (Page 0xFFFFFD0000001)) = [?p]"
    using PageRange_pages_single [of "0xFFFFFD0000000"] by simp
  have ne: "fa_free (km_frames km) \<noteq> {}" using m(4) ok(5) by (auto simp: km_def)
  have "proxy_ok (fa_free fa) (as_allocated_frames sp, km_frames km)" "wf_tables (km_tables km) 3 (l4_addr sp)"
    "avoids (fa_free (km_frames km)) (km_tables km) 3 (l4_addr sp)"
    using m(1,2,3) by (simp_all add: l4 evolves_def) (simp_all add: sp_def km_def)
  from map_pages_conflict_silent [OF this fl cp ps tr ne] tr show ?thesis by blast
qed

text \<open>
  C27: a new address space sees the kernel and nothing else. \<^verbatim>\<open>AddressSpace::new\<close> without a
  parent, run in the kernel's address space with a frame free, takes one free frame for its level 4
  table. Every page of physical memory and of the kernel heap translates as in the kernel's address
  space, and every other page is unmapped.
\<close>

theorem address_space_new_view:
  assumes "km_kernel km = Some ks" "AddressSpace_is_current ks km"
    and "fa_inv (km_frames km)" "fa_free (km_frames km) \<noteq> {}"
    and "wf_tables (km_tables km) 3 (l4_addr ks)"
    and "avoids (fa_free (km_frames km)) (km_tables km) 3 (l4_addr ks)"
  shows "\<exists>sp km'. AddressSpace_new name None km = Some (sp, km')
    \<and> as_frame sp \<in> fa_free (km_frames km)
    \<and> fa_free (km_frames km') = fa_free (km_frames km) - {as_frame sp}
    \<and> (\<forall>p. translate_page (km_tables km') (l4_addr sp) p =
          (if page_l4_index p \<le> 255 \<or> page_l4_index p = 509
           then translate_page (km_tables km) (l4_addr ks) p else Some (Inl NotMapped)))"
proof -
  obtain sp fa' where n: "AddressSpace_new name None km = Some (sp, km\<lparr>
      km_tables := (km_tables km)(l4_addr sp := (\<lambda>i. if i \<le> 255 \<or> i = 509
        then km_tables km (l4_addr ks) i else 0)), km_frames := fa' \<rparr>)"
    "as_frame sp \<in> fa_free (km_frames km)"
    "fa_free fa' = fa_free (km_frames km) - {as_frame sp}"
    by (rule AddressSpace_new_spec [OF assms]) blast
  let ?mem = "(km_tables km)(l4_addr sp := (\<lambda>i. if i \<le> 255 \<or> i = 509
        then km_tables km (l4_addr ks) i else 0))"
  have ne: "l4_addr sp \<notin> tables (km_tables km) 3 (l4_addr ks)"
    using assms(6) n(2) by (simp add: avoids_def l4_addr_def)
  have "get_table 0 = Some (Inl NotPresent)" by code_simp
  then have "translate_page ?mem (l4_addr sp) p =
      (if page_l4_index p \<le> 255 \<or> page_l4_index p = 509
       then translate_page (km_tables km) (l4_addr ks) p else Some (Inl NotMapped))" for p
    using new_space_translates [OF assms(5) ne, of p] by (simp add: translate_page_def get_table_t_def)
  then show ?thesis using n by (intro exI [of _ sp] exI [of _ "km\<lparr> km_tables := ?mem, km_frames := fa' \<rparr>"]) simp
qed

theorem address_space_new_view_witness:
  "\<exists>fa sp km'. FrameAllocator_init FrameAllocator_new sample_map = Some fa
     \<and> AddressSpace_new ''shell'' None (sample_memory fa) = Some (sp, km')
     \<and> translate_page (km_tables km') (l4_addr sp) (Page 0xFFFFFD0000000) = Some (Inl NotMapped)"
proof -
  obtain fa where fa: "FrameAllocator_init FrameAllocator_new sample_map = Some fa" "fa_inv fa"
    "free_set fa = {512, 513, 514, 515, 516}" using sample_allocator by blast
  note ok = sample_memory_ok [OF fa(2,3)]
  have k: "km_kernel (sample_memory fa) = Some sample_space" "km_frames (sample_memory fa) = fa"
    "AddressSpace_is_current sample_space (sample_memory fa)"
    by (simp_all add: sample_memory_def AddressSpace_is_current_def l4_addr_def sample_space_def)
  have ne: "fa_free fa \<noteq> {}" using ok(5) by auto
  from address_space_new_view [OF k(1,3), unfolded k(2), OF fa(2) ne ok(2,3)]
  obtain sp km' where "AddressSpace_new ''shell'' None (sample_memory fa) = Some (sp, km')"
    "\<forall>p. translate_page (km_tables km') (l4_addr sp) p =
          (if page_l4_index p \<le> 255 \<or> page_l4_index p = 509
           then translate_page (km_tables (sample_memory fa)) (l4_addr sample_space) p
           else Some (Inl NotMapped))" by blast
  then show ?thesis using fa(1) ok(4) by (intro exI [of _ fa] exI [of _ sp] exI [of _ km']) simp
qed

text \<open>
  C3: no frame is lost over the life of an address space. Create one, map any range of canonical
  pages into it, mapped or not, with four free frames for each, and drop it. None of the three
  panics, and whatever \<^verbatim>\<open>map_pages\<close> reports, the physical allocator then has exactly the frames
  free it had before, the frames of the page tables included.
\<close>

theorem address_space_lifecycle:
  assumes "km_kernel km = Some ks" "AddressSpace_is_current ks km"
    and "fa_inv (km_frames km)"
    and "wf_tables (km_tables km) 3 (l4_addr ks)"
    and "avoids (fa_free (km_frames km)) (km_tables km) 3 (l4_addr ks)"
    and "page_flags flags" "\<forall>p \<in> set (PageRange_pages pages). canonical_page p"
    and "4 * length (PageRange_pages pages) < card (fa_free (km_frames km))"
  shows "\<exists>sp km1 r sp' km2 km3. AddressSpace_new name None km = Some (sp, km1)
    \<and> AddressSpace_map_pages sp mname pages flags km1 = Some (r, sp', km2)
    \<and> AddressSpace_drop sp' km2 = Some km3 \<and> fa_free (km_frames km3) = fa_free (km_frames km)"
proof -
  let ?F = "fa_free (km_frames km)"
  have ne: "?F \<noteq> {}" using assms(8) by auto
  obtain sp km1 where n: "AddressSpace_new name None km = Some (sp, km1)"
    "as_frame sp \<in> ?F" "as_allocated_frames sp = [as_frame sp]"
    "fa_inv (km_frames km1)" "fa_free (km_frames km1) = ?F - {as_frame sp}"
    "wf_tables (km_tables km1) 3 (l4_addr sp)" "avoids (fa_free (km_frames km1)) (km_tables km1) 3 (l4_addr sp)"
    by (rule AddressSpace_new_wf [OF assms(1-3) ne assms(4,5)])
  let ?s = "(as_allocated_frames sp, km_frames km1)"
  have ok: "proxy_ok ?F ?s" using n by (auto simp: proxy_ok_def)
  have fr: "proxy_free ?s = ?F - {as_frame sp}" using n(5) by (simp add: proxy_free_def)
  have fin: "finite ?F" by (rule card_fa_free(1))
  have card: "4 * length (PageRange_pages pages) \<le> card (proxy_free ?s)" "finite (proxy_free ?s)"
    using fr fin n(2) assms(8) by simp_all
  obtain r mem al fa where l: "map_pages_loop Proxy_allocate_frame (l4_addr sp) flags
      (PageRange_pages pages) (km_tables km1, ?s) = Some (r, mem, al, fa)"
    using proxy_frames.map_pages_loop_returns [OF ok n(6) _ assms(6,7) card(2,1)] n(5,7) fr by auto
  let ?sp = "sp\<lparr> as_allocated_frames := al \<rparr>" and ?km = "km1\<lparr> km_tables := mem, km_frames := fa \<rparr>"
  obtain km2 where m: "AddressSpace_map_pages sp mname pages flags km1 = Some (r, ?sp, km2)" "km_frames km2 = fa"
    using l by (cases r) (simp_all add: AddressSpace_map_pages_def with_space_def track_def Let_def)
  have "proxy_ok ?F (al, fa)" by (rule map_pages_loop_closed [OF proxy_alloc_closed l ok])
  then have c: "fa_inv fa" "set al \<union> fa_free fa = ?F" by (simp_all add: proxy_ok_def)
  from Proxy_drop_spec [OF c(1), of al] obtain fa3 where
    d: "Proxy_drop al fa = Some fa3" "fa_free fa3 = fa_free fa \<union> {f \<in> set al. frame_number f < MAX_FRAMES}"
    by blast
  have "frame_number f < MAX_FRAMES" if "f \<in> ?F" for f
    using that by (simp add: fa_free_def free_set_def allocator_sizes word_less_nat_alt)
  then have "fa_free fa3 = ?F" using c(2) d(2) by auto
  then obtain km3 where "AddressSpace_drop ?sp km2 = Some km3" "fa_free (km_frames km3) = ?F"
    using m(2) d(1) by (simp add: AddressSpace_drop_def Let_def)
  then show ?thesis using n(1) m(1) by blast
qed

theorem address_space_lifecycle_witness:
  "\<exists>fa sp km1 r sp' km2 km3. FrameAllocator_init FrameAllocator_new sample_map = Some fa
     \<and> AddressSpace_new ''shell'' None (sample_memory fa) = Some (sp, km1)
     \<and> AddressSpace_map_pages sp ''stack'' (PageRange_new (Page 5) (Page 6)) (PRESENT OR WRITABLE) km1
         = Some (r, sp', km2)
     \<and> AddressSpace_drop sp' km2 = Some km3 \<and> fa_free (km_frames km3) = fa_free fa"
proof -
  obtain fa where fa: "FrameAllocator_init FrameAllocator_new sample_map = Some fa" "fa_inv fa"
    "free_set fa = {512, 513, 514, 515, 516}" using sample_allocator by blast
  note ok = sample_memory_ok [OF fa(2,3)]
  have k: "km_kernel (sample_memory fa) = Some sample_space" "km_frames (sample_memory fa) = fa"
    "AddressSpace_is_current sample_space (sample_memory fa)"
    by (simp_all add: sample_memory_def AddressSpace_is_current_def l4_addr_def sample_space_def)
  have h: "page_flags (PRESENT OR WRITABLE)" "canonical_page (Page 5)" by code_simp+
  have p: "PageRange_pages (PageRange_new (Page 5) (Page 6)) = [Page 5]"
    using PageRange_pages_single [of 5] by (simp add: PageRange_new_def)
  have "\<forall>p \<in> set (PageRange_pages (PageRange_new (Page 5) (Page 6))). canonical_page p"
    "4 * length (PageRange_pages (PageRange_new (Page 5) (Page 6))) < card (fa_free fa)"
    using h(2) ok(5) by (simp_all add: p)
  from address_space_lifecycle [OF k(1,3), unfolded k(2), OF fa(2) ok(2,3) h(1) this]
  show ?thesis using fa(1) by blast
qed

theorem map_to_refines_witness:
  "\<exists>fa mem' fa'. FrameAllocator_init FrameAllocator_new sample_map = Some fa
     \<and> map_to FrameAllocator_allocate_frame (frame_base_addr (Frame 600)) (Page 5) (Frame 700)
         (PRESENT OR WRITABLE) (\<lambda>_ _. 0, fa) = Some (Inr (Page 5), mem', fa')
     \<and> translate_page mem' (frame_base_addr (Frame 600)) (Page 5) = Some (Inr (Frame 700))"
proof -
  obtain fa where fa: "FrameAllocator_init FrameAllocator_new sample_map = Some fa" "fa_inv fa"
    "free_set fa = {512, 513, 514, 515, 516}" using sample_allocator by blast
  note ok = sample_memory_ok [OF fa(2,3)]
  have k: "km_tables (sample_memory fa) = (\<lambda>_ _. 0)" "l4_addr sample_space = frame_base_addr (Frame 600)"
    by (simp_all add: sample_memory_def l4_addr_def sample_space_def)
  have h: "page_flags (PRESENT OR WRITABLE)" "frame_physical (Frame 700)" "canonical_page (Page 5)"
    by code_simp+
  from map_to_refines [OF fa(2) ok(2,3) [unfolded k] h] ok(4) [unfolded k, of "Page 5"] ok(5) h(3)
  obtain mem' fa' where "map_to FrameAllocator_allocate_frame (frame_base_addr (Frame 600)) (Page 5) (Frame 700)
         (PRESENT OR WRITABLE) (\<lambda>_ _. 0, fa) = Some (Inr (Page 5), mem', fa')"
    "translate_page mem' (frame_base_addr (Frame 600)) (Page 5) = Some (Inr (Frame 700))" by auto
  then show ?thesis using fa(1) by blast
qed

text \<open>
  Kernel mappings do not overlap. While the kernel mapping domain lasts, the pages of a new
  \<^verbatim>\<open>KernelMapping\<close> start exactly where the pages of the one created before it end, and they are as
  many as its size needs.
\<close>

theorem kernel_mappings_adjacent:
  assumes "KernelMapping_new n1 z1 fl1 km = Some (m1, km1)" "KernelMapping_new n2 z2 fl2 km1 = Some (m2, km2)"
    and "2 ^ 64 - 2 ^ 47 \<le> unat (km_mapping_offset km)" "4096 dvd unat (km_mapping_offset km)"
    and "unat (km_mapping_offset km) + (pages_spanned z1 + pages_spanned z2) * 4096 < 2 ^ 64"
  shows "pr_start (kmap_pages m2) = pr_end (kmap_pages m1)
    \<and> length (PageRange_pages (kmap_pages m1)) = pages_spanned z1
    \<and> set (PageRange_pages (kmap_pages m1)) \<inter> set (PageRange_pages (kmap_pages m2)) = {}"
proof -
  have lim: "unat (km_mapping_offset km) + pages_spanned z1 * 4096 < 2 ^ 64"
    using assms(5) by (simp add: algebra_simps)
  note r1 = KernelMapping_new_range [OF assms(1,3,4) lim]
  have off: "2 ^ 64 - 2 ^ 47 \<le> unat (km_mapping_offset km1)" "4096 dvd unat (km_mapping_offset km1)"
    using assms(3,4) r1(1) by simp_all
  have "unat (km_mapping_offset km1) + pages_spanned z2 * 4096 < 2 ^ 64"
    using assms(5) r1(1) by (simp add: algebra_simps)
  note r2 = KernelMapping_new_range [OF assms(2) off this]
  have eq: "pr_start (kmap_pages m2) = pr_end (kmap_pages m1)"
    using r1(3) r2(2) by (intro page.expand) (simp add: word_unat_eq_iff)
  moreover have "unat (page_number (pr_end (kmap_pages m1)))
      = unat (page_number (pr_start (kmap_pages m1))) + pages_spanned z1"
    using r1 by simp
  then have "length (PageRange_pages (kmap_pages m1)) = pages_spanned z1" by (simp add: PageRange_pages_def)
  moreover have "set (PageRange_pages (kmap_pages m1)) \<inter> set (PageRange_pages (kmap_pages m2)) = {}"
    using eq by (auto simp: set_PageRange_pages)
  ultimately show ?thesis by blast
qed

lemma sample_kernel_mapping:
  assumes fa: "fa_inv fa" "free_set fa = {512, 513, 514, 515, 516}"
  shows "\<exists>m km. KernelMapping_new ''first'' 4096 (PRESENT OR WRITABLE) (sample_memory fa) = Some (m, km)
    \<and> km_mapping_offset km = 0xFFFFFF0000001000 \<and> km_kernel km \<noteq> None"
proof -
  note ok = sample_memory_ok [OF fa]
  let ?o = "0xFFFFFF0000000000 :: usize" and ?p = "Page 0xFFFFFF0000000"
  let ?r = "PageRange_new ?p (Page 0xFFFFFF0000001)"
  have off: "KERNEL_MAPPING_BASE = ?o"
    unfolding KERNEL_MAPPING_BASE_def l4_constants using domain_base_eqs(5) by (simp add: from_l4_index_eq)
  have n: "div_ceil 4096 PAGE_SIZE = 1" "PageRange_len ?r = 1"
    by (simp_all add: div_ceil_def PAGE_SIZE_eq PageRange_len_def PageRange_new_def)
  have q: "?o + PAGE_SIZE = 0xFFFFFF0000001000" by (simp add: PAGE_SIZE_eq)
  have a: "Address_new ?o = ?o" by code_simp
  have r: "PageRange_from_base_len ?o 1 = Some ?r"
    by (simp add: PageRange_from_base_len_def PageRange_new_def Page_containing_addr_def page_add_def
        checked_add_def PAGE_SIZE_eq)
  have ps: "PageRange_pages ?r = [?p]" using PageRange_pages_single [of "0xFFFFFF0000000"] by simp
  have cp: "canonical_page ?p" and fl: "page_flags (PRESENT OR WRITABLE)" by code_simp+
  let ?km = "(sample_memory fa)\<lparr> km_mapping_offset := ?o + 4096 \<rparr>"
  have k: "km_frames (sample_memory fa) = fa" "km_kernel (sample_memory fa) = Some sample_space"
    "km_mapping_offset (sample_memory fa) = ?o" by (simp_all add: sample_memory_def off)
  have fr: "proxy_free (as_allocated_frames sample_space, fa) = fa_free fa" by (simp add: proxy_free_def)
  from proxy_frames.map_pages_loop_spec [OF ok(1,2) _ fl, of "[?p]", unfolded fr, OF ok(3)]
  obtain mem' s' where "map_pages_loop Proxy_allocate_frame (l4_addr sample_space) (PRESENT OR WRITABLE) [?p]
      (km_tables (sample_memory fa), as_allocated_frames sample_space, fa) = Some (Inr (), mem', s')"
    using ok(4,5) cp card_fa_free(1) by auto
  then show ?thesis
    by (cases s') (auto simp: KernelMapping_new_def AddressSpace_map_pages_def with_space_def k a n r ps
        track_def Let_def q simp del: map_pages_loop.simps)
qed

theorem kernel_mappings_adjacent_witness:
  "\<exists>km m1 km1 m2 km2. KernelMapping_new ''first'' 4096 (PRESENT OR WRITABLE) km = Some (m1, km1)
     \<and> KernelMapping_new ''second'' 0 PRESENT km1 = Some (m2, km2)
     \<and> pr_start (kmap_pages m2) = pr_end (kmap_pages m1)"
proof -
  obtain fa where fa: "fa_inv fa" "free_set fa = {512, 513, 514, 515, 516}" using sample_allocator by blast
  obtain m1 km1 where 1: "KernelMapping_new ''first'' 4096 (PRESENT OR WRITABLE) (sample_memory fa) = Some (m1, km1)"
    "km_mapping_offset km1 = 0xFFFFFF0000001000" "km_kernel km1 \<noteq> None"
    using sample_kernel_mapping [OF fa] by blast
  have a: "Address_new 0xFFFFFF0000001000 = 0xFFFFFF0000001000" by code_simp
  have "PageRange_from_base_len 0xFFFFFF0000001000 0 =
      Some (PageRange_new (Page 0xFFFFFF0000001) (Page 0xFFFFFF0000001))"
    by (simp add: PageRange_from_base_len_def Page_containing_addr_def page_add_def checked_add_def PAGE_SIZE_eq)
  then have "\<exists>m2 km2. KernelMapping_new ''second'' 0 PRESENT km1 = Some (m2, km2)"
    using 1(2,3) a by (auto simp: KernelMapping_new_def AddressSpace_map_pages_def with_space_def
        PageRange_pages_def PageRange_new_def PageRange_len_def div_ceil_def Let_def)
  then obtain m2 km2 where 2: "KernelMapping_new ''second'' 0 PRESENT km1 = Some (m2, km2)" by blast
  have "km_mapping_offset (sample_memory fa) = 0xFFFFFF0000000000"
    unfolding sample_memory_def KERNEL_MAPPING_BASE_def l4_constants
    using domain_base_eqs(5) by (simp add: from_l4_index_eq)
  then have "pr_start (kmap_pages m2) = pr_end (kmap_pages m1)"
    using kernel_mappings_adjacent [OF 1(1) 2] by (simp add: pages_spanned_def round_up_def)
  with 1(1) 2 show ?thesis by (intro exI conjI)
qed

end
