(* ===== verification/Spin_Mutex.thy ===== *)
theory Spin_Mutex
  imports Rust_Prelude
begin

section \<open>The spinning and the deferring mutex\<close>

text \<open>
  The model of \<^verbatim>\<open>crates/spin-mutex/src/spin_mutex.rs\<close> and
  \<^verbatim>\<open>crates/defer-mutex/src/defer_mutex.rs\<close>. The operations are functions on the mutex; what
  several processes do with one mutex is a step relation whose steps are the single accesses to the
  atomic flag and to the data, interleaved in any order. The weak compare-exchange may fail on a free
  lock, so its model takes that choice as an argument.
\<close>

subsection \<open>Operations\<close>

record 'a mutex =
  locked :: bool
  data :: 'a

definition LOCKED :: bool where "LOCKED = True"
definition UNLOCKED :: bool where "UNLOCKED = False"

definition Mutex_new :: "'a \<Rightarrow> 'a mutex" where
  "Mutex_new d = \<lparr> locked = UNLOCKED, data = d \<rparr>"

definition Mutex_into_inner :: "'a mutex \<Rightarrow> 'a" where
  "Mutex_into_inner m = data m"

definition is_locked :: "'a mutex \<Rightarrow> bool" where
  "is_locked m = locked m"

definition force_unlock :: "'a mutex \<Rightarrow> 'a mutex" where
  "force_unlock m = m\<lparr> locked := False \<rparr>"

text \<open>\<^verbatim>\<open>AtomicBool::compare_exchange\<close> of the standard library: whether it succeeded, and the flag it leaves.\<close>

definition compare_exchange :: "bool \<Rightarrow> bool \<Rightarrow> bool \<Rightarrow> bool \<times> bool" where
  "compare_exchange cell current new = (if cell = current then (True, new) else (False, cell))"

definition compare_exchange_weak :: "bool \<Rightarrow> bool \<Rightarrow> bool \<Rightarrow> bool \<Rightarrow> bool \<times> bool" where
  "compare_exchange_weak spurious cell current new =
     (if spurious then (False, cell) else compare_exchange cell current new)"

text \<open>Both return whether the caller now has a \<^verbatim>\<open>Guard\<close>.\<close>

definition try_lock :: "'a mutex \<Rightarrow> bool \<times> 'a mutex" where
  "try_lock m = (let (ok, l) = compare_exchange (locked m) UNLOCKED LOCKED in (ok, m\<lparr> locked := l \<rparr>))"

definition try_lock_weak :: "bool \<Rightarrow> 'a mutex \<Rightarrow> bool \<times> 'a mutex" where
  "try_lock_weak spurious m =
     (let (ok, l) = compare_exchange_weak spurious (locked m) UNLOCKED LOCKED in (ok, m\<lparr> locked := l \<rparr>))"

definition Mutex_get_mut :: "('a \<Rightarrow> 'a) \<Rightarrow> 'a mutex \<Rightarrow> 'a mutex" where
  "Mutex_get_mut f m = m\<lparr> data := f (data m) \<rparr>"

definition Guard_deref :: "'a mutex \<Rightarrow> 'a" where
  "Guard_deref m = data m"

definition Guard_deref_mut :: "'a \<Rightarrow> 'a mutex \<Rightarrow> 'a mutex" where
  "Guard_deref_mut d m = m\<lparr> data := d \<rparr>"

definition Guard_drop :: "'a mutex \<Rightarrow> 'a mutex" where
  "Guard_drop m = m\<lparr> locked := False \<rparr>"

lemma try_lock_simps [simp]:
  "try_lock m = (if locked m then (False, m) else (True, m\<lparr> locked := True \<rparr>))"
  by (cases m) (simp add: try_lock_def compare_exchange_def LOCKED_def UNLOCKED_def)

lemma try_lock_weak_simps [simp]:
  "try_lock_weak sp m = (if sp \<or> locked m then (False, m) else (True, m\<lparr> locked := True \<rparr>))"
  by (cases m) (simp add: try_lock_weak_def compare_exchange_weak_def compare_exchange_def LOCKED_def UNLOCKED_def)

subsection \<open>The loop of \<^verbatim>\<open>lock\<close>\<close>

text \<open>
  Where a process stands: outside, at the weak attempt of \<^verbatim>\<open>lock\<close>, in its inner loop on
  \<^verbatim>\<open>is_locked\<close>, or inside, with a guard, having read nothing yet, having read a value, or having
  written. The inner loop body is \<^verbatim>\<open>spin_loop\<close> or, in a \<^verbatim>\<open>DeferMutex\<close>, \<^verbatim>\<open>defer\<close>: both let
  others run and change nothing here.
\<close>

datatype 'a position = Outside | Attempt | Waiting | Inside | HasRead 'a | HasWritten

definition Mutex_lock_attempt :: "bool \<Rightarrow> 'a mutex \<Rightarrow> 'a position \<times> 'a mutex" where
  "Mutex_lock_attempt spurious m =
     (let (ok, m) = try_lock_weak spurious m in (if ok then Inside else Waiting, m))"

definition Mutex_lock_wait :: "'a mutex \<Rightarrow> 'a position" where
  "Mutex_lock_wait m = (if is_locked m then Waiting else Attempt)"

text \<open>
  \<^verbatim>\<open>lock\<close> as seen by its caller. It accesses the flag once in each turn: a turn says what the others do to
  the mutex since the access before, and whether an attempt in this turn fails spuriously. So the others may also act
  between a load that finds the mutex free and the next attempt, and win the race. The result is \<^term>\<open>None\<close>
  when the turns are used up before the lock is taken; otherwise it is the mutex and the turns that are left.
\<close>

type_synonym 'a turn = "('a mutex \<Rightarrow> 'a mutex) \<times> bool"




text \<open>A \<^verbatim>\<open>DeferMutex\<close> wraps a mutex; its \<^verbatim>\<open>lock\<close> is the same loop, with \<^verbatim>\<open>defer\<close> for \<^verbatim>\<open>spin_loop\<close>.\<close>

record 'a defer_mutex =
  inner :: "'a mutex"

definition DeferMutex_new :: "'a \<Rightarrow> 'a defer_mutex" where
  "DeferMutex_new d = \<lparr> inner = Mutex_new d \<rparr>"


text \<open>The mutex as the access in turn \<open>k\<close> finds it.\<close>

definition found :: "'a turn list \<Rightarrow> nat \<Rightarrow> 'a mutex \<Rightarrow> 'a mutex" where
  "found ts k m = fold fst (take (Suc k) ts) m"

definition can_take :: "'a turn list \<Rightarrow> nat \<Rightarrow> 'a mutex \<Rightarrow> bool" where
  "can_take ts k m \<longleftrightarrow> \<not> is_locked (found ts k m) \<and> \<not> snd (ts ! k)"

lemma found_simps [simp]:
  "found (t # ts) 0 m = fst t m"
  "found (t # ts) (Suc k) m = found ts k (fst t m)"
  by (simp_all add: found_def)

lemma can_take_simps [simp]:
  "can_take (t # ts) 0 m \<longleftrightarrow> \<not> is_locked (fst t m) \<and> \<not> snd t"
  "can_take (t # ts) (Suc k) m \<longleftrightarrow> can_take ts k (fst t m)"
  by (simp_all add: can_take_def)










subsection \<open>Processes that share a mutex\<close>

text \<open>
  Each process \<open>t\<close> enters \<open>todo t\<close> more times; inside, it reads the data, computes with
  \<open>f\<close> and writes the result, as \<^verbatim>\<open>*m.lock() += 1\<close> does, in two separate accesses.
\<close>

record 'a shared =
  mtx :: "'a mutex"
  pos :: "nat \<Rightarrow> 'a position"
  todo :: "nat \<Rightarrow> nat"

inductive step :: "('a \<Rightarrow> 'a) \<Rightarrow> nat \<Rightarrow> 'a shared \<Rightarrow> 'a shared \<Rightarrow> bool" for f t where
  enter: "pos s t = Outside \<Longrightarrow> 0 < todo s t \<Longrightarrow> step f t s (s\<lparr> pos := (pos s)(t := Attempt) \<rparr>)"
| attempt: "pos s t = Attempt \<Longrightarrow> Mutex_lock_attempt sp (mtx s) = (p, m) \<Longrightarrow>
    step f t s (s\<lparr> mtx := m, pos := (pos s)(t := p) \<rparr>)"
| wait: "pos s t = Waiting \<Longrightarrow> step f t s (s\<lparr> pos := (pos s)(t := Mutex_lock_wait (mtx s)) \<rparr>)"
| trylock: "pos s t = Outside \<Longrightarrow> 0 < todo s t \<Longrightarrow> try_lock (mtx s) = (ok, m) \<Longrightarrow>
    step f t s (s\<lparr> mtx := m, pos := (pos s)(t := if ok then Inside else Outside) \<rparr>)"
| read: "pos s t = Inside \<Longrightarrow> step f t s (s\<lparr> pos := (pos s)(t := HasRead (Guard_deref (mtx s))) \<rparr>)"
| update: "pos s t = HasRead d \<Longrightarrow>
    step f t s (s\<lparr> mtx := Guard_deref_mut (f d) (mtx s), pos := (pos s)(t := HasWritten) \<rparr>)"
| leave: "pos s t = HasWritten \<Longrightarrow>
    step f t s (s\<lparr> mtx := Guard_drop (mtx s), pos := (pos s)(t := Outside), todo := (todo s)(t := todo s t - 1) \<rparr>)"

inductive_cases stepE: "step f t s s'"

inductive run :: "('a \<Rightarrow> 'a) \<Rightarrow> nat set \<Rightarrow> 'a shared \<Rightarrow> 'a shared \<Rightarrow> bool" for f T where
  start: "run f T s s"
| more: "run f T s s1 \<Longrightarrow> t \<in> T \<Longrightarrow> step f t s1 s2 \<Longrightarrow> run f T s s2"

definition fresh :: "'a \<Rightarrow> (nat \<Rightarrow> nat) \<Rightarrow> 'a shared" where
  "fresh d k = \<lparr> mtx = Mutex_new d, pos = (\<lambda>_. Outside), todo = k \<rparr>"

definition holds :: "'a position \<Rightarrow> bool" where
  "holds p = (case p of Inside \<Rightarrow> True | HasRead _ \<Rightarrow> True | HasWritten \<Rightarrow> True | _ \<Rightarrow> False)"

lemma holds_simps [simp]:
  "\<not> holds Outside" "\<not> holds Attempt" "\<not> holds Waiting"
  "holds Inside" "holds (HasRead d)" "holds HasWritten"
  by (simp_all add: holds_def)

subsection \<open>Mutual exclusion\<close>

definition exclusive :: "'a shared \<Rightarrow> bool" where
  "exclusive s \<longleftrightarrow> (locked (mtx s) \<longleftrightarrow> (\<exists>t. holds (pos s t)))
     \<and> (\<forall>t u. holds (pos s t) \<longrightarrow> holds (pos s u) \<longrightarrow> t = u)
     \<and> (\<forall>t d. pos s t = HasRead d \<longrightarrow> d = data (mtx s))"

lemma exclusive_holder:
  assumes "exclusive s" "holds (pos s t)"
  shows "locked (mtx s)" "holds (pos s u) \<longleftrightarrow> u = t" "pos s t = HasRead d \<Longrightarrow> d = data (mtx s)"
  using assms by (auto simp: exclusive_def)

lemma exclusive_free: "exclusive s \<Longrightarrow> \<not> locked (mtx s) \<Longrightarrow> \<not> holds (pos s t)"
  by (auto simp: exclusive_def)

text \<open>A step of a process that stays outside, takes a free lock, or holds it throughout, or gives it up.\<close>

lemma exclusive_outside:
  assumes "exclusive s" "\<not> holds (pos s t)" "\<not> holds p"
  shows "exclusive (s\<lparr> pos := (pos s)(t := p) \<rparr>)"
  using assms by (auto simp: exclusive_def split: if_splits)

lemma exclusive_take:
  assumes "exclusive s" "\<not> locked (mtx s)"
  shows "exclusive (s\<lparr> mtx := (mtx s)\<lparr> locked := True \<rparr>, pos := (pos s)(t := Inside) \<rparr>)"
  using exclusive_free [OF assms] by (auto simp: exclusive_def) (metis holds_simps(5))

lemma exclusive_inside:
  assumes "exclusive s" "holds (pos s t)" "holds p" "locked m" "\<forall>d. p = HasRead d \<longrightarrow> d = data m"
  shows "exclusive (s\<lparr> mtx := m, pos := (pos s)(t := p) \<rparr>)"
  using assms exclusive_holder(2) [OF assms(1,2)] unfolding exclusive_def
  by (auto split: if_splits) (metis holds_simps(5))

lemma exclusive_leave:
  assumes "exclusive s" "holds (pos s t)" "\<not> locked m"
  shows "exclusive (s\<lparr> mtx := m, pos := (pos s)(t := Outside), todo := k \<rparr>)"
  using assms exclusive_holder(2) [OF assms(1,2)] unfolding exclusive_def
  by (auto split: if_splits) (metis holds_simps(5))+

lemma exclusive_step: "step f t s s' \<Longrightarrow> exclusive s \<Longrightarrow> exclusive s'"
proof (induction rule: step.induct)
  case (attempt s sp p m)
  then show ?case
    using exclusive_outside [of s t Waiting] exclusive_take [of s t]
    by (auto simp: Mutex_lock_attempt_def split: if_splits)
next
  case (trylock s ok m)
  then show ?case
    using exclusive_outside [of s t Outside] exclusive_take [of s t] by (auto split: if_splits)
next
  case (read s)
  then show ?case
    using exclusive_inside [of s t "HasRead (data (mtx s))" "mtx s"] exclusive_holder(1) [of s t]
    by (simp add: Guard_deref_def)
next
  case (update s d)
  then show ?case
    using exclusive_inside [of s t HasWritten "Guard_deref_mut (f d) (mtx s)"] exclusive_holder(1) [of s t]
    by (simp add: Guard_deref_mut_def)
next
  case (leave s)
  then show ?case using exclusive_leave [of s t "Guard_drop (mtx s)"] by (simp add: Guard_drop_def)
qed (auto simp: Mutex_lock_wait_def intro: exclusive_outside)

lemma exclusive_fresh: "exclusive (fresh d k)"
  by (simp add: exclusive_def fresh_def Mutex_new_def UNLOCKED_def)

lemma exclusive_run: "run f T (fresh d k) s \<Longrightarrow> exclusive s"
proof (induction "fresh d k" s rule: run.induct)
  case start
  then show ?case by (rule exclusive_fresh)
qed (rule exclusive_step)

subsection \<open>Counting the updates\<close>

text \<open>The updates of process \<open>t\<close> so far, when it had \<open>k\<close> to make.\<close>

definition updates :: "(nat \<Rightarrow> nat) \<Rightarrow> 'a shared \<Rightarrow> nat \<Rightarrow> nat" where
  "updates k s t = k t - todo s t + (if pos s t = HasWritten then 1 else 0)"

definition booked :: "(nat \<Rightarrow> nat) \<Rightarrow> 'a shared \<Rightarrow> nat \<Rightarrow> bool" where
  "booked k s t \<longleftrightarrow> todo s t \<le> k t \<and> (pos s t = Outside \<or> 0 < todo s t)"

lemma booked_step:
  assumes "step f t s s'" "booked k s u"
  shows "booked k s' u"
  using assms(1)
proof cases
  case leave
  then show ?thesis using assms(2) by (cases "u = t") (auto simp: booked_def)
qed (use assms(2) in \<open>cases "u = t"; simp add: booked_def\<close>)+

definition counted :: "('a \<Rightarrow> 'a) \<Rightarrow> nat set \<Rightarrow> 'a \<Rightarrow> (nat \<Rightarrow> nat) \<Rightarrow> 'a shared \<Rightarrow> bool" where
  "counted f T d k s \<longleftrightarrow> data (mtx s) = (f ^^ (\<Sum>t \<in> T. updates k s t)) d"

lemma sum_updates_other:
  assumes "\<And>u. u \<noteq> t \<Longrightarrow> updates k s' u = updates k s u" "updates k s' t = updates k s t"
  shows "(\<Sum>u \<in> T. updates k s' u) = (\<Sum>u \<in> T. updates k s u)"
proof (rule sum.cong [OF refl])
  show "updates k s' u = updates k s u" for u using assms by (cases "u = t") auto
qed

lemma sum_updates_Suc:
  assumes "\<And>u. u \<noteq> t \<Longrightarrow> updates k s' u = updates k s u" "updates k s' t = Suc (updates k s t)"
    and "finite T" "t \<in> T"
  shows "(\<Sum>u \<in> T. updates k s' u) = Suc (\<Sum>u \<in> T. updates k s u)"
proof -
  have "(\<Sum>u \<in> T - {t}. updates k s' u) = (\<Sum>u \<in> T - {t}. updates k s u)"
    by (rule sum.cong) (auto simp: assms(1))
  then show ?thesis using assms(2-) by (simp add: sum.remove)
qed

lemma updates_step:
  assumes "step f t s s'" "booked k s t"
  shows "u \<noteq> t \<Longrightarrow> updates k s' u = updates k s u"
    and "(\<exists>v. pos s t = HasRead v) \<and> updates k s' t = Suc (updates k s t)
       \<or> data (mtx s') = data (mtx s) \<and> updates k s' t = updates k s t"
  using assms
  by (auto simp: updates_def booked_def Mutex_lock_attempt_def Mutex_lock_wait_def Guard_deref_mut_def
      Guard_drop_def elim!: stepE split: if_splits)

lemma counted_step:
  assumes st: "step f t s s'" and inv: "exclusive s" "booked k s t" "counted f T d k s" and T: "finite T" "t \<in> T"
  shows "counted f T d k s'"
  using updates_step(2) [OF st inv(2)]
proof
  assume "data (mtx s') = data (mtx s) \<and> updates k s' t = updates k s t"
  then show ?thesis
    using inv(3) sum_updates_other [of t k s' s T] updates_step(1) [OF st inv(2)] by (simp add: counted_def)
next
  assume u: "(\<exists>v. pos s t = HasRead v) \<and> updates k s' t = Suc (updates k s t)"
  then obtain v where v: "pos s t = HasRead v" by blast
  have "data (mtx s') = f v" using st v by (auto elim!: stepE simp: Guard_deref_mut_def)
  moreover have "v = data (mtx s)" using exclusive_holder(3) [OF inv(1)] v by simp
  moreover have "(\<Sum>u \<in> T. updates k s' u) = Suc (\<Sum>u \<in> T. updates k s u)"
    using u updates_step(1) [OF st inv(2)] T by (intro sum_updates_Suc [of t]) simp_all
  ultimately show ?thesis using inv(3) by (simp add: counted_def)
qed

lemma booked_run: "run f T (fresh d k) s \<Longrightarrow> booked k s u"
proof (induction "fresh d k" s rule: run.induct)
  case start
  show ?case by (simp add: booked_def fresh_def)
qed (rule booked_step)

lemma counted_run:
  assumes "run f T (fresh d k) s" "finite T"
  shows "counted f T d k s"
  using assms
proof (induction "fresh d k" s rule: run.induct)
  case start
  show ?case by (simp add: counted_def updates_def fresh_def Mutex_new_def)
next
  case (more s1 t s2)
  then show ?case using counted_step exclusive_run booked_run by metis
qed

subsection \<open>Properties\<close>

text \<open>
  C30: mutual exclusion and no lost update. Let any finite set of processes share a mutex, each entering
  it \<open>k t\<close> times through \<^verbatim>\<open>lock\<close> or \<^verbatim>\<open>try_lock\<close>, with their accesses interleaved in any
  order and weak exchanges failing at will. At every moment at most one process holds a guard, and the
  flag is set exactly when one does. When all are done the lock is free and the data is the initial value
  updated as many times as the processes entered, none of them lost.
\<close>

theorem mutex_exclusion:
  assumes "run f T (fresh d k) s" "finite T"
  shows "(\<forall>t u. holds (pos s t) \<longrightarrow> holds (pos s u) \<longrightarrow> t = u)
    \<and> (is_locked (mtx s) \<longleftrightarrow> (\<exists>t. holds (pos s t)))
    \<and> ((\<forall>t. todo s t = 0) \<longrightarrow>
         \<not> is_locked (mtx s) \<and> Mutex_into_inner (mtx s) = (f ^^ (\<Sum>t \<in> T. k t)) d)"
proof -
  have e: "exclusive s" by (rule exclusive_run [OF assms(1)])
  have c: "counted f T d k s" by (rule counted_run [OF assms])
  have "\<not> is_locked (mtx s) \<and> Mutex_into_inner (mtx s) = (f ^^ (\<Sum>t \<in> T. k t)) d" if z: "\<forall>t. todo s t = 0"
  proof -
    have o: "pos s t = Outside" for t using booked_run [OF assms(1), of t] z by (simp add: booked_def)
    then have "updates k s t = k t" for t using z by (simp add: updates_def)
    then show ?thesis using c e o by (simp add: counted_def exclusive_def Mutex_into_inner_def is_locked_def)
  qed
  then show ?thesis using e by (auto simp: exclusive_def is_locked_def)
qed

text \<open>One process that goes in and out once.\<close>

lemma sample_run:
  fixes d :: nat
  shows "\<exists>s. run Suc {0} (fresh d (\<lambda>t. if t = 0 then 1 else 0)) s \<and> (\<forall>t. todo s t = 0)"
proof -
  let ?s0 = "fresh d (\<lambda>t. if t = (0 :: nat) then 1 else (0 :: nat))"
  let ?s1 = "?s0\<lparr> pos := (pos ?s0)(0 := Attempt) \<rparr>"
  let ?s2 = "?s1\<lparr> mtx := (mtx ?s1)\<lparr> locked := True \<rparr>, pos := (pos ?s1)(0 := Inside) \<rparr>"
  let ?s3 = "?s2\<lparr> pos := (pos ?s2)(0 := HasRead (Guard_deref (mtx ?s2))) \<rparr>"
  let ?s4 = "?s3\<lparr> mtx := Guard_deref_mut (Suc d) (mtx ?s3), pos := (pos ?s3)(0 := HasWritten) \<rparr>"
  let ?s5 = "?s4\<lparr> mtx := Guard_drop (mtx ?s4), pos := (pos ?s4)(0 := Outside),
    todo := (todo ?s4)(0 := todo ?s4 0 - 1) \<rparr>"
  have a: "Mutex_lock_attempt False (mtx ?s1) = (Inside, (mtx ?s1)\<lparr> locked := True \<rparr>)"
    by (simp add: fresh_def Mutex_new_def UNLOCKED_def Mutex_lock_attempt_def)
  have "step Suc 0 ?s0 ?s1" by (rule enter) (simp_all add: fresh_def)
  moreover have "step Suc 0 ?s1 ?s2" by (rule attempt [OF _ a]) simp
  moreover have "step Suc 0 ?s2 ?s3" by (rule read) simp
  moreover have "step Suc 0 ?s3 ?s4" by (rule update) (simp add: fresh_def Mutex_new_def Guard_deref_def)
  moreover have "step Suc 0 ?s4 ?s5" by (rule leave) simp
  ultimately have "run Suc {0} ?s0 ?s5" by (meson more start singletonI)
  moreover have "\<forall>t. todo ?s5 t = 0" by (simp add: fresh_def)
  ultimately show ?thesis by blast
qed

theorem mutex_exclusion_witness:
  "\<exists>s. run Suc {0} (fresh 41 (\<lambda>t. if t = 0 then 1 else 0)) s \<and> \<not> is_locked (mtx s)
     \<and> Mutex_into_inner (mtx s) = 42"
proof -
  obtain s where s: "run Suc {0} (fresh 41 (\<lambda>t. if t = 0 then 1 else 0)) s" "\<forall>t. todo s t = 0"
    using sample_run by blast
  from mutex_exclusion [OF s(1)] s show ?thesis by auto
qed



end
