(* ===== verification/Rust_Bytes.thy ===== *)
theory Rust_Bytes
  imports Rust_Prelude
begin

section \<open>Bytes, slices and strings\<close>

text \<open>
  Little-endian encodings of integers, byte slices with the address they lie at, and the operations of
  \<^verbatim>\<open>str\<close> the sources use. A \<^verbatim>\<open>Result\<close> without a state is a sum; \<open>rbind\<close> is
  \<^verbatim>\<open>?\<close> for it. Errors of type \<^verbatim>\<open>&'static str\<close> are strings.
\<close>

type_synonym 'a result = "(string + 'a) rust"

definition rbind :: "('e + 'a) rust \<Rightarrow> ('a \<Rightarrow> ('e + 'b) rust) \<Rightarrow> ('e + 'b) rust" where
  "rbind m f = (case m of None \<Rightarrow> None | Some (Inl e) \<Rightarrow> Some (Inl e) | Some (Inr a) \<Rightarrow> f a)"

lemma rbind_simps [simp]:
  "rbind None f = None" "rbind (Some (Inl e)) f = Some (Inl e)" "rbind (Some (Inr a)) f = f a"
  by (simp_all add: rbind_def)

lemma rbind_eq_Some:
  "rbind m f = Some r \<longleftrightarrow> (\<exists>e. m = Some (Inl e) \<and> r = Inl e) \<or> (\<exists>a. m = Some (Inr a) \<and> f a = Some r)"
  by (auto simp: rbind_def split: option.splits sum.splits)

subsection \<open>Little-endian integers\<close>

definition from_le_bytes :: "u8 list \<Rightarrow> 'a::len word" where
  "from_le_bytes bs = foldr (\<lambda>b w. ucast b OR push_bit 8 w) bs 0"

definition to_le_bytes :: "'a::len word \<Rightarrow> u8 list" where
  "to_le_bytes w = map (\<lambda>i. ucast (drop_bit (8 * i) w)) [0..<LENGTH('a) div 8]"

lemma length_to_le_bytes [simp]: "length (to_le_bytes (w :: 'a::len word)) = LENGTH('a) div 8"
  by (simp add: to_le_bytes_def)

lemma bit_from_le_bytes:
  "bit (from_le_bytes bs :: 'a::len word) n \<longleftrightarrow>
     n < LENGTH('a) \<and> n div 8 < length bs \<and> bit (bs ! (n div 8)) (n mod 8)"
proof (induction bs arbitrary: n)
  case (Cons b bs)
  show ?case
  proof (cases "n < 8")
    case True
    then show ?thesis by (simp add: from_le_bytes_def bit_simps)
  next
    case False
    then have "n div 8 = Suc ((n - 8) div 8)" "n mod 8 = (n - 8) mod 8" by (simp_all add: le_div_geq le_mod_geq)
    moreover have "\<not> bit b n" using False by (auto dest: bit_imp_le_length)
    ultimately show ?thesis using False Cons.IH [of "n - 8"]
      by (auto simp: from_le_bytes_def bit_simps)
  qed
qed (simp add: from_le_bytes_def)

lemma from_to_le_bytes [simp]:
  assumes "8 dvd LENGTH('a)"
  shows "from_le_bytes (to_le_bytes (w :: 'a::len word)) = w"
proof (rule bit_word_eqI)
  fix n assume n: "n < LENGTH('a)"
  obtain k where "LENGTH('a) = 8 * k" using assms by (rule dvdE)
  then have l: "n div 8 < LENGTH('a) div 8" using n by (simp add: less_mult_imp_div_less mult.commute)
  have e: "8 * (n div 8) + n mod 8 = n" by simp
  have "n mod 8 < 8" by simp
  moreover have "to_le_bytes w ! (n div 8) = ucast (drop_bit (8 * (n div 8)) w)" using l by (simp add: to_le_bytes_def)
  ultimately have "bit (to_le_bytes w ! (n div 8)) (n mod 8) \<longleftrightarrow> bit w n"
    using e by (simp only: bit_ucast_iff bit_drop_bit_eq o_apply) simp
  then show "bit (from_le_bytes (to_le_bytes w) :: 'a word) n = bit w n"
    using n l by (simp add: bit_from_le_bytes)
qed

text \<open>The field of \<open>n\<close> bytes at an offset of a structure.\<close>

definition le_at :: "nat \<Rightarrow> nat \<Rightarrow> u8 list \<Rightarrow> 'a::len word" where
  "le_at k n bs = from_le_bytes (take n (drop k bs))"

lemma le_at_append:
  "length xs = k \<Longrightarrow> length ys = n \<Longrightarrow> le_at k n (xs @ ys @ zs) = from_le_bytes ys"
  by (simp add: le_at_def)

subsection \<open>Slices\<close>

record slice =
  sl_addr :: usize
  sl_bytes :: "u8 list"

definition slice_len :: "slice \<Rightarrow> usize" where
  "slice_len s = word_of_nat (length (sl_bytes s))"

text \<open>\<^verbatim>\<open>&s[a..b]\<close> and \<^verbatim>\<open>&s[a..]\<close>, which panic when the range is not inside the slice.\<close>

definition slice_range :: "slice \<Rightarrow> usize \<Rightarrow> usize \<Rightarrow> slice rust" where
  "slice_range s a b =
     (if a \<le> b \<and> unat b \<le> length (sl_bytes s)
      then Some \<lparr> sl_addr = sl_addr s + a, sl_bytes = take (unat b - unat a) (drop (unat a) (sl_bytes s)) \<rparr>
      else panic)"

definition slice_from :: "slice \<Rightarrow> usize \<Rightarrow> slice rust" where
  "slice_from s a =
     (if unat a \<le> length (sl_bytes s) then Some \<lparr> sl_addr = sl_addr s + a, sl_bytes = drop (unat a) (sl_bytes s) \<rparr>
      else panic)"

subsection \<open>Strings\<close>

text \<open>\<^verbatim>\<open>str::from_utf8\<close>: whether the bytes are well-formed UTF-8, as the Unicode standard defines it.\<close>

definition utf8_tail :: "u8 \<Rightarrow> bool" where
  "utf8_tail b \<longleftrightarrow> 0x80 \<le> b \<and> b \<le> 0xBF"

fun utf8_valid :: "u8 list \<Rightarrow> bool" where
  "utf8_valid [] \<longleftrightarrow> True"
| "utf8_valid (b # bs) \<longleftrightarrow>
     (if b \<le> 0x7F then utf8_valid bs
      else if 0xC2 \<le> b \<and> b \<le> 0xDF then
        (case bs of b1 # r \<Rightarrow> utf8_tail b1 \<and> utf8_valid r | _ \<Rightarrow> False)
      else if 0xE0 \<le> b \<and> b \<le> 0xEF then
        (case bs of b1 # b2 # r \<Rightarrow> utf8_tail b1 \<and> utf8_tail b2 \<and> (b = 0xE0 \<longrightarrow> 0xA0 \<le> b1) \<and> (b = 0xED \<longrightarrow> b1 \<le> 0x9F)
             \<and> utf8_valid r
         | _ \<Rightarrow> False)
      else if 0xF0 \<le> b \<and> b \<le> 0xF4 then
        (case bs of b1 # b2 # b3 # r \<Rightarrow> utf8_tail b1 \<and> utf8_tail b2 \<and> utf8_tail b3
             \<and> (b = 0xF0 \<longrightarrow> 0x90 \<le> b1) \<and> (b = 0xF4 \<longrightarrow> b1 \<le> 0x8F) \<and> utf8_valid r
         | _ \<Rightarrow> False)
      else False)"

definition str_of_bytes :: "u8 list \<Rightarrow> string" where
  "str_of_bytes bs = map (\<lambda>b. char_of (unat b)) bs"

definition bytes_of_str :: "string \<Rightarrow> u8 list" where
  "bytes_of_str s = map (\<lambda>c. word_of_nat (of_char c)) s"

lemma str_of_bytes_of_str [simp]: "str_of_bytes (bytes_of_str s) = s"
proof -
  have "char_of (unat (word_of_nat (of_char c) :: u8)) = c" for c
  proof -
    have "(of_char c :: nat) < 256" by (rule nat_of_char_less_256)
    then show ?thesis by (simp add: unat_of_nat)
  qed
  then show ?thesis by (simp add: str_of_bytes_def bytes_of_str_def o_def)
qed

text \<open>
  Searching and cutting strings. Positions are byte offsets; in the strings searched here every
  character is one byte, so every position is a boundary of characters.
\<close>

definition trim_matches :: "char \<Rightarrow> string \<Rightarrow> string" where
  "trim_matches c s = rev (dropWhile (\<lambda>x. x = c) (rev (dropWhile (\<lambda>x. x = c) s)))"

definition starts_with :: "string \<Rightarrow> string \<Rightarrow> bool" where
  "starts_with s pat = (take (length pat) s = pat)"

definition ends_with :: "string \<Rightarrow> string \<Rightarrow> bool" where
  "ends_with s pat = (length pat \<le> length s \<and> drop (length s - length pat) s = pat)"

definition strip_prefix :: "string \<Rightarrow> string \<Rightarrow> string option" where
  "strip_prefix s pat = (if starts_with s pat then Some (drop (length pat) s) else None)"

definition strip_suffix :: "string \<Rightarrow> string \<Rightarrow> string option" where
  "strip_suffix s pat = (if ends_with s pat then Some (take (length s - length pat) s) else None)"

fun str_find :: "string \<Rightarrow> string \<Rightarrow> nat option" where
  "str_find pat [] = (if pat = [] then Some 0 else None)"
| "str_find pat (c # cs) = (if starts_with (c # cs) pat then Some 0 else map_option Suc (str_find pat cs))"

definition str_contains :: "string \<Rightarrow> string \<Rightarrow> bool" where
  "str_contains s pat = (str_find pat s \<noteq> None)"

fun str_rfind :: "(char \<Rightarrow> bool) \<Rightarrow> string \<Rightarrow> nat option" where
  "str_rfind P [] = None"
| "str_rfind P (c # cs) =
     (case str_rfind P cs of Some i \<Rightarrow> Some (Suc i) | None \<Rightarrow> if P c then Some 0 else None)"

definition str_get_from :: "string \<Rightarrow> nat \<Rightarrow> string option" where
  "str_get_from s a = (if a \<le> length s then Some (drop a s) else None)"

definition str_get :: "string \<Rightarrow> nat \<Rightarrow> nat \<Rightarrow> string option" where
  "str_get s a b = (if a \<le> b \<and> b \<le> length s then Some (take (b - a) (drop a s)) else None)"

lemma starts_with_iff: "starts_with s pat \<longleftrightarrow> (\<exists>r. s = pat @ r)"
  unfolding starts_with_def by (metis append_eq_conv_conj append_take_drop_id)

lemma str_find_Some:
  "str_find pat s = Some i \<Longrightarrow> i + length pat \<le> length s \<and> starts_with (drop i s) pat"
proof (induction s arbitrary: i)
  case Nil
  then show ?case by (simp add: starts_with_def split: if_splits)
next
  case (Cons c cs)
  show ?case
  proof (cases "starts_with (c # cs) pat")
    case True
    then obtain r where "c # cs = pat @ r" unfolding starts_with_iff by (elim exE)
    then have "length pat \<le> length (c # cs)" by simp
    with True Cons.prems show ?thesis by simp
  next
    case False
    with Cons show ?thesis by auto
  qed
qed

lemma str_rfind_None: "str_rfind P s = None \<longleftrightarrow> (\<forall>c \<in> set s. \<not> P c)"
  by (induction s) (auto split: option.splits)

lemma str_rfind_Some:
  "str_rfind P s = Some i \<Longrightarrow> i < length s \<and> P (s ! i) \<and> (\<forall>c \<in> set (drop (Suc i) s). \<not> P c)"
proof (induction s arbitrary: i)
  case (Cons c cs)
  then show ?case
    by (cases "str_rfind P cs") (auto split: if_splits simp: str_rfind_None)
qed simp

text \<open>An integer formatted in decimal.\<close>

fun decimal :: "nat \<Rightarrow> string" where
  "decimal n = (if n < 10 then [char_of (48 + n)] else decimal (n div 10) @ [char_of (48 + n mod 10)])"

declare decimal.simps [simp del]

end
