(* ===== verification/Process_Ipc.thy ===== *)
theory Process_Ipc
  imports Rust_Bytes
begin

section \<open>Messages between the kernel, the shell and processes\<close>

text \<open>
  The model of \<^verbatim>\<open>crates/process/src/process.rs\<close> and \<^verbatim>\<open>crates/input/src/input.rs\<close>: the ring buffer
  \<^verbatim>\<open>SizedQueue\<close> the kernel and the shell exchange messages through, the fixed-size strings in
  those messages, the queue of input events, and what a process makes of the answer to the
  \<^verbatim>\<open>translate_address\<close> call. A \<^verbatim>\<open>str\<close> is the list of its bytes.

  The contract of a bounded queue is the locale \<open>bounded_fifo\<close>; \<^verbatim>\<open>SizedQueue\<close> implements it
  up to its capacity, and what happens beyond is stated for itself.
\<close>

subsection \<open>Process attributes and messages\<close>

datatype translate_address_error = PermissionDenied | AddressNotMapped

text \<open>What \<^verbatim>\<open>process::translate_address\<close> returns for the value the kernel left in \<^verbatim>\<open>rax\<close>.\<close>

definition translate_address :: "u64 \<Rightarrow> (translate_address_error + usize) rust" where
  "translate_address num =
     (if sint num < 0 then
        if sint num = - 1 then Some (Inl PermissionDenied)
        else if sint num = - 2 then Some (Inl AddressNotMapped)
        else panic
      else Some (Inr num))"

datatype access_policy = AllAccess | NormalAccess

datatype priority = NoPriority | NormalPriority | IdlePriority

definition priority_repr :: "priority \<Rightarrow> u8" where
  "priority_repr p = (case p of NoPriority \<Rightarrow> 0 | NormalPriority \<Rightarrow> 32 | IdlePriority \<Rightarrow> 255)"

instantiation priority :: linorder
begin

definition less_eq_priority :: "priority \<Rightarrow> priority \<Rightarrow> bool" where
  "less_eq_priority p q = (priority_repr p \<le> priority_repr q)"

definition less_priority :: "priority \<Rightarrow> priority \<Rightarrow> bool" where
  "less_priority p q = (priority_repr p < priority_repr q)"

instance
proof
  fix p q :: priority
  show "p \<le> q \<Longrightarrow> q \<le> p \<Longrightarrow> p = q"
    by (cases p; cases q) (simp_all add: less_eq_priority_def priority_repr_def)
qed (auto simp: less_eq_priority_def less_priority_def)

end

text \<open>\<^verbatim>\<open>SizedString<32>\<close> is the list of its 32 bytes.\<close>

type_synonym sized_string = string

datatype shell_input =
  AccessModuleRequest (req_addr: usize) (req_process_id: u64) (req_process_name: sized_string)
    (req_module_name: sized_string) (req_section_name: sized_string)

datatype shell_output =
    ExitProcess u64
  | StartProcess sized_string
  | AllowModuleAccess usize u64

definition unblocks_process :: "shell_output \<Rightarrow> bool" where
  "unblocks_process m = (case m of ExitProcess _ \<Rightarrow> True | AllowModuleAccess _ _ \<Rightarrow> True | _ \<Rightarrow> False)"

subsection \<open>Fixed-size strings\<close>

definition SizedString_new_truncate :: "nat \<Rightarrow> string \<Rightarrow> sized_string" where
  "SizedString_new_truncate SIZE str =
     (let bytes = replicate SIZE (CHR 0x00); len = min (length str) SIZE in take len str @ drop len bytes)"

definition SizedString_as_str :: "sized_string \<Rightarrow> string" where
  "SizedString_as_str s = trim_matches (CHR 0x00) s"

subsection \<open>The ring buffer\<close>

record 'a sized_queue =
  slots :: "'a option list"
  push_cursor :: nat
  pop_cursor :: nat

definition SHELL_INPUT_QUEUE_SIZE :: nat where "SHELL_INPUT_QUEUE_SIZE = 8"

definition SizedQueue_new :: "nat \<Rightarrow> 'a sized_queue" where
  "SizedQueue_new SIZE = \<lparr> slots = replicate SIZE None, push_cursor = 0, pop_cursor = 0 \<rparr>"

text \<open>Indexing out of bounds panics; \<open>SIZE\<close> is the length of the array.\<close>

definition SizedQueue_push :: "'a \<Rightarrow> 'a sized_queue \<Rightarrow> 'a sized_queue rust" where
  "SizedQueue_push element q = do {
     rust_assert (push_cursor q < length (slots q));
     let cursor = push_cursor q + 1;
     Some (q\<lparr> slots := (slots q)[push_cursor q := Some element],
              push_cursor := if cursor \<ge> length (slots q) then 0 else cursor \<rparr>)
   }"

definition SizedQueue_pop :: "'a sized_queue \<Rightarrow> ('a option \<times> 'a sized_queue) rust" where
  "SizedQueue_pop q = do {
     rust_assert (pop_cursor q < length (slots q));
     let element = slots q ! pop_cursor q;
     let taken = q\<lparr> slots := (slots q)[pop_cursor q := None] \<rparr>;
     if element \<noteq> None then
       let cursor = pop_cursor q + 1 in
       Some (element, taken\<lparr> pop_cursor := if cursor \<ge> length (slots q) then 0 else cursor \<rparr>)
     else Some (element, taken)
   }"

record shell_queue =
  shell_in :: "shell_input sized_queue"
  shell_out :: "shell_output sized_queue"

definition ShellQueue_new :: shell_queue where
  "ShellQueue_new = \<lparr> shell_in = SizedQueue_new SHELL_INPUT_QUEUE_SIZE,
     shell_out = SizedQueue_new SHELL_INPUT_QUEUE_SIZE \<rparr>"

subsection \<open>The queue of input events\<close>

datatype input_event = KeyPress u16 | MouseMove "32 word" "32 word" | MouseWheel "32 word"

definition QUEUE_SIZE :: nat where "QUEUE_SIZE = 64"

type_synonym input_queue = "input_event option list"

definition InputQueue_new :: input_queue where
  "InputQueue_new = replicate QUEUE_SIZE None"

text \<open>\<^verbatim>\<open>position\<close> of the first element that satisfies the predicate.\<close>

definition iter_position :: "('a \<Rightarrow> bool) \<Rightarrow> 'a list \<Rightarrow> nat option" where
  "iter_position P xs = (let n = length (takeWhile (\<lambda>x. \<not> P x) xs) in if n < length xs then Some n else None)"

definition InputQueue_push :: "input_event \<Rightarrow> input_queue \<Rightarrow> input_event option \<times> input_queue" where
  "InputQueue_push event q =
     (case iter_position (\<lambda>e. e = None) q of
        Some null_index \<Rightarrow> (None, q[null_index := Some event])
      | None \<Rightarrow> (q ! 0, (rotate1 (q[0 := None]))[QUEUE_SIZE - 1 := Some event]))"

text \<open>
  The iterator that \<^verbatim>\<open>drain\<close> returns takes the events out as it is advanced; \<open>k\<close> is the
  number of slots the caller goes through before it stops.
\<close>

definition InputQueue_drain :: "nat \<Rightarrow> input_queue \<Rightarrow> input_event list \<times> input_queue" where
  "InputQueue_drain k q = (List.map_filter id (take k q), replicate (length (take k q)) None @ drop k q)"

subsection \<open>The contract of a bounded queue\<close>

locale bounded_fifo =
  fixes push :: "'a \<Rightarrow> 'q \<Rightarrow> 'q rust"
    and pop :: "'q \<Rightarrow> ('a option \<times> 'q) rust"
    and inv :: "'q \<Rightarrow> bool" and contents :: "'q \<Rightarrow> 'a list" and cap :: nat
  assumes push_ok: "inv q \<Longrightarrow> length (contents q) < cap \<Longrightarrow>
      \<exists>q'. push a q = Some q' \<and> inv q' \<and> contents q' = contents q @ [a]"
    and pop_empty: "inv q \<Longrightarrow> contents q = [] \<Longrightarrow> pop q = Some (None, q)"
    and pop_ok: "inv q \<Longrightarrow> contents q = a # as \<Longrightarrow> \<exists>q'. pop q = Some (Some a, q') \<and> inv q' \<and> contents q' = as"

datatype 'a queue_op = Push 'a | Pop

text \<open>A run of operations, with what the pops returned.\<close>

fun queue_run ::
    "('a \<Rightarrow> 'q \<Rightarrow> 'q rust) \<Rightarrow> ('q \<Rightarrow> ('a option \<times> 'q) rust) \<Rightarrow> 'a queue_op list \<Rightarrow> 'q \<Rightarrow> ('a list \<times> 'q) rust" where
  "queue_run push pop [] q = Some ([], q)"
| "queue_run push pop (Push a # ops) q = push a q \<bind> queue_run push pop ops"
| "queue_run push pop (Pop # ops) q = do {
     (r, q) \<leftarrow> pop q;
     (rs, q) \<leftarrow> queue_run push pop ops q;
     Some ((case r of None \<Rightarrow> rs | Some a \<Rightarrow> a # rs), q)
   }"

fun pushed :: "'a queue_op list \<Rightarrow> 'a list" where
  "pushed [] = []"
| "pushed (Push a # ops) = a # pushed ops"
| "pushed (Pop # ops) = pushed ops"

text \<open>The operations never push onto a queue that holds \<open>cap\<close> elements, when it holds \<open>n\<close> at first.\<close>

fun within :: "nat \<Rightarrow> nat \<Rightarrow> 'a queue_op list \<Rightarrow> bool" where
  "within cap n [] \<longleftrightarrow> True"
| "within cap n (Push a # ops) \<longleftrightarrow> n < cap \<and> within cap (Suc n) ops"
| "within cap n (Pop # ops) \<longleftrightarrow> within cap (n - 1) ops"

context bounded_fifo
begin

lemma run_fifo:
  assumes "inv q" "within cap (length (contents q)) ops"
  shows "\<exists>rs q'. queue_run push pop ops q = Some (rs, q') \<and> inv q' \<and> contents q @ pushed ops = rs @ contents q'"
  using assms
proof (induction ops arbitrary: q)
  case (Cons op ops)
  show ?case
  proof (cases op)
    case (Push a)
    obtain q1 where p: "push a q = Some q1" "inv q1" "contents q1 = contents q @ [a]"
      using push_ok [OF Cons.prems(1)] Cons.prems(2) Push by auto
    then show ?thesis using Cons.IH [OF p(2)] Cons.prems(2) Push by simp
  next
    case Pop
    show ?thesis
    proof (cases "contents q")
      case Nil
      then show ?thesis using Cons.IH [OF Cons.prems(1)] Cons.prems Pop pop_empty by auto
    next
      case (Cons a as)
      obtain q1 where p: "pop q = Some (Some a, q1)" "inv q1" "contents q1 = as"
        using pop_ok [OF Cons.prems(1) Cons] by blast
      then show ?thesis using Cons.IH [OF p(2)] Cons.prems(2) Pop Cons by auto
    qed
  qed
qed simp

lemma run_pops:
  assumes "inv q"
  shows "\<exists>q'. queue_run push pop (replicate (length (contents q)) Pop) q = Some (contents q, q') \<and> inv q' \<and> contents q' = []"
  using assms
proof (induction "contents q" arbitrary: q)
  case (Cons a as)
  obtain q1 where p: "pop q = Some (Some a, q1)" "inv q1" "contents q1 = as"
    using pop_ok [OF Cons.prems Cons.hyps(2) [symmetric]] by blast
  then show ?case using Cons.hyps(1) [of q1] Cons.hyps(2) [symmetric] by auto
qed auto

end

subsection \<open>The ring buffer as a bounded queue\<close>

text \<open>
  The elements lie in the slots from the pop cursor on, around the end of the array, and the push
  cursor stands behind them.
\<close>

definition ring :: "nat \<Rightarrow> nat \<Rightarrow> nat \<Rightarrow> nat" where
  "ring n i j = (i + j) mod n"

definition queue_holds :: "nat \<Rightarrow> 'a sized_queue \<Rightarrow> 'a list \<Rightarrow> bool" where
  "queue_holds n q as \<longleftrightarrow> length (slots q) = n \<and> pop_cursor q < n \<and> length as \<le> n
     \<and> push_cursor q = ring n (pop_cursor q) (length as)
     \<and> (\<forall>j < n. slots q ! ring n (pop_cursor q) j = (if j < length as then Some (as ! j) else None))"

definition SizedQueue_contents :: "nat \<Rightarrow> 'a sized_queue \<Rightarrow> 'a list" where
  "SizedQueue_contents n q =
     List.map_filter id (map (\<lambda>j. slots q ! ring n (pop_cursor q) j) [0..<n])"

definition SizedQueue_inv :: "nat \<Rightarrow> 'a sized_queue \<Rightarrow> bool" where
  "SizedQueue_inv n q \<longleftrightarrow> queue_holds n q (SizedQueue_contents n q)"

lemma ring_less: "0 < n \<Longrightarrow> ring n i j < n"
  by (simp add: ring_def)

lemma ring_if: "i < n \<Longrightarrow> j \<le> n \<Longrightarrow> ring n i j = (if i + j < n then i + j else i + j - n)"
  by (auto simp: ring_def mod_if)

lemma ring_eq_iff: "i < n \<Longrightarrow> j < n \<Longrightarrow> k < n \<Longrightarrow> ring n i j = ring n i k \<longleftrightarrow> j = k"
  by (auto simp: ring_if)

lemma ring_0 [simp]: "i < n \<Longrightarrow> ring n i 0 = i"
  by (simp add: ring_def)

lemma ring_n [simp]: "i < n \<Longrightarrow> ring n i n = i"
  by (simp add: ring_def)

lemma ring_Suc: "i < n \<Longrightarrow> ring n (ring n i (Suc 0)) j = ring n i (Suc j)"
  by (simp add: ring_def mod_simps)

lemma cursor_next:
  "i < n \<Longrightarrow> (if n \<le> Suc i then 0 else Suc i) = ring n i (Suc 0)"
  by (cases "Suc i = n") (auto simp: ring_def)

lemma map_filter_some_none:
  "List.map_filter id (map (\<lambda>j. if j < length as then Some (as ! j) else None) [0..<length as + k]) = as"
proof -
  have "map (\<lambda>j. if j < length as then Some (as ! j) else None) [0..<length as + k] = map Some as @ replicate k None"
    by (rule nth_equalityI) (auto simp: nth_append)
  moreover have "List.map_filter id (map Some as @ replicate k None) = as"
    by (induction as) (simp_all add: List.map_filter_def)
  ultimately show ?thesis by simp
qed

lemma queue_holds_contents:
  assumes "queue_holds n q as"
  shows "SizedQueue_contents n q = as" "SizedQueue_inv n q"
proof -
  have "map (\<lambda>j. slots q ! ring n (pop_cursor q) j) [0..<n]
      = map (\<lambda>j. if j < length as then Some (as ! j) else None) [0..<length as + (n - length as)]"
    using assms by (intro map_cong) (auto simp: queue_holds_def)
  then show c: "SizedQueue_contents n q = as"
    unfolding SizedQueue_contents_def by (simp only: map_filter_some_none)
  show "SizedQueue_inv n q" unfolding SizedQueue_inv_def c by (rule assms)
qed

lemma queue_holds_push:
  assumes q: "queue_holds n q as" and l: "length as < n"
  shows "\<exists>q'. SizedQueue_push a q = Some q' \<and> queue_holds n q' (as @ [a])"
proof -
  let ?p = "pop_cursor q" and ?l = "length as"
  let ?q = "q\<lparr> slots := (slots q)[ring n ?p ?l := Some a], push_cursor := ring n ?p (Suc ?l) \<rparr>"
  have p: "?p < n" "length (slots q) = n" "push_cursor q = ring n ?p ?l" using q by (auto simp: queue_holds_def)
  have r: "ring n ?p ?l < n" using p(1) by (intro ring_less) simp
  have "(if n \<le> Suc (ring n ?p ?l) then 0 else Suc (ring n ?p ?l)) = ring n ?p (Suc ?l)"
    using cursor_next [OF r] by (simp add: ring_def mod_simps)
  then have "SizedQueue_push a q = Some ?q" using p r by (simp add: SizedQueue_push_def Let_def)
  moreover have "queue_holds n ?q (as @ [a])"
    using q l r ring_eq_iff [OF p(1) l] by (auto simp: queue_holds_def nth_append nth_list_update less_Suc_eq)
  ultimately show ?thesis by blast
qed

lemma queue_holds_pop_empty:
  assumes "queue_holds n q []"
  shows "SizedQueue_pop q = Some (None, q)"
proof -
  have "slots q ! pop_cursor q = None" "pop_cursor q < length (slots q)"
    using assms by (auto simp: queue_holds_def dest: spec [of _ 0])
  then show ?thesis by (simp add: SizedQueue_pop_def Let_def list_update_same_conv)
qed

lemma queue_holds_pop:
  assumes q: "queue_holds n q (a # as)"
  shows "\<exists>q'. SizedQueue_pop q = Some (Some a, q') \<and> queue_holds n q' as"
proof -
  let ?p = "pop_cursor q"
  let ?q = "q\<lparr> slots := (slots q)[?p := None], pop_cursor := ring n ?p (Suc 0) \<rparr>"
  have p: "?p < n" "length (slots q) = n" "Suc (length as) \<le> n" using q by (auto simp: queue_holds_def)
  have s: "slots q ! ring n ?p j = (if j < Suc (length as) then Some ((a # as) ! j) else None)" if "j < n" for j
    using q that by (simp add: queue_holds_def)
  have "slots q ! ?p = Some a" using s [of 0] p by simp
  then have pop: "SizedQueue_pop q = Some (Some a, ?q)"
    using p cursor_next [OF p(1)] by (simp add: SizedQueue_pop_def Let_def)
  have "slots ?q ! ring n (ring n ?p (Suc 0)) j = (if j < length as then Some (as ! j) else None)" if j: "j < n" for j
  proof (cases "Suc j = n")
    case True
    then have "ring n (ring n ?p (Suc 0)) j = ?p" using ring_Suc [OF p(1)] p(1) by simp
    then show ?thesis using p True by simp
  next
    case False
    then have sj: "Suc j < n" using j by simp
    then have "ring n ?p (Suc j) \<noteq> ?p" using ring_eq_iff [OF p(1) sj, of 0] p(1) by simp
    then show ?thesis using s [OF sj] by (simp add: ring_Suc [OF p(1)])
  qed
  moreover have "ring n ?p (Suc 0) < n" using p(1) by (intro ring_less) simp
  ultimately have "queue_holds n ?q as"
    using q p(2,3) by (simp add: queue_holds_def ring_Suc [OF p(1)])
  with pop show ?thesis by blast
qed

interpretation sized_fifo: bounded_fifo SizedQueue_push SizedQueue_pop "SizedQueue_inv n" "SizedQueue_contents n" n
  for n
proof unfold_locales
  fix q a as assume i: "SizedQueue_inv n q"
  then have h: "queue_holds n q (SizedQueue_contents n q)" by (simp add: SizedQueue_inv_def)
  show "length (SizedQueue_contents n q) < n \<Longrightarrow>
      \<exists>q'. SizedQueue_push a q = Some q' \<and> SizedQueue_inv n q' \<and> SizedQueue_contents n q' = SizedQueue_contents n q @ [a]"
    using queue_holds_push [OF h] queue_holds_contents by blast
  show "SizedQueue_contents n q = [] \<Longrightarrow> SizedQueue_pop q = Some (None, q)"
    using queue_holds_pop_empty h by metis
  show "SizedQueue_contents n q = a # as \<Longrightarrow>
      \<exists>q'. SizedQueue_pop q = Some (Some a, q') \<and> SizedQueue_inv n q' \<and> SizedQueue_contents n q' = as"
    using queue_holds_pop h queue_holds_contents by metis
qed

lemma SizedQueue_new_holds: "0 < n \<Longrightarrow> queue_holds n (SizedQueue_new n) []"
  by (simp add: queue_holds_def SizedQueue_new_def ring_def)

text \<open>Popping does not look at the push cursor.\<close>

lemma SizedQueue_pop_push_cursor:
  "SizedQueue_pop (q\<lparr> push_cursor := c \<rparr>) =
     map_option (\<lambda>(r, q). (r, q\<lparr> push_cursor := c \<rparr>)) (SizedQueue_pop q)"
  by (cases "pop_cursor q < length (slots q)")
    (simp_all add: SizedQueue_pop_def Let_def rust_assert_def)

lemma queue_run_push_cursor:
  "queue_run SizedQueue_push SizedQueue_pop (replicate k Pop) (q\<lparr> push_cursor := c \<rparr>) =
     map_option (\<lambda>(rs, q). (rs, q\<lparr> push_cursor := c \<rparr>))
       (queue_run SizedQueue_push SizedQueue_pop (replicate k Pop) q)"
proof (induction k arbitrary: q)
  case (Suc k)
  show ?case
  proof (cases "SizedQueue_pop q")
    case (Some x)
    then obtain r q1 where x: "SizedQueue_pop q = Some (r, q1)" by (cases x) auto
    then show ?thesis
      using Suc [of q1] by (cases "queue_run SizedQueue_push SizedQueue_pop (replicate k Pop) q1")
        (auto simp: SizedQueue_pop_push_cursor split: option.split)
  qed (simp add: SizedQueue_pop_push_cursor)
qed simp

lemma queue_run_pops_keep:
  "queue_run SizedQueue_push SizedQueue_pop (replicate k Pop) q = Some (rs, q') \<Longrightarrow> push_cursor q' = push_cursor q"
proof (induction k arbitrary: q rs)
  case (Suc k)
  from Suc.prems obtain r q1 rs' where p: "SizedQueue_pop q = Some (r, q1)"
    "queue_run SizedQueue_push SizedQueue_pop (replicate k Pop) q1 = Some (rs', q')"
    by (auto split: Option.bind_splits)
  have "push_cursor q1 = push_cursor q"
    using p(1) by (auto simp: SizedQueue_pop_def Let_def split: Option.bind_splits if_splits)
  then show ?case using Suc.IH [OF p(2)] by simp
qed simp

subsection \<open>Input events\<close>

definition input_holds :: "input_queue \<Rightarrow> input_event list \<Rightarrow> bool" where
  "input_holds q es \<longleftrightarrow> length es \<le> QUEUE_SIZE \<and> q = map Some es @ replicate (QUEUE_SIZE - length es) None"

lemma iter_position_holds:
  "iter_position (\<lambda>e. e = None) (map Some es @ replicate k None) = (if k = 0 then None else Some (length es))"
proof -
  have "takeWhile (\<lambda>x. x \<noteq> None) (map Some es @ replicate k None) = map Some es"
    by (induction es) (cases k, simp_all)
  then show ?thesis by (simp add: iter_position_def Let_def)
qed

lemma InputQueue_push_holds:
  assumes "input_holds q es"
  shows "InputQueue_push e q = (if length es < QUEUE_SIZE then None else Some (hd es), snd (InputQueue_push e q))
    \<and> input_holds (snd (InputQueue_push e q)) (drop (Suc (length es) - QUEUE_SIZE) (es @ [e]))"
proof (cases "length es < QUEUE_SIZE")
  case True
  then have q: "q = map Some es @ replicate (QUEUE_SIZE - length es) None" using assms by (simp add: input_holds_def)
  have "(map Some es @ replicate (QUEUE_SIZE - length es) None)[length es := Some e]
      = map Some (es @ [e]) @ replicate (QUEUE_SIZE - Suc (length es)) None"
  proof -
    have "replicate (QUEUE_SIZE - length es) None = (None :: input_event option) # replicate (QUEUE_SIZE - Suc (length es)) None"
      using True by (metis Suc_diff_Suc replicate_Suc)
    then show ?thesis by (simp add: list_update_append)
  qed
  then show ?thesis using True by (simp add: q InputQueue_push_def iter_position_holds input_holds_def)
next
  case False
  then have l: "length es = QUEUE_SIZE" and q: "q = map Some es" using assms by (auto simp: input_holds_def)
  obtain x xs where es: "es = x # xs" using l by (cases es) (auto simp: QUEUE_SIZE_def)
  have "length xs = QUEUE_SIZE - 1" using l es by simp
  then show ?thesis
    using iter_position_holds [of es 0] l
    by (simp add: q InputQueue_push_def input_holds_def es list_update_append)
qed

fun push_all :: "input_event list \<Rightarrow> input_queue \<Rightarrow> input_event list \<times> input_queue" where
  "push_all [] q = ([], q)"
| "push_all (e # es) q =
     (let (missed, q) = InputQueue_push e q; (ms, q) = push_all es q
      in ((case missed of None \<Rightarrow> ms | Some m \<Rightarrow> m # ms), q))"

lemma push_all_holds:
  assumes "input_holds q old"
  shows "fst (push_all es q) @ drop (length (old @ es) - QUEUE_SIZE) (old @ es) = old @ es
    \<and> input_holds (snd (push_all es q)) (drop (length (old @ es) - QUEUE_SIZE) (old @ es))"
  using assms
proof (induction es arbitrary: q old)
  case Nil
  then show ?case by (simp add: input_holds_def)
next
  case (Cons e es)
  obtain m q1 where p: "InputQueue_push e q = (m, q1)" "m = (if length old < QUEUE_SIZE then None else Some (hd old))"
    "input_holds q1 (drop (Suc (length old) - QUEUE_SIZE) (old @ [e]))"
    using InputQueue_push_holds [OF Cons.prems, of e] by (metis prod.collapse snd_conv)
  obtain ms q' where a: "push_all es q1 = (ms, q')" by fastforce
  note ih = Cons.IH [OF p(3), unfolded a fst_conv snd_conv]
  show ?case
  proof (cases "length old < QUEUE_SIZE")
    case True
    then have "Suc (length old) - QUEUE_SIZE = 0" by simp
    then show ?thesis using ih p(1,2) a True by simp
  next
    case False
    then have "length old = QUEUE_SIZE" using Cons.prems by (simp add: input_holds_def)
    then obtain x xs where old: "old = x # xs" "length xs = QUEUE_SIZE - 1" "QUEUE_SIZE = Suc (length xs)"
      by (cases old) (auto simp: QUEUE_SIZE_def)
    have d: "drop (Suc (length old) - QUEUE_SIZE) (old @ [e]) = xs @ [e]" using old by simp
    have l: "length ((xs @ [e]) @ es) - QUEUE_SIZE = length es" using old(3) by simp
    have "length (old @ e # es) - QUEUE_SIZE = Suc (length es)" using old by simp
    then have "drop (length (old @ e # es) - QUEUE_SIZE) (old @ e # es) = drop (length es) ((xs @ [e]) @ es)"
      by (simp add: old(1) del: drop_append)
    then show ?thesis using ih [unfolded d l] p(1,2) a False old(1) by (simp del: drop_append)
  qed
qed

lemma InputQueue_new_holds: "input_holds InputQueue_new []"
  by (simp add: input_holds_def InputQueue_new_def)

lemma InputQueue_drain_holds:
  "input_holds q es \<Longrightarrow> InputQueue_drain QUEUE_SIZE q = (es, InputQueue_new)"
proof -
  assume "input_holds q es"
  then have q: "q = map Some es @ replicate (QUEUE_SIZE - length es) None" "length q = QUEUE_SIZE"
    by (auto simp: input_holds_def)
  have "List.map_filter id (map Some es @ replicate k None) = es" for k
    by (induction es) (simp_all add: List.map_filter_def)
  then show ?thesis using q by (simp add: InputQueue_drain_def InputQueue_new_def)
qed

subsection \<open>Properties\<close>

text \<open>
  C32: the queues between kernel and shell deliver in order. Start from a new \<^verbatim>\<open>SizedQueue\<close> of any
  size but 0 and run any sequence of pushes and pops that never pushes onto a full queue. No step panics,
  and the messages popped, followed by those still in the queue, are exactly the messages pushed, in the
  order they were pushed.
\<close>

theorem sized_queue_fifo:
  fixes ops :: "'a queue_op list"
  assumes "0 < n" "within n 0 ops"
  shows "\<exists>rs q. queue_run SizedQueue_push SizedQueue_pop ops (SizedQueue_new n) = Some (rs, q)
    \<and> rs @ SizedQueue_contents n q = pushed ops \<and> length (SizedQueue_contents n q) \<le> n"
proof -
  have "queue_holds n (SizedQueue_new n :: 'a sized_queue) []" by (rule SizedQueue_new_holds [OF assms(1)])
  note h = queue_holds_contents [OF this]
  obtain rs q where r: "queue_run SizedQueue_push SizedQueue_pop ops (SizedQueue_new n) = Some (rs, q)"
    "SizedQueue_inv n q" "SizedQueue_contents n (SizedQueue_new n) @ pushed ops = rs @ SizedQueue_contents n q"
    using sized_fifo.run_fifo [OF h(2), of ops] assms(2) h(1) by auto
  then show ?thesis using h(1) by (auto simp: SizedQueue_inv_def queue_holds_def)
qed

theorem sized_queue_fifo_witness:
  "\<exists>rs q. queue_run SizedQueue_push SizedQueue_pop [Push (1 :: nat), Push 2, Pop, Push 3, Pop] (SizedQueue_new 2)
     = Some (rs, q) \<and> rs @ SizedQueue_contents 2 q = [1, 2, 3]"
  using sized_queue_fifo [of 2 "[Push (1 :: nat), Push 2, Pop, Push 3, Pop]"] by auto

text \<open>
  C33: a push onto a full queue breaks it for good. The oldest message is overwritten, the
  newest one is popped first, before the older ones. After all are popped the cursors are
  apart: the next message is pushed into one slot and looked for in another, so it is not delivered.
\<close>

theorem sized_queue_overflow:
  assumes "SizedQueue_inv n q" "SizedQueue_contents n q = old # as" "length (old # as) = n" "2 \<le> n"
  shows "\<exists>q1 q2 q3. SizedQueue_push a q = Some q1
    \<and> queue_run SizedQueue_push SizedQueue_pop (replicate n Pop) q1 = Some (a # as, q2)
    \<and> SizedQueue_push b q2 = Some q3 \<and> SizedQueue_pop q3 = Some (None, q3)"
proof -
  let ?p = "pop_cursor q"
  have h: "queue_holds n q (old # as)" using assms(1,2) by (simp add: SizedQueue_inv_def)
  have p: "?p < n" "length (slots q) = n" "push_cursor q = ?p" using h assms(3) by (auto simp: queue_holds_def)
  let ?r = "q\<lparr> slots := (slots q)[?p := Some a] \<rparr>" and ?c = "ring n ?p (Suc 0)"
  have push: "SizedQueue_push a q = Some (?r\<lparr> push_cursor := ?c \<rparr>)"
    using p by (simp add: SizedQueue_push_def Let_def cursor_next)
  have ne: "?p = ring n ?p j \<longleftrightarrow> j = 0" if "j < n" for j
    using ring_eq_iff [OF p(1) _ that, of 0] p(1) by auto
  have r: "queue_holds n ?r (a # as)"
    using h p assms(3) by (auto simp: queue_holds_def nth_Cons' nth_list_update ne)
  obtain q2 where q2: "queue_run SizedQueue_push SizedQueue_pop (replicate n Pop) ?r = Some (a # as, q2)"
    "SizedQueue_inv n q2" "SizedQueue_contents n q2 = []"
    using sized_fifo.run_pops [OF queue_holds_contents(2) [OF r]] queue_holds_contents(1) [OF r] assms(3) by auto
  have pops: "queue_run SizedQueue_push SizedQueue_pop (replicate n Pop) (?r\<lparr> push_cursor := ?c \<rparr>)
      = Some (a # as, q2\<lparr> push_cursor := ?c \<rparr>)"
    using queue_run_push_cursor [where k = n and q = ?r and c = ?c] q2(1) by simp
  have e: "queue_holds n q2 []" using q2(2,3) by (simp add: SizedQueue_inv_def)
  have c: "pop_cursor q2 = ?p"
    using e queue_run_pops_keep [OF q2(1)] p by (auto simp: queue_holds_def)
  have l: "length (slots q2) = n" "slots q2 ! ?p = None"
    using e c p(1) by (auto simp: queue_holds_def dest: spec [of _ 0])
  have cn: "?c < n" "?c \<noteq> ?p" using ring_less [of n] ne [of "Suc 0"] assms(4) by auto
  let ?q3 = "q2\<lparr> slots := (slots q2)[?c := Some b], push_cursor := ring n ?c (Suc 0) \<rparr>"
  have "SizedQueue_push b (q2\<lparr> push_cursor := ?c \<rparr>) = Some ?q3"
    using l(1) cn(1) by (simp add: SizedQueue_push_def Let_def cursor_next)
  moreover have "SizedQueue_pop ?q3 = Some (None, ?q3)"
  proof -
    have "(slots ?q3)[?p := None] = slots ?q3" using l cn by (simp add: list_update_same_conv p)
    then show ?thesis using l cn c p(1) by (simp add: SizedQueue_pop_def Let_def)
  qed
  ultimately show ?thesis using push pops by blast
qed

theorem sized_queue_overflow_witness:
  "\<exists>q q1 q2 q3. queue_run SizedQueue_push SizedQueue_pop [Push (1 :: nat), Push 2] (SizedQueue_new 2) = Some ([], q)
     \<and> SizedQueue_push 3 q = Some q1
     \<and> queue_run SizedQueue_push SizedQueue_pop [Pop, Pop] q1 = Some ([3, 2], q2)
     \<and> SizedQueue_push 4 q2 = Some q3 \<and> SizedQueue_pop q3 = Some (None, q3)"
proof -
  let ?q = "\<lparr> slots = [Some 1, Some 2], push_cursor = 0, pop_cursor = 0 \<rparr> :: nat sized_queue"
  have q: "queue_run SizedQueue_push SizedQueue_pop [Push (1 :: nat), Push 2] (SizedQueue_new 2) = Some ([], ?q)"
    by code_simp
  have "queue_holds 2 ?q [1, 2]"
    by (auto simp: queue_holds_def ring_def less_2_cases_iff numeral_2_eq_2 less_Suc_eq)
  note c = queue_holds_contents [OF this]
  show ?thesis using sized_queue_overflow [OF c(2,1), of 3 4] q by (auto simp: numeral_2_eq_2)
qed

text \<open>
  The shell sees the latest input. Whatever events are pushed onto a new \<^verbatim>\<open>InputQueue\<close>, draining
  it gives the last 64 of them in order and leaves it empty; the events the pushes returned as missed are
  the earlier ones, in order.
\<close>

lemma input_queue_latest:
  "InputQueue_drain QUEUE_SIZE (snd (push_all es InputQueue_new)) = (drop (length es - 64) es, InputQueue_new)
   \<and> fst (push_all es InputQueue_new) = take (length es - 64) es"
proof -
  from push_all_holds [OF InputQueue_new_holds, of es]
  have h: "fst (push_all es InputQueue_new) @ drop (length es - 64) es = es"
    "input_holds (snd (push_all es InputQueue_new)) (drop (length es - 64) es)"
    by (simp_all add: QUEUE_SIZE_def)
  have "fst (push_all es InputQueue_new) @ drop (length es - 64) es = take (length es - 64) es @ drop (length es - 64) es"
    using h(1) by simp
  then have "fst (push_all es InputQueue_new) = take (length es - 64) es" by (simp only: append_same_eq)
  then show ?thesis using InputQueue_drain_holds [OF h(2)] by simp
qed

text \<open>
  Names survive the trip in a message. A string without null bytes that is put into a
  \<^verbatim>\<open>SizedString\<close> reads back as its first \<open>n\<close> bytes, the whole string if it fits.
\<close>

lemma sized_string_roundtrip:
  assumes "CHR 0x00 \<notin> set str"
  shows "length (SizedString_new_truncate n str) = n
    \<and> SizedString_as_str (SizedString_new_truncate n str) = take n str"
proof -
  let ?t = "take n str" and ?k = "n - length str"
  have z: "\<forall>x \<in> set ?t. x \<noteq> CHR 0x00" using assms by (auto dest: in_set_takeD)
  have n: "SizedString_new_truncate n str = ?t @ replicate ?k (CHR 0x00)"
    by (cases "length str \<le> n") (simp_all add: SizedString_new_truncate_def Let_def min_def)
  have d: "dropWhile (\<lambda>x. x = CHR 0x00) s = s" if "\<forall>x \<in> set s. x \<noteq> CHR 0x00" for s
    using that by (cases s) auto
  have "dropWhile (\<lambda>x. x = CHR 0x00) (replicate k (CHR 0x00) @ s) = dropWhile (\<lambda>x. x = CHR 0x00) s" for k s
    by (induction k) simp_all
  then have "dropWhile (\<lambda>x. x = CHR 0x00) (rev (?t @ replicate ?k (CHR 0x00))) = rev ?t"
    using d [of "rev ?t"] z by simp
  moreover have "dropWhile (\<lambda>x. x = CHR 0x00) (?t @ replicate ?k (CHR 0x00)) = ?t @ replicate ?k (CHR 0x00)
      \<or> ?t = []" using z by (cases ?t) auto
  ultimately have "trim_matches (CHR 0x00) (?t @ replicate ?k (CHR 0x00)) = ?t"
    by (auto simp: trim_matches_def simp del: take_eq_Nil take_eq_Nil2)
  then show ?thesis by (simp add: SizedString_as_str_def n)
qed

lemma sized_string_roundtrip_witness:
  "SizedString_as_str (SizedString_new_truncate 32 ''input_driver'') = ''input_driver''
   \<and> SizedString_as_str (SizedString_new_truncate 5 ''input_driver'') = ''input''"
  using sized_string_roundtrip [of "''input_driver''" 32] sized_string_roundtrip [of "''input_driver''" 5] by simp

end
