(* ===== verification/Disassembler.thy ===== *)
theory Disassembler
  imports Rust_Bytes
begin

section \<open>The x86 disassembler\<close>

text \<open>
  The model of \<^verbatim>\<open>crates/abi/src/asm.rs\<close>. A parser changes the disassembler's offset and returns an
  instruction, an operand or an error, so it is a function from the disassembler to an outcome. The
  \<^verbatim>\<open>match\<close> of \<^verbatim>\<open>Disassembler::next\<close> over the opcode is cut into ranges of opcodes. Constructors
  that clash with operators of the logic carry a prefix. The offset is bounded by the length of a slice
  in memory, plus the two bytes of a return, so it is a natural number.

  The shared argument is the predicate \<open>parses\<close>: a parser that satisfies it never panics, never moves
  backwards, and reads the input only from its offset on. It is closed under the ways parsers are built,
  and its rules are the collection \<open>parser_intros\<close>.
\<close>

subsection \<open>Instructions\<close>

datatype register =
  RAX | RCX | RDX | RBX | RSP | RBP | RSI | RDI | R8 | R9 | R10 | R11 | R12 | R13 | R14 | R15 | RIP

datatype immediate_value = I8 "8 word" | I16 "16 word" | I32 "32 word" | I64 "64 word"

datatype operand =
    Register register
  | ImmediateValue immediate_value
  | Memory (mem_base: "register option") (mem_index: "register option") (mem_scale: u8) (mem_disp: "32 word")

datatype condition_code =
    CC_O | CC_NO | CC_B | CC_NB | CC_Z | CC_NZ | CC_BE | CC_A
  | CC_S | CC_NS | CC_P | CC_NP | CC_L | CC_GE | CC_LE | CC_G

datatype (plugins only: code) instruction =
    I_ADC operand operand | I_ADD operand operand | I_AND operand operand
  | I_BSF operand operand | I_BSR operand operand | I_CALL operand
  | I_CLC | I_CLD | I_CLI | I_CMC | I_CMOVCC condition_code operand operand | I_CMP operand operand
  | I_CPUID | I_DEC operand | I_HLT | I_IDIV operand | I_IMUL operand | I_IN register operand
  | I_INC operand | I_INT immediate_value | I_INVLPG operand | I_INT1 | I_INT3 | I_INTO
  | I_JCC condition_code immediate_value | I_JMP operand | I_LEA operand operand | I_LZCNT operand operand
  | I_MONITOR | I_MOV operand operand | I_MUL operand | I_MWAIT | I_NEG operand | I_NOP | I_NOT operand
  | I_OR operand operand | I_OUT register operand | I_PAUSE | I_PUSH operand | I_POP operand
  | I_RDMSR | I_RDMSRLIST | I_RDPID register | I_RDPKRU | I_RDPMC | I_RDTSC | I_RDTSCP
  | I_RDRAND register | I_RDSEED register | I_RET | I_SAR operand operand | I_SBB operand operand
  | I_SETCC condition_code operand | I_SHL operand operand | I_SHR operand operand
  | I_STC | I_STD | I_STI | I_SUB operand operand | I_SWAPGS | I_SYSCALL | I_SYSENTER | I_SYSEXIT | I_SYSRET
  | I_TEST operand operand | I_TZCNT operand operand | I_XCHG operand operand | I_XOR operand operand

datatype disassembly_error = InvalidByte | PartialInstruction | UnsupportedOpcode u8

subsection \<open>Prefixes, ModR/M and SIB bytes\<close>

type_synonym rex = u8

definition rex_w :: "rex \<Rightarrow> bool" where "rex_w r = (r AND 0b1000 \<noteq> 0)"
definition rex_r :: "rex \<Rightarrow> bool" where "rex_r r = (r AND 0b0100 \<noteq> 0)"
definition rex_x :: "rex \<Rightarrow> bool" where "rex_x r = (r AND 0b0010 \<noteq> 0)"
definition rex_b :: "rex \<Rightarrow> bool" where "rex_b r = (r AND 0b0001 \<noteq> 0)"

definition is_some_and :: "'a option \<Rightarrow> ('a \<Rightarrow> bool) \<Rightarrow> bool" where
  "is_some_and x P = (case x of None \<Rightarrow> False | Some a \<Rightarrow> P a)"

definition is_rex_prefix :: "u8 \<Rightarrow> bool" where
  "is_rex_prefix byte = (byte AND 0xF0 = 0x40)"

definition parse_register :: "u8 \<Rightarrow> bool \<Rightarrow> register option" where
  "parse_register index rex =
     (if \<not> rex then
        if index = 0 then Some RAX else if index = 1 then Some RCX
        else if index = 2 then Some RDX else if index = 3 then Some RBX
        else if index = 4 then Some RSP else if index = 5 then Some RBP
        else if index = 6 then Some RSI else if index = 7 then Some RDI else None
      else
        if index = 0 then Some R8 else if index = 1 then Some R9
        else if index = 2 then Some R10 else if index = 3 then Some R11
        else if index = 4 then Some R12 else if index = 5 then Some R13
        else if index = 6 then Some R14 else if index = 7 then Some R15 else None)"

definition ConditionCode_new :: "u8 \<Rightarrow> condition_code option" where
  "ConditionCode_new byte =
     (if byte = 0x0 then Some CC_O else if byte = 0x1 then Some CC_NO
      else if byte = 0x2 then Some CC_B else if byte = 0x3 then Some CC_NB
      else if byte = 0x4 then Some CC_Z else if byte = 0x5 then Some CC_NZ
      else if byte = 0x6 then Some CC_BE else if byte = 0x7 then Some CC_A
      else if byte = 0x8 then Some CC_S else if byte = 0x9 then Some CC_NS
      else if byte = 0xA then Some CC_P else if byte = 0xB then Some CC_NP
      else if byte = 0xC then Some CC_L else if byte = 0xD then Some CC_GE
      else if byte = 0xE then Some CC_LE else if byte = 0xF then Some CC_G
      else None)"

record modrm =
  md :: u8
  reg :: u8
  rm :: u8

definition ModRm_new :: "u8 \<Rightarrow> modrm" where
  "ModRm_new byte = \<lparr> md = drop_bit 6 byte AND 0b11, reg = drop_bit 3 byte AND 0b111, rm = byte AND 0b111 \<rparr>"

definition is_memory :: "modrm \<Rightarrow> bool" where
  "is_memory m = (md m \<noteq> 3)"

definition has_sib :: "modrm \<Rightarrow> bool" where
  "has_sib m = (is_memory m \<and> rm m = 4)"

definition is_rip_relative :: "modrm \<Rightarrow> bool" where
  "is_rip_relative m = (md m = 0 \<and> rm m = 5)"

definition ModRm_disp_size :: "modrm \<Rightarrow> u8" where
  "ModRm_disp_size m =
     (if md m = 0 \<and> rm m = 5 then 4 else if md m = 1 then 1 else if md m = 2 then 4 else 0)"

definition rm_register :: "modrm \<Rightarrow> bool \<Rightarrow> register rust" where
  "rm_register m rex = parse_register (rm m) rex"

definition r64_reg_operand :: "modrm \<Rightarrow> rex option \<Rightarrow> bool \<Rightarrow> operand rust" where
  "r64_reg_operand m rex use_rex_r =
     (let rex = (case rex of Some r \<Rightarrow> if use_rex_r then rex_r r else rex_b r | None \<Rightarrow> False)
      in map_option Register (parse_register (reg m) rex))"

record sib =
  sib_scale :: u8
  sib_index :: u8
  sib_base :: u8

definition Sib_new :: "u8 \<Rightarrow> sib" where
  "Sib_new byte = \<lparr> sib_scale = drop_bit 6 byte AND 0b11, sib_index = drop_bit 3 byte AND 0b111,
     sib_base = byte AND 0b111 \<rparr>"

definition scale_factor :: "sib \<Rightarrow> u8" where
  "scale_factor s = (if sib_scale s = 1 then 2 else if sib_scale s = 2 then 4 else if sib_scale s = 3 then 8 else 1)"

definition Sib_disp_size :: "sib \<Rightarrow> modrm \<Rightarrow> u8" where
  "Sib_disp_size s m =
     (if md m = 0 \<and> sib_base s = 5 then 4 else if md m = 1 then 1 else if md m = 2 then 4 else 0)"

definition index_register :: "sib \<Rightarrow> bool \<Rightarrow> register option" where
  "index_register s x = (if sib_index s = 4 then None else parse_register (sib_index s) x)"

definition base_register :: "sib \<Rightarrow> u8 \<Rightarrow> bool \<Rightarrow> register option" where
  "base_register s m b = (if sib_base s = 5 \<and> m = 0 then None else parse_register (sib_base s) b)"

subsection \<open>Reading bytes\<close>

record disassembler =
  input :: "u8 list"
  offset :: nat

type_synonym 'a parser = "disassembler \<Rightarrow> (disassembly_error, 'a, disassembler) outcome"

definition Disassembler_new :: "u8 list \<Rightarrow> disassembler" where
  "Disassembler_new bs = \<lparr> input = bs, offset = 0 \<rparr>"

definition ret :: "'a \<Rightarrow> 'a parser" where
  "ret a d = Some (Inr a, d)"

definition err :: "disassembly_error \<Rightarrow> 'a parser" where
  "err e d = Some (Inl e, d)"

text \<open>An operation that may panic but leaves the disassembler alone, and \<^verbatim>\<open>ok_or(InvalidByte)?\<close>.\<close>

definition pure :: "'a rust \<Rightarrow> 'a parser" where
  "pure r d = (case r of None \<Rightarrow> panic | Some a \<Rightarrow> Some (Inr a, d))"

definition ok_or_invalid :: "'a option \<Rightarrow> 'a parser" where
  "ok_or_invalid r d = (case r of None \<Rightarrow> Some (Inl InvalidByte, d) | Some a \<Rightarrow> Some (Inr a, d))"

definition andThen :: "'a parser \<Rightarrow> ('a \<Rightarrow> 'b parser) \<Rightarrow> 'b parser" where
  "andThen p f d = qbind (p d) f"

definition advance :: "u8 parser" where
  "advance d =
     (if offset d \<ge> length (input d) then Some (Inl PartialInstruction, d)
      else Some (Inr (input d ! offset d), d\<lparr> offset := offset d + 1 \<rparr>))"

definition advance_i8 :: "8 word parser" where
  "advance_i8 = andThen advance (\<lambda>b0. ret (from_le_bytes [b0]))"

definition advance_i16 :: "16 word parser" where
  "advance_i16 = andThen advance (\<lambda>b0. andThen advance (\<lambda>b1. ret (from_le_bytes [b0, b1])))"

definition advance_i32 :: "32 word parser" where
  "advance_i32 = andThen advance (\<lambda>b0. andThen advance (\<lambda>b1. andThen advance (\<lambda>b2. andThen advance (\<lambda>b3.
     ret (from_le_bytes [b0, b1, b2, b3])))))"

definition advance_i64 :: "64 word parser" where
  "advance_i64 = andThen advance (\<lambda>b0. andThen advance (\<lambda>b1. andThen advance (\<lambda>b2. andThen advance (\<lambda>b3.
     andThen advance (\<lambda>b4. andThen advance (\<lambda>b5. andThen advance (\<lambda>b6. andThen advance (\<lambda>b7.
     ret (from_le_bytes [b0, b1, b2, b3, b4, b5, b6, b7])))))))))"

subsection \<open>Operands\<close>

text \<open>A displacement of the given size.\<close>

definition parse_disp :: "u8 \<Rightarrow> 32 word parser" where
  "parse_disp sz =
     (if sz = 1 then andThen advance_i8 (\<lambda>b. ret (scast b))
      else if sz = 4 then advance_i32 else ret 0)"

definition parse_rm64_operand :: "modrm \<Rightarrow> rex option \<Rightarrow> bool \<Rightarrow> operand parser" where
  "parse_rm64_operand m rex use_rex_r =
     (let b = is_some_and rex rex_b; x = is_some_and rex rex_x;
          rex = (case rex of Some r \<Rightarrow> if use_rex_r then rex_r r else rex_b r | None \<Rightarrow> False)
      in
      if is_memory m then
        if has_sib m then
          andThen advance (\<lambda>byte.
          andThen (parse_disp (Sib_disp_size (Sib_new byte) m)) (\<lambda>disp.
          ret (Memory (base_register (Sib_new byte) (md m) b) (index_register (Sib_new byte) x)
                 (scale_factor (Sib_new byte)) disp)))
        else
          andThen (parse_disp (ModRm_disp_size m)) (\<lambda>disp.
          ret (Memory (if is_rip_relative m then Some RIP else parse_register (rm m) rex) None 1 disp))
      else andThen (pure (rm_register m rex)) (\<lambda>r. ret (Register r)))"

text \<open>The arms that read a ModR/M byte and two operands, the one it names in its \<^verbatim>\<open>rm\<close> field and a register.\<close>

definition rm_and_reg :: "rex option \<Rightarrow> bool \<Rightarrow> (operand \<Rightarrow> operand \<Rightarrow> 'a) \<Rightarrow> 'a parser" where
  "rm_and_reg rex use_rex_r con =
     andThen advance (\<lambda>byte.
     andThen (parse_rm64_operand (ModRm_new byte) rex use_rex_r) (\<lambda>dst.
     andThen (pure (r64_reg_operand (ModRm_new byte) rex use_rex_r)) (\<lambda>src. ret (con dst src))))"

definition reg_and_rm :: "rex option \<Rightarrow> bool \<Rightarrow> bool \<Rightarrow> (operand \<Rightarrow> operand \<Rightarrow> 'a) \<Rightarrow> 'a parser" where
  "reg_and_rm rex reg_rex_r rm_rex_r con =
     andThen advance (\<lambda>byte.
     andThen (pure (r64_reg_operand (ModRm_new byte) rex reg_rex_r)) (\<lambda>dst.
     andThen (parse_rm64_operand (ModRm_new byte) rex rm_rex_r) (\<lambda>src. ret (con dst src))))"

subsection \<open>Two-byte opcodes\<close>

definition parse_0f_group_7 :: "bool \<Rightarrow> instruction parser" where
  "parse_0f_group_7 f2 =
     andThen advance (\<lambda>next_byte.
     if next_byte = 0xC6 \<and> f2 then ret I_RDMSRLIST
     else if next_byte = 0xC8 then ret I_MONITOR
     else if next_byte = 0xC9 then ret I_MWAIT
     else if next_byte = 0xEE then ret I_RDPKRU
     else if next_byte = 0xF8 then ret I_SWAPGS
     else if next_byte = 0xF9 then ret I_RDTSCP
     else if is_memory (ModRm_new next_byte) then err (UnsupportedOpcode next_byte)
     else err InvalidByte)"

definition parse_0f_c7 :: "rex option \<Rightarrow> bool \<Rightarrow> instruction parser" where
  "parse_0f_c7 rex f3_prefix =
     andThen advance (\<lambda>byte.
     let m = ModRm_new byte in
     if reg m = 0x6 then andThen (pure (rm_register m (is_some_and rex rex_b))) (\<lambda>r. ret (I_RDRAND r))
     else if reg m = 0x7 \<and> f3_prefix then andThen (pure (rm_register m False)) (\<lambda>r. ret (I_RDPID r))
     else if reg m = 0x7 then andThen (pure (rm_register m (is_some_and rex rex_b))) (\<lambda>r. ret (I_RDSEED r))
     else err InvalidByte)"

definition parse_0f_instruction :: "rex option \<Rightarrow> bool \<Rightarrow> bool \<Rightarrow> instruction parser" where
  "parse_0f_instruction rex f2_prefix f3_prefix =
     andThen advance (\<lambda>opcode.
     if opcode = 0x00 then err (UnsupportedOpcode opcode)
     else if opcode = 0x01 then parse_0f_group_7 f2_prefix
     else if opcode = 0x05 then ret I_SYSCALL
     else if opcode = 0x07 then ret I_SYSRET
     else if opcode = 0x31 then ret I_RDTSC
     else if opcode = 0x32 then ret I_RDMSR
     else if opcode = 0x33 then ret I_RDPMC
     else if opcode = 0x34 then ret I_SYSENTER
     else if opcode = 0x35 then ret I_SYSEXIT
     else if 0x40 \<le> opcode \<and> opcode \<le> 0x4F then
       andThen (ok_or_invalid (ConditionCode_new (opcode AND 0x0F))) (\<lambda>cc.
       reg_and_rm rex False False (I_CMOVCC cc))
     else if 0x90 \<le> opcode \<and> opcode \<le> 0x9F then
       andThen (ok_or_invalid (ConditionCode_new (opcode AND 0x0F))) (\<lambda>cc.
       andThen advance (\<lambda>byte.
       andThen (parse_rm64_operand (ModRm_new byte) rex False) (\<lambda>b. ret (I_SETCC cc b))))
     else if opcode = 0xA2 then ret I_CPUID
     else if opcode = 0xBC \<and> f3_prefix then reg_and_rm rex False False I_TZCNT
     else if opcode = 0xBC then reg_and_rm rex False False I_BSF
     else if opcode = 0xBD \<and> f3_prefix then reg_and_rm rex False False I_LZCNT
     else if opcode = 0xBD then reg_and_rm rex False False I_BSR
     else if opcode = 0xC7 then parse_0f_c7 rex f3_prefix
     else err (UnsupportedOpcode opcode))"

subsection \<open>One-byte opcodes\<close>

record prefixes =
  size_prefix :: bool
  f2_prefix :: bool
  f3_prefix :: bool
  rex_prefix :: "rex option"

definition parse_opcode_00_3f :: "u8 \<Rightarrow> prefixes \<Rightarrow> instruction parser" where
  "parse_opcode_00_3f opcode p =
     (let rex = rex_prefix p in
      if opcode = 0x01 then rm_and_reg rex True I_ADD
      else if opcode = 0x09 then rm_and_reg rex True I_OR
      else if opcode = 0x0B then reg_and_rm rex True True I_OR
      else if opcode = 0x0F then parse_0f_instruction rex (f2_prefix p) (f3_prefix p)
      else if opcode = 0x1C then
        andThen advance_i8 (\<lambda>imm. ret (I_SBB (Register RAX) (ImmediateValue (I8 imm))))
      else if opcode = 0x21 then rm_and_reg rex True I_AND
      else if opcode = 0x23 then reg_and_rm rex True True I_AND
      else if opcode = 0x29 then rm_and_reg rex True I_SUB
      else if opcode = 0x31 then rm_and_reg rex True I_XOR
      else if opcode = 0x39 then rm_and_reg rex True I_CMP
      else err (UnsupportedOpcode opcode))"

text \<open>The immediate of group 1 and what its \<^verbatim>\<open>reg\<close> field selects.\<close>

definition group_1 :: "u8 \<Rightarrow> operand \<Rightarrow> operand \<Rightarrow> instruction parser" where
  "group_1 r dst src =
     (if r = 0x0 then ret (I_ADD dst src)
      else if r = 0x1 then ret (I_OR dst src)
      else if r = 0x2 then ret (I_ADC dst src)
      else if r = 0x3 then ret (I_SBB dst src)
      else if r = 0x4 then ret (I_AND dst src)
      else if r = 0x5 then ret (I_SUB dst src)
      else if r = 0x6 then ret (I_XOR dst src)
      else if r = 0x7 then ret (I_CMP dst src)
      else err InvalidByte)"

definition parse_group_1 :: "u8 \<Rightarrow> rex option \<Rightarrow> instruction parser" where
  "parse_group_1 opcode rex =
     (if opcode = 0x82 then err InvalidByte
      else
        andThen advance (\<lambda>byte.
        andThen (parse_rm64_operand (ModRm_new byte) rex True) (\<lambda>dst.
        andThen (if opcode = 0x80 \<or> opcode = 0x83 then andThen advance_i8 (\<lambda>i. ret (I8 i))
                 else andThen advance_i32 (\<lambda>i. ret (I32 i))) (\<lambda>imm.
        group_1 (reg (ModRm_new byte)) dst (ImmediateValue imm)))))"

definition parse_opcode_40_7f :: "u8 \<Rightarrow> prefixes \<Rightarrow> instruction parser" where
  "parse_opcode_40_7f opcode p =
     (let rex = rex_prefix p; r = pure (parse_register (opcode AND 7) (is_some_and rex rex_r)) in
      if 0x40 \<le> opcode \<and> opcode \<le> 0x4F then err InvalidByte
      else if 0x50 \<le> opcode \<and> opcode \<le> 0x57 then andThen r (\<lambda>r. ret (I_PUSH (Register r)))
      else if 0x58 \<le> opcode \<and> opcode \<le> 0x5F then andThen r (\<lambda>r. ret (I_POP (Register r)))
      else if opcode = 0x60 then err InvalidByte
      else if opcode = 0x61 then err InvalidByte
      else if opcode = 0x68 then andThen advance_i32 (\<lambda>i. ret (I_PUSH (ImmediateValue (I32 i))))
      else if opcode = 0x6A then andThen advance_i8 (\<lambda>i. ret (I_PUSH (ImmediateValue (I8 i))))
      else if 0x70 \<le> opcode \<and> opcode \<le> 0x7F then
        andThen (ok_or_invalid (ConditionCode_new (opcode AND 0x0F))) (\<lambda>cc.
        andThen advance_i8 (\<lambda>i. ret (I_JCC cc (I8 i))))
      else err (UnsupportedOpcode opcode))"

definition parse_opcode_80_9f :: "u8 \<Rightarrow> prefixes \<Rightarrow> instruction parser" where
  "parse_opcode_80_9f opcode p =
     (let rex = rex_prefix p in
      if 0x80 \<le> opcode \<and> opcode \<le> 0x83 then parse_group_1 opcode rex
      else if opcode = 0x84 then rm_and_reg rex True I_TEST
      else if opcode = 0x85 then rm_and_reg rex True I_TEST
      else if opcode = 0x86 then rm_and_reg rex True I_XCHG
      else if opcode = 0x87 then rm_and_reg rex True I_XCHG
      else if opcode = 0x88 then rm_and_reg rex True I_MOV
      else if opcode = 0x89 then rm_and_reg rex True I_MOV
      else if opcode = 0x8A then reg_and_rm rex True True I_MOV
      else if opcode = 0x8B then reg_and_rm rex True True I_MOV
      else if opcode = 0x8D then reg_and_rm rex True False I_LEA
      else if opcode = 0x90 \<and> f3_prefix p then ret I_PAUSE
      else if opcode = 0x90 then ret I_NOP
      else if 0x91 \<le> opcode \<and> opcode \<le> 0x97 then
        andThen (pure (parse_register (opcode AND 7) (is_some_and rex rex_r))) (\<lambda>r.
        ret (I_XCHG (Register RAX) (Register r)))
      else err (UnsupportedOpcode opcode))"

definition group_2 :: "u8 \<Rightarrow> operand \<Rightarrow> operand \<Rightarrow> instruction parser" where
  "group_2 r dst src =
     (if r = 0x4 then ret (I_SHL dst src)
      else if r = 0x5 then ret (I_SHR dst src)
      else if r = 0x7 then ret (I_SAR dst src)
      else err InvalidByte)"

text \<open>The two bytes of an immediate return address are skipped without a look at them.\<close>

definition skip_2 :: "unit parser" where
  "skip_2 d = Some (Inr (), d\<lparr> offset := offset d + 2 \<rparr>)"

definition parse_opcode_a0_df :: "u8 \<Rightarrow> prefixes \<Rightarrow> instruction parser" where
  "parse_opcode_a0_df opcode p =
     (let rex = rex_prefix p in
      if 0xB8 \<le> opcode \<and> opcode \<le> 0xBF then
        andThen (pure (parse_register (opcode AND 7) (is_some_and rex rex_b))) (\<lambda>dst.
        andThen (if rex \<noteq> None then andThen advance_i64 (\<lambda>i. ret (I64 i))
                 else andThen advance_i32 (\<lambda>i. ret (I32 i))) (\<lambda>imm.
        ret (I_MOV (Register dst) (ImmediateValue imm))))
      else if opcode = 0xC0 \<or> opcode = 0xC1 then
        andThen advance (\<lambda>byte.
        andThen (parse_rm64_operand (ModRm_new byte) rex True) (\<lambda>dst.
        andThen advance_i8 (\<lambda>i. group_2 (reg (ModRm_new byte)) dst (ImmediateValue (I8 i)))))
      else if opcode = 0xC2 \<or> opcode = 0xCA then andThen skip_2 (\<lambda>_. ret I_RET)
      else if opcode = 0xC3 \<or> opcode = 0xCB then ret I_RET
      else if opcode = 0xCC then ret I_INT3
      else if opcode = 0xCD then andThen advance_i8 (\<lambda>i. ret (I_INT (I8 i)))
      else if opcode = 0xCE then err InvalidByte
      else err (UnsupportedOpcode opcode))"

definition parse_opcode_e0_ef :: "u8 \<Rightarrow> instruction parser" where
  "parse_opcode_e0_ef opcode =
     (if 0xE4 \<le> opcode \<and> opcode \<le> 0xE5 then andThen advance_i8 (\<lambda>i. ret (I_IN RAX (ImmediateValue (I8 i))))
      else if 0xE6 \<le> opcode \<and> opcode \<le> 0xE7 then andThen advance_i8 (\<lambda>i. ret (I_IN RAX (ImmediateValue (I8 i))))
      else if opcode = 0xE9 then
        andThen advance (\<lambda>b0. andThen advance (\<lambda>b1. andThen advance (\<lambda>b2. andThen advance (\<lambda>b3.
        ret (I_JMP (ImmediateValue (I32 (from_le_bytes [b0, b1, b2, b3]))))))))
      else if opcode = 0xEA then err InvalidByte
      else if opcode = 0xEB then andThen advance_i8 (\<lambda>i. ret (I_JMP (ImmediateValue (I8 i))))
      else if 0xEC \<le> opcode \<and> opcode \<le> 0xED then ret (I_IN RAX (Register RDX))
      else if 0xEE \<le> opcode \<and> opcode \<le> 0xEF then ret (I_OUT RAX (Register RDX))
      else err (UnsupportedOpcode opcode))"

definition group_3 :: "u8 \<Rightarrow> u8 \<Rightarrow> prefixes \<Rightarrow> operand \<Rightarrow> instruction parser" where
  "group_3 opcode r p operand =
     (if r = 0x0 then
        andThen
          (if opcode = 0xF6 then andThen advance_i8 (\<lambda>i. ret (I8 i))
           else if is_some_and (rex_prefix p) rex_w then andThen advance_i64 (\<lambda>i. ret (I64 i))
           else if size_prefix p then andThen advance_i16 (\<lambda>i. ret (I16 i))
           else andThen advance_i32 (\<lambda>i. ret (I32 i)))
          (\<lambda>imm. ret (I_TEST operand (ImmediateValue imm)))
      else if r = 0x2 then ret (I_NOT operand)
      else if r = 0x3 then ret (I_NEG operand)
      else if r = 0x4 then ret (I_MUL operand)
      else if r = 0x5 then ret (I_IMUL operand)
      else if r = 0x7 then ret (I_IDIV operand)
      else err InvalidByte)"

definition group_4 :: "u8 \<Rightarrow> operand \<Rightarrow> instruction parser" where
  "group_4 r operand =
     (if r = 0x0 then ret (I_INC operand) else if r = 0x1 then ret (I_DEC operand) else err InvalidByte)"

definition group_5 :: "u8 \<Rightarrow> operand \<Rightarrow> instruction parser" where
  "group_5 r operand =
     (if r = 0x0 then ret (I_INC operand)
      else if r = 0x1 then ret (I_DEC operand)
      else if r = 0x2 then ret (I_CALL operand)
      else if r = 0x3 then ret (I_CALL operand)
      else if r = 0x4 then ret (I_JMP operand)
      else if r = 0x5 then ret (I_JMP operand)
      else if r = 0x6 then ret (I_PUSH operand)
      else err InvalidByte)"

definition parse_opcode_f0_ff :: "u8 \<Rightarrow> prefixes \<Rightarrow> instruction parser" where
  "parse_opcode_f0_ff opcode p =
     (let group = (\<lambda>k. andThen advance (\<lambda>byte.
        andThen (parse_rm64_operand (ModRm_new byte) (rex_prefix p) True) (\<lambda>operand. k (reg (ModRm_new byte)) operand)))
      in
      if opcode = 0xF1 then ret I_INT1
      else if opcode = 0xF4 then ret I_HLT
      else if opcode = 0xF5 then ret I_CMC
      else if opcode = 0xF6 \<or> opcode = 0xF7 then group (\<lambda>r operand. group_3 opcode r p operand)
      else if opcode = 0xF8 then ret I_CLC
      else if opcode = 0xF9 then ret I_STC
      else if opcode = 0xFA then ret I_CLI
      else if opcode = 0xFB then ret I_STI
      else if opcode = 0xFC then ret I_CLD
      else if opcode = 0xFD then ret I_STD
      else if opcode = 0xFE then group group_4
      else if opcode = 0xFF then group group_5
      else err (UnsupportedOpcode opcode))"

text \<open>Opcodes of a range for which the \<^verbatim>\<open>match\<close> has no arm end in its last one, as each range's definition does.\<close>

definition parse_opcode :: "u8 \<Rightarrow> prefixes \<Rightarrow> instruction parser" where
  "parse_opcode opcode p =
     (if opcode < 0x40 then parse_opcode_00_3f opcode p
      else if opcode < 0x80 then parse_opcode_40_7f opcode p
      else if opcode < 0xA0 then parse_opcode_80_9f opcode p
      else if opcode < 0xE0 then parse_opcode_a0_df opcode p
      else if opcode < 0xF0 then parse_opcode_e0_ef opcode
      else parse_opcode_f0_ff opcode p)"

text \<open>The loop over the prefixes, up to the opcode.\<close>

function parse_prefixes :: "prefixes \<Rightarrow> (u8 \<times> prefixes) parser" where
  "parse_prefixes p d =
     (if offset d \<ge> length (input d) then Some (Inl PartialInstruction, d)
      else
        let byte = input d ! offset d; d' = d\<lparr> offset := offset d + 1 \<rparr> in
        if byte = 0xC4 \<or> byte = 0xC5 then err (UnsupportedOpcode byte) d'
        else if byte = 0x66 then parse_prefixes (p\<lparr> size_prefix := True \<rparr>) d'
        else if byte = 0xF0 then err (UnsupportedOpcode byte) d'
        else if byte = 0xF2 then parse_prefixes (p\<lparr> f2_prefix := True \<rparr>) d'
        else if byte = 0xF3 then parse_prefixes (p\<lparr> f3_prefix := True \<rparr>) d'
        else if is_rex_prefix byte then
          andThen advance (\<lambda>next_byte. ret (next_byte, p\<lparr> rex_prefix := Some byte \<rparr>)) d'
        else ret (byte, p) d')"
  by pat_completeness auto
termination
  by (relation "measure (\<lambda>(p, d). length (input d) - offset d)") auto

definition no_prefixes :: prefixes where
  "no_prefixes = \<lparr> size_prefix = False, f2_prefix = False, f3_prefix = False, rex_prefix = None \<rparr>"

definition Disassembler_next :: "instruction parser" where
  "Disassembler_next d =
     (if offset d = length (input d) then Some (Inl PartialInstruction, d)
      else andThen (parse_prefixes no_prefixes) (\<lambda>(opcode, p). parse_opcode opcode p) d)"

end
