(* ===== verification/Disassembler_Props.thy ===== *)
theory Disassembler_Props
  imports Disassembler
begin

section \<open>Properties of the disassembler\<close>

text \<open>
  What holds of every parser of the disassembler, by the closure of \<open>parses\<close> under the ways they are
  built, and from it: progress and bounds of \<^verbatim>\<open>next\<close>, termination of the loop over a block of code,
  and independence of the bytes around an instruction. Then encodings and what becomes of them.
\<close>

subsection \<open>Parsers\<close>

definition shift :: "u8 list \<Rightarrow> u8 list \<Rightarrow> disassembler \<Rightarrow> disassembler" where
  "shift pre post d = d\<lparr> input := pre @ input d @ post, offset := length pre + offset d \<rparr>"

lemma shift_simps [simp]:
  "input (shift pre post d) = pre @ input d @ post"
  "offset (shift pre post d) = length pre + offset d"
  "shift pre post (d\<lparr> offset := n \<rparr>) = (shift pre post d)\<lparr> offset := length pre + n \<rparr>"
  by (simp_all add: shift_def)

text \<open>
  A parser does not panic, leaves the input alone and does not move backwards; from an offset inside the
  input it ends no more than \<open>k\<close> beyond it; and it does the same when other bytes are put before
  the input or, unless it ran out of input, behind it.
\<close>

definition parses :: "nat \<Rightarrow> 'a parser \<Rightarrow> bool" where
  "parses k p \<longleftrightarrow> (\<forall>d. \<exists>r d'. p d = Some (r, d') \<and> input d' = input d \<and> offset d \<le> offset d'
     \<and> (offset d \<le> length (input d) \<longrightarrow> offset d' \<le> length (input d) + k)
     \<and> (\<forall>pre post. r \<noteq> Inl PartialInstruction \<or> post = [] \<longrightarrow> (p (shift pre post d) = Some (r, shift pre post d'))))"

named_theorems parser_intros \<open>closure rules of parses\<close>

lemma parsesE:
  assumes "parses k p"
  obtains r d' where "p d = Some (r, d')" "input d' = input d" "offset d \<le> offset d'"
    "offset d \<le> length (input d) \<Longrightarrow> offset d' \<le> length (input d) + k"
    "\<And>pre post. r \<noteq> Inl PartialInstruction \<or> post = [] \<Longrightarrow> p (shift pre post d) = Some (r, shift pre post d')"
  using assms unfolding parses_def by blast

lemma parses_ret [parser_intros]: "parses k (ret a)"
  by (auto simp: parses_def ret_def)

lemma parses_err [parser_intros]: "parses k (err e)"
  by (auto simp: parses_def err_def)

lemma parses_pure: "r \<noteq> None \<Longrightarrow> parses k (pure r)"
  by (auto simp: parses_def pure_def)

lemma parses_ok_or_invalid [parser_intros]: "parses k (ok_or_invalid r)"
  by (cases r) (auto simp: parses_def ok_or_invalid_def)

lemma parses_advance [parser_intros]: "parses k advance"
  unfolding parses_def
proof
  fix d
  show "\<exists>r d'. advance d = Some (r, d') \<and> input d' = input d \<and> offset d \<le> offset d'
     \<and> (offset d \<le> length (input d) \<longrightarrow> offset d' \<le> length (input d) + k)
     \<and> (\<forall>pre post. r \<noteq> Inl PartialInstruction \<or> post = [] \<longrightarrow> (advance (shift pre post d) = Some (r, shift pre post d')))"
    by (cases "offset d < length (input d)") (auto simp: advance_def nth_append)
qed

lemma parses_if [parser_intros]: "parses k p \<Longrightarrow> parses k q \<Longrightarrow> parses k (if b then p else q)"
  by simp

lemma parses_andThen [parser_intros]:
  assumes p: "parses 0 p" and f: "\<And>a. parses k (f a)"
  shows "parses k (andThen p f)"
  unfolding parses_def
proof
  fix d
  obtain r d1 where 1: "p d = Some (r, d1)" "input d1 = input d" "offset d \<le> offset d1"
    "offset d \<le> length (input d) \<Longrightarrow> offset d1 \<le> length (input d)"
    "\<And>pre post. r \<noteq> Inl PartialInstruction \<or> post = [] \<Longrightarrow> p (shift pre post d) = Some (r, shift pre post d1)"
    by (rule parsesE [OF p, where d = d]) simp
  show "\<exists>r d'. andThen p f d = Some (r, d') \<and> input d' = input d \<and> offset d \<le> offset d'
     \<and> (offset d \<le> length (input d) \<longrightarrow> offset d' \<le> length (input d) + k)
     \<and> (\<forall>pre post. r \<noteq> Inl PartialInstruction \<or> post = [] \<longrightarrow> (andThen p f (shift pre post d) = Some (r, shift pre post d')))"
  proof (cases r)
    case (Inl e)
    then show ?thesis using 1 by (intro exI [of _ "Inl e"] exI [of _ d1]) (auto simp: andThen_def)
  next
    case (Inr a)
    obtain r' d2 where 2: "f a d1 = Some (r', d2)" "input d2 = input d1" "offset d1 \<le> offset d2"
      "offset d1 \<le> length (input d1) \<Longrightarrow> offset d2 \<le> length (input d1) + k"
      "\<And>pre post. r' \<noteq> Inl PartialInstruction \<or> post = [] \<Longrightarrow> f a (shift pre post d1) = Some (r', shift pre post d2)"
      by (rule parsesE [OF f [of a], where d = d1]) blast
    then show ?thesis using 1 Inr by (intro exI [of _ r'] exI [of _ d2]) (auto simp: andThen_def)
  qed
qed

lemma parses_skip_2: "parses 2 (andThen skip_2 (\<lambda>_. ret a))"
  by (auto simp: parses_def andThen_def skip_2_def ret_def)

lemma word_le_7_cases:
  assumes "(x :: u8) \<le> 7"
  shows "x = 0 \<or> x = 1 \<or> x = 2 \<or> x = 3 \<or> x = 4 \<or> x = 5 \<or> x = 6 \<or> x = 7"
proof -
  obtain n where n: "x = word_of_nat n" "n = unat x" by (simp add: word_nat_cases)
  then have "n \<le> 7" using assms by (simp add: word_le_nat_alt)
  then have "n = 0 \<or> n = 1 \<or> n = 2 \<or> n = 3 \<or> n = 4 \<or> n = 5 \<or> n = 6 \<or> n = 7" by linarith
  then show ?thesis by (elim disjE) (simp_all add: n(1))
qed

lemma parse_register_le: "i \<le> 7 \<Longrightarrow> parse_register i rex \<noteq> None"
  by (drule word_le_7_cases) (elim disjE; simp add: parse_register_def)

lemma parse_register_total: "parse_register (w AND 7) rex \<noteq> None"
  by (rule parse_register_le [OF word_and_le1])

lemma modrm_register_total:
  "parse_register (rm (ModRm_new byte)) rex \<noteq> None" "parse_register (reg (ModRm_new byte)) rex \<noteq> None"
  using parse_register_total by (simp_all add: ModRm_new_def)

lemma parses_register [parser_intros]:
  "parses k (pure (parse_register (w AND 7) rex))"
  "parses k (pure (rm_register (ModRm_new byte) rex))"
  "parses k (pure (r64_reg_operand (ModRm_new byte) rx use_rex_r))"
  using modrm_register_total parse_register_total
  by (auto intro!: parses_pure simp: rm_register_def r64_reg_operand_def Let_def)

lemma parses_immediates [parser_intros]:
  "parses k advance_i8" "parses k advance_i16" "parses k advance_i32" "parses k advance_i64"
  unfolding advance_i8_def advance_i16_def advance_i32_def advance_i64_def by (intro parser_intros)+

lemma parses_operand [parser_intros]: "parses k (parse_rm64_operand (ModRm_new byte) rex use_rex_r)"
  unfolding parse_rm64_operand_def parse_disp_def Let_def by (intro parser_intros)

lemma parses_two_operands [parser_intros]:
  "parses k (rm_and_reg rex use_rex_r con)" "parses k (reg_and_rm rex reg_rex_r rm_rex_r con)"
  unfolding rm_and_reg_def reg_and_rm_def by (intro parser_intros)+

lemma parses_groups [parser_intros]:
  "parses k (group_1 r dst src)" "parses k (group_2 r dst src)" "parses k (group_3 opcode r p operand)"
  "parses k (group_4 r operand)" "parses k (group_5 r operand)" "parses k (parse_group_1 opcode rex)"
  "parses k (parse_0f_group_7 f2)" "parses k (parse_0f_c7 rex f3)"
  unfolding group_1_def group_2_def group_3_def group_4_def group_5_def parse_group_1_def
    parse_0f_group_7_def parse_0f_c7_def Let_def
  by (intro parser_intros)+

lemma parses_0f [parser_intros]: "parses k (parse_0f_instruction rex f2 f3)"
  unfolding parse_0f_instruction_def by (intro parser_intros)

lemma parses_opcode: "parses 2 (parse_opcode opcode p)"
  unfolding parse_opcode_def parse_opcode_00_3f_def parse_opcode_40_7f_def parse_opcode_80_9f_def
    parse_opcode_a0_df_def parse_opcode_e0_ef_def parse_opcode_f0_ff_def Let_def
  by (intro parser_intros parses_skip_2)

lemma parse_prefixes_spec:
  "\<exists>r d'. parse_prefixes p d = Some (r, d') \<and> input d' = input d \<and> offset d \<le> offset d'
     \<and> (isl r \<or> offset d < offset d')
     \<and> (offset d \<le> length (input d) \<longrightarrow> offset d' \<le> length (input d))
     \<and> (\<forall>pre post. r \<noteq> Inl PartialInstruction \<or> post = [] \<longrightarrow> (parse_prefixes p (shift pre post d) = Some (r, shift pre post d')))"
proof (induction p d rule: parse_prefixes.induct)
  case (1 p d)
  show ?case
  proof (cases "offset d < length (input d)")
    case False
    then show ?thesis by simp
  next
    case True
    let ?byte = "input d ! offset d" and ?d = "d\<lparr> offset := offset d + 1 \<rparr>"
    have nth: "(pre @ input d @ post) ! (length pre + offset d) = ?byte" for pre post
      using True by (simp add: nth_append)
    consider (vex) "?byte = 0xC4 \<or> ?byte = 0xC5 \<or> ?byte = 0xF0"
      | (sz) "?byte = 0x66" | (f2) "?byte = 0xF2" | (f3) "?byte = 0xF3"
      | (other) "?byte \<notin> {0xC4, 0xC5, 0xF0, 0x66, 0xF2, 0xF3}" by auto
    then show ?thesis
    proof cases
      case vex
      then show ?thesis using True nth by (auto simp: err_def)
    next
      case other
      define q where "q = (if is_rex_prefix ?byte
        then andThen advance (\<lambda>next_byte. ret (next_byte, p\<lparr> rex_prefix := Some ?byte \<rparr>)) else ret (?byte, p))"
      have q: "parses 0 q" unfolding q_def by (intro parser_intros)
      have eq: "parse_prefixes p (shift pre post d) = q (shift pre post ?d)" for pre post
        using other True nth by (simp add: q_def)
      have eq0: "parse_prefixes p d = q ?d" using other True by (simp add: q_def)
      obtain r d' where "q ?d = Some (r, d')" "input d' = input ?d" "offset ?d \<le> offset d'"
        "offset ?d \<le> length (input ?d) \<Longrightarrow> offset d' \<le> length (input ?d)"
        "\<And>pre post. r \<noteq> Inl PartialInstruction \<or> post = [] \<Longrightarrow> q (shift pre post ?d) = Some (r, shift pre post d')"
        by (rule parsesE [OF q, where d = ?d]) simp
      then show ?thesis unfolding eq0 eq using True
        by (intro exI [of _ r] exI [of _ d']) (simp del: shift_simps(3))
    qed (use 1 True nth in \<open>force\<close>)+
  qed
qed

lemma next_beyond: "\<not> offset d < length (input d) \<Longrightarrow> Disassembler_next d = Some (Inl PartialInstruction, d)"
  by (simp add: Disassembler_next_def andThen_def)

lemma Disassembler_next_spec:
  "\<exists>r d'. Disassembler_next d = Some (r, d') \<and> input d' = input d \<and> offset d \<le> offset d'
     \<and> (isl r \<or> offset d < offset d')
     \<and> (offset d \<le> length (input d) \<longrightarrow> offset d' \<le> length (input d) + 2)
     \<and> (\<forall>pre post. r \<noteq> Inl PartialInstruction \<or> post = [] \<longrightarrow> (Disassembler_next (shift pre post d) = Some (r, shift pre post d')))"
proof (cases "offset d < length (input d)")
  case True
  then have eq: "Disassembler_next (shift pre post d)
      = andThen (parse_prefixes no_prefixes) (\<lambda>(opcode, p). parse_opcode opcode p) (shift pre post d)" for pre post
    by (simp add: Disassembler_next_def del: parse_prefixes.simps)
  have eq0: "Disassembler_next d = andThen (parse_prefixes no_prefixes) (\<lambda>(opcode, p). parse_opcode opcode p) d"
    using True by (simp add: Disassembler_next_def del: parse_prefixes.simps)
  obtain r1 d1 where 1: "parse_prefixes no_prefixes d = Some (r1, d1)" "input d1 = input d" "offset d \<le> offset d1"
    "isl r1 \<or> offset d < offset d1" "offset d \<le> length (input d) \<longrightarrow> offset d1 \<le> length (input d)"
    "\<forall>pre post. r1 \<noteq> Inl PartialInstruction \<or> post = [] \<longrightarrow> (parse_prefixes no_prefixes (shift pre post d) = Some (r1, shift pre post d1))"
    using parse_prefixes_spec by metis
  show ?thesis
  proof (cases r1)
    case (Inl e)
    then show ?thesis unfolding eq eq0 using 1
      by (intro exI [of _ "Inl e"] exI [of _ d1]) (auto simp: andThen_def simp del: parse_prefixes.simps)
  next
    case (Inr a)
    obtain opcode p where a: "a = (opcode, p)" by fastforce
    obtain r d2 where 2: "parse_opcode opcode p d1 = Some (r, d2)" "input d2 = input d1" "offset d1 \<le> offset d2"
      "offset d1 \<le> length (input d1) \<Longrightarrow> offset d2 \<le> length (input d1) + 2"
      "\<And>pre post. r \<noteq> Inl PartialInstruction \<or> post = [] \<Longrightarrow> parse_opcode opcode p (shift pre post d1) = Some (r, shift pre post d2)"
      by (rule parsesE [OF parses_opcode, where d = d1]) blast
    then show ?thesis unfolding eq eq0 using 1 Inr a
      by (intro exI [of _ r] exI [of _ d2]) (auto simp: andThen_def simp del: parse_prefixes.simps)
  qed
next
  case False
  then show ?thesis using next_beyond by auto
qed

text \<open>The loop of a client over a block of code: the instructions up to the first error, the error and the state it leaves.\<close>

function disassemble :: "disassembler \<Rightarrow> (instruction list \<times> disassembly_error \<times> disassembler) rust" where
  "disassemble d =
     (case Disassembler_next d of
        None \<Rightarrow> None
      | Some (Inl e, d') \<Rightarrow> Some ([], e, d')
      | Some (Inr i, d') \<Rightarrow> map_option (\<lambda>(is, e, d''). (i # is, e, d'')) (disassemble d'))"
  by pat_completeness auto
termination
proof (relation "measure (\<lambda>d. length (input d) - offset d)")
  fix d x a d' i assume n: "Disassembler_next d = Some x" "(a, d') = x" "a = Inr i"
  have "offset d < length (input d)" using n next_beyond [of d] by (cases "offset d < length (input d)") auto
  moreover have "input d' = input d" "offset d < offset d'" using Disassembler_next_spec [of d] n by auto
  ultimately show "(d', d) \<in> measure (\<lambda>d. length (input d) - offset d)" by simp
qed simp

declare disassemble.simps [simp del] parse_prefixes.simps [simp del]

lemma disassemble_spec:
  "\<exists>is e d'. disassemble d = Some (is, e, d') \<and> input d' = input d \<and> length is \<le> length (input d) - offset d
     \<and> (offset d \<le> length (input d) + 2 \<longrightarrow> offset d' \<le> length (input d) + 2)"
proof (induction d rule: disassemble.induct)
  case (1 d)
  obtain r d1 where n: "Disassembler_next d = Some (r, d1)" "input d1 = input d" "isl r \<or> offset d < offset d1"
    "offset d \<le> length (input d) \<longrightarrow> offset d1 \<le> length (input d) + 2"
    using Disassembler_next_spec [of d] by blast
  show ?case
  proof (cases "offset d < length (input d)")
    case True
    show ?thesis
    proof (cases r)
      case (Inl e)
      then show ?thesis using n True by (auto simp: disassemble.simps [of d])
    next
      case (Inr i)
      then obtain "is" e d2 where "disassemble d1 = Some (is, e, d2)" "input d2 = input d1"
        "length is \<le> length (input d1) - offset d1" "offset d2 \<le> length (input d1) + 2"
        using 1 n True by fastforce
      then show ?thesis using n Inr True by (auto simp: disassemble.simps [of d])
    qed
  next
    case False
    then show ?thesis using next_beyond by (auto simp: disassemble.simps [of d])
  qed
qed

text \<open>A run of successful calls of \<^verbatim>\<open>next\<close>.\<close>

inductive decodes :: "disassembler \<Rightarrow> instruction list \<Rightarrow> disassembler \<Rightarrow> bool" where
  none: "decodes d [] d"
| more: "Disassembler_next d = Some (Inr i, d1) \<Longrightarrow> decodes d1 is d2 \<Longrightarrow> decodes d (i # is) d2"

lemma disassemble_decodes:
  "decodes d is d1 \<Longrightarrow> disassemble d = map_option (\<lambda>(js, e, d'). (is @ js, e, d')) (disassemble d1)"
proof (induction rule: decodes.induct)
  case (none d)
  then show ?case by (cases "disassemble d") auto
next
  case (more d i d1 "is" d2)
  then show ?case by (cases "disassemble d2") (auto simp: disassemble.simps [of d])
qed

lemma decodes_input: "decodes d is d1 \<Longrightarrow> input d1 = input d"
proof (induction rule: decodes.induct)
  case (more d i d1 "is" d2)
  then show ?case using Disassembler_next_spec [of d] by auto
qed simp

lemma decodes_shift: "decodes d is d1 \<Longrightarrow> decodes (shift pre post d) is (shift pre post d1)"
proof (induction rule: decodes.induct)
  case (more d i d1 "is" d2)
  have "Disassembler_next (shift pre post d) = Some (Inr i, shift pre post d1)"
    using Disassembler_next_spec [of d] more.hyps(1) by auto
  then show ?case using more.IH by (rule decodes.more)
qed (rule decodes.none)


lemma disassemble_shift:
  "disassemble (shift pre [] d) = map_option (\<lambda>(is, e, d'). (is, e, shift pre [] d')) (disassemble d)"
proof (induction d rule: disassemble.induct)
  case (1 d)
  obtain r d1 where n: "Disassembler_next d = Some (r, d1)" "Disassembler_next (shift pre [] d) = Some (r, shift pre [] d1)"
    using Disassembler_next_spec [of d] by auto
  show ?case
  proof (cases r)
    case (Inl e)
    then show ?thesis using n by (simp add: disassemble.simps [of d] disassemble.simps [of "shift pre [] d"])
  next
    case (Inr i)
    then have "disassemble (shift pre [] d1) = map_option (\<lambda>(is, e, d'). (is, e, shift pre [] d')) (disassemble d1)"
      using 1 n by simp
    then show ?thesis
      using n Inr by (cases "disassemble d1") (auto simp: disassemble.simps [of d] disassemble.simps [of "shift pre [] d"])
  qed
qed

subsection \<open>Moves between registers\<close>

text \<open>The number of a register in the instruction set: the three bits of a field and the bit of the REX prefix.\<close>

fun register_bits :: "register \<Rightarrow> u8 \<times> bool" where
  "register_bits RAX = (0, False)" | "register_bits RCX = (1, False)"
| "register_bits RDX = (2, False)" | "register_bits RBX = (3, False)"
| "register_bits RSP = (4, False)" | "register_bits RBP = (5, False)"
| "register_bits RSI = (6, False)" | "register_bits RDI = (7, False)"
| "register_bits R8 = (0, True)" | "register_bits R9 = (1, True)"
| "register_bits R10 = (2, True)" | "register_bits R11 = (3, True)"
| "register_bits R12 = (4, True)" | "register_bits R13 = (5, True)"
| "register_bits R14 = (6, True)" | "register_bits R15 = (7, True)"
| "register_bits RIP = (0, False)"

text \<open>\<open>REX.W 89 /r\<close>: the \<^verbatim>\<open>reg\<close> field and REX.R name the source, the \<^verbatim>\<open>rm\<close> field and REX.B the destination.\<close>

definition encode_mov :: "register \<Rightarrow> register \<Rightarrow> u8 list" where
  "encode_mov dst src =
     (let (d, dh) = register_bits dst; (s, sh) = register_bits src in
      [0x48 OR (if sh then 4 else 0) OR (if dh then 1 else 0), 0x89, 0xC0 OR push_bit 3 s OR d])"

lemma modrm_fields:
  assumes "s \<le> 7" "d \<le> 7"
  shows "ModRm_new (0xC0 OR push_bit 3 s OR d) = \<lparr> md = 3, reg = s, rm = d \<rparr>"
  using word_le_7_cases [OF assms(1)] word_le_7_cases [OF assms(2)]
  by (elim disjE) (simp_all add: ModRm_new_def)

lemma register_bits_parse:
  "r \<noteq> RIP \<Longrightarrow> parse_register (fst (register_bits r)) (snd (register_bits r)) = Some r"
  by (cases r) (simp_all add: parse_register_def)

lemma register_bits_le: "fst (register_bits r) \<le> 7"
  by (cases r) simp_all

lemma rex_mov:
  fixes sh dh :: bool
  defines "b \<equiv> 0x48 OR (if sh then 4 else 0) OR (if dh then 1 else 0) :: u8"
  shows "is_rex_prefix b" "rex_r b = sh" "rex_b b = dh" "b \<notin> {0xC4, 0xC5, 0x66, 0xF0, 0xF2, 0xF3}"
  by (simp_all add: b_def is_rex_prefix_def rex_r_def rex_b_def)

lemma next_mov:
  assumes "parse_register d sh = Some r" "parse_register s sh = Some q" "s \<le> 7" "d \<le> 7"
  shows "Disassembler_next (Disassembler_new ([0x48 OR (if sh then 4 else 0) OR (if dh then 1 else 0), 0x89,
      0xC0 OR push_bit 3 s OR d] @ rest))
    = Some (Inr (I_MOV (Register r) (Register q)),
        (Disassembler_new ([0x48 OR (if sh then 4 else 0) OR (if dh then 1 else 0), 0x89,
          0xC0 OR push_bit 3 s OR d] @ rest))\<lparr> offset := 3 \<rparr>)"
proof -
  define b :: u8 where "b = 0x48 OR (if sh then 4 else 0) OR (if dh then 1 else 0)"
  define m :: u8 where "m = 0xC0 OR push_bit 3 s OR d"
  have b: "is_rex_prefix b" "rex_r b = sh" "b \<notin> {0xC4, 0xC5, 0x66, 0xF0, 0xF2, 0xF3}"
    unfolding b_def using rex_mov by blast+
  have m: "ModRm_new m = \<lparr> md = 3, reg = s, rm = d \<rparr>" unfolding m_def by (rule modrm_fields [OF assms(3,4)])
  let ?d = "Disassembler_new ([b, 0x89, m] @ rest)"
  have "parse_prefixes no_prefixes ?d = Some (Inr (0x89, no_prefixes\<lparr> rex_prefix := Some b \<rparr>), ?d\<lparr> offset := 2 \<rparr>)"
    using b by (simp add: parse_prefixes.simps Disassembler_new_def andThen_def advance_def ret_def numeral_2_eq_2)
  moreover have "parse_opcode 0x89 p (?d\<lparr> offset := 2 \<rparr>) =
      Some (Inr (I_MOV (Register r) (Register q)), ?d\<lparr> offset := 3 \<rparr>)" if "rex_prefix p = Some b" for p
    using that b(2) m assms(1,2)
    by (simp add: parse_opcode_def parse_opcode_80_9f_def rm_and_reg_def parse_rm64_operand_def Let_def andThen_def
        advance_def Disassembler_new_def is_memory_def pure_def rm_register_def r64_reg_operand_def ret_def)
  ultimately show ?thesis
    unfolding b_def [symmetric] m_def [symmetric]
    by (simp add: Disassembler_next_def andThen_def) (simp add: Disassembler_new_def)
qed

subsection \<open>The tests of the crate\<close>

lemma smoke:
  "disassemble (Disassembler_new [0x55, 0x48, 0x89, 0xe5, 0x48, 0x8b, 0x06, 0x48, 0x89, 0x07, 0x5d, 0xc3]) =
   Some ([I_PUSH (Register RBP), I_MOV (Register RBP) (Register RSP),
          I_MOV (Register RAX) (Memory (Some RSI) None 1 0), I_MOV (Memory (Some RDI) None 1 0) (Register RAX),
          I_POP (Register RBP), I_RET], PartialInstruction,
     \<lparr> input = [0x55, 0x48, 0x89, 0xe5, 0x48, 0x8b, 0x06, 0x48, 0x89, 0x07, 0x5d, 0xc3], offset = 12 \<rparr>)"
  by code_simp

lemma parse_with_sib_and_disp:
  "map_option fst (disassemble (Disassembler_new
     [0x4a, 0x8b, 0x04, 0x17, 0x4e, 0x8b, 0x5c, 0x17, 0x08, 0x4e, 0x8b, 0x04, 0x12, 0x4a, 0x8b, 0x5c, 0x12, 0x08,
      0x4a, 0x89, 0x84, 0xed, 0x28, 0xfd, 0xff, 0xff, 0x8b, 0x3c, 0x81, 0x89, 0x8c, 0x85, 0x18, 0xff, 0xff, 0xff,
      0x48, 0x8b, 0x75, 0xc8, 0x4c, 0x8d, 0x61, 0xff, 0x4d, 0x8d, 0x6c, 0x24, 0xff,
      0x4c, 0x8d, 0x2c, 0xd5, 0xd0, 0xfd, 0xff, 0xff, 0x8d, 0x91, 0x00, 0x00, 0x80, 0x3f])) =
   Some [I_MOV (Register RAX) (Memory (Some RDI) (Some R10) 1 0), I_MOV (Register R11) (Memory (Some RDI) (Some R10) 1 8),
     I_MOV (Register R8) (Memory (Some RDX) (Some R10) 1 0), I_MOV (Register RBX) (Memory (Some RDX) (Some R10) 1 8),
     I_MOV (Memory (Some RBP) (Some R13) 8 (- 0x2d8)) (Register RAX), I_MOV (Register RDI) (Memory (Some RCX) (Some RAX) 4 0),
     I_MOV (Memory (Some RBP) (Some RAX) 4 (- 0xe8)) (Register RCX), I_MOV (Register RSI) (Memory (Some RBP) None 1 (- 0x38)),
     I_LEA (Register R12) (Memory (Some RCX) None 1 (- 1)), I_LEA (Register R13) (Memory (Some R12) None 1 (- 1)),
     I_LEA (Register R13) (Memory None (Some RDX) 8 (- 0x230)), I_LEA (Register RDX) (Memory (Some RCX) None 1 0x3f800000)]"
  by code_simp

subsection \<open>Properties\<close>

text \<open>
  \<^verbatim>\<open>next\<close> is total and makes progress. From any offset inside the input it neither panics nor
  loops. On success the offset has grown, and it ends at most two bytes behind the input, which happens when
  a return with an immediate operand is cut off. The input is never changed.
\<close>

lemma disassembler_next_progress:
  assumes "offset d \<le> length (input d)"
  shows "\<exists>r d'. Disassembler_next d = Some (r, d') \<and> input d' = input d
    \<and> (isl r \<or> offset d < offset d') \<and> offset d \<le> offset d' \<and> offset d' \<le> length (input d) + 2"
  using Disassembler_next_spec [of d] assms by blast

lemma disassembler_next_progress_witness:
  "\<exists>r d'. Disassembler_next \<lparr> input = [0x55, 0xC2], offset = 1 \<rparr> = Some (r, d')
    \<and> (isl r \<or> 1 < offset d') \<and> offset d' \<le> 4"
  using disassembler_next_progress [of "\<lparr> input = [0x55, 0xC2], offset = 1 \<rparr>"] by auto

text \<open>
  C34: disassembling a block of code ends. The loop that calls \<^verbatim>\<open>next\<close> until it fails terminates on every
  input without a panic, with no more instructions than there are bytes.
\<close>

theorem disassemble_terminates:
  "\<exists>is e d'. disassemble (Disassembler_new bs) = Some (is, e, d') \<and> length is \<le> length bs
     \<and> offset d' \<le> length bs + 2"
  using disassemble_spec [of "Disassembler_new bs"] by (auto simp: Disassembler_new_def)

text \<open>
  An instruction is decoded from its own bytes only. If the bytes \<open>xs\<close> are decoded completely,
  whatever stands behind them, the disassembly of \<open>xs\<close> followed by \<open>ys\<close> is that of \<open>xs\<close>
  followed by that of \<open>ys\<close>, with the same error at the end, at the same place.
\<close>

lemma disassemble_append:
  assumes "decodes (Disassembler_new xs) is d" "offset d = length xs"
    and "disassemble (Disassembler_new ys) = Some (js, e, d')"
  shows "disassemble (Disassembler_new (xs @ ys)) = Some (is @ js, e, \<lparr> input = xs @ ys, offset = length xs + offset d' \<rparr>)"
proof -
  have i: "input d = xs" "input d' = ys"
    using decodes_input [OF assms(1)] disassemble_spec [of "Disassembler_new ys"] assms(3)
    by (auto simp: Disassembler_new_def)
  have "decodes (shift [] ys (Disassembler_new xs)) is (shift [] ys d)" by (rule decodes_shift [OF assms(1)])
  moreover have "shift [] ys (Disassembler_new xs) = Disassembler_new (xs @ ys)"
    "shift [] ys d = shift xs [] (Disassembler_new ys)"
    using assms(2) i(1) by (simp_all add: shift_def Disassembler_new_def)
  ultimately have "disassemble (Disassembler_new (xs @ ys))
      = map_option (\<lambda>(js, e, d'). (is @ js, e, d')) (disassemble (shift xs [] (Disassembler_new ys)))"
    using disassemble_decodes by metis
  then show ?thesis using assms(3) i(2) unfolding disassemble_shift by (simp add: shift_def)
qed

lemma disassemble_append_witness:
  "\<exists>d. disassemble (Disassembler_new ([0x55, 0x48, 0x89, 0xE5] @ [0x5D, 0xC3]))
     = Some ([I_PUSH (Register RBP), I_MOV (Register RBP) (Register RSP), I_POP (Register RBP), I_RET], PartialInstruction, d)"
proof -
  let ?d = "\<lambda>n. \<lparr> input = [0x55, 0x48, 0x89, 0xE5], offset = n \<rparr>"
  have "Disassembler_next (?d 0) = Some (Inr (I_PUSH (Register RBP)), ?d 1)"
    "Disassembler_next (?d 1) = Some (Inr (I_MOV (Register RBP) (Register RSP)), ?d 4)" by code_simp+
  then have "decodes (Disassembler_new [0x55, 0x48, 0x89, 0xE5]) [I_PUSH (Register RBP), I_MOV (Register RBP) (Register RSP)] (?d 4)"
    by (auto simp: Disassembler_new_def intro: decodes.intros)
  moreover have "disassemble (Disassembler_new [0x5D, 0xC3])
      = Some ([I_POP (Register RBP), I_RET], PartialInstruction, \<lparr> input = [0x5D, 0xC3], offset = 2 \<rparr>)"
    by code_simp
  ultimately show ?thesis using disassemble_append by fastforce
qed

text \<open>
  C35: moves between registers, and what goes wrong with them. Let a move be encoded as the instruction
  set prescribes. \<^verbatim>\<open>next\<close> consumes exactly its three bytes and finds the right source. As the
  destination it finds the register whose number has the low bits of the destination but the high bit of
  the source, since it extends the \<^verbatim>\<open>rm\<close> field by REX.R where REX.B is due. So the move is read
  correctly exactly when both registers are among the first eight or both among the last.
\<close>

theorem mov_decoded:
  assumes "dst \<noteq> RIP" "src \<noteq> RIP"
  shows "\<exists>r. parse_register (fst (register_bits dst)) (snd (register_bits src)) = Some r
    \<and> Disassembler_next (Disassembler_new (encode_mov dst src @ rest))
        = Some (Inr (I_MOV (Register r) (Register src)), \<lparr> input = encode_mov dst src @ rest, offset = 3 \<rparr>)
    \<and> (r = dst \<longleftrightarrow> snd (register_bits dst) = snd (register_bits src))"
proof -
  obtain d dh s sh where b: "register_bits dst = (d, dh)" "register_bits src = (s, sh)" by fastforce
  have le: "s \<le> 7" "d \<le> 7" using register_bits_le [of src] register_bits_le [of dst] b by simp_all
  have src: "parse_register s sh = Some src" and dst: "parse_register d dh = Some dst"
    using register_bits_parse assms b by (metis fst_conv snd_conv)+
  obtain r where r: "parse_register d sh = Some r"
    using parse_register_le [OF le(2)] by blast
  have "r = dst \<longleftrightarrow> dh = sh"
    using r dst word_le_7_cases [OF le(2)] by (cases dh; cases sh) (auto simp: parse_register_def)
  then show ?thesis
    using next_mov [OF r src le, of dh rest] r b by (simp add: encode_mov_def Disassembler_new_def)
qed

theorem mov_decoded_witness:
  "Disassembler_next (Disassembler_new (encode_mov RBP R8 @ [0xC3]))
     = Some (Inr (I_MOV (Register R13) (Register R8)), \<lparr> input = encode_mov RBP R8 @ [0xC3], offset = 3 \<rparr>)"
  using mov_decoded [of RBP R8 "[0xC3]"] by (simp add: parse_register_def)

end
