(* ===== verification/Elf.thy ===== *)
theory Elf
  imports Rust_Bytes
begin

section \<open>ELF files\<close>

text \<open>
  The model of \<^verbatim>\<open>crates/elf/src/elf.rs\<close> and \<^verbatim>\<open>crates/pod/src/pod.rs\<close>. A file is a slice with its
  address, since reading a structure in place asserts its alignment. A structure with
  \<^verbatim>\<open>repr(C)\<close> is decoded from its bytes at the offsets of its fields. The iterators are lazy, so a
  loop over sections or program headers is a recursion that calls \<^verbatim>\<open>next\<close>, and a \<^verbatim>\<open>find\<close> reads no header behind the
  one it returns.
\<close>

subsection \<open>Plain old data\<close>

definition pod_read :: "nat \<Rightarrow> usize \<Rightarrow> (u8 list \<Rightarrow> 'a) \<Rightarrow> slice \<Rightarrow> 'a rust" where
  "pod_read size_of align_of decode s = do {
     rust_assert (size_of \<le> length (sl_bytes s));
     rust_assert (sl_addr s AND (align_of - 1) = 0);
     Some (decode (take size_of (sl_bytes s)))
   }"

fun read_until_null :: "u8 list \<Rightarrow> u8 list rust" where
  "read_until_null [] = panic"
| "read_until_null (b # bs) = (if b = 0 then Some [] else map_option (Cons b) (read_until_null bs))"

definition read_str_bytes :: "u8 list \<Rightarrow> u8 list rust" where
  "read_str_bytes bs = read_until_null bs"

definition read_str :: "u8 list \<Rightarrow> string rust" where
  "read_str bs = do {
     s \<leftarrow> read_str_bytes bs;
     rust_assert (utf8_valid s);
     Some (str_of_bytes s)
   }"

text \<open>The elements of an array, of \<open>size_of\<close> bytes each.\<close>

definition read_array_unsafe :: "nat \<Rightarrow> (u8 list \<Rightarrow> 'a) \<Rightarrow> slice \<Rightarrow> 'a list" where
  "read_array_unsafe size_of decode s =
     map (\<lambda>i. decode (take size_of (drop (i * size_of) (sl_bytes s)))) [0..<length (sl_bytes s) div size_of]"

definition read_array :: "nat \<Rightarrow> usize \<Rightarrow> (u8 list \<Rightarrow> 'a) \<Rightarrow> slice \<Rightarrow> 'a list rust" where
  "read_array size_of align_of decode s = do {
     rust_assert (size_of > 0);
     rust_assert (length (sl_bytes s) mod size_of = 0);
     rust_assert (sl_addr s AND (align_of - 1) = 0);
     Some (read_array_unsafe size_of decode s)
   }"

subsection \<open>The file header\<close>

record header_ident =
  magic :: "u8 list"
  ei_class :: u8
  ei_data :: u8
  ei_version :: u8
  os_abi :: u8
  abi_version :: u8
  ei_padding :: "u8 list"

record header_body =
  e_type :: u16
  machine :: u16
  e_version :: u8
  entry_point :: u64
  ph_offset :: u64
  sh_offset :: u64
  e_flags :: u32
  header_size :: u16
  ph_entry_size :: u16
  ph_count :: u16
  sh_entry_size :: u16
  sh_count :: u16
  sh_str_index :: u16

record header =
  ident :: header_ident
  body :: header_body

record elf_file =
  elf_input :: slice
  elf_header :: header

definition MAGIC_NUM :: "u8 list" where "MAGIC_NUM = [0x7f, 0x45, 0x4c, 0x46]"

definition HEADER_IDENT_SIZE :: usize where "HEADER_IDENT_SIZE = 16"
definition HEADER_BODY_SIZE :: usize where "HEADER_BODY_SIZE = 48"

definition decode_HeaderIdent :: "u8 list \<Rightarrow> header_ident" where
  "decode_HeaderIdent bs = \<lparr> magic = take 4 bs, ei_class = le_at 4 1 bs, ei_data = le_at 5 1 bs,
     ei_version = le_at 6 1 bs, os_abi = le_at 7 1 bs, abi_version = le_at 8 1 bs, ei_padding = take 7 (drop 9 bs) \<rparr>"

text \<open>The byte \<^verbatim>\<open>version\<close> is followed by three bytes of padding.\<close>

definition decode_HeaderBody :: "u8 list \<Rightarrow> header_body" where
  "decode_HeaderBody bs = \<lparr> e_type = le_at 0 2 bs, machine = le_at 2 2 bs, e_version = le_at 4 1 bs,
     entry_point = le_at 8 8 bs, ph_offset = le_at 16 8 bs, sh_offset = le_at 24 8 bs, e_flags = le_at 32 4 bs,
     header_size = le_at 36 2 bs, ph_entry_size = le_at 38 2 bs, ph_count = le_at 40 2 bs,
     sh_entry_size = le_at 42 2 bs, sh_count = le_at 44 2 bs, sh_str_index = le_at 46 2 bs \<rparr>"

definition is_little_endian :: "header_ident \<Rightarrow> bool" where
  "is_little_endian i = (ei_data i = 1)"

datatype object_file_type =
  NoneType | Relocatable | Executable | SharedObject | Core | ProcessorSpecificFile u16

definition Header_get_type :: "header \<Rightarrow> object_file_type" where
  "Header_get_type h =
     (let x = e_type (body h) in
      if x = 0 then NoneType else if x = 1 then Relocatable else if x = 2 then Executable
      else if x = 3 then SharedObject else if x = 4 then Core else ProcessorSpecificFile x)"

definition Header_parse :: "slice \<Rightarrow> header result" where
  "Header_parse bytes =
     (if slice_len bytes < HEADER_IDENT_SIZE then Some (Inl ''File is shorter than ELF ident'')
      else if slice_len bytes < HEADER_IDENT_SIZE + HEADER_BODY_SIZE then Some (Inl ''File is shorter than ELF header'')
      else do {
        s \<leftarrow> slice_range bytes 0 HEADER_IDENT_SIZE;
        i \<leftarrow> pod_read 16 1 decode_HeaderIdent s;
        if magic i \<noteq> MAGIC_NUM then Some (Inl ''Invalid magic number'')
        else if ei_class i \<noteq> 2 then Some (Inl ''Invalid class'')
        else do {
          s \<leftarrow> slice_range bytes HEADER_IDENT_SIZE (HEADER_IDENT_SIZE + HEADER_BODY_SIZE);
          b \<leftarrow> pod_read 48 8 decode_HeaderBody s;
          Some (Inr \<lparr> ident = i, body = b \<rparr>)
        }
      })"

definition ElfFile_new :: "slice \<Rightarrow> elf_file result" where
  "ElfFile_new input = rbind (Header_parse input) (\<lambda>h. Some (Inr \<lparr> elf_input = input, elf_header = h \<rparr>))"

subsection \<open>Section headers\<close>

definition SHN_UNDEF :: u16 where "SHN_UNDEF = 0"
definition SHN_LORESERVE :: u16 where "SHN_LORESERVE = 0xff00"
definition SHN_ABS :: u16 where "SHN_ABS = 0xfff1"
definition SHN_COMMON :: u16 where "SHN_COMMON = 0xfff2"
definition SHN_XINDEX :: u16 where "SHN_XINDEX = 0xffff"

definition SHF_WRITE :: u64 where "SHF_WRITE = 0x1"
definition SHF_ALLOC :: u64 where "SHF_ALLOC = 0x2"
definition SHF_EXECINSTR :: u64 where "SHF_EXECINSTR = 0x4"
definition SHF_TLS :: u64 where "SHF_TLS = 0x400"

definition SHT_LOOS :: u32 where "SHT_LOOS = 0x60000000"
definition SHT_HIOS :: u32 where "SHT_HIOS = 0x6fffffff"
definition SHT_LOPROC :: u32 where "SHT_LOPROC = 0x70000000"
definition SHT_HIPROC :: u32 where "SHT_HIPROC = 0x7fffffff"
definition SHT_LOUSER :: u32 where "SHT_LOUSER = 0x80000000"
definition SHT_HIUSER :: u32 where "SHT_HIUSER = 0xffffffff"

record section_header =
  sh_name :: u32
  sh_type :: u32
  sh_flags :: u64
  sh_address :: u64
  sh_file_offset :: u64
  sh_size :: u64
  sh_link :: u32
  sh_info :: u32
  sh_align :: u64
  sh_ent_size :: u64

definition decode_SectionHeader :: "u8 list \<Rightarrow> section_header" where
  "decode_SectionHeader bs = \<lparr> sh_name = le_at 0 4 bs, sh_type = le_at 4 4 bs, sh_flags = le_at 8 8 bs,
     sh_address = le_at 16 8 bs, sh_file_offset = le_at 24 8 bs, sh_size = le_at 32 8 bs, sh_link = le_at 40 4 bs,
     sh_info = le_at 44 4 bs, sh_align = le_at 48 8 bs, sh_ent_size = le_at 56 8 bs \<rparr>"

datatype section_header_type =
    NullSection | ProgBits | SymTab | StrTab | RelaSection | HashSection | DynamicSection | NoteSection | NoBits
  | RelSection | ShLib | DynSym | InitArray | FiniArray | PreInitArray | GroupSection | SymTabShIndexType
  | OsSpecific u32 | ProcessorSpecific u32 | UserSection u32

definition SectionHeader_parse :: "slice \<Rightarrow> header \<Rightarrow> u16 \<Rightarrow> section_header result" where
  "SectionHeader_parse input h index = do {
     rust_assert (index < SHN_LORESERVE);
     let start = (ucast index * ucast (sh_entry_size (body h)) + sh_offset (body h) :: usize);
     let stop = start + ucast (sh_entry_size (body h));
     if slice_len input < stop then Some (Inl ''File is shorter than section header offset'')
     else do {
       s \<leftarrow> slice_range input start stop;
       sh \<leftarrow> pod_read 64 8 decode_SectionHeader s;
       Some (Inr sh)
     }
   }"

definition get_section_header :: "elf_file \<Rightarrow> u16 \<Rightarrow> section_header result" where
  "get_section_header f index = SectionHeader_parse (elf_input f) (elf_header f) index"

definition SectionHeader_get_type :: "section_header \<Rightarrow> string + section_header_type" where
  "SectionHeader_get_type h =
     (let n = sh_type h in
      if n = 0 then Inr NullSection else if n = 1 then Inr ProgBits else if n = 2 then Inr SymTab
      else if n = 3 then Inr StrTab else if n = 4 then Inr RelaSection else if n = 5 then Inr HashSection
      else if n = 6 then Inr DynamicSection else if n = 7 then Inr NoteSection else if n = 8 then Inr NoBits
      else if n = 9 then Inr RelSection else if n = 10 then Inr ShLib else if n = 11 then Inr DynSym
      else if n = 14 then Inr InitArray else if n = 15 then Inr FiniArray else if n = 16 then Inr PreInitArray
      else if n = 17 then Inr GroupSection else if n = 18 then Inr SymTabShIndexType
      else if SHT_LOOS \<le> n \<and> n \<le> SHT_HIOS then Inr (OsSpecific n)
      else if SHT_LOPROC \<le> n \<and> n \<le> SHT_HIPROC then Inr (ProcessorSpecific n)
      else if SHT_LOUSER \<le> n \<and> n \<le> SHT_HIUSER then Inr (UserSection n)
      else Inl ''Invalid section header type'')"

definition raw_data :: "section_header \<Rightarrow> elf_file \<Rightarrow> slice rust" where
  "raw_data h f = (case SectionHeader_get_type h of
     Inl _ \<Rightarrow> panic
   | Inr t \<Rightarrow> do {
       rust_assert (t \<noteq> NullSection);
       slice_range (elf_input f) (sh_file_offset h) (sh_file_offset h + sh_size h)
     })"

definition get_shstr_table :: "elf_file \<Rightarrow> slice result" where
  "get_shstr_table f =
     rbind (get_section_header f (sh_str_index (body (elf_header f)))) (\<lambda>h.
       if slice_len (elf_input f) < sh_file_offset h then Some (Inl ''File is shorter than section offset'')
       else map_option Inr (slice_from (elf_input f) (sh_file_offset h)))"

definition get_shstr :: "elf_file \<Rightarrow> u32 \<Rightarrow> string result" where
  "get_shstr f index =
     rbind (get_shstr_table f) (\<lambda>table. do {
       s \<leftarrow> slice_from table (ucast index);
       bs \<leftarrow> read_until_null (sl_bytes s);
       Some (Inr (str_of_bytes bs))
     })"

definition SectionHeader_get_name :: "section_header \<Rightarrow> elf_file \<Rightarrow> string result" where
  "SectionHeader_get_name h f =
     rbind (Some (SectionHeader_get_type h)) (\<lambda>t.
       if t = NullSection then Some (Inl ''Attempted to get name of null section'')
       else get_shstr f (sh_name h))"

subsection \<open>Iterating over sections\<close>

definition SectionIter_next :: "elf_file \<Rightarrow> u16 \<Rightarrow> (section_header option \<times> u16) rust" where
  "SectionIter_next f next_index =
     (if next_index \<ge> sh_count (body (elf_header f)) then Some (None, next_index)
      else do {
        r \<leftarrow> get_section_header f next_index;
        Some (case r of Inl _ \<Rightarrow> None | Inr h \<Rightarrow> Some h, next_index + 1)
      })"

lemma SectionIter_next_decreases:
  assumes "SectionIter_next f i = Some (Some h, i')"
  shows "unat (sh_count (body (elf_header f))) - unat i' < unat (sh_count (body (elf_header f))) - unat i"
proof -
  let ?c = "sh_count (body (elf_header f))"
  have i: "i < ?c" "i' = i + 1"
    using assms by (auto simp: SectionIter_next_def not_le split: if_splits Option.bind_splits)
  then have "unat i < unat ?c" by (simp add: word_less_nat_alt)
  moreover have "unat (i + 1) = unat i + 1"
    using calculation unat_add_no_overflow [of i 1] unsigned_less [of ?c, where ?'a = nat] by simp
  ultimately show ?thesis using i(2) by simp
qed

text \<open>
  A loop over the sections whose body may return early with an error, and \<^verbatim>\<open>find\<close>, both from an index on.
\<close>

function section_loop ::
    "elf_file \<Rightarrow> (u16 \<Rightarrow> section_header \<Rightarrow> 's \<Rightarrow> (string, unit, 's) outcome) \<Rightarrow> u16 \<Rightarrow> 's \<Rightarrow> (string, unit, 's) outcome" where
  "section_loop f act i s =
     (case SectionIter_next f i of
        None \<Rightarrow> None
      | Some (None, _) \<Rightarrow> Some (Inr (), s)
      | Some (Some h, i') \<Rightarrow> qbind (act i h s) (\<lambda>_ s. section_loop f act i' s))"
  by pat_completeness auto
termination
  by (relation "measure (\<lambda>(f, act, i, s). unat (sh_count (body (elf_header f))) - unat i)")
    (auto intro: SectionIter_next_decreases)

function section_find :: "elf_file \<Rightarrow> (section_header \<Rightarrow> bool rust) \<Rightarrow> u16 \<Rightarrow> section_header option rust" where
  "section_find f P i =
     (case SectionIter_next f i of
        None \<Rightarrow> None
      | Some (None, _) \<Rightarrow> Some None
      | Some (Some h, i') \<Rightarrow> P h \<bind> (\<lambda>b. if b then Some (Some h) else section_find f P i'))"
  by pat_completeness auto
termination
  by (relation "measure (\<lambda>(f, P, i). unat (sh_count (body (elf_header f))) - unat i)")
    (auto intro: SectionIter_next_decreases)

declare section_loop.simps [simp del] section_find.simps [simp del]

definition find_section_by_name :: "elf_file \<Rightarrow> string \<Rightarrow> section_header option rust" where
  "find_section_by_name f name =
     section_find f (\<lambda>sect. do {
       r \<leftarrow> SectionHeader_get_name sect f;
       Some (case r of Inr sect_name \<Rightarrow> sect_name = name | Inl _ \<Rightarrow> False)
     }) 0"

definition get_string :: "elf_file \<Rightarrow> u32 \<Rightarrow> string result" where
  "get_string f index = do {
     ho \<leftarrow> find_section_by_name f ''.strtab'';
     rbind (Some (case ho of None \<Rightarrow> Inl ''no `.strtab` section'' | Some h \<Rightarrow> Inr h)) (\<lambda>h.
     rbind (Some (SectionHeader_get_type h)) (\<lambda>t.
       if t \<noteq> StrTab then Some (Inl ''expected `.strtab` to be a string table'')
       else do {
         s \<leftarrow> raw_data h f;
         s \<leftarrow> slice_from s (ucast index);
         str \<leftarrow> read_str (sl_bytes s);
         Some (Inr str)
       }))
   }"

subsection \<open>Section contents\<close>

record rel =
  rel_offset :: u64
  rel_info :: u64

record rela =
  rela_offset :: u64
  rela_info :: u64
  rela_addend :: u64

record symbol_table_entry =
  st_name :: u32
  st_info :: u8
  st_other :: u8
  st_shndx :: u16
  st_value :: u64
  st_size :: u64

definition decode_Rel :: "u8 list \<Rightarrow> rel" where
  "decode_Rel bs = \<lparr> rel_offset = le_at 0 8 bs, rel_info = le_at 8 8 bs \<rparr>"

definition decode_Rela :: "u8 list \<Rightarrow> rela" where
  "decode_Rela bs = \<lparr> rela_offset = le_at 0 8 bs, rela_info = le_at 8 8 bs, rela_addend = le_at 16 8 bs \<rparr>"

definition decode_SymbolTableEntry :: "u8 list \<Rightarrow> symbol_table_entry" where
  "decode_SymbolTableEntry bs = \<lparr> st_name = le_at 0 4 bs, st_info = le_at 4 1 bs, st_other = le_at 5 1 bs,
     st_shndx = le_at 6 2 bs, st_value = le_at 8 8 bs, st_size = le_at 16 8 bs \<rparr>"

datatype section_data =
    EmptyData
  | UndefinedData slice
  | GroupData u32 "u32 list"
  | StrArray slice
  | FnArray "u64 list"
  | SymbolTable "symbol_table_entry list"
  | DynSymbolTable "symbol_table_entry list"
  | SymTabShIndex "u32 list"
  | RelaData "rela list"
  | RelData "rel list"

text \<open>The flags of a group are the four bytes of its first word; only the index of the first is checked.\<close>

definition get_group :: "slice \<Rightarrow> section_data rust" where
  "get_group data = do {
     rust_assert (sl_bytes data \<noteq> []);
     tail \<leftarrow> slice_from data 4;
     indices \<leftarrow> read_array 4 4 (le_at 0 4) tail;
     Some (GroupData (le_at 0 4 (sl_bytes data)) indices)
   }"

definition SectionHeader_get_data :: "section_header \<Rightarrow> elf_file \<Rightarrow> section_data result" where
  "SectionHeader_get_data h f =
     rbind (Some (SectionHeader_get_type h)) (\<lambda>t.
       map_option Inr (case t of
         NullSection \<Rightarrow> Some EmptyData
       | NoBits \<Rightarrow> Some EmptyData
       | ProgBits \<Rightarrow> map_option UndefinedData (raw_data h f)
       | ShLib \<Rightarrow> map_option UndefinedData (raw_data h f)
       | OsSpecific _ \<Rightarrow> map_option UndefinedData (raw_data h f)
       | ProcessorSpecific _ \<Rightarrow> map_option UndefinedData (raw_data h f)
       | UserSection _ \<Rightarrow> map_option UndefinedData (raw_data h f)
       | SymTab \<Rightarrow> do { d \<leftarrow> raw_data h f; xs \<leftarrow> read_array 24 8 decode_SymbolTableEntry d; Some (SymbolTable xs) }
       | DynSym \<Rightarrow> do { d \<leftarrow> raw_data h f; xs \<leftarrow> read_array 24 8 decode_SymbolTableEntry d; Some (DynSymbolTable xs) }
       | StrTab \<Rightarrow> map_option StrArray (raw_data h f)
       | InitArray \<Rightarrow> do { d \<leftarrow> raw_data h f; xs \<leftarrow> read_array 8 8 (le_at 0 8) d; Some (FnArray xs) }
       | FiniArray \<Rightarrow> do { d \<leftarrow> raw_data h f; xs \<leftarrow> read_array 8 8 (le_at 0 8) d; Some (FnArray xs) }
       | PreInitArray \<Rightarrow> do { d \<leftarrow> raw_data h f; xs \<leftarrow> read_array 8 8 (le_at 0 8) d; Some (FnArray xs) }
       | RelaSection \<Rightarrow> do { d \<leftarrow> raw_data h f; xs \<leftarrow> read_array 24 8 decode_Rela d; Some (RelaData xs) }
       | RelSection \<Rightarrow> do { d \<leftarrow> raw_data h f; xs \<leftarrow> read_array 16 8 decode_Rel d; Some (RelData xs) }
       | DynamicSection \<Rightarrow> panic
       | GroupSection \<Rightarrow> do { d \<leftarrow> raw_data h f; get_group d }
       | SymTabShIndexType \<Rightarrow> do { d \<leftarrow> raw_data h f; xs \<leftarrow> read_array 4 4 (le_at 0 4) d; Some (SymTabShIndex xs) }
       | NoteSection \<Rightarrow> panic
       | HashSection \<Rightarrow> panic))"

definition get_symbol_table :: "elf_file \<Rightarrow> symbol_table_entry list result" where
  "get_symbol_table f = do {
     ho \<leftarrow> section_find f (\<lambda>sec. Some (SectionHeader_get_type sec = Inr SymTab)) 0;
     symtab_data \<leftarrow> (case ho of None \<Rightarrow> Some (Inl ''no `symtab` section'') | Some s \<Rightarrow> SectionHeader_get_data s f);
     Some (case symtab_data of
       Inr (SymbolTable symtab) \<Rightarrow> Inr symtab
     | _ \<Rightarrow> Inl ''no symbol table found, file may have been stripped'')
   }"

subsection \<open>Relocations and symbols\<close>

definition Rela_get_symbol_table_index :: "rela \<Rightarrow> u32" where
  "Rela_get_symbol_table_index r = ucast (drop_bit 32 (rela_info r))"

definition Rela_get_type :: "rela \<Rightarrow> u32" where
  "Rela_get_type r = ucast (rela_info r AND 0xffffffff)"

datatype symbol_type =
  NoType | ObjectType | Func | SectionSymbol | FileSymbol | Common | Tls | OsSpecificType u8 | ProcessorSpecificType u8

datatype symbol_binding = Local | Global | Weak | OsSpecificBinding u8 | ProcessorSpecificBinding u8

datatype symbol_visibility = DefaultVisibility | Internal | Hidden | Protected

definition Symbol_get_type :: "symbol_table_entry \<Rightarrow> string + symbol_type" where
  "Symbol_get_type e =
     (let b = st_info e AND 0xf in
      if b = 0 then Inr NoType else if b = 1 then Inr ObjectType else if b = 2 then Inr Func
      else if b = 3 then Inr SectionSymbol else if b = 4 then Inr FileSymbol else if b = 5 then Inr Common
      else if b = 6 then Inr Tls
      else if 10 \<le> b \<and> b \<le> 12 then Inr (OsSpecificType b)
      else if 13 \<le> b \<and> b \<le> 15 then Inr (ProcessorSpecificType b)
      else Inl ''invalid value for symbol type'')"

definition Symbol_get_binding :: "symbol_table_entry \<Rightarrow> string + symbol_binding" where
  "Symbol_get_binding e =
     (let b = drop_bit 4 (st_info e) in
      if b = 0 then Inr Local else if b = 1 then Inr Global else if b = 2 then Inr Weak
      else if 10 \<le> b \<and> b \<le> 12 then Inr (OsSpecificBinding b)
      else if 13 \<le> b \<and> b \<le> 15 then Inr (ProcessorSpecificBinding b)
      else Inl ''invalid value for symbol binding'')"

definition Symbol_get_visibility :: "symbol_table_entry \<Rightarrow> symbol_visibility rust" where
  "Symbol_get_visibility e =
     (let x = st_other e AND 0x3 in
      if x = 0 then Some DefaultVisibility else if x = 1 then Some Internal
      else if x = 2 then Some Hidden else if x = 3 then Some Protected else panic)"

definition Symbol_get_name :: "symbol_table_entry \<Rightarrow> elf_file \<Rightarrow> string result" where
  "Symbol_get_name e f = get_string f (st_name e)"

definition Symbol_get_section_header :: "symbol_table_entry \<Rightarrow> elf_file \<Rightarrow> nat \<Rightarrow> section_header result" where
  "Symbol_get_section_header e f self_index =
     (if st_shndx e = SHN_XINDEX then do {
        ho \<leftarrow> find_section_by_name f ''.symtab_shndx'';
        case ho of
          None \<Rightarrow> Some (Inl ''no `.symtab_shndx` section'')
        | Some h \<Rightarrow>
            rbind (Some (SectionHeader_get_type h)) (\<lambda>t. do {
              rust_assert (t = SymTabShIndexType);
              rbind (SectionHeader_get_data h f) (\<lambda>data. case data of
                SymTabShIndex xs \<Rightarrow> do {
                  rust_assert (self_index < length xs);
                  let index = (ucast (xs ! self_index) :: u16);
                  rust_assert (index \<noteq> SHN_UNDEF);
                  get_section_header f index
                }
              | _ \<Rightarrow> Some (Inl ''expected SymTabShIndex''))
            })
      }
      else if st_shndx e = SHN_UNDEF \<or> st_shndx e = SHN_ABS \<or> st_shndx e = SHN_COMMON
      then Some (Inl ''reserved section header index'')
      else get_section_header f (st_shndx e))"

subsection \<open>Program headers\<close>

record program_header =
  p_type :: u32
  p_flags :: u32
  p_offset :: u64
  virtual_addr :: u64
  physical_addr :: u64
  file_size :: u64
  mem_size :: u64
  p_align :: u64

definition decode_ProgramHeader :: "u8 list \<Rightarrow> program_header" where
  "decode_ProgramHeader bs = \<lparr> p_type = le_at 0 4 bs, p_flags = le_at 4 4 bs, p_offset = le_at 8 8 bs,
     virtual_addr = le_at 16 8 bs, physical_addr = le_at 24 8 bs, file_size = le_at 32 8 bs, mem_size = le_at 40 8 bs,
     p_align = le_at 48 8 bs \<rparr>"

definition ProgramHeader_parse :: "slice \<Rightarrow> header \<Rightarrow> u16 \<Rightarrow> program_header result" where
  "ProgramHeader_parse input h index =
     (let b = body h in
      if \<not> (index < ph_count b \<and> ph_offset b > 0 \<and> ph_entry_size b > 0)
      then Some (Inl ''there are no program headers in this file'')
      else do {
        let start = (ph_offset b + ucast index * ucast (ph_entry_size b) :: usize);
        let stop = start + ucast (ph_entry_size b);
        s \<leftarrow> slice_range input start stop;
        ph \<leftarrow> pod_read 56 8 decode_ProgramHeader s;
        Some (Inr ph)
      })"

definition get_program_header :: "elf_file \<Rightarrow> u16 \<Rightarrow> program_header result" where
  "get_program_header f index = ProgramHeader_parse (elf_input f) (elf_header f) index"

definition ProgramIter_next :: "elf_file \<Rightarrow> u16 \<Rightarrow> (program_header option \<times> u16) rust" where
  "ProgramIter_next f next_index =
     (if next_index \<ge> ph_count (body (elf_header f)) then Some (None, next_index)
      else do {
        r \<leftarrow> get_program_header f next_index;
        Some (case r of Inl _ \<Rightarrow> None | Inr h \<Rightarrow> Some h, next_index + 1)
      })"

datatype program_header_type =
    PhNull | PhLoad | PhDynamic | PhInterp | PhNote | PhShLib | PhPhdr | PhTls | PhGnuRelro
  | PhOsSpecific u32 | PhProcessorSpecific u32

definition PROGRAM_HEADER_TYPE_LOOS :: u32 where "PROGRAM_HEADER_TYPE_LOOS = 0x60000000"
definition PROGRAM_HEADER_TYPE_HIOS :: u32 where "PROGRAM_HEADER_TYPE_HIOS = 0x6fffffff"
definition PROGRAM_HEADER_TYPE_LOPROC :: u32 where "PROGRAM_HEADER_TYPE_LOPROC = 0x70000000"
definition PROGRAM_HEADER_TYPE_HIPROC :: u32 where "PROGRAM_HEADER_TYPE_HIPROC = 0x7fffffff"
definition PROGRAM_HEADER_TYPE_GNU_RELRO :: u32 where
  "PROGRAM_HEADER_TYPE_GNU_RELRO = PROGRAM_HEADER_TYPE_LOOS + 0x474e552"

definition ProgramHeader_get_type :: "program_header \<Rightarrow> string + program_header_type" where
  "ProgramHeader_get_type h =
     (let t = p_type h in
      if t = 0 then Inr PhNull else if t = 1 then Inr PhLoad else if t = 2 then Inr PhDynamic
      else if t = 3 then Inr PhInterp else if t = 4 then Inr PhNote else if t = 5 then Inr PhShLib
      else if t = 6 then Inr PhPhdr else if t = 7 then Inr PhTls
      else if t = PROGRAM_HEADER_TYPE_GNU_RELRO then Inr PhGnuRelro
      else if PROGRAM_HEADER_TYPE_LOOS \<le> t \<and> t \<le> PROGRAM_HEADER_TYPE_HIOS then Inr (PhOsSpecific t)
      else if PROGRAM_HEADER_TYPE_LOPROC \<le> t \<and> t \<le> PROGRAM_HEADER_TYPE_HIPROC then Inr (PhProcessorSpecific t)
      else Inl ''invalid value for program header type'')"

definition PROGRAM_FLAG_EXECUTE :: u32 where "PROGRAM_FLAG_EXECUTE = 0x1"
definition PROGRAM_FLAG_WRITE :: u32 where "PROGRAM_FLAG_WRITE = 0x2"
definition PROGRAM_FLAG_READ :: u32 where "PROGRAM_FLAG_READ = 0x4"

definition is_execute :: "program_header \<Rightarrow> bool" where
  "is_execute h = (p_flags h AND PROGRAM_FLAG_EXECUTE = PROGRAM_FLAG_EXECUTE)"
definition is_write :: "program_header \<Rightarrow> bool" where
  "is_write h = (p_flags h AND PROGRAM_FLAG_WRITE = PROGRAM_FLAG_WRITE)"
definition is_read :: "program_header \<Rightarrow> bool" where
  "is_read h = (p_flags h AND PROGRAM_FLAG_READ = PROGRAM_FLAG_READ)"

section \<open>Reading back what an encoder wrote\<close>

text \<open>The layout the ELF specification gives the structures, as an encoder: what the readers are checked against.\<close>

definition encode_HeaderIdent :: "header_ident \<Rightarrow> u8 list" where
  "encode_HeaderIdent i = magic i @ [ei_class i, ei_data i, ei_version i, os_abi i, abi_version i] @ ei_padding i"

definition encode_HeaderBody :: "header_body \<Rightarrow> u8 list" where
  "encode_HeaderBody b = to_le_bytes (e_type b) @ to_le_bytes (machine b) @ [e_version b, 0, 0, 0]
     @ to_le_bytes (entry_point b) @ to_le_bytes (ph_offset b) @ to_le_bytes (sh_offset b) @ to_le_bytes (e_flags b)
     @ to_le_bytes (header_size b) @ to_le_bytes (ph_entry_size b) @ to_le_bytes (ph_count b)
     @ to_le_bytes (sh_entry_size b) @ to_le_bytes (sh_count b) @ to_le_bytes (sh_str_index b)"

definition encode_SectionHeader :: "section_header \<Rightarrow> u8 list" where
  "encode_SectionHeader h = to_le_bytes (sh_name h) @ to_le_bytes (sh_type h) @ to_le_bytes (sh_flags h)
     @ to_le_bytes (sh_address h) @ to_le_bytes (sh_file_offset h) @ to_le_bytes (sh_size h) @ to_le_bytes (sh_link h)
     @ to_le_bytes (sh_info h) @ to_le_bytes (sh_align h) @ to_le_bytes (sh_ent_size h)"

lemma from_le_bytes_single [simp]: "from_le_bytes [b] = (b :: u8)"
  by (simp add: from_le_bytes_def)

lemmas le_at_simps = le_at_def take_append drop_append

lemma decode_encode_SectionHeader [simp]: "decode_SectionHeader (encode_SectionHeader h) = h"
  by (simp add: decode_SectionHeader_def encode_SectionHeader_def le_at_simps)

lemma decode_encode_HeaderBody [simp]: "decode_HeaderBody (encode_HeaderBody b) = b"
  by (simp add: decode_HeaderBody_def encode_HeaderBody_def le_at_simps)

lemma decode_encode_HeaderIdent [simp]:
  "length (magic i) = 4 \<Longrightarrow> length (ei_padding i) = 7 \<Longrightarrow> decode_HeaderIdent (encode_HeaderIdent i) = i"
  by (simp add: decode_HeaderIdent_def encode_HeaderIdent_def le_at_simps)

lemma length_encode [simp]:
  "length (encode_SectionHeader h) = 64" "length (encode_HeaderBody b) = 48"
  "length (magic i) = 4 \<Longrightarrow> length (ei_padding i) = 7 \<Longrightarrow> length (encode_HeaderIdent i) = 16"
  by (simp_all add: encode_SectionHeader_def encode_HeaderBody_def encode_HeaderIdent_def)

text \<open>Addresses that are a multiple of eight.\<close>

lemma aligned8: "(w :: u64) AND 7 = 0 \<longleftrightarrow> (\<exists>v. w = push_bit 3 v)"
proof -
  have "w AND 7 = take_bit 3 w" by (simp add: take_bit_eq_mask mask_eq_exp_minus_1)
  moreover have "w = push_bit 3 (drop_bit 3 w) + take_bit 3 w" by (simp add: bits_ident)
  moreover have "take_bit 3 (push_bit 3 v) = 0" for v :: u64
    by (rule bit_word_eqI) (simp add: bit_simps)
  ultimately show ?thesis by (metis add.right_neutral)
qed

lemma aligned8_add: "(a :: u64) AND 7 = 0 \<Longrightarrow> b AND 7 = 0 \<Longrightarrow> (a + b) AND 7 = 0"
  unfolding aligned8 by (metis push_bit_add)

lemma aligned8_mult64: "((w :: u64) * 64) AND 7 = 0"
  unfolding aligned8 by (rule exI [of _ "w * 8"]) (simp add: push_bit_eq_mult)

text \<open>The section headers of a file lie at its \<^verbatim>\<open>sh_offset\<close>.\<close>

definition has_sections :: "elf_file \<Rightarrow> section_header list \<Rightarrow> bool" where
  "has_sections f hs \<longleftrightarrow>
     (let b = body (elf_header f); bs = sl_bytes (elf_input f) in
      sh_entry_size b = 64 \<and> unat (sh_count b) = length hs \<and> length hs \<le> 0xff00
      \<and> sl_addr (elf_input f) AND 7 = 0 \<and> sh_offset b AND 7 = 0 \<and> length bs < 2 ^ 64
      \<and> take (64 * length hs) (drop (unat (sh_offset b)) bs) = concat (map encode_SectionHeader hs))"

lemma concat_chunk:
  assumes "\<forall>x \<in> set xs. length (g x) = n" "k < length xs"
  shows "take n (drop (k * n) (concat (map g xs))) = g (xs ! k)"
  using assms
proof (induction xs arbitrary: k)
  case (Cons x xs)
  then show ?case by (cases k) auto
qed simp

lemma length_concat_encode [simp]: "length (concat (map encode_SectionHeader hs)) = 64 * length hs"
  by (induction hs) auto

lemma get_section_header_nth:
  assumes f: "has_sections f hs" and k: "k < length hs"
  shows "get_section_header f (word_of_nat k) = Some (Inr (hs ! k))"
proof -
  define b where "b = body (elf_header f)"
  define bs where "bs = sl_bytes (elf_input f)"
  have h: "sh_entry_size b = 64" "length hs \<le> 0xff00" "sl_addr (elf_input f) AND 7 = 0" "sh_offset b AND 7 = 0"
      "length bs < 2 ^ 64" "take (64 * length hs) (drop (unat (sh_offset b)) bs) = concat (map encode_SectionHeader hs)"
    using f by (simp_all add: has_sections_def Let_def b_def bs_def)
  have "length (take (64 * length hs) (drop (unat (sh_offset b)) bs)) = 64 * length hs"
    unfolding h(6) by simp
  then have room: "unat (sh_offset b) + 64 * length hs \<le> length bs" using k by (auto simp: min_def split: if_splits)
  let ?i = "word_of_nat k :: u16"
  have ui: "unat ?i = k" using k h(2) by (simp add: unat_of_nat)
  have uc: "(ucast ?i :: u64) = word_of_nat k"
    using k h(2) by (simp add: unsigned_of_nat take_bit_nat_eq_self)
  define start where "start = word_of_nat k * 64 + sh_offset b"
  have us: "unat start = 64 * k + unat (sh_offset b)"
  proof -
    have "start = word_of_nat (64 * k + unat (sh_offset b))" by (simp add: start_def)
    moreover have "64 * k + unat (sh_offset b) < 2 ^ 64" using room k h(5) by simp
    ultimately show ?thesis by (simp only: unat_of_nat) (simp add: mod_less)
  qed
  have ue: "unat (start + 64) = unat start + 64"
  proof -
    have "start + 64 = word_of_nat (unat start + 64)" by simp
    moreover have "unat start + 64 < 2 ^ 64" using room k h(5) us by simp
    ultimately show ?thesis by (simp only: unat_of_nat) (simp add: mod_less)
  qed
  have inb: "unat start + 64 \<le> length bs" using room k us by simp
  have "take 64 (drop (unat start) bs) = take 64 (drop (k * 64) (take (64 * length hs) (drop (unat (sh_offset b)) bs)))"
    using k by (simp add: us drop_take min_def add.commute mult.commute)
  then have enc: "take 64 (drop (unat start) bs) = encode_SectionHeader (hs ! k)"
    unfolding h(6) using concat_chunk [of hs encode_SectionHeader 64 k] k by simp
  have al: "(sl_addr (elf_input f) + start) AND 7 = 0"
    unfolding start_def by (intro aligned8_add h(3) h(4) aligned8_mult64)
  have "\<not> slice_len (elf_input f) < start + 64"
    using inb ue h(5) by (simp add: slice_len_def word_less_nat_alt unat_of_nat bs_def [symmetric])
  moreover have "start \<le> start + 64" using ue by (simp add: word_le_nat_alt)
  moreover have "?i < SHN_LORESERVE" using ui k h(2) by (simp add: SHN_LORESERVE_def word_less_nat_alt)
  ultimately show ?thesis
    using enc al inb ue
    by (simp add: get_section_header_def SectionHeader_parse_def b_def [symmetric] h(1) uc start_def [symmetric]
        slice_range_def pod_read_def bs_def [symmetric])
qed

lemma SectionIter_next_nth:
  assumes f: "has_sections f hs" and k: "k \<le> length hs"
  shows "SectionIter_next f (word_of_nat k) =
    Some (if k < length hs then (Some (hs ! k), word_of_nat (Suc k)) else (None, word_of_nat k))"
proof -
  have c: "unat (sh_count (body (elf_header f))) = length hs" "length hs \<le> 0xff00"
    using f by (simp_all add: has_sections_def Let_def)
  have "unat (word_of_nat k :: u16) = k" using k c(2) by (simp add: unat_of_nat)
  then show ?thesis
    using get_section_header_nth [OF f, of k] c k
    by (auto simp: SectionIter_next_def word_le_nat_alt add.commute)
qed

text \<open>A loop over the sections visits the headers in their order, each with its index.\<close>

fun run_sections :: "(u16 \<Rightarrow> section_header \<Rightarrow> 's \<Rightarrow> (string, unit, 's) outcome) \<Rightarrow> nat \<Rightarrow> section_header list \<Rightarrow> 's
    \<Rightarrow> (string, unit, 's) outcome" where
  "run_sections act k [] s = Some (Inr (), s)"
| "run_sections act k (h # hs) s = qbind (act (word_of_nat k) h s) (\<lambda>_ s. run_sections act (Suc k) hs s)"

lemma section_loop_run:
  assumes f: "has_sections f hs" and "k \<le> length hs"
  shows "section_loop f act (word_of_nat k) s = run_sections act k (drop k hs) s"
  using assms(2)
proof (induction "length hs - k" arbitrary: k s)
  case 0
  then show ?case by (subst section_loop.simps) (simp add: SectionIter_next_nth [OF f])
next
  case (Suc n)
  then have k: "k < length hs" by simp
  then have IH: "section_loop f act (word_of_nat (Suc k)) s = run_sections act (Suc k) (drop (Suc k) hs) s" for s
    using Suc.hyps by (simp del: of_nat_Suc)
  then have IH: "section_loop f act (word_of_nat (Suc k)) = run_sections act (Suc k) (drop (Suc k) hs)" by (rule ext)
  have d: "drop k hs = hs ! k # drop (Suc k) hs" using k by (rule Cons_nth_drop_Suc [symmetric])
  show ?case
    by (subst section_loop.simps, unfold d) (simp add: SectionIter_next_nth [OF f less_imp_le [OF k]] k IH del: of_nat_Suc)
qed

lemma section_find_list:
  assumes f: "has_sections f hs" and "k \<le> length hs" and P: "\<And>h. h \<in> set hs \<Longrightarrow> P h = Some (Q h)"
  shows "section_find f P (word_of_nat k) = Some (List.find Q (drop k hs))"
  using assms(2)
proof (induction "length hs - k" arbitrary: k)
  case 0
  then show ?case by (subst section_find.simps) (simp add: SectionIter_next_nth [OF f])
next
  case (Suc n)
  then have k: "k < length hs" by simp
  then have IH: "section_find f P (word_of_nat (Suc k)) = Some (List.find Q (drop (Suc k) hs))"
    using Suc.hyps by (simp del: of_nat_Suc)
  have d: "drop k hs = hs ! k # drop (Suc k) hs" using k by (rule Cons_nth_drop_Suc [symmetric])
  show ?case
    by (subst section_find.simps, unfold d) (simp add: SectionIter_next_nth [OF f less_imp_le [OF k]] k IH P del: of_nat_Suc)
qed

text \<open>The sections collected by a loop, in the order it visits them.\<close>

definition collect_section ::
    "u16 \<Rightarrow> section_header \<Rightarrow> (u16 \<times> section_header) list \<Rightarrow> (string, unit, (u16 \<times> section_header) list) outcome" where
  "collect_section i h acc = Some (Inr (), acc @ [(i, h)])"

lemma run_sections_collect:
  "run_sections collect_section k hs acc = Some (Inr (), acc @ map (\<lambda>(i, h). (word_of_nat i, h)) (List.enumerate k hs))"
  by (induction hs arbitrary: k acc) (simp_all add: collect_section_def qbind_def del: of_nat_Suc)

lemma Header_parse_encoded:
  assumes "length bs < 2 ^ 64" "a AND 7 = 0" "length (ei_padding i) = 7" "magic i = MAGIC_NUM" "ei_class i = 2"
    and bs: "take 64 bs = encode_HeaderIdent i @ encode_HeaderBody b"
  shows "Header_parse \<lparr> sl_addr = a, sl_bytes = bs \<rparr> = Some (Inr \<lparr> ident = i, body = b \<rparr>)"
proof -
  have m: "length (magic i) = 4" by (simp add: assms(4) MAGIC_NUM_def)
  have "length (take 64 bs) = 64" unfolding bs using m assms(3) by simp
  then have l: "64 \<le> length bs" by (simp add: min_def split: if_splits)
  have i: "take 16 bs = encode_HeaderIdent i"
    using arg_cong [OF bs, of "take 16"] m assms(3) by (simp add: min_def)
  have "drop 16 (take 64 bs) = encode_HeaderBody b" unfolding bs using m assms(3) by simp
  then have b: "take 48 (drop 16 bs) = encode_HeaderBody b" by (simp add: drop_take)
  have "(a + 16) AND 7 = 0" using assms(2) by (rule aligned8_add) simp
  moreover have "\<not> slice_len \<lparr> sl_addr = a, sl_bytes = bs \<rparr> < 64" "\<not> slice_len \<lparr> sl_addr = a, sl_bytes = bs \<rparr> < 16"
    using l assms(1) by (simp_all add: slice_len_def word_less_nat_alt unat_of_nat take_bit_nat_eq_self)
  ultimately show ?thesis
    using l i b m assms
    by (simp add: Header_parse_def slice_range_def pod_read_def HEADER_IDENT_SIZE_def HEADER_BODY_SIZE_def)
qed

section \<open>Properties\<close>

text \<open>
  C36: Every file whose header and section headers were laid out as the ELF specification says is read back: the header
  is accepted and a loop over the sections visits exactly the headers written, in order and with their
  indices.
\<close>

theorem elf_sections_roundtrip:
  assumes "sl_addr s AND 7 = 0" and "length (sl_bytes s) < 2 ^ 64"
    and "magic i = MAGIC_NUM" and "ei_class i = 2" and "length (ei_padding i) = 7"
    and "take 64 (sl_bytes s) = encode_HeaderIdent i @ encode_HeaderBody b"
    and "sh_entry_size b = 64" and "unat (sh_count b) = length hs" and "length hs \<le> 0xff00" and "sh_offset b AND 7 = 0"
    and "take (64 * length hs) (drop (unat (sh_offset b)) (sl_bytes s)) = concat (map encode_SectionHeader hs)"
  shows "\<exists>f. ElfFile_new s = Some (Inr f) \<and> elf_header f = \<lparr> ident = i, body = b \<rparr>
    \<and> section_loop f collect_section 0 [] = Some (Inr (), map (\<lambda>(k, h). (word_of_nat k, h)) (List.enumerate 0 hs))"
proof -
  let ?f = "\<lparr> elf_input = s, elf_header = \<lparr> ident = i, body = b \<rparr> \<rparr>"
  have "Header_parse s = Some (Inr \<lparr> ident = i, body = b \<rparr>)"
    using Header_parse_encoded [OF assms(2,1,5,3,4,6)] by (cases s) simp
  then have "ElfFile_new s = Some (Inr ?f)" by (simp add: ElfFile_new_def)
  moreover have "has_sections ?f hs" using assms by (simp add: has_sections_def Let_def)
  then have "section_loop ?f collect_section 0 [] = run_sections collect_section 0 hs []"
    using section_loop_run [of ?f hs 0] by simp
  ultimately show ?thesis by (simp add: run_sections_collect)
qed

definition sample_header :: "u32 \<Rightarrow> u32 \<Rightarrow> u64 \<Rightarrow> u64 \<Rightarrow> section_header" where
  "sample_header name type off len = \<lparr> sh_name = name, sh_type = type, sh_flags = 0, sh_address = 0,
     sh_file_offset = off, sh_size = len, sh_link = 0, sh_info = 0, sh_align = 8, sh_ent_size = 0 \<rparr>"

definition sample_ident :: header_ident where
  "sample_ident = \<lparr> magic = [0x7f, 0x45, 0x4c, 0x46], ei_class = 2, ei_data = 1, ei_version = 1, os_abi = 0,
     abi_version = 0, ei_padding = [0, 0, 0, 0, 0, 0, 0] \<rparr>"

definition sample_body :: header_body where
  "sample_body = \<lparr> e_type = 1, machine = 62, e_version = 1, entry_point = 0, ph_offset = 0, sh_offset = 64,
     e_flags = 0, header_size = 64, ph_entry_size = 0, ph_count = 0, sh_entry_size = 64, sh_count = 2, sh_str_index = 1 \<rparr>"

definition sample_headers :: "section_header list" where
  "sample_headers = [sample_header 0 0 0 0, sample_header 1 3 192 6]"

definition sample_elf :: slice where
  "sample_elf = \<lparr> sl_addr = 0x1000, sl_bytes = encode_HeaderIdent sample_ident @ encode_HeaderBody sample_body
     @ concat (map encode_SectionHeader sample_headers) @ 0 # bytes_of_str ''.str'' @ [0] \<rparr>"

definition sample_file :: elf_file where
  "sample_file = \<lparr> elf_input = sample_elf, elf_header = \<lparr> ident = sample_ident, body = sample_body \<rparr> \<rparr>"

lemma sample_ident_lengths [simp]: "length (encode_HeaderIdent sample_ident) = 16"
  by (simp add: encode_HeaderIdent_def sample_ident_def)

theorem elf_sections_roundtrip_witness:
  "\<exists>f. ElfFile_new sample_elf = Some (Inr f) \<and> elf_header f = \<lparr> ident = sample_ident, body = sample_body \<rparr>
    \<and> section_loop f collect_section 0 [] = Some (Inr (), map (\<lambda>(k, h). (word_of_nat k, h)) (List.enumerate 0 sample_headers))"
  by (rule elf_sections_roundtrip)
    (simp_all add: sample_elf_def sample_headers_def bytes_of_str_def, simp_all add: sample_ident_def sample_body_def
      MAGIC_NUM_def)

text \<open>
  Finding a section by name visits the sections in order, always ends, and returns the first section
  whose name can be read and is the one asked for, or none when there is no such section. Sections whose type is
  invalid or null have no readable name and are passed over.
\<close>

lemma find_section_first:
  assumes "has_sections f hs" and "\<And>h. h \<in> set hs \<Longrightarrow> SectionHeader_get_name h f \<noteq> None"
  shows "find_section_by_name f name = Some (List.find (\<lambda>h. SectionHeader_get_name h f = Some (Inr name)) hs)"
proof -
  have "SectionHeader_get_name h f \<bind> (\<lambda>r. Some (case r of Inr n \<Rightarrow> n = name | Inl _ \<Rightarrow> False))
      = Some (SectionHeader_get_name h f = Some (Inr name))" if "h \<in> set hs" for h
    using assms(2) [OF that] by (auto split: sum.splits)
  then show ?thesis
    using section_find_list [OF assms(1), of 0] by (simp add: find_section_by_name_def)
qed

lemma sample_file_sections: "has_sections sample_file sample_headers"
  by (simp add: has_sections_def sample_file_def sample_elf_def, simp add: sample_body_def sample_headers_def bytes_of_str_def)

lemma find_section_first_witness:
  "find_section_by_name sample_file ''.str''
     = Some (List.find (\<lambda>h. SectionHeader_get_name h sample_file = Some (Inr ''.str'')) sample_headers)
   \<and> List.find (\<lambda>h. SectionHeader_get_name h sample_file = Some (Inr ''.str'')) sample_headers = Some (sample_header 1 3 192 6)"
proof
  have n: "SectionHeader_get_name (sample_header 0 0 0 0) sample_file = Some (Inl ''Attempted to get name of null section'')"
    "SectionHeader_get_name (sample_header 1 3 192 6) sample_file = Some (Inr ''.str'')"
    by code_simp+
  show "find_section_by_name sample_file ''.str''
     = Some (List.find (\<lambda>h. SectionHeader_get_name h sample_file = Some (Inr ''.str'')) sample_headers)"
    by (rule find_section_first [OF sample_file_sections]) (auto simp: sample_headers_def n)
  show "List.find (\<lambda>h. SectionHeader_get_name h sample_file = Some (Inr ''.str'')) sample_headers
     = Some (sample_header 1 3 192 6)"
    by (simp add: sample_headers_def n)
qed

text \<open>
  On input aligned to eight bytes, parsing the file header never panics: it is rejected with an error when it is shorter than a
  header, has another magic number or is not of the 64-bit class, and accepted otherwise.
\<close>

lemma header_parse_total:
  assumes "sl_addr s AND 7 = 0" and "length (sl_bytes s) < 2 ^ 64"
  shows "if length (sl_bytes s) < 16 then Header_parse s = Some (Inl ''File is shorter than ELF ident'')
    else if length (sl_bytes s) < 64 then Header_parse s = Some (Inl ''File is shorter than ELF header'')
    else if take 4 (sl_bytes s) \<noteq> MAGIC_NUM then Header_parse s = Some (Inl ''Invalid magic number'')
    else if sl_bytes s ! 4 \<noteq> 2 then Header_parse s = Some (Inl ''Invalid class'')
    else Header_parse s = Some (Inr \<lparr> ident = decode_HeaderIdent (take 16 (sl_bytes s)),
      body = decode_HeaderBody (take 48 (drop 16 (sl_bytes s))) \<rparr>)"
proof -
  define bs where "bs = sl_bytes s"
  have l: "slice_len s < 16 \<longleftrightarrow> length bs < 16" "slice_len s < 64 \<longleftrightarrow> length bs < 64"
    using assms(2) by (simp_all add: slice_len_def word_less_nat_alt unat_of_nat take_bit_nat_eq_self bs_def)
  have "le_at 4 1 (take 16 bs) = bs ! 4" if "\<not> length bs < 16"
  proof -
    have "take 1 (drop 4 (take 16 bs)) = [bs ! 4]"
      using that by (simp add: take_Suc_conv_app_nth drop_take take_Suc hd_drop_conv_nth)
    then show ?thesis by (simp add: le_at_def)
  qed
  moreover have "(sl_addr s + 16) AND 7 = 0" using assms(1) by (rule aligned8_add) simp
  ultimately show ?thesis
    using assms(1) l unfolding bs_def [symmetric]
    by (auto simp: Header_parse_def HEADER_IDENT_SIZE_def HEADER_BODY_SIZE_def slice_range_def pod_read_def bs_def [symmetric]
        decode_HeaderIdent_def)
qed

lemma header_parse_total_witness: "Header_parse \<lparr> sl_addr = 0x1000, sl_bytes = replicate 64 0 \<rparr> = Some (Inl ''Invalid magic number'')"
proof -
  have "take 4 (replicate 64 (0 :: u8)) \<noteq> MAGIC_NUM" by code_simp
  then show ?thesis using header_parse_total [of "\<lparr> sl_addr = 0x1000, sl_bytes = replicate 64 0 \<rparr>"] by simp
qed

text \<open>An offset for which the end of the header wraps around passes the check of the length and panics at the slice.\<close>

lemma section_header_wraps:
  "sh_offset (body h) = - 64 \<Longrightarrow> sh_entry_size (body h) = 64 \<Longrightarrow> SectionHeader_parse s h 0 = None"
  by (simp add: SectionHeader_parse_def slice_range_def SHN_LORESERVE_def)

lemma get_visibility_total: "Symbol_get_visibility e \<noteq> None"
proof -
  have "st_other e AND 3 \<le> 3" by (rule word_and_le1)
  then have "unat (st_other e AND 3) \<le> 3" by (simp add: word_le_nat_alt)
  then have "unat (st_other e AND 3) \<in> {0, 1, 2, 3}" by auto
  moreover have "word_of_nat n \<in> {0, 1, 2, 3 :: u8}" if "n \<in> {0, 1, 2, 3}" for n using that by auto
  ultimately have "word_of_nat (unat (st_other e AND 3)) \<in> {0, 1, 2, 3 :: u8}" by blast
  then show ?thesis by (auto simp: Symbol_get_visibility_def Let_def)
qed

end
