(* ===== verification/Loader_Names.thy ===== *)
theory Loader_Names
  imports Rust_Bytes Frame_Alloc
begin

section \<open>Names of objects and the objects themselves\<close>

text \<open>
  Two parts of the loader (\<^verbatim>\<open>kernel/src/loader.rs\<close>) that do not touch its tables: the names of the crates a
  demangled symbol mentions, from which the loader guesses the object that defines the symbol, and the
  provider of object files with the file system below it (\<^verbatim>\<open>InitFileSystem\<close> of
  \<^verbatim>\<open>kernel/src/main.rs\<close>), which serves the objects the bootloader left in memory.

  Symbols are ASCII: \<^verbatim>\<open>char::is_alphanumeric\<close> is modelled on ASCII characters.
\<close>

subsection \<open>Crate names in a symbol\<close>

definition is_alphanumeric :: "char \<Rightarrow> bool" where
  "is_alphanumeric c =
     (let n = (of_char c :: nat) in (48 \<le> n \<and> n \<le> 57) \<or> (65 \<le> n \<and> n \<le> 90) \<or> (97 \<le> n \<and> n \<le> 122))"

definition name_char :: "char \<Rightarrow> bool" where
  "name_char c \<longleftrightarrow> is_alphanumeric c \<or> c = CHR ''_''"

text \<open>The start of the crate name that ends at \<open>stop\<close>, searching backwards in the substring from \<open>start\<close>.\<close>

definition name_start :: "string \<Rightarrow> nat \<Rightarrow> nat" where
  "name_start substring start =
     (case str_rfind (\<lambda>ch. \<not> name_char ch) substring of Some i \<Rightarrow> start + i + 1 | None \<Rightarrow> start)"

definition range_before_colons :: "string \<Rightarrow> nat \<Rightarrow> (nat \<times> nat) list" where
  "range_before_colons symb start =
     (case str_get_from symb start \<bind> str_find ''::'' of
        None \<Rightarrow> []
      | Some n \<Rightarrow> let stop = start + n in
          (case str_get symb start stop of
             None \<Rightarrow> []
           | Some substring \<Rightarrow>
               if str_contains substring '' as '' then []
               else let start = name_start substring start in if start \<noteq> stop then [(start, stop)] else []))"

definition range_before_bracket :: "string \<Rightarrow> nat \<Rightarrow> (nat \<times> nat) list" where
  "range_before_bracket symb start =
     (case str_get_from symb start \<bind> str_find ''['' of
        None \<Rightarrow> []
      | Some n \<Rightarrow> let stop = start + n in
          (case str_get symb start stop of
             None \<Rightarrow> []
           | Some substring \<Rightarrow>
               let start = name_start substring start in if start \<noteq> stop then [(start, stop)] else []))"

definition next_start :: "string \<Rightarrow> nat \<Rightarrow> nat option" where
  "next_start symb start = map_option (\<lambda>n. start + n + 4) (str_get_from symb start \<bind> str_find '' as '')"

lemma next_start_less: "next_start symb start = Some start' \<Longrightarrow> start < start' \<and> start' \<le> length symb"
  by (auto simp: next_start_def str_get_from_def bind_eq_Some_conv split: if_splits dest!: str_find_Some)

function name_ranges_from :: "string \<Rightarrow> nat \<Rightarrow> (nat \<times> nat) list" where
  "name_ranges_from symb start =
     range_before_colons symb start @ range_before_bracket symb start @
     (case next_start symb start of None \<Rightarrow> [] | Some start' \<Rightarrow> name_ranges_from symb start')"
  by pat_completeness auto
termination
proof (relation "measure (\<lambda>(symb, start). length symb - start)")
  fix symb start start' assume "next_start symb start = Some start'"
  then have "start < start'" "start' \<le> length symb" using next_start_less by blast+
  then show "((symb, start'), symb, start) \<in> measure (\<lambda>(symb, start). length symb - start)" by simp
qed simp

declare name_ranges_from.simps [simp del]

definition crate_name_ranges_in_symbol :: "string \<Rightarrow> (nat \<times> nat) list" where
  "crate_name_ranges_in_symbol symb = name_ranges_from symb 0"

text \<open>\<^verbatim>\<open>dedup\<close> removes consecutive repetitions, as \<^const>\<open>remdups_adj\<close> does.\<close>

definition crate_names_in_symbol :: "string \<Rightarrow> string list" where
  "crate_names_in_symbol symb = List.map_filter (\<lambda>(a, b). str_get symb a b) (remdups_adj (crate_name_ranges_in_symbol symb))"

subsection \<open>The object files\<close>

text \<open>
  The bytes of memory, by virtual address. The vector a file is copied to is placed by the heap; its address is an
  argument.
\<close>

type_synonym byte_store = "usize \<Rightarrow> u8"

definition read_bytes :: "byte_store \<Rightarrow> usize \<Rightarrow> nat \<Rightarrow> u8 list" where
  "read_bytes m a n = map (\<lambda>i. m (a + word_of_nat i)) [0..<n]"

definition write_bytes :: "usize \<Rightarrow> u8 list \<Rightarrow> byte_store \<Rightarrow> byte_store" where
  "write_bytes a bs m = (\<lambda>x. let i = unat (x - a) in if i < length bs then bs ! i else m x)"

definition name_str :: "root_object_info \<Rightarrow> string rust" where
  "name_str obj = do {
     rust_assert (utf8_valid (ro_name obj));
     Some (trim_matches (CHR 0x00) (str_of_bytes (ro_name obj)))
   }"

fun InitFileSystem_list_objects :: "string \<Rightarrow> root_object_info list \<Rightarrow> string list rust" where
  "InitFileSystem_list_objects pre [] = Some []"
| "InitFileSystem_list_objects pre (obj # objs) = do {
     name \<leftarrow> name_str obj;
     rest \<leftarrow> InitFileSystem_list_objects pre objs;
     Some (if starts_with name pre then (''/'' @ name @ ''.o'') # rest else rest)
   }"

definition InitFileSystem_list :: "root_object_info list \<Rightarrow> string \<Rightarrow> string list result" where
  "InitFileSystem_list objs dir_path = do {
     pre \<leftarrow> strip_prefix dir_path ''/'';
     map_option Inr (InitFileSystem_list_objects pre objs)
   }"

fun find_object :: "string \<Rightarrow> root_object_info list \<Rightarrow> root_object_info option rust" where
  "find_object needle [] = Some None"
| "find_object needle (obj # objs) = do {
     name \<leftarrow> name_str obj;
     if name = needle then Some (Some obj) else find_object needle objs
   }"

definition InitFileSystem_read :: "root_object_info list \<Rightarrow> byte_store \<Rightarrow> usize \<Rightarrow> string \<Rightarrow> slice result" where
  "InitFileSystem_read objs m vec_addr path = do {
     path \<leftarrow> strip_prefix path ''/'';
     needle \<leftarrow> strip_suffix path ''.o'';
     fo \<leftarrow> find_object needle objs;
     Some (case fo of
       None \<Rightarrow> Inl ''failed to read object''
     | Some obj \<Rightarrow> Inr \<lparr> sl_addr = vec_addr, sl_bytes = read_bytes m (ro_addr obj) (unat (ro_size obj)) \<rparr>)
   }"

definition read_object :: "root_object_info list \<Rightarrow> byte_store \<Rightarrow> usize \<Rightarrow> string \<Rightarrow> slice result" where
  "read_object objs m vec_addr name =
     (if \<not> starts_with name ''/'' then
        rbind (InitFileSystem_list objs (''/'' @ name)) (\<lambda>names.
          case List.find (\<lambda>object_name. object_name = ''/'' @ name @ ''.o'') names of
            None \<Rightarrow> Some (Inl ''no object found'')
          | Some path \<Rightarrow> InitFileSystem_read objs m vec_addr path)
      else InitFileSystem_read objs m vec_addr name)"

section \<open>Lemmas\<close>

subsection \<open>Memory\<close>

lemma length_read_bytes [simp]: "length (read_bytes m a n) = n"
  by (simp add: read_bytes_def)

lemma read_write_bytes:
  assumes "length bs < 2 ^ 64"
  shows "read_bytes (write_bytes a bs m) a (length bs) = bs"
  by (rule nth_equalityI)
    (use assms in \<open>auto simp: read_bytes_def write_bytes_def Let_def unat_of_nat take_bit_nat_eq_self\<close>)

lemma write_bytes_other: "length bs \<le> unat (x - a) \<Longrightarrow> write_bytes a bs m x = m x"
  by (simp add: write_bytes_def Let_def)

subsection \<open>Every readable object is found\<close>

lemma InitFileSystem_list_objects_eq:
  assumes "\<And>obj. obj \<in> set objs \<Longrightarrow> name_str obj \<noteq> None"
  shows "InitFileSystem_list_objects pre objs =
    Some (map (\<lambda>n. ''/'' @ n @ ''.o'') (filter (\<lambda>n. starts_with n pre) (map (the \<circ> name_str) objs)))"
  using assms by (induction objs) fastforce+

lemma find_object_eq:
  assumes "\<And>obj. obj \<in> set objs \<Longrightarrow> name_str obj \<noteq> None"
  shows "find_object needle objs = Some (List.find (\<lambda>obj. name_str obj = Some needle) objs)"
  using assms
proof (induction objs)
  case (Cons obj objs)
  then obtain n where "name_str obj = Some n" by auto
  with Cons show ?case by auto
qed simp

lemma strip_suffix_append [simp]: "strip_suffix (s @ t) t = Some s"
  by (simp add: strip_suffix_def ends_with_def)

lemma strip_prefix_append [simp]: "strip_prefix (t @ s) t = Some s"
  by (simp add: strip_prefix_def starts_with_def)

lemma starts_with_append [simp]: "starts_with (t @ s) t" "starts_with t t"
  by (simp_all add: starts_with_def)

lemma find_eq: "List.find (\<lambda>x. x = p) xs = (if p \<in> set xs then Some p else None)"
  by (induction xs) auto

text \<open>An object is found by its name exactly when the boot map lists it, and its bytes are those in memory.\<close>

lemma read_object_eq:
  assumes names: "\<And>obj. obj \<in> set objs \<Longrightarrow> name_str obj \<noteq> None" and n: "\<not> starts_with name ''/''"
  shows "read_object objs m va name = Some (case List.find (\<lambda>obj. name_str obj = Some name) objs of
      None \<Rightarrow> Inl ''no object found''
    | Some obj \<Rightarrow> Inr \<lparr> sl_addr = va, sl_bytes = read_bytes m (ro_addr obj) (unat (ro_size obj)) \<rparr>)"
proof -
  let ?p = "''/'' @ name @ ''.o''"
  let ?l = "map (\<lambda>n. ''/'' @ n @ ''.o'') (filter (\<lambda>n. starts_with n name) (map (the \<circ> name_str) objs))"
  have l: "InitFileSystem_list objs (''/'' @ name) = Some (Inr ?l)"
    using InitFileSystem_list_objects_eq [OF names] by (simp only: InitFileSystem_list_def strip_prefix_append) simp
  have r: "InitFileSystem_read objs m va ?p = Some (case List.find (\<lambda>obj. name_str obj = Some name) objs of
      None \<Rightarrow> Inl ''failed to read object''
    | Some obj \<Rightarrow> Inr \<lparr> sl_addr = va, sl_bytes = read_bytes m (ro_addr obj) (unat (ro_size obj)) \<rparr>)"
    using find_object_eq [OF names] by (simp only: InitFileSystem_read_def strip_prefix_append strip_suffix_append) simp
  have "inj (\<lambda>n. ''/'' @ n @ ''.o'')" by (rule injI) simp
  then have "?p \<in> set ?l \<longleftrightarrow> name \<in> set (filter (\<lambda>n. starts_with n name) (map (the \<circ> name_str) objs))"
    unfolding set_map by (rule inj_image_mem_iff)
  also have "\<dots> \<longleftrightarrow> (\<exists>obj \<in> set objs. name_str obj = Some name)"
  proof -
    have "name = the (name_str obj) \<longleftrightarrow> name_str obj = Some name" if "obj \<in> set objs" for obj
      using names [OF that] by auto
    then show ?thesis by (simp add: image_iff)
  qed
  also have "\<dots> \<longleftrightarrow> List.find (\<lambda>obj. name_str obj = Some name) objs \<noteq> None"
    by (auto simp: find_None_iff)
  finally have F: "List.find (\<lambda>object_name. object_name = ?p) ?l =
      (if List.find (\<lambda>obj. name_str obj = Some name) objs \<noteq> None then Some ?p else None)"
    unfolding find_eq by simp
  have "read_object objs m va name = (case List.find (\<lambda>object_name. object_name = ?p) ?l of
      None \<Rightarrow> Some (Inl ''no object found'') | Some path \<Rightarrow> InitFileSystem_read objs m va path)"
    unfolding read_object_def l rbind_simps using n by (rule if_P)
  then show ?thesis unfolding F
    by (cases "List.find (\<lambda>obj. name_str obj = Some name) objs") (simp_all only: r if_True if_False option.simps simp_thms)
qed

subsection \<open>Crate names\<close>

text \<open>A range of a symbol that is a whole identifier, followed by a path separator or a disambiguator.\<close>

definition crate_range :: "string \<Rightarrow> nat \<times> nat \<Rightarrow> bool" where
  "crate_range symb r \<longleftrightarrow> fst r < snd r \<and> snd r \<le> length symb
     \<and> (\<forall>i. fst r \<le> i \<and> i < snd r \<longrightarrow> name_char (symb ! i))
     \<and> (starts_with (drop (snd r) symb) ''::'' \<or> starts_with (drop (snd r) symb) ''['')
     \<and> (fst r = 0 \<or> \<not> name_char (symb ! (fst r - 1)))"

definition segment_start :: "string \<Rightarrow> nat \<Rightarrow> bool" where
  "segment_start symb start \<longleftrightarrow> start = 0 \<or> \<not> name_char (symb ! (start - 1))"

lemma crate_range_found:
  assumes s: "segment_start symb start" and le: "start \<le> length symb" and f: "str_find pat (drop start symb) = Some n"
    and pat: "pat = ''::'' \<or> pat = ''[''" and ne: "name_start (take n (drop start symb)) start \<noteq> start + n"
  shows "crate_range symb (name_start (take n (drop start symb)) start, start + n)"
proof -
  let ?sub = "take n (drop start symb)"
  have n: "start + n \<le> length symb" "starts_with (drop (start + n) symb) pat"
    using str_find_Some [OF f] le by (auto simp: add.commute)
  have nth: "symb ! (start + i) = ?sub ! i" if "i < n" for i using that n(1) by simp
  show ?thesis
  proof (cases "str_rfind (\<lambda>ch. \<not> name_char ch) ?sub")
    case None
    then have a: "\<forall>c \<in> set ?sub. name_char c" by (simp add: str_rfind_None)
    have "name_char (symb ! i)" if "start \<le> i" "i < start + n" for i
    proof -
      have "?sub ! (i - start) \<in> set ?sub" using that n(1) by (intro nth_mem) simp
      then show ?thesis using a nth [of "i - start"] that by simp
    qed
    moreover have "n \<noteq> 0" using ne None by (simp add: name_start_def)
    moreover have "name_start ?sub start = start" by (simp add: name_start_def None)
    ultimately show ?thesis
      using n s pat by (simp add: crate_range_def segment_start_def) blast
  next
    case (Some k)
    have k: "k < n" "\<not> name_char (?sub ! k)" "\<forall>c \<in> set (drop (Suc k) ?sub). name_char c"
      using str_rfind_Some [OF Some] by (auto dest!: min.strict_boundedE)
    have "name_char (symb ! i)" if "start + k + 1 \<le> i" "i < start + n" for i
    proof -
      have "drop (Suc k) ?sub ! (i - (start + k + 1)) \<in> set (drop (Suc k) ?sub)"
        using that n(1) by (intro nth_mem) simp
      moreover have "drop (Suc k) ?sub ! (i - (start + k + 1)) = symb ! i" using that n(1) by simp
      ultimately show ?thesis using k(3) by metis
    qed
    moreover have "start + k + 1 < start + n" using ne Some k(1) by (simp add: name_start_def)
    moreover have "name_start ?sub start = start + k + 1" by (simp add: name_start_def Some)
    moreover have "\<not> name_char (symb ! (start + k))" using k(2) nth [OF k(1)] by simp
    ultimately show ?thesis
      using n pat by (simp add: crate_range_def) blast
  qed
qed

lemma segment_ranges:
  assumes "segment_start symb start" and "start \<le> length symb"
  shows "\<forall>r \<in> set (range_before_colons symb start). crate_range symb r"
    and "\<forall>r \<in> set (range_before_bracket symb start). crate_range symb r"
  using crate_range_found [OF assms]
  by (auto simp: range_before_colons_def range_before_bracket_def str_get_from_def str_get_def Let_def assms(2)
      split: option.splits if_splits)

lemma next_segment_start:
  assumes "next_start symb start = Some start'"
  shows "segment_start symb start'"
proof -
  obtain n where le: "start \<le> length symb" and n: "str_find '' as '' (drop start symb) = Some n" and s': "start' = start + n + 4"
    using assms by (auto simp: next_start_def str_get_from_def bind_eq_Some_conv split: if_splits)
  obtain r where "drop n (drop start symb) = '' as '' @ r"
    using str_find_Some [OF n] unfolding starts_with_iff by (elim conjE exE)
  then have "drop (start + n) symb = '' as '' @ r" by (simp add: add.commute)
  then have "drop (start + n) symb ! 3 = CHR '' ''" by simp
  moreover have "start + n + 4 \<le> length symb" using str_find_Some [OF n] le by (simp, linarith)
  ultimately have "symb ! (start' - 1) = CHR '' ''" using s' by (simp add: add.commute)
  moreover have "\<not> name_char (CHR '' '')" by code_simp
  ultimately show ?thesis by (simp add: segment_start_def)
qed

lemma name_ranges_crate:
  "segment_start symb start \<Longrightarrow> start \<le> length symb \<Longrightarrow> r \<in> set (name_ranges_from symb start) \<Longrightarrow> crate_range symb r"
proof (induction symb start rule: name_ranges_from.induct)
  case (1 symb start)
  show ?case
  proof (cases "r \<in> set (range_before_colons symb start) \<union> set (range_before_bracket symb start)")
    case True
    then show ?thesis using segment_ranges [OF 1(2,3)] by blast
  next
    case False
    then obtain start' where s': "next_start symb start = Some start'" "r \<in> set (name_ranges_from symb start')"
      using 1(4) unfolding name_ranges_from.simps [of symb start]
      by (cases "next_start symb start") auto
    show ?thesis using 1(1) [OF s'(1) next_segment_start [OF s'(1)] _ s'(2)] next_start_less [OF s'(1)] by blast
  qed
qed

lemma str_find_after:
  assumes "\<forall>c \<in> set k. name_char c" and "p \<noteq> []" and "\<not> name_char (hd p)"
  shows "str_find p (k @ p @ r) = Some (length k)"
  using assms(1)
proof (induction k)
  case Nil
  show ?case using assms(2) by (cases p) (simp_all add: starts_with_def)
next
  case (Cons c k)
  then have "\<not> starts_with (c # k @ p @ r) p" using assms(2,3) by (cases p) (auto simp: starts_with_def)
  with Cons show ?case by simp
qed

lemma crate_name_found:
  assumes "n \<in> set (crate_names_in_symbol symb)"
  shows "n \<noteq> []" and "\<forall>c \<in> set n. name_char c"
    and "\<exists>before after. symb = before @ n @ after \<and> (starts_with after ''::'' \<or> starts_with after ''['')
      \<and> (before = [] \<or> \<not> name_char (last before))"
proof -
  obtain r where r: "r \<in> set (name_ranges_from symb 0)" "str_get symb (fst r) (snd r) = Some n"
    using assms
    by (auto simp: crate_names_in_symbol_def crate_name_ranges_in_symbol_def map_filter_def)
  have c: "crate_range symb r" using name_ranges_crate [OF _ _ r(1)] by (simp add: segment_start_def)
  have n: "n = take (snd r - fst r) (drop (fst r) symb)" using r(2) by (simp add: str_get_def split: if_splits)
  have split: "symb = take (fst r) symb @ n @ drop (snd r) symb"
    using c unfolding n crate_range_def by (metis append_take_drop_id drop_drop le_add_diff_inverse2 less_imp_le)
  show "n \<noteq> []" using c n by (simp add: crate_range_def)
  show "\<forall>ch \<in> set n. name_char ch"
  proof
    fix ch assume "ch \<in> set n"
    then obtain i where "i < length n" "n ! i = ch" by (auto simp: in_set_conv_nth)
    then show "name_char ch" using c n by (auto simp: crate_range_def)
  qed
  show "\<exists>before after. symb = before @ n @ after \<and> (starts_with after ''::'' \<or> starts_with after ''['')
      \<and> (before = [] \<or> \<not> name_char (last before))"
  proof (intro exI conjI)
    show "symb = take (fst r) symb @ n @ drop (snd r) symb" by (rule split)
    show "starts_with (drop (snd r) symb) ''::'' \<or> starts_with (drop (snd r) symb) ''[''"
      using c by (simp add: crate_range_def)
    have "fst r \<le> length symb" using c by (simp add: crate_range_def)
    then show "take (fst r) symb = [] \<or> \<not> name_char (last (take (fst r) symb))"
      using c by (cases "fst r") (auto simp: crate_range_def last_conv_nth)
  qed
qed

text \<open>
  The names the loader takes from a symbol are whole identifiers of it: not empty, made of letters, digits and underscores,
  bounded on the left, and followed by \<open>::\<close> or \<open>[\<close>. For a path that starts with an identifier the
  first name is that identifier, the crate of the path.
\<close>

lemma crate_names_sound:
  "(\<forall>n \<in> set (crate_names_in_symbol symb). n \<noteq> [] \<and> (\<forall>c \<in> set n. name_char c)
      \<and> (\<exists>before after. symb = before @ n @ after \<and> (starts_with after ''::'' \<or> starts_with after ''['')
           \<and> (before = [] \<or> \<not> name_char (last before))))
   \<and> (\<forall>k rest. k \<noteq> [] \<and> (\<forall>c \<in> set k. name_char c) \<and> symb = k @ ''::'' @ rest \<longrightarrow> hd (crate_names_in_symbol symb) = k)"
proof (intro conjI ballI allI impI)
  fix n assume n: "n \<in> set (crate_names_in_symbol symb)"
  show "n \<noteq> []" "\<exists>before after. symb = before @ n @ after \<and> (starts_with after ''::'' \<or> starts_with after ''['')
      \<and> (before = [] \<or> \<not> name_char (last before))"
    using crate_name_found [OF n] by blast+
  show "name_char c" if "c \<in> set n" for c using crate_name_found(2) [OF n] that by blast
next
  fix k rest assume k: "k \<noteq> [] \<and> (\<forall>c \<in> set k. name_char c) \<and> symb = k @ ''::'' @ rest"
  have nc: "\<not> name_char (CHR '':'')" "\<not> name_char (CHR '' '')" by code_simp+
  have "str_find ''::'' symb = Some (length k)" using str_find_after [of k "''::''" rest] k nc by simp
  moreover have "\<not> str_contains k '' as ''"
  proof
    assume "str_contains k '' as ''"
    then obtain i where i: "str_find '' as '' k = Some i" by (auto simp: str_contains_def)
    then have "i + 4 \<le> length k" "starts_with (drop i k) '' as ''" using str_find_Some [OF i] by simp_all
    then obtain r where "drop i k = '' as '' @ r" unfolding starts_with_iff by (elim exE)
    then have "k ! i = CHR '' ''" using \<open>i + 4 \<le> length k\<close> by (metis hd_drop_conv_nth hd_append2 list.sel(1) list.discI add_leE le_neq_implies_less not_numeral_le_zero add_le_same_cancel1)
    then show False using k nc(2) \<open>i + 4 \<le> length k\<close> by (metis add_leE le_neq_implies_less nth_mem add_le_same_cancel1 not_numeral_le_zero)
  qed
  moreover have "name_start k 0 = 0" using k by (simp add: name_start_def str_rfind_None split: option.splits)
  ultimately have "range_before_colons symb 0 = [(0, length k)]"
    using k by (simp add: range_before_colons_def str_get_from_def str_get_def)
  then obtain rs where rs: "crate_name_ranges_in_symbol symb = (0, length k) # rs"
    by (simp add: crate_name_ranges_in_symbol_def name_ranges_from.simps [of symb 0])
  obtain rs' where "remdups_adj ((0, length k) # rs) = (0, length k) # rs'"
    by (metis remdups_adj_Cons_alt)
  moreover have "str_get symb 0 (length k) = Some k" using k by (simp add: str_get_def)
  ultimately show "hd (crate_names_in_symbol symb) = k"
    by (simp add: crate_names_in_symbol_def rs map_filter_simps)
qed

lemma crate_names_sound_witness:
  "crate_names_in_symbol ''<framebuffer::Color as core::fmt::Debug>::fmt'' = [''framebuffer'', ''core'']
   \<and> hd (crate_names_in_symbol ''math::sqrt'') = ''math''"
proof
  show "crate_names_in_symbol ''<framebuffer::Color as core::fmt::Debug>::fmt'' = [''framebuffer'', ''core'']"
    by code_simp
  show "hd (crate_names_in_symbol ''math::sqrt'') = ''math''"
  proof (rule conjunct2 [OF crate_names_sound, THEN spec, THEN spec, THEN mp, of _ _ "''sqrt''"], intro conjI)
    show "\<forall>c \<in> set ''math''. name_char c" by code_simp
  qed simp_all
qed

end
