(* ===== verification/Loader.thy ===== *)
theory Loader
  imports Loader_Names Elf Address_Space
begin

section \<open>The object loader\<close>

text \<open>
  The model of \<^verbatim>\<open>kernel/src/loader.rs\<close>: reading the sections of a relocatable object into kernel
  mappings, the tables of loaded objects and sections, and relocation, which loads further objects on the way.

  An \<^verbatim>\<open>Arc<Mutex<LoadedObject>>\<close> is an index into the list of all objects made so far. A
  \<^verbatim>\<open>LoadedSection\<close> never changes once it is made, so references to it are values, and a
  \<^verbatim>\<open>Weak\<close> reference can be upgraded while a live object holds the section. The mapping of a section does
  not change either; the bytes it maps are in one store, by their address in the kernel.

  Code outside the repository is the record of parameters \<open>loader_env\<close>: the demangler, the order in which
  \<^verbatim>\<open>hashbrown\<close> iterates over a map, and the address at which the heap puts the copy of a file.
  Loading recurses into itself through relocation; the recursion is bounded by fuel, and
  one unit per object the bootloader provides, plus one, is enough (see \<open>load_object_fuel_enough\<close>).
\<close>

subsection \<open>State\<close>

datatype section_kind = Text | Rodata | Data | Bss | TlsData | TlsBss | GccExceptTable | EhFrame

definition SectionKind_name :: "section_kind \<Rightarrow> string" where
  "SectionKind_name k = (case k of Text \<Rightarrow> ''.text'' | Rodata \<Rightarrow> ''.rodata'' | Data \<Rightarrow> ''.data'' | Bss \<Rightarrow> ''.bss''
     | TlsData \<Rightarrow> ''.tdata'' | TlsBss \<Rightarrow> ''.tbss'' | GccExceptTable \<Rightarrow> ''.gcc_except_table'' | EhFrame \<Rightarrow> ''.eh_frame'')"

record loaded_section =
  sec_name :: string
  sec_kind :: section_kind
  sec_global :: bool
  sec_size :: usize
  sec_addr :: address
  sec_mapping :: kernel_mapping
  sec_mapping_offset :: usize
  sec_owner :: nat

record dependency =
  target_section :: loaded_section
  source_section :: loaded_section

definition Dependency_eq :: "dependency \<Rightarrow> dependency \<Rightarrow> bool" where
  "Dependency_eq a b = (sec_name (source_section a) = sec_name (source_section b))"

record loaded_object =
  lo_name :: string
  lo_sections :: "(nat \<times> loaded_section) list"
  lo_global_sections :: "nat list"
  lo_data_sections :: "nat list"
  lo_tls_sections :: "nat list"
  lo_dependencies :: "dependency list"
  lo_executable :: "kernel_mapping option"
  lo_read_only :: "kernel_mapping option"
  lo_read_write :: "kernel_mapping option"

record loader =
  ld_objects :: "(string \<times> nat) list"
  ld_sections :: "(string \<times> loaded_section) list"
  ld_sections_by_addr :: "((address \<times> usize) \<times> loaded_section) list"
  ld_store :: "loaded_object list"
  ld_memory :: kernel_memory
  ld_bytes :: byte_store
  ld_reads :: nat

record loader_env =
  demangle :: "string \<Rightarrow> string"
  demangle_alternate :: "string \<Rightarrow> string"
  sections_order :: "(nat \<times> loaded_section) list \<Rightarrow> (nat \<times> loaded_section) list"
  names_order :: "(string \<times> loaded_section) list \<Rightarrow> (string \<times> loaded_section) list"
  dependencies_order :: "dependency list \<Rightarrow> dependency list"
  vec_addr :: "nat \<Rightarrow> usize"
  root_objects :: "root_object_info list"

definition Loader_new :: "kernel_memory \<Rightarrow> byte_store \<Rightarrow> loader" where
  "Loader_new km m = \<lparr> ld_objects = [], ld_sections = [], ld_sections_by_addr = [], ld_store = [],
     ld_memory = km, ld_bytes = m, ld_reads = 0 \<rparr>"

text \<open>
  An object is alive while the table of objects holds it, and a section while its owner or a live object that
  depends on it does.
\<close>

definition object_alive :: "'z loader_scheme \<Rightarrow> nat \<Rightarrow> bool" where
  "object_alive ld oid = (oid \<in> set (map snd (ld_objects ld)))"

definition section_alive :: "'z loader_scheme \<Rightarrow> loaded_section \<Rightarrow> bool" where
  "section_alive ld sec \<longleftrightarrow> object_alive ld (sec_owner sec)
     \<or> list_ex (\<lambda>oid. oid < length (ld_store ld)
          \<and> list_ex (\<lambda>d. source_section d = sec) (lo_dependencies (ld_store ld ! oid))) (map snd (ld_objects ld))"

definition upgrade_section :: "'z loader_scheme \<Rightarrow> loaded_section \<Rightarrow> loaded_section option" where
  "upgrade_section ld sec = (if section_alive ld sec then Some sec else None)"

subsection \<open>The tables\<close>

definition get_object :: "'z loader_scheme \<Rightarrow> string \<Rightarrow> nat option" where
  "get_object ld name = map_of (ld_objects ld) name"

definition get_section :: "'z loader_scheme \<Rightarrow> string \<Rightarrow> loaded_section option" where
  "get_section ld name = map_of (ld_sections ld) name"

definition get_text_section :: "loader_env \<Rightarrow> 'z loader_scheme \<Rightarrow> string \<Rightarrow> string \<Rightarrow> loaded_section option" where
  "get_text_section env ld pre suf =
     map_option snd (List.find (\<lambda>(name, sec).
       (case upgrade_section ld sec of Some sec \<Rightarrow> sec_kind sec = Text | None \<Rightarrow> False)
       \<and> starts_with name pre \<and> ends_with name suf) (names_order env (ld_sections ld)))"

fun find_for_addr :: "address \<Rightarrow> ((address \<times> usize) \<times> loaded_section) list \<Rightarrow> loaded_section option rust" where
  "find_for_addr addr [] = Some None"
| "find_for_addr addr (((sa, sz), sec) # ss) =
     (if addr \<ge> sa then do {
        e \<leftarrow> Address_add sa sz;
        if addr < e then Some (Some sec) else find_for_addr addr ss
      } else find_for_addr addr ss)"

definition get_section_for_addr :: "'z loader_scheme \<Rightarrow> address \<Rightarrow> loaded_section option rust" where
  "get_section_for_addr ld addr = find_for_addr addr (ld_sections_by_addr ld)"

definition add_alias_to_section :: "string \<Rightarrow> loaded_section \<Rightarrow> 'z loader_scheme \<Rightarrow> 'z loader_scheme" where
  "add_alias_to_section name sec ld = ld\<lparr> ld_sections := AList.update name sec (ld_sections ld) \<rparr>"

text \<open>\<^verbatim>\<open>BTreeMap::insert\<close>: the entries are sorted by address and size.\<close>

fun insert_by_addr :: "address \<times> usize \<Rightarrow> 'a \<Rightarrow> ((address \<times> usize) \<times> 'a) list \<Rightarrow> ((address \<times> usize) \<times> 'a) list" where
  "insert_by_addr k v [] = [(k, v)]"
| "insert_by_addr k v ((k', v') # r) =
     (if k = k' then (k, v) # r
      else if fst k < fst k' \<or> (fst k = fst k' \<and> snd k < snd k') then (k, v) # (k', v') # r
      else (k', v') # insert_by_addr k v r)"

fun add_sections :: "loaded_section list \<Rightarrow> 'z loader_scheme \<Rightarrow> nat \<times> 'z loader_scheme" where
  "add_sections [] ld = (0, ld)"
| "add_sections (sec # secs) ld =
     (let ld = ld\<lparr> ld_sections_by_addr := insert_by_addr (sec_addr sec, sec_size sec) sec (ld_sections_by_addr ld) \<rparr>;
          old = map_of (ld_sections ld) (sec_name sec);
          added = (if sec_global sec \<and> old = None then 1 else 0);
          ld = (if sec_global sec then ld\<lparr> ld_sections := AList.update (sec_name sec) sec (ld_sections ld) \<rparr> else ld);
          (count, ld) = add_sections secs ld
      in (added + count, ld))"

subsection \<open>Allocating the mappings of an object\<close>

record section_mappings =
  sm_executable :: "kernel_mapping option"
  sm_read_only :: "kernel_mapping option"
  sm_read_write :: "kernel_mapping option"

text \<open>The lengths of the executable, the read-only and the writable mapping.\<close>

type_synonym mapping_lens = "usize \<times> usize \<times> usize"

definition is_flag :: "u64 \<Rightarrow> section_header \<Rightarrow> bool" where
  "is_flag flag h \<longleftrightarrow> sh_flags h AND flag = flag"

text \<open>An empty section stands for the one behind it when both have the same offset.\<close>

definition section_or_next :: "elf_file \<Rightarrow> u16 \<Rightarrow> section_header \<Rightarrow> string \<Rightarrow> section_header result" where
  "section_or_next f section_index sec msg = do {
     r \<leftarrow> get_section_header f (section_index + 1);
     Some (case r of Inl _ \<Rightarrow> Inl msg
       | Inr next_section \<Rightarrow> Inr (if sh_file_offset next_section = sh_file_offset sec then next_section else sec))
   }"

definition measure_section :: "elf_file \<Rightarrow> u16 \<Rightarrow> section_header \<Rightarrow> mapping_lens \<Rightarrow> (string, unit, mapping_lens) outcome" where
  "measure_section f section_index sec0 lens =
     (if sh_flags sec0 AND SHF_ALLOC = 0 then Some (Inr (), lens)
      else do {
        name \<leftarrow> SectionHeader_get_name sec0 f;
        sec \<leftarrow> (if sh_size sec0 = 0 \<and> name \<noteq> Inr ''.text''
                then section_or_next f section_index sec0 ''couldn't get next section for a zero-sized section''
                else Some (Inr sec0));
        qbind (Some (sec, lens)) (\<lambda>sec (x, r, w). do {
          let sz = sh_size sec;
          if is_flag SHF_EXECINSTR sec0 then do {
            n \<leftarrow> next_multiple_of sz (sh_align sec);
            Some (Inr (), max x (sh_file_offset sec + n), r, w)
          }
          else if is_flag SHF_TLS sec0 then
            if SectionHeader_get_type sec = Inr ProgBits then do {
              r \<leftarrow> next_multiple_of r (sh_align sec);
              Some (Inr (), x, r + sz, w)
            } else Some (Inr (), x, r, w)
          else if is_flag SHF_WRITE sec0 then do {
            w \<leftarrow> next_multiple_of w (sh_align sec);
            Some (Inr (), x, r, w + sz)
          }
          else do {
            r \<leftarrow> next_multiple_of r (sh_align sec);
            Some (Inr (), x, r + sz, w)
          }
        })
      })"

definition new_mapping :: "string \<Rightarrow> usize \<Rightarrow> pt_flags \<Rightarrow> kernel_memory \<Rightarrow> (kernel_mapping option \<times> kernel_memory) rust" where
  "new_mapping name len flags km =
     (if len > 0 then map_option (\<lambda>(m, km). (Some m, km)) (KernelMapping_new name len flags km) else Some (None, km))"

definition allocate_section_mappings ::
    "string \<Rightarrow> elf_file \<Rightarrow> kernel_memory \<Rightarrow> (string, section_mappings, kernel_memory) outcome" where
  "allocate_section_mappings object_name f km = do {
     (res, x, r, w) \<leftarrow> section_loop f (measure_section f) 0 (0, 0, 0);
     case res of Inl e \<Rightarrow> Some (Inl e, km)
     | Inr _ \<Rightarrow> do {
         let flags = PRESENT OR USER_ACCESSIBLE;
         (xm, km) \<leftarrow> new_mapping (object_name @ ''.x'') x flags km;
         (rm, km) \<leftarrow> new_mapping (object_name @ ''.r'') r (flags OR NO_EXECUTE) km;
         (wm, km) \<leftarrow> new_mapping (object_name @ ''.w'') w (flags OR WRITABLE OR NO_EXECUTE) km;
         Some (Inr \<lparr> sm_executable = xm, sm_read_only = rm, sm_read_write = wm \<rparr>, km)
       }
   }"

subsection \<open>Loading the sections of an object\<close>

text \<open>What the loop over the sections reads, and what it builds.\<close>

record section_context =
  sc_file :: elf_file
  sc_globals :: "nat list"
  sc_mappings :: section_mappings
  sc_owner :: nat
  sc_memory :: kernel_memory
  sc_demangle :: "string \<Rightarrow> string"

record section_build =
  sb_loaded :: "(nat \<times> loaded_section) list"
  sb_data :: "nat list"
  sb_rodata_offset :: usize
  sb_data_offset :: usize
  sb_bytes :: byte_store

text \<open>\<^verbatim>\<open>str::get(n..)\<close>: the index must not exceed the length nor stand inside a character of several bytes.\<close>

definition section_name_from :: "string \<Rightarrow> nat \<Rightarrow> string option" where
  "section_name_from s n =
     (if n = length s \<or> n < length s \<and> of_char (s ! n) div 64 \<noteq> (2 :: nat) then Some (drop n s) else None)"

definition symbol_name_after_prefix :: "string \<Rightarrow> string \<Rightarrow> string + string option" where
  "symbol_name_after_prefix sec_nm pre = (case section_name_from sec_nm (length pre) of
     Some name \<Rightarrow> Inr (Some name)
   | None \<Rightarrow>
       if sec_nm \<in> set [''.text'', ''.rodata'', ''.data'', ''.bss''] then Inr None
       else Inl (''failed to get the '' @ pre @ '' section's name after '' @ [CHR 0x27] @ pre @ [CHR 0x27]))"

definition strip_dot :: "string \<Rightarrow> string" where
  "strip_dot name = (case strip_prefix name ''.'' of Some n \<Rightarrow> n | None \<Rightarrow> name)"

definition make_section ::
    "section_context \<Rightarrow> string \<Rightarrow> section_kind \<Rightarrow> bool \<Rightarrow> usize \<Rightarrow> address \<Rightarrow> kernel_mapping \<Rightarrow> usize \<Rightarrow> loaded_section" where
  "make_section c name kind global sz addr m off = \<lparr> sec_name = name, sec_kind = kind, sec_global = global, sec_size = sz,
     sec_addr = addr, sec_mapping = m, sec_mapping_offset = off, sec_owner = sc_owner c \<rparr>"

text \<open>
  Copying the contents of a section into a mapping. Sections without contents are filled with zeros, where
  the caller allows it.
\<close>

definition copy_section ::
    "section_context \<Rightarrow> kernel_mapping \<Rightarrow> usize \<Rightarrow> section_header \<Rightarrow> bool \<Rightarrow> string \<Rightarrow> section_build
     \<Rightarrow> (string, unit, section_build) outcome" where
  "copy_section c m off sec allow_empty msg st = do {
     (a, len) \<leftarrow> KernelMapping_as_slice_mut m (sc_memory c) off (sh_size sec);
     data \<leftarrow> SectionHeader_get_data sec (sc_file c);
     case data of
       Inr (UndefinedData d) \<Rightarrow> do {
         rust_assert (length (sl_bytes d) = unat len);
         Some (Inr (), st\<lparr> sb_bytes := write_bytes a (sl_bytes d) (sb_bytes st) \<rparr>)
       }
     | Inr EmptyData \<Rightarrow>
         if allow_empty then Some (Inr (), st\<lparr> sb_bytes := write_bytes a (replicate (unat len) 0) (sb_bytes st) \<rparr>)
         else Some (Inl msg, st)
     | _ \<Rightarrow> Some (Inl msg, st)
   }"

definition load_text :: "section_context \<Rightarrow> nat \<Rightarrow> string \<Rightarrow> section_header \<Rightarrow> section_build \<Rightarrow> (string, unit, section_build) outcome" where
  "load_text c i sec_nm sec st =
     (case sm_executable (sc_mappings c) of
        None \<Rightarrow> Some (Inr (), st)
      | Some m \<Rightarrow> do {
          let is_global = (i \<in> set (sc_globals c));
          qbind (Some (symbol_name_after_prefix sec_nm ''.text.'', st)) (\<lambda>no st.
            case no of None \<Rightarrow> Some (Inr (), st)
            | Some name \<Rightarrow> do {
                let name = strip_dot name;
                let name = (if is_global \<and> starts_with name ''unlikely.'' then drop 9 name else name);
                let text_offset = sh_file_offset sec;
                addr \<leftarrow> Address_add (KernelMapping_addr m) text_offset;
                Some (Inr (), st\<lparr> sb_loaded := sb_loaded st
                  @ [(i, make_section c (sc_demangle c name) Text is_global (sh_size sec) addr m text_offset)] \<rparr>)
              })
        })"

definition load_tls :: "section_context \<Rightarrow> nat \<Rightarrow> string \<Rightarrow> section_header \<Rightarrow> section_build \<Rightarrow> (string, unit, section_build) outcome" where
  "load_tls c i sec_nm sec st =
     (case sm_read_only (sc_mappings c) of
        None \<Rightarrow> Some (Inr (), st)
      | Some m \<Rightarrow> do {
          let is_bss = (SectionHeader_get_type sec = Inr NoBits);
          qbind (Some (symbol_name_after_prefix sec_nm (if is_bss then ''.tbss.'' else ''.tdata.''), st)) (\<lambda>no st.
            case no of None \<Rightarrow> Some (Inr (), st)
            | Some name \<Rightarrow> do {
                off \<leftarrow> next_multiple_of (sb_rodata_offset st) (sh_align sec);
                qbind (if is_bss then Some (Inr (), st)
                       else copy_section c m off sec False ''couldn't get data for `.tdata` section'' st) (\<lambda>_ st.
                  Some (Inl ''TODO: TLS section initialization'', st))
              })
        })"

definition load_data :: "section_context \<Rightarrow> nat \<Rightarrow> string \<Rightarrow> section_header \<Rightarrow> section_build \<Rightarrow> (string, unit, section_build) outcome" where
  "load_data c i sec_nm sec st =
     (case sm_read_write (sc_mappings c) of
        None \<Rightarrow> Some (Inr (), st)
      | Some m \<Rightarrow> do {
          let is_bss = (SectionHeader_get_type sec = Inr NoBits);
          qbind (Some (symbol_name_after_prefix sec_nm (if is_bss then ''.bss.'' else ''.data.''), st)) (\<lambda>no st.
            case no of None \<Rightarrow> Some (Inr (), st)
            | Some name \<Rightarrow> do {
                let name = strip_dot name;
                off \<leftarrow> next_multiple_of (sb_data_offset st) (sh_align sec);
                rust_assert (off < kmap_size m);
                addr \<leftarrow> Address_add (KernelMapping_addr m) off;
                qbind (copy_section c m off sec True ''couldn't get data for `.data` section'' st) (\<lambda>_ st.
                  Some (Inr (), st\<lparr> sb_loaded := sb_loaded st
                      @ [(i, make_section c (sc_demangle c name) (if is_bss then Bss else Data) (i \<in> set (sc_globals c))
                            (sh_size sec) addr m off)],
                    sb_data := sb_data st @ [i], sb_data_offset := off + sh_size sec \<rparr>))
              })
        })"

text \<open>The four kinds of sections that go to the read-only mapping differ in their name, kind and error.\<close>

definition load_read_only ::
    "section_context \<Rightarrow> nat \<Rightarrow> string + (string \<times> section_kind \<times> bool) option \<Rightarrow> string
     \<Rightarrow> section_header \<Rightarrow> section_build \<Rightarrow> (string, unit, section_build) outcome" where
  "load_read_only c i descr msg sec st =
     (case sm_read_only (sc_mappings c) of
        None \<Rightarrow> Some (Inr (), st)
      | Some m \<Rightarrow>
          qbind (Some (descr, st)) (\<lambda>no st.
            case no of None \<Rightarrow> Some (Inr (), st)
            | Some (name, kind, is_global) \<Rightarrow> do {
                off \<leftarrow> next_multiple_of (sb_rodata_offset st) (sh_align sec);
                rust_assert (off < kmap_size m);
                addr \<leftarrow> Address_add (KernelMapping_addr m) off;
                qbind (copy_section c m off sec True msg st) (\<lambda>_ st.
                  Some (Inr (), st\<lparr> sb_loaded := sb_loaded st
                      @ [(i, make_section c name kind is_global (sh_size sec) addr m off)],
                    sb_rodata_offset := off + sh_size sec \<rparr>))
              }))"

definition load_rodata :: "section_context \<Rightarrow> nat \<Rightarrow> string \<Rightarrow> section_header \<Rightarrow> section_build \<Rightarrow> (string, unit, section_build) outcome" where
  "load_rodata c i sec_nm = load_read_only c i
     (map_sum id (map_option (\<lambda>name. (sc_demangle c name, Rodata, i \<in> set (sc_globals c))))
       (symbol_name_after_prefix sec_nm ''.rodata.'')) ''couldn't get data for `.rodata` section''"

definition load_lrodata :: "section_context \<Rightarrow> nat \<Rightarrow> string \<Rightarrow> section_header \<Rightarrow> section_build \<Rightarrow> (string, unit, section_build) outcome" where
  "load_lrodata c i sec_nm = load_read_only c i
     (map_sum id (map_option (\<lambda>name. (sc_demangle c (strip_dot name), Rodata, i \<in> set (sc_globals c))))
       (symbol_name_after_prefix sec_nm ''.lrodata.'')) ''couldn't get data for `.lrodata` section''"

definition load_gcc_except_table :: "section_context \<Rightarrow> nat \<Rightarrow> section_header \<Rightarrow> section_build \<Rightarrow> (string, unit, section_build) outcome" where
  "load_gcc_except_table c i = load_read_only c i
     (Inr (Some (SectionKind_name GccExceptTable, GccExceptTable, False))) ''couldn't get data for `.gcc_except_table` section''"

definition load_eh_frame :: "section_context \<Rightarrow> nat \<Rightarrow> section_header \<Rightarrow> section_build \<Rightarrow> (string, unit, section_build) outcome" where
  "load_eh_frame c i = load_read_only c i
     (Inr (Some (SectionKind_name EhFrame, EhFrame, False))) ''couldn't get data for `.eh_frame` section''"

definition load_section_kind ::
    "section_context \<Rightarrow> nat \<Rightarrow> string \<Rightarrow> section_header \<Rightarrow> section_header \<Rightarrow> section_build \<Rightarrow> (string, unit, section_build) outcome" where
  "load_section_kind c i sec_nm sec0 sec st =
     (let is_write = is_flag SHF_WRITE sec0 in
      if is_flag SHF_EXECINSTR sec0 \<and> \<not> is_write then load_text c i sec_nm sec st
      else if is_flag SHF_TLS sec0 then load_tls c i sec_nm sec st
      else if is_write then load_data c i sec_nm sec st
      else if starts_with sec_nm ''.rodata'' then load_rodata c i sec_nm sec st
      else if starts_with sec_nm ''.lrodata'' then load_lrodata c i sec_nm sec st
      else if starts_with sec_nm ''.gcc_except_table'' then load_gcc_except_table c i sec st
      else if sec_nm = ''.eh_frame'' then load_eh_frame c i sec st
      else Some (Inl ''encountered unhandled section'', st))"

definition load_section :: "section_context \<Rightarrow> u16 \<Rightarrow> section_header \<Rightarrow> section_build \<Rightarrow> (string, unit, section_build) outcome" where
  "load_section c section_index sec0 st =
     (if sh_flags sec0 AND SHF_ALLOC = 0 then Some (Inr (), st)
      else do {
        nameR \<leftarrow> SectionHeader_get_name sec0 (sc_file c);
        qbind (Some (nameR, st)) (\<lambda>sec_nm st. do {
          secR \<leftarrow> (if sh_size sec0 = 0
                   then section_or_next (sc_file c) section_index sec0 ''couldn't get the section following a zero-sized section''
                   else Some (Inr sec0));
          qbind (Some (secR, st)) (\<lambda>sec st. load_section_kind c (unat section_index) sec_nm sec0 sec st)
        })
      })"

text \<open>The sections that define a global function, object or thread-local variable.\<close>

definition global_section_indices :: "symbol_table_entry list \<Rightarrow> nat list" where
  "global_section_indices symtab = fold (\<lambda>entry globals.
     if Symbol_get_binding entry = Inr Global
        \<and> (Symbol_get_type entry = Inr Func \<or> Symbol_get_type entry = Inr ObjectType \<or> Symbol_get_type entry = Inr Tls)
     then List.insert (unat (st_shndx entry)) globals else globals) symtab []"

text \<open>
  What a load in progress changes: the loader, the address space the object is loaded into and the page its next mapping
  is placed at. The set \<open>mappings\<close> of mapped addresses belongs to the load of one object.
\<close>

record loading = loader +
  ln_space :: address_space
  ln_page :: page

type_synonym addresses = "address list"

definition place_mapping ::
    "kernel_mapping option \<Rightarrow> addresses \<times> loading \<Rightarrow> (addresses \<times> loading) rust" where
  "place_mapping mo s = (case (mo, s) of
     (None, s) \<Rightarrow> Some s
   | (Some m, mappings, ln) \<Rightarrow> do {
       pages \<leftarrow> PageRange_from_start_len (ln_page ln) (PageRange_len (kmap_pages m));
       let mappings = List.insert (KernelMapping_addr m) mappings;
       (r, sp, km) \<leftarrow> KernelMapping_map_into m (ln_space ln) pages (PRESENT OR USER_ACCESSIBLE) (ld_memory ln);
       rust_assert (r = Inr ());
       Some (mappings, ln\<lparr> ln_space := sp, ld_memory := km, ln_page := pr_end pages \<rparr>)
     })"

definition copy_text :: "kernel_mapping option \<Rightarrow> elf_file \<Rightarrow> loading \<Rightarrow> (string, unit, loading) outcome" where
  "copy_text mo f ln = (case mo of
     None \<Rightarrow> Some (Inr (), ln)
   | Some m \<Rightarrow>
       if unat (kmap_size m) \<le> length (sl_bytes (elf_input f)) then do {
         (a, len) \<leftarrow> KernelMapping_as_slice_mut m (ld_memory ln) 0 (kmap_size m);
         Some (Inr (), ln\<lparr> ld_bytes := write_bytes a (take (unat len) (sl_bytes (elf_input f))) (ld_bytes ln) \<rparr>)
       }
       else Some (Inl ''end of last `.text` section was miscalculated to be beyond ELF file bounds'', ln))"

definition load_object_sections ::
    "loader_env \<Rightarrow> string \<Rightarrow> slice \<Rightarrow> addresses \<times> loading \<Rightarrow> (string, nat \<times> elf_file, addresses \<times> loading) outcome" where
  "load_object_sections env object_name object_bytes s = do {
     fr \<leftarrow> ElfFile_new object_bytes;
     qbind (Some (fr, s)) (\<lambda>f s.
       if Header_get_type (elf_header f) \<noteq> Relocatable then Some (Inl ''not a relocatable ELF file'', s)
       else do {
         (mr, km) \<leftarrow> allocate_section_mappings object_name f (ld_memory (snd s));
         qbind (Some (mr, fst s, (snd s)\<lparr> ld_memory := km \<rparr>)) (\<lambda>sm s. do {
           s \<leftarrow> place_mapping (sm_executable sm) s;
           s \<leftarrow> place_mapping (sm_read_only sm) s;
           s \<leftarrow> place_mapping (sm_read_write sm) s;
           (tr, ln) \<leftarrow> copy_text (sm_executable sm) f (snd s);
           qbind (Some (tr, fst s, ln)) (\<lambda>_ (mappings, ln). do {
             symr \<leftarrow> get_symbol_table f;
             qbind (Some (symr, mappings, ln)) (\<lambda>symtab (mappings, ln). do {
               let globals = global_section_indices symtab;
               let oid = length (ld_store ln);
               let c = \<lparr> sc_file = f, sc_globals = globals, sc_mappings = sm, sc_owner = oid,
                 sc_memory = ld_memory ln, sc_demangle = demangle_alternate env \<rparr>;
               (res, st) \<leftarrow> section_loop f (load_section c) 0 \<lparr> sb_loaded = [], sb_data = [], sb_rodata_offset = 0,
                 sb_data_offset = 0, sb_bytes = ld_bytes ln \<rparr>;
               let ln = ln\<lparr> ld_bytes := sb_bytes st \<rparr>;
               qbind (Some (res, mappings, ln)) (\<lambda>_ (mappings, ln).
                 Some (Inr (oid, f), mappings, ln\<lparr> ld_store := ld_store ln @ [\<lparr> lo_name = demangle env object_name,
                   lo_sections = sb_loaded st, lo_global_sections = globals, lo_data_sections = sb_data st,
                   lo_tls_sections = [], lo_dependencies = [], lo_executable = sm_executable sm,
                   lo_read_only = sm_read_only sm, lo_read_write = sm_read_write sm \<rparr>] \<rparr>))
             })
           })
         })
       })
   }"

subsection \<open>Mapping dependencies\<close>

text \<open>
  The mappings of an object the loaded one depends on, and of what that depends on in turn. Each object stays locked
  while its dependencies are visited: an owner that is gone panics, and one that is locked already spins
  for ever, so the recursion visits an object at most once on a path.
\<close>

definition map_dependency_mapping :: "kernel_mapping option \<Rightarrow> addresses \<times> loading \<Rightarrow> (addresses \<times> loading) rust" where
  "map_dependency_mapping mo s = (case (mo, s) of
     (None, s) \<Rightarrow> Some s
   | (Some m, mappings, ln) \<Rightarrow>
       if KernelMapping_addr m \<in> set mappings then Some s
       else do {
         (_, sp, km) \<leftarrow> KernelMapping_map_into m (ln_space ln) (kmap_pages m) (kmap_flags m) (ld_memory ln);
         Some (List.insert (KernelMapping_addr m) mappings, ln\<lparr> ln_space := sp, ld_memory := km \<rparr>)
       })"

definition map_dependency_mappings :: "string \<Rightarrow> loaded_object \<Rightarrow> addresses \<times> loading \<Rightarrow> (addresses \<times> loading) rust" where
  "map_dependency_mappings object_name dependency s = do {
     rust_assert (object_name \<noteq> lo_name dependency);
     s \<leftarrow> map_dependency_mapping (lo_executable dependency) s;
     s \<leftarrow> map_dependency_mapping (lo_read_only dependency) s;
     map_dependency_mapping (lo_read_write dependency) s
   }"

definition dependency_owners :: "loader_env \<Rightarrow> loaded_object \<Rightarrow> nat list" where
  "dependency_owners env ob = map (\<lambda>d. sec_owner (source_section d)) (dependencies_order env (lo_dependencies ob))"

function map_dependency_sections ::
    "loader_env \<Rightarrow> loaded_object list \<Rightarrow> (nat \<Rightarrow> bool) \<Rightarrow> nat list \<Rightarrow> string \<Rightarrow> nat list \<Rightarrow> addresses \<times> loading
     \<Rightarrow> (addresses \<times> loading) rust" where
  "map_dependency_sections env store alive locked nm [] s = Some s"
| "map_dependency_sections env store alive locked nm (oid # oids) s =
     (if alive oid \<and> oid \<notin> set locked \<and> oid < length store then do {
        s \<leftarrow> map_dependency_mappings nm (store ! oid) s;
        s \<leftarrow> map_dependency_sections env store alive (oid # locked) nm (dependency_owners env (store ! oid)) s;
        map_dependency_sections env store alive locked nm oids s
      } else None)"
  by pat_completeness auto
termination
proof (relation "measures [\<lambda>(env, store, alive, locked, nm, oids, s). card ({..<length store} - set locked),
    \<lambda>(env, store, alive, locked, nm, oids, s). length oids]")
  fix env :: loader_env and store :: "loaded_object list" and alive locked nm oids s x and oid :: nat
  assume "alive oid \<and> oid \<notin> set locked \<and> oid < length store"
  then have "{..<length store} - set (oid # locked) \<subset> {..<length store} - set locked" by auto
  then have "card ({..<length store} - set (oid # locked)) < card ({..<length store} - set locked)"
    by (intro psubset_card_mono) simp_all
  then show "((env, store, alive, oid # locked, nm, dependency_owners env (store ! oid), x),
      env, store, alive, locked, nm, oid # oids, s) \<in>
    measures [\<lambda>(env, store, alive, locked, nm, oids, s). card ({..<length store} - set locked),
      \<lambda>(env, store, alive, locked, nm, oids, s). length oids]"
    by simp
qed simp_all

definition map_dependency ::
    "loader_env \<Rightarrow> nat list \<Rightarrow> nat \<Rightarrow> loaded_section \<Rightarrow> addresses \<times> loading \<Rightarrow> (addresses \<times> loading) rust" where
  "map_dependency env locked oid sec s =
     (let ln = snd s in
      map_dependency_sections env (ld_store ln) (object_alive ln) locked (lo_name (ld_store ln ! oid)) [sec_owner sec] s)"

definition AUTO_MAP_DEPENDENCIES :: bool where "AUTO_MAP_DEPENDENCIES = False"

subsection \<open>Relocation\<close>

definition R_X86_64_64 :: u32 where "R_X86_64_64 = 1"
definition R_X86_64_PC32 :: u32 where "R_X86_64_PC32 = 2"
definition R_X86_64_PLT32 :: u32 where "R_X86_64_PLT32 = 4"
definition R_X86_64_32 :: u32 where "R_X86_64_32 = 10"
definition R_X86_64_32S :: u32 where "R_X86_64_32S = 11"
definition R_X86_64_PC64 :: u32 where "R_X86_64_PC64 = 24"

text \<open>The target slice is given by the address it starts at and its length.\<close>

definition write_relocation ::
    "rela \<Rightarrow> address \<times> usize \<Rightarrow> usize \<Rightarrow> address \<Rightarrow> byte_store \<Rightarrow> (string, unit, byte_store) outcome" where
  "write_relocation relocation_entry target_slice target_offset source_addr m =
     (let t = Rela_get_type relocation_entry; stop = target_offset + 8; target_ref = fst target_slice + target_offset in
      if t = R_X86_64_64 then do {
        rust_assert (target_offset \<le> stop \<and> stop \<le> snd target_slice);
        let source_value = source_addr + rela_addend relocation_entry;
        Some (Inr (), write_bytes target_ref (to_le_bytes source_value) m)
      }
      else if t = R_X86_64_PC64 then do {
        rust_assert (target_offset \<le> stop \<and> stop \<le> snd target_slice);
        let source_value = source_addr + rela_addend relocation_entry - target_ref;
        Some (Inr (), write_bytes target_ref (to_le_bytes source_value) m)
      }
      else if t = R_X86_64_32 \<or> t = R_X86_64_32S \<or> t = R_X86_64_PC32 \<or> t = R_X86_64_PLT32
      then Some (Inl ''32-bit relocations are not supported'', m)
      else Some (Inl ''unsupported relocation type'', m))"

text \<open>Loading one object; a parameter of the operations that may load another.\<close>

type_synonym load_fn = "string \<Rightarrow> slice \<Rightarrow> loading \<Rightarrow> (string, nat, loading) outcome"

text \<open>The symbols whose references are redirected to another symbol.\<close>

definition redirected :: "string \<Rightarrow> string option" where
  "redirected name =
     (if name = ''<usize as core::fmt::Display>::fmt'' then Some ''<u64 as core::fmt::Display>::fmt''
      else if name = ''<u64 as core::fmt::LowerHex>::fmt'' then Some ''<usize as core::fmt::LowerHex>::fmt''
      else if name = ''<u64 as core::fmt::UpperHex>::fmt'' then Some ''<usize as core::fmt::UpperHex>::fmt''
      else None)"

fun load_crates :: "loader_env \<Rightarrow> load_fn \<Rightarrow> string \<Rightarrow> string list \<Rightarrow> loading \<Rightarrow> (string, loaded_section, loading) outcome" where
  "load_crates env load name [] ln = Some (Inl ''section not found'', ln)"
| "load_crates env load name (object_name # object_names) ln =
     (if get_object ln object_name \<noteq> None then load_crates env load name object_names ln
      else do {
        r \<leftarrow> read_object (root_objects env) (ld_bytes ln) (vec_addr env (ld_reads ln)) object_name;
        qbind (Some (r, ln\<lparr> ld_reads := ld_reads ln + 1 \<rparr>)) (\<lambda>bytes ln.
          qbind (load object_name bytes ln) (\<lambda>_ ln.
            case map_of (ld_sections ln) name of
              Some sec \<Rightarrow> Some (Inr sec, ln)
            | None \<Rightarrow> load_crates env load name object_names ln))
      })"

definition get_or_load_section ::
    "loader_env \<Rightarrow> load_fn \<Rightarrow> string \<Rightarrow> loading \<Rightarrow> (string, loaded_section, loading) outcome" where
  "get_or_load_section env load name ln =
     (case map_of (ld_sections ln) name of
        Some sec \<Rightarrow> Some (Inr sec, ln)
      | None \<Rightarrow>
          (case redirected name of
             Some ref_name \<Rightarrow> do {
               sec \<leftarrow> map_of (ld_sections ln) ref_name;
               Some (Inr sec, add_alias_to_section name sec ln)
             }
           | None \<Rightarrow> load_crates env load name (crate_names_in_symbol name) ln))"

text \<open>\<^verbatim>\<open>HashSet::insert\<close>: an equal dependency that is present stays.\<close>

definition insert_dependency :: "dependency \<Rightarrow> dependency list \<Rightarrow> dependency list" where
  "insert_dependency d ds = (if list_ex (Dependency_eq d) ds then ds else ds @ [d])"

text \<open>
  The section a relocation entry refers to: one of the object itself, or one of another object, which
  becomes a dependency. The result is None when the entry is skipped.
\<close>

definition source_of_entry ::
    "loader_env \<Rightarrow> load_fn \<Rightarrow> nat list \<Rightarrow> elf_file \<Rightarrow> nat \<Rightarrow> symbol_table_entry \<Rightarrow> loaded_section \<Rightarrow> addresses \<times> loading
     \<Rightarrow> (string, loaded_section option, addresses \<times> loading) outcome" where
  "source_of_entry env load locked f oid source_entry target s =
     (case map_of (lo_sections (ld_store (snd s) ! oid)) (unat (st_shndx source_entry)) of
        Some sec \<Rightarrow> Some (Inr (Some sec), s)
      | None \<Rightarrow> do {
          nr \<leftarrow> Symbol_get_name source_entry f;
          case nr of
            Inl _ \<Rightarrow> Some (Inl ''couldn't get name of source section'', s)
          | Inr name \<Rightarrow> do {
              let name = (if starts_with name ''.data.rel.ro.'' then drop 13 name else name);
              (r, ln) \<leftarrow> get_or_load_section env load (demangle_alternate env name) (snd s);
              case r of
                Inl error \<Rightarrow>
                  if str_contains (sec_name target) ''f16'' then Some (Inr None, fst s, ln)
                  else Some (Inl error, fst s, ln)
              | Inr weak \<Rightarrow>
                  (case upgrade_section ln weak of
                     None \<Rightarrow> Some (Inl ''couldn't upgrade section reference for relocation entry'', fst s, ln)
                   | Some sec \<Rightarrow> do {
                       let ob = ld_store ln ! oid;
                       let ob = ob\<lparr> lo_dependencies := insert_dependency
                         \<lparr> target_section = target, source_section = sec \<rparr> (lo_dependencies ob) \<rparr>;
                       let ln = ln\<lparr> ld_store := (ld_store ln)[oid := ob] \<rparr>;
                       s \<leftarrow> (if AUTO_MAP_DEPENDENCIES then map_dependency env locked oid sec (fst s, ln) else Some (fst s, ln));
                       Some (Inr (Some sec), s)
                     })
            }
        })"

definition relocate_entry ::
    "loader_env \<Rightarrow> load_fn \<Rightarrow> nat list \<Rightarrow> elf_file \<Rightarrow> nat \<Rightarrow> symbol_table_entry list \<Rightarrow> loaded_section \<Rightarrow> address \<times> usize
     \<Rightarrow> rela \<Rightarrow> addresses \<times> loading \<Rightarrow> (string, unit, addresses \<times> loading) outcome" where
  "relocate_entry env load locked f oid symbol_table target target_slice rela_entry s = do {
     let i = unat (Rela_get_symbol_table_index rela_entry);
     rust_assert (i < length symbol_table);
     let source_entry = symbol_table ! i;
     qbind (source_of_entry env load locked f oid source_entry target s) (\<lambda>source s.
       case source of
         None \<Rightarrow> Some (Inr (), s)
       | Some src \<Rightarrow> do {
           let target_offset = sec_mapping_offset target + rela_offset rela_entry;
           addr \<leftarrow> Address_add (sec_addr src) (st_value source_entry);
           (r, m) \<leftarrow> write_relocation rela_entry target_slice target_offset addr (ld_bytes (snd s));
           Some (r, fst s, (snd s)\<lparr> ld_bytes := m \<rparr>)
         })
   }"

fun relocate_entries ::
    "loader_env \<Rightarrow> load_fn \<Rightarrow> nat list \<Rightarrow> elf_file \<Rightarrow> nat \<Rightarrow> symbol_table_entry list \<Rightarrow> loaded_section \<Rightarrow> address \<times> usize
     \<Rightarrow> rela list \<Rightarrow> addresses \<times> loading \<Rightarrow> (string, unit, addresses \<times> loading) outcome" where
  "relocate_entries env load locked f oid symtab target tslice [] s = Some (Inr (), s)"
| "relocate_entries env load locked f oid symtab target tslice (r # rs) s =
     qbind (relocate_entry env load locked f oid symtab target tslice r s)
       (\<lambda>_ s. relocate_entries env load locked f oid symtab target tslice rs s)"

definition relocate_section ::
    "loader_env \<Rightarrow> load_fn \<Rightarrow> nat list \<Rightarrow> elf_file \<Rightarrow> nat \<Rightarrow> symbol_table_entry list \<Rightarrow> u16 \<Rightarrow> section_header
     \<Rightarrow> addresses \<times> loading \<Rightarrow> (string, unit, addresses \<times> loading) outcome" where
  "relocate_section env load locked f oid symtab i sec s =
     (if \<not> (SectionHeader_get_type sec = Inr RelaSection \<and> sh_size sec \<noteq> 0) then Some (Inr (), s)
      else do {
        data \<leftarrow> SectionHeader_get_data sec f;
        case data of
          Inr (RelaData rela_array) \<Rightarrow>
            (case map_of (lo_sections (ld_store (snd s) ! oid)) (unat (sh_info sec)) of
               None \<Rightarrow> Some (Inl ''target section was not loaded for `rela` section'', s)
             | Some target \<Rightarrow> do {
                 target_slice \<leftarrow> KernelMapping_as_slice_mut (sec_mapping target) (ld_memory (snd s)) 0
                   (sec_mapping_offset target + sec_size target);
                 relocate_entries env load locked f oid symtab target target_slice rela_array s
               })
        | _ \<Rightarrow> Some (Inl ''found `rela` section that wasn't able to be parsed'', s)
      })"

definition relocate_object_sections ::
    "loader_env \<Rightarrow> load_fn \<Rightarrow> nat list \<Rightarrow> elf_file \<Rightarrow> nat \<Rightarrow> addresses \<times> loading \<Rightarrow> (string, unit, addresses \<times> loading) outcome" where
  "relocate_object_sections env load locked f oid s = do {
     symr \<leftarrow> get_symbol_table f;
     qbind (Some (symr, s)) (\<lambda>symtab s. section_loop f (relocate_section env load locked f oid symtab) 0 s)
   }"

subsection \<open>Loading an object\<close>

definition register_object :: "loader_env \<Rightarrow> string \<Rightarrow> nat \<Rightarrow> loading \<Rightarrow> loading" where
  "register_object env object_name oid ln =
     (let ln = snd (add_sections (map snd (sections_order env (lo_sections (ld_store ln ! oid)))) ln)
      in ln\<lparr> ld_objects := AList.update object_name oid (ld_objects ln) \<rparr>)"

text \<open>
  The body of \<^verbatim>\<open>load_object_impl\<close>, given the function for the nested calls; the list holds the objects whose locks are held.
\<close>

definition load_object_step :: "loader_env \<Rightarrow> (nat list \<Rightarrow> load_fn) \<Rightarrow> nat list \<Rightarrow> load_fn" where
  "load_object_step env nested locked object_name object_bytes ln = do {
     (r, mappings, ln) \<leftarrow> load_object_sections env object_name object_bytes ([], ln);
     qbind (Some (r, ln)) (\<lambda>(oid, f) ln. do {
       (rr, mappings, ln) \<leftarrow> relocate_object_sections env (nested (oid # locked)) (oid # locked) f oid
         (mappings, register_object env object_name oid ln);
       Some (map_sum id (\<lambda>_. oid) rr, ln)
     })
   }"

primrec load_object_impl :: "nat \<Rightarrow> loader_env \<Rightarrow> nat list \<Rightarrow> load_fn" where
  "load_object_impl 0 env = (\<lambda>locked object_name object_bytes ln. None)"
| "load_object_impl (Suc fuel) env = load_object_step env (load_object_impl fuel env)"

definition load_object :: "loader_env \<Rightarrow> string \<Rightarrow> loading \<Rightarrow> (string, nat, loading) outcome" where
  "load_object env object_name ln = do {
     r \<leftarrow> read_object (root_objects env) (ld_bytes ln) (vec_addr env (ld_reads ln)) object_name;
     qbind (Some (r, ln\<lparr> ld_reads := ld_reads ln + 1 \<rparr>)) (\<lambda>bytes ln.
       load_object_impl (Suc (length (root_objects env))) env [] object_name bytes ln)
   }"

subsection \<open>Initialization\<close>

definition with_address_space :: "address_space \<Rightarrow> page \<Rightarrow> loader \<Rightarrow> loading" where
  "with_address_space sp p ld = loader.extend ld (loading.fields sp p)"

text \<open>
  \<^verbatim>\<open>load_object(name, &AddressSpace::new(..), page).unwrap()\<close>: the address space is dropped at the end of the
  statement.
\<close>

definition load_initial :: "loader_env \<Rightarrow> string \<Rightarrow> string \<Rightarrow> loader \<Rightarrow> (nat \<times> loader) rust" where
  "load_initial env object_name space_name ld = do {
     (sp, km) \<leftarrow> AddressSpace_new space_name None (ld_memory ld);
     let start_page = Page_containing_addr (Address_from_table_indices USER_HEAP_L4_INDEX 0 0 0);
     (r, ln) \<leftarrow> load_object env object_name (with_address_space sp start_page (ld\<lparr> ld_memory := km \<rparr>));
     oid \<leftarrow> (case r of Inl _ \<Rightarrow> panic | Inr oid \<Rightarrow> Some oid);
     km \<leftarrow> AddressSpace_drop (ln_space ln) (ld_memory ln);
     Some (oid, (loader.truncate ln)\<lparr> ld_memory := km \<rparr>)
   }"

fun alias_symbols :: "loader_env \<Rightarrow> nat \<Rightarrow> string list \<Rightarrow> loader \<Rightarrow> loader rust" where
  "alias_symbols env oid [] ld = Some ld"
| "alias_symbols env oid (name # names) ld = do {
     sec \<leftarrow> List.find (\<lambda>sec. sec_name sec = name) (map snd (sections_order env (lo_sections (ld_store ld ! oid))));
     alias_symbols env oid names (add_alias_to_section name sec ld)
   }"

definition FUNDAMENTAL_SYMBOLS :: "string list" where
  "FUNDAMENTAL_SYMBOLS = [''fmaxf'', ''fminf'', ''memcmp'', ''memcpy'', ''memmove'', ''memset'', ''strlen'', ''__addsf3'',
     ''__divsf3'', ''__divdf3'', ''__eqsf2'', ''__extendhfsf2'', ''__fixsfsi'', ''__fixunssfdi'', ''__floatdidf'',
     ''__floatdisf'', ''__floatsisf'', ''__floatundisf'', ''__gedf2'', ''__gesf2'', ''__gtsf2'', ''__ltdf2'', ''__muldf3'',
     ''__mulsf3'', ''__nedf2'', ''__nesf2'', ''__subsf3'', ''__truncsfhf2'', ''__udivti3'', ''__umodti3'', ''__unordsf2'']"

definition init_fundamental_symbols :: "loader_env \<Rightarrow> loader \<Rightarrow> loader rust" where
  "init_fundamental_symbols env ld = do {
     (_, ld) \<leftarrow> load_initial env ''hardware'' ''load_hardware'' ld;
     (_, ld) \<leftarrow> load_initial env ''panic'' ''load_panic'' ld;
     (oid, ld) \<leftarrow> load_initial env ''lang'' ''load_fundamental'' ld;
     alias_symbols env oid FUNDAMENTAL_SYMBOLS ld
   }"

text \<open>Setting an integer of eight bytes that is zero so far: what every use of \<^verbatim>\<open>with_symbol_value\<close> does.\<close>

definition with_symbol_value :: "string \<Rightarrow> u64 \<Rightarrow> loader \<Rightarrow> loader rust" where
  "with_symbol_value name v ld = do {
     weak \<leftarrow> get_section ld name;
     sec \<leftarrow> upgrade_section ld weak;
     a \<leftarrow> KernelMapping_as_mut (sec_mapping sec) 8 (sec_mapping_offset sec);
     rust_assert (from_le_bytes (read_bytes (ld_bytes ld) a 8) = (0 :: u64));
     Some (ld\<lparr> ld_bytes := write_bytes a (to_le_bytes v) (ld_bytes ld) \<rparr>)
   }"

definition init_loader :: "loader_env \<Rightarrow> boot_info \<Rightarrow> u64 \<Rightarrow> u64 \<Rightarrow> loader \<Rightarrow> loader rust" where
  "init_loader env boot_info tsc_frequency_khz tsc_period_fs ld = do {
     let env = env\<lparr> root_objects := root_object_map boot_info \<rparr>;
     let di = display_info boot_info;
     ld \<leftarrow> init_fundamental_symbols env ld;
     (math_object, ld) \<leftarrow> load_initial env ''math'' ''load_math'' ld;
     ld \<leftarrow> alias_symbols env math_object [''__ltsf2'', ''__lesf2''] ld;
     (_, ld) \<leftarrow> load_initial env ''time'' ''load_time'' ld;
     (_, ld) \<leftarrow> load_initial env ''framebuffer'' ''load_framebuffer'' ld;
     (_, ld) \<leftarrow> load_initial env ''heap'' ''load_heap'' ld;
     ld \<leftarrow> with_symbol_value ''hardware::TSC_FREQUENCY_KHZ'' tsc_frequency_khz ld;
     ld \<leftarrow> with_symbol_value ''hardware::TSC_PERIOD_FS'' tsc_period_fs ld;
     ld \<leftarrow> with_symbol_value ''framebuffer::FRAMEBUFFER_ADDR'' (framebuffer_addr di) ld;
     ld \<leftarrow> with_symbol_value ''framebuffer::FRAMEBUFFER_SIZE'' (framebuffer_size di) ld;
     ld \<leftarrow> with_symbol_value ''framebuffer::FRAMEBUFFER_WIDTH'' (ucast (di_stride di)) ld;
     with_symbol_value ''framebuffer::FRAMEBUFFER_HEIGHT'' (ucast (di_height di)) ld
   }"

end
