(* ===== verification/Loader_Props.thy ===== *)
theory Loader_Props
  imports Loader
begin

section \<open>Properties of the loader\<close>

text \<open>
  Three groups of facts: a relocation writes the address it should and nothing else; the sections of an object are
  laid out inside their mappings without overlap, with their contents; and loading with its dependencies
  ends. The last is about fuel: the name of every object loaded on the way is new, so the objects the bootloader provides
  bound the depth.
\<close>

subsection \<open>Relocations\<close>

text \<open>
  C38: A 64-bit relocation inside its target slice stores, in eight bytes at the target offset, the address of the
  symbol plus the addend, relative to the place for the PC-relative kind, and changes no other byte. Outside the
  slice it panics; the 32-bit kinds and unknown kinds are errors that change nothing.
\<close>

theorem write_relocation_correct:
  "(if Rela_get_type r \<in> {R_X86_64_64, R_X86_64_PC64} then
      if unat off + 8 \<le> unat len then
        \<exists>m'. write_relocation r (base, len) off addr m = Some (Inr (), m')
          \<and> from_le_bytes (read_bytes m' (base + off) 8)
              = (if Rela_get_type r = R_X86_64_64 then addr + rela_addend r else addr + rela_addend r - (base + off))
          \<and> (\<forall>x. 8 \<le> unat (x - (base + off)) \<longrightarrow> m' x = m x)
      else write_relocation r (base, len) off addr m = None
    else if Rela_get_type r \<in> {R_X86_64_32, R_X86_64_32S, R_X86_64_PC32, R_X86_64_PLT32} then
      write_relocation r (base, len) off addr m = Some (Inl ''32-bit relocations are not supported'', m)
    else write_relocation r (base, len) off addr m = Some (Inl ''unsupported relocation type'', m))"
proof -
  have range: "off \<le> off + 8 \<and> off + 8 \<le> len \<longleftrightarrow> unat off + 8 \<le> unat len"
    using unsigned_less [of len, where ?'a = nat] unsigned_less [of off, where ?'a = nat]
    by (auto simp: word_le_nat_alt unat_plus_if' split: if_splits)
  have w: "from_le_bytes (read_bytes (write_bytes a (to_le_bytes (v :: u64)) m) a 8) = v" for a v
    using read_write_bytes [of "to_le_bytes v" a m] from_to_le_bytes [of v] by simp
  have o: "write_bytes a (to_le_bytes (v :: u64)) m x = m x" if "8 \<le> unat (x - a)" for a v x
    using that by (simp add: write_bytes_other)
  have ne: "R_X86_64_64 \<noteq> R_X86_64_PC64" by (simp add: R_X86_64_64_def R_X86_64_PC64_def)
  show ?thesis
    using range w o ne by (simp add: write_relocation_def Let_def)
qed

theorem write_relocation_correct_witness:
  "\<exists>m'. write_relocation \<lparr> rela_offset = 0, rela_info = 1, rela_addend = 4 \<rparr> (0x1000, 16) 8 0x2000 (\<lambda>_. 0xcc) = Some (Inr (), m')
     \<and> from_le_bytes (read_bytes m' 0x1008 8) = (0x2004 :: u64) \<and> m' 0x1007 = 0xcc"
proof -
  let ?r = "\<lparr> rela_offset = 0, rela_info = 1, rela_addend = 4 \<rparr>"
  have t: "Rela_get_type ?r = R_X86_64_64" by (simp add: Rela_get_type_def R_X86_64_64_def)
  have d: "8 \<le> unat (- 1 :: usize)" by (simp add: word_le_nat_alt [symmetric, of "8 :: usize", simplified])
  show ?thesis
    using write_relocation_correct [of ?r 8 16 "0x1000" "0x2000" "\<lambda>_. 0xcc"] d by (fastforce simp: t)
qed

subsection \<open>Loading ends\<close>

text \<open>The names of the objects the bootloader provides, and of those that are loaded.\<close>

definition provided :: "loader_env \<Rightarrow> string set" where
  "provided env = {n. \<exists>obj \<in> set (root_objects env). name_str obj = Some n}"

definition loaded :: "loading \<Rightarrow> string set" where
  "loaded ln = dom (map_of (ld_objects ln))"

lemma finite_provided [simp]: "finite (provided env)"
proof -
  have "provided env \<subseteq> (the \<circ> name_str) ` set (root_objects env)" by (force simp: provided_def)
  then show ?thesis by (rule finite_subset) simp
qed

lemma card_provided: "card (provided env) \<le> length (root_objects env)"
proof -
  have "provided env \<subseteq> (the \<circ> name_str) ` set (root_objects env)" by (force simp: provided_def)
  then have "card (provided env) \<le> card ((the \<circ> name_str) ` set (root_objects env))" by (intro card_mono) simp_all
  also have "\<dots> \<le> length (root_objects env)" using card_image_le card_length le_trans by (metis finite_set)
  finally show ?thesis .
qed

lemma InitFileSystem_list_mem:
  "InitFileSystem_list_objects pre objs = Some ps \<Longrightarrow> p \<in> set ps \<Longrightarrow>
     \<exists>obj n. obj \<in> set objs \<and> name_str obj = Some n \<and> p = ''/'' @ n @ ''.o''"
proof (induction objs arbitrary: ps)
  case (Cons obj objs)
  then obtain n rest where n: "name_str obj = Some n" "InitFileSystem_list_objects pre objs = Some rest"
    "ps = (if starts_with n pre then (''/'' @ n @ ''.o'') # rest else rest)"
    by (auto simp: bind_eq_Some_conv)
  then have "p = ''/'' @ n @ ''.o'' \<or> p \<in> set rest" using Cons.prems(2) by (auto split: if_splits)
  then show ?case
  proof
    assume "p \<in> set rest"
    then show ?thesis using Cons.IH [OF n(2)] by (meson list.set_intros(2))
  next
    assume "p = ''/'' @ n @ ''.o''"
    with n(1) show ?thesis by (intro exI [of _ obj] exI [of _ n]) simp
  qed
qed simp

lemma read_object_provided:
  assumes "read_object (root_objects env) m va name = Some (Inr bytes)" and n: "\<not> starts_with name ''/''"
  shows "name \<in> provided env"
proof -
  let ?p = "''/'' @ name @ ''.o''"
  obtain ps where ps: "InitFileSystem_list (root_objects env) (''/'' @ name) = Some (Inr ps)"
    and f: "List.find (\<lambda>object_name. object_name = ?p) ps \<noteq> None"
    using assms unfolding read_object_def if_P [OF n] rbind_eq_Some by (auto split: option.splits)
  have "InitFileSystem_list_objects name (root_objects env) = Some ps"
    using ps unfolding InitFileSystem_list_def strip_prefix_append by simp
  moreover have "?p \<in> set ps" using f unfolding find_eq by (metis (full_types))
  ultimately obtain obj n where "obj \<in> set (root_objects env)" "name_str obj = Some n" "?p = ''/'' @ n @ ''.o''"
    using InitFileSystem_list_mem by blast
  then show ?thesis by (auto simp: provided_def)
qed

text \<open>
  Two computations that are equal and end, if they end, in a state with a property. The operations of relocation
  are so when the functions they load further objects with are.
\<close>

definition agree :: "('s \<Rightarrow> bool) \<Rightarrow> ('e, 'a, 's) outcome \<Rightarrow> ('e, 'a, 's) outcome \<Rightarrow> bool" where
  "agree I m m' \<longleftrightarrow> m = m' \<and> (\<forall>r s. m = Some (r, s) \<longrightarrow> I s)"

named_theorems agree_intros \<open>closure of agreeing computations under the ways they are composed\<close>

lemma agree_basic [agree_intros]:
  "agree I None None" "I s \<Longrightarrow> agree I (Some (r, s)) (Some (r, s))"
  by (simp_all add: agree_def)

lemma agree_qbind [agree_intros]:
  "agree I m m' \<Longrightarrow> (\<And>a s. I s \<Longrightarrow> agree I (f a s) (f' a s)) \<Longrightarrow> agree I (qbind m f) (qbind m' f')"
  unfolding agree_def by (cases m) (auto simp: qbind_def split: sum.splits)

lemma agree_bind:
  "agree I m m' \<Longrightarrow> (\<And>r s. I s \<Longrightarrow> agree J (f (r, s)) (f' (r, s))) \<Longrightarrow> agree J (m \<bind> f) (m' \<bind> f')"
  unfolding agree_def by (cases m) auto

lemma agree_pure: "(\<And>a. x = Some a \<Longrightarrow> agree J (f a) (f' a)) \<Longrightarrow> agree J (x \<bind> f) (x \<bind> f')"
  unfolding agree_def by (cases x) auto

lemma agree_if [agree_intros]:
  "(b \<Longrightarrow> agree I m m') \<Longrightarrow> (\<not> b \<Longrightarrow> agree I n n') \<Longrightarrow> agree I (if b then m else n) (if b then m' else n')"
  by simp

lemma agree_option [agree_intros]:
  "(x = None \<Longrightarrow> agree I m m') \<Longrightarrow> (\<And>a. x = Some a \<Longrightarrow> agree I (f a) (f' a)) \<Longrightarrow>
     agree I (case x of None \<Rightarrow> m | Some a \<Rightarrow> f a) (case x of None \<Rightarrow> m' | Some a \<Rightarrow> f' a)"
  by (cases x) simp_all

lemma agree_sum [agree_intros]:
  "(\<And>a. x = Inl a \<Longrightarrow> agree I (f a) (f' a)) \<Longrightarrow> (\<And>a. x = Inr a \<Longrightarrow> agree I (g a) (g' a)) \<Longrightarrow>
     agree I (case x of Inl a \<Rightarrow> f a | Inr a \<Rightarrow> g a) (case x of Inl a \<Rightarrow> f' a | Inr a \<Rightarrow> g' a)"
  by (cases x) simp_all

lemma agree_section_loop:
  assumes "\<And>i h s. I s \<Longrightarrow> agree I (act i h s) (act' i h s)" and "I s"
  shows "agree I (section_loop f act i s) (section_loop f act' i s)"
  using assms
proof (induction f act i s rule: section_loop.induct)
  case (1 f act i s)
  show ?case
  proof (cases "SectionIter_next f i")
    case None
    then show ?thesis by (subst (1 2) section_loop.simps) (simp add: agree_intros)
  next
    case (Some p)
    obtain ho i' where p: "p = (ho, i')" by (cases p)
    show ?thesis
    proof (cases ho)
      case None
      then show ?thesis using Some p 1(3) by (subst (1 2) section_loop.simps) (simp add: agree_intros)
    next
      case (Some h)
      have "agree I (qbind (act i h s) (\<lambda>_ s. section_loop f act i' s)) (qbind (act' i h s) (\<lambda>_ s. section_loop f act' i' s))"
        using 1(1) [OF \<open>SectionIter_next f i = Some p\<close> _ Some] p 1(2,3) by (intro agree_qbind) auto
      then show ?thesis using \<open>SectionIter_next f i = Some p\<close> p Some by (subst (1 2) section_loop.simps) simp
    qed
  qed
qed

text \<open>That the objects of a set are loaded, and the functions that load further objects and agree on them.\<close>

definition have_loaded :: "string set \<Rightarrow> loading \<Rightarrow> bool" where
  "have_loaded D ln \<longleftrightarrow> D \<subseteq> loaded ln"

definition loads :: "loader_env \<Rightarrow> string set \<Rightarrow> load_fn \<Rightarrow> load_fn \<Rightarrow> bool" where
  "loads env D f g \<longleftrightarrow> (\<forall>n bytes ln. have_loaded D ln \<longrightarrow> n \<in> provided env - loaded ln \<longrightarrow>
     agree (have_loaded D) (f n bytes ln) (g n bytes ln))"

lemma have_loaded_update [simp]:
  "have_loaded D (ln\<lparr> ld_reads := x1 \<rparr>) = have_loaded D ln" "have_loaded D (ln\<lparr> ld_bytes := x2 \<rparr>) = have_loaded D ln"
  "have_loaded D (ln\<lparr> ld_store := x3 \<rparr>) = have_loaded D ln" "have_loaded D (ln\<lparr> ld_sections := x4 \<rparr>) = have_loaded D ln"
  "loaded (ln\<lparr> ld_reads := x1 \<rparr>) = loaded ln"
  by (simp_all add: have_loaded_def loaded_def)

lemma load_crates_agree:
  assumes l: "loads env D f g" and "\<And>n. n \<in> set names \<Longrightarrow> \<not> starts_with n ''/''" and "have_loaded D ln"
  shows "agree (have_loaded D) (load_crates env f name names ln) (load_crates env g name names ln)"
  using assms(2,3)
proof (induction names arbitrary: ln)
  case Nil
  then show ?case by (simp add: agree_intros)
next
  case (Cons n names)
  have IH: "agree (have_loaded D) (load_crates env f name names ln) (load_crates env g name names ln)"
    if "have_loaded D ln" for ln by (rule Cons.IH [OF Cons.prems(1) that]) simp
  have n: "\<not> starts_with n ''/''" by (rule Cons.prems) simp
  show ?case
    unfolding load_crates.simps
  proof (intro agree_if IH Cons.prems(2) agree_pure)
    fix r assume g: "\<not> get_object ln n \<noteq> None"
      and r: "read_object (root_objects env) (ld_bytes ln) (vec_addr env (ld_reads ln)) n = Some r"
    let ?ln = "ln\<lparr> ld_reads := ld_reads ln + 1 \<rparr>"
    have ld: "agree (have_loaded D) (f n bytes ?ln) (g n bytes ?ln)" if "r = Inr bytes" for bytes
    proof -
      have "n \<in> provided env" using read_object_provided [OF _ n] r that by blast
      moreover have "n \<notin> loaded ln" using g by (auto simp: get_object_def loaded_def)
      ultimately show ?thesis using l Cons.prems(2) by (simp add: loads_def)
    qed
    have "agree (have_loaded D) (qbind (f n bytes ?ln) (\<lambda>_ ln. case map_of (ld_sections ln) name of
          None \<Rightarrow> load_crates env f name names ln | Some sec \<Rightarrow> Some (Inr sec, ln)))
        (qbind (g n bytes ?ln) (\<lambda>_ ln. case map_of (ld_sections ln) name of
          None \<Rightarrow> load_crates env g name names ln | Some sec \<Rightarrow> Some (Inr sec, ln)))" if "r = Inr bytes" for bytes
      by (intro agree_intros ld [OF that] IH)
    then show "agree (have_loaded D)
      (qbind (Some (r, ?ln)) (\<lambda>bytes ln. qbind (f n bytes ln) (\<lambda>_ ln. case map_of (ld_sections ln) name of
          None \<Rightarrow> load_crates env f name names ln | Some sec \<Rightarrow> Some (Inr sec, ln))))
      (qbind (Some (r, ?ln)) (\<lambda>bytes ln. qbind (g n bytes ln) (\<lambda>_ ln. case map_of (ld_sections ln) name of
          None \<Rightarrow> load_crates env g name names ln | Some sec \<Rightarrow> Some (Inr sec, ln))))"
      using Cons.prems(2) by (cases r) (simp_all add: agree_intros)
  qed
qed

lemma crate_name_no_slash: "n \<in> set (crate_names_in_symbol s) \<Longrightarrow> \<not> starts_with n ''/''"
proof
  assume n: "n \<in> set (crate_names_in_symbol s)" and "starts_with n ''/''"
  then have "CHR ''/'' \<in> set n" by (auto simp: starts_with_iff)
  moreover have "\<not> name_char (CHR ''/'')" by code_simp
  ultimately show False using crate_name_found(2) [OF n] by blast
qed

lemma get_or_load_section_agree:
  assumes "loads env D f g" and "have_loaded D ln"
  shows "agree (have_loaded D) (get_or_load_section env f name ln) (get_or_load_section env g name ln)"
  unfolding get_or_load_section_def
  by (intro agree_intros agree_pure load_crates_agree assms crate_name_no_slash)
    (simp_all add: assms add_alias_to_section_def)

lemma source_of_entry_agree:
  assumes "loads env D f g" and "have_loaded D (snd s)"
  shows "agree (\<lambda>s. have_loaded D (snd s)) (source_of_entry env f locked elf oid e target s)
    (source_of_entry env g locked elf oid e target s)"
  unfolding source_of_entry_def Let_def AUTO_MAP_DEPENDENCIES_def if_False bind.bind_lunit
  by (intro agree_intros agree_pure)
    (auto intro!: agree_intros agree_pure agree_bind get_or_load_section_agree assms(1) simp: assms(2))

lemma relocate_entry_agree:
  assumes "loads env D f g" and "have_loaded D (snd s)"
  shows "agree (\<lambda>s. have_loaded D (snd s)) (relocate_entry env f locked elf oid symtab target tslice r s)
    (relocate_entry env g locked elf oid symtab target tslice r s)"
  unfolding relocate_entry_def Let_def
  by (intro agree_intros agree_pure source_of_entry_agree assms) (auto intro!: agree_intros)

lemma relocate_entries_agree:
  assumes "loads env D f g" and "have_loaded D (snd s)"
  shows "agree (\<lambda>s. have_loaded D (snd s)) (relocate_entries env f locked elf oid symtab target tslice rs s)
    (relocate_entries env g locked elf oid symtab target tslice rs s)"
  using assms(2)
  by (induction rs arbitrary: s) (auto intro!: agree_intros relocate_entry_agree assms(1))

lemma relocate_section_agree:
  assumes "loads env D f g" and "have_loaded D (snd s)"
  shows "agree (\<lambda>s. have_loaded D (snd s)) (relocate_section env f locked elf oid symtab i sec s)
    (relocate_section env g locked elf oid symtab i sec s)"
  unfolding relocate_section_def
  by (auto intro!: agree_intros agree_pure relocate_entries_agree assms split: sum.splits section_data.splits)

lemma relocate_object_sections_agree:
  assumes "loads env D f g" and "have_loaded D (snd s)"
  shows "agree (\<lambda>s. have_loaded D (snd s)) (relocate_object_sections env f locked elf oid s)
    (relocate_object_sections env g locked elf oid s)"
  unfolding relocate_object_sections_def
  by (intro agree_intros agree_pure agree_section_loop relocate_section_agree assms) simp_all

lemma place_mapping_objects:
  "place_mapping mo s = Some s' \<Longrightarrow> ld_objects (snd s') = ld_objects (snd s)"
  by (auto simp: place_mapping_def Let_def bind_eq_Some_conv split: option.splits prod.splits)

lemma copy_text_objects: "copy_text mo f ln = Some (r, ln') \<Longrightarrow> ld_objects ln' = ld_objects ln"
  by (auto simp: copy_text_def bind_eq_Some_conv split: option.splits if_splits)

lemma load_object_sections_objects:
  assumes "load_object_sections env name bytes s = Some (r, s')"
  shows "ld_objects (snd s') = ld_objects (snd s)"
proof -
  have "agree (\<lambda>s'. ld_objects (snd s') = ld_objects (snd s)) (load_object_sections env name bytes s)
      (load_object_sections env name bytes s)"
    unfolding load_object_sections_def Let_def
    by (intro agree_intros agree_pure)
      (auto intro!: agree_intros agree_pure dest!: place_mapping_objects copy_text_objects)
  with assms show ?thesis by (cases s') (simp add: agree_def)
qed

lemma add_sections_objects [simp]: "ld_objects (snd (add_sections secs ld)) = ld_objects ld"
  by (induction secs ld rule: add_sections.induct) (auto simp: Let_def split: prod.splits)

lemma dom_update [simp]: "dom (map_of (AList.update k v al)) = insert k (dom (map_of al))"
  by (simp add: update_conv')

lemma load_object_step_agree:
  assumes "\<And>oid. loads env (insert name (loaded ln)) (d (oid # locked)) (e (oid # locked))"
  shows "agree (have_loaded (loaded ln)) (load_object_step env d locked name bytes ln)
    (load_object_step env e locked name bytes ln)"
  unfolding load_object_step_def Let_def
proof (rule agree_pure)
  fix p assume "load_object_sections env name bytes ([], ln) = Some p"
  then obtain r mappings ln1 where p: "load_object_sections env name bytes ([], ln) = Some (r, mappings, ln1)"
    "p = (r, mappings, ln1)" by (cases p) auto
  then have o: "ld_objects ln1 = ld_objects ln" using load_object_sections_objects by fastforce
  have "agree (have_loaded (loaded ln))
      (relocate_object_sections env (d (oid # locked)) (oid # locked) f oid (mappings, ln2)
         \<bind> (\<lambda>(rr, mappings, ln). Some (map_sum id (\<lambda>_. oid) rr, ln)))
      (relocate_object_sections env (e (oid # locked)) (oid # locked) f oid (mappings, ln2)
         \<bind> (\<lambda>(rr, mappings, ln). Some (map_sum id (\<lambda>_. oid) rr, ln)))"
    if "have_loaded (insert name (loaded ln)) ln2" for oid f ln2
  proof (rule agree_bind [OF relocate_object_sections_agree [OF assms]])
    show "have_loaded (insert name (loaded ln)) (snd (mappings, ln2))" using that by simp
  qed (auto intro!: agree_intros simp: have_loaded_def)
  moreover have "have_loaded (insert name (loaded ln)) (register_object env name oid ln1)" for oid
    using o by (auto simp: have_loaded_def loaded_def register_object_def Let_def)
  ultimately show "agree (have_loaded (loaded ln))
      (case p of (r, mappings, ln) \<Rightarrow> qbind (Some (r, ln)) (\<lambda>(oid, f) ln.
        relocate_object_sections env (d (oid # locked)) (oid # locked) f oid
          (mappings, register_object env name oid ln) \<bind> (\<lambda>(rr, mappings, ln). Some (map_sum id (\<lambda>_. oid) rr, ln))))
      (case p of (r, mappings, ln) \<Rightarrow> qbind (Some (r, ln)) (\<lambda>(oid, f) ln.
        relocate_object_sections env (e (oid # locked)) (oid # locked) f oid
          (mappings, register_object env name oid ln) \<bind> (\<lambda>(rr, mappings, ln). Some (map_sum id (\<lambda>_. oid) rr, ln))))"
    using o p(2) by (cases r) (auto intro!: agree_intros simp: have_loaded_def loaded_def)
qed

text \<open>
  Every nested load adds a name, so what is left of the provided names bounds the depth: past it, it does not
  matter which function would be called.
\<close>

lemma load_object_depth:
  "card (provided env - insert name (loaded ln)) < n \<Longrightarrow>
     agree (have_loaded (loaded ln)) ((load_object_step env ^^ n) d locked name bytes ln)
       ((load_object_step env ^^ n) e locked name bytes ln)"
proof (induction n arbitrary: locked name bytes ln)
  case (Suc n)
  let ?d = "(load_object_step env ^^ n) d" and ?e = "(load_object_step env ^^ n) e"
  have "loads env (insert name (loaded ln)) (?d (oid # locked)) (?e (oid # locked))" for oid
    unfolding loads_def
  proof (intro allI impI)
    fix m bytes and l :: loading
    assume l: "have_loaded (insert name (loaded ln)) l" and m: "m \<in> provided env - loaded l"
    have "provided env - insert m (loaded l) \<subset> provided env - insert name (loaded ln)"
      using l m by (auto simp: have_loaded_def)
    then have "card (provided env - insert m (loaded l)) < card (provided env - insert name (loaded ln))"
      by (intro psubset_card_mono) simp_all
    then have "card (provided env - insert m (loaded l)) < n" using Suc.prems by simp
    from Suc.IH [OF this, of "oid # locked" bytes]
    show "agree (have_loaded (insert name (loaded ln))) (?d (oid # locked) m bytes l) (?e (oid # locked) m bytes l)"
      using l unfolding agree_def have_loaded_def by (meson insert_subset subset_trans)
  qed
  then show ?case using load_object_step_agree [of env name ln ?d locked ?e] by simp
qed simp

lemma load_object_impl_funpow:
  "load_object_impl n env = (load_object_step env ^^ n) (\<lambda>locked object_name object_bytes ln. None)"
  by (induction n) simp_all

lemma provided_bound: "card (provided env - insert n (loaded l)) < Suc (length (root_objects env))"
  using card_provided [of env] card_mono [of "provided env" "provided env - insert n (loaded l)"] by simp

lemma load_object_keeps:
  assumes "load_object env name ln = Some (r, ln')"
  shows "loaded ln \<subseteq> loaded ln'"
proof -
  let ?ln = "ln\<lparr> ld_reads := ld_reads ln + 1 \<rparr>"
  obtain rd where rd: "qbind (Some (rd, ?ln)) (\<lambda>bytes ln.
      load_object_impl (Suc (length (root_objects env))) env [] name bytes ln) = Some (r, ln')"
    using assms unfolding load_object_def by (auto simp: bind_eq_Some_conv simp del: load_object_impl.simps)
  have "loaded ?ln \<subseteq> loaded ln'"
  proof (cases rd)
    case (Inr bytes)
    then show ?thesis
      using rd load_object_depth [OF provided_bound [of env name ?ln], of "\<lambda>_ _ _ _. None" "[]" bytes "\<lambda>_ _ _ _. None",
          folded load_object_impl_funpow]
      by (simp add: agree_def have_loaded_def del: load_object_impl.simps)
  qed (use rd in simp)
  then show ?thesis by simp
qed

text \<open>
  C39: Loading an object with everything it depends on ends: it recurses no deeper than the bootloader provides
  objects, one level for each of them and one for the object itself. At that depth it makes no nested call: the result is the
  same whatever function \<open>deeper\<close> stands for the calls below, whether it returns, fails or panics, and the same again
  if the recursion is allowed any number of further levels. So the fuel the model of \<^verbatim>\<open>load_object\<close> gives is never used up, and
  where the model has no value the code panics.
\<close>

theorem load_object_fuel_enough:
  "(load_object_step env ^^ (Suc (length (root_objects env)) + k)) deeper locked name bytes ln
     = load_object_impl (Suc (length (root_objects env))) env locked name bytes ln"
  using load_object_depth [OF provided_bound [of env name ln],
      of "(load_object_step env ^^ k) deeper" locked bytes "\<lambda>locked object_name object_bytes ln. None"]
  unfolding load_object_impl_funpow by (simp only: agree_def funpow_add o_apply)

subsection \<open>The layout of loaded sections\<close>

text \<open>The bytes a section has in memory: those of the file, or zeros for a section without contents.\<close>

definition section_contents :: "elf_file \<Rightarrow> section_header \<Rightarrow> u8 list" where
  "section_contents f h = (case SectionHeader_get_data h f of
     Some (Inr (UndefinedData d)) \<Rightarrow> sl_bytes d
   | _ \<Rightarrow> replicate (unat (sh_size h)) 0)"

text \<open>
  The header whose size and contents the section of an index is loaded with: its own, or the next one if it is empty and
  the next one has the same offset in the file.
\<close>

definition source_header :: "section_header list \<Rightarrow> nat \<Rightarrow> section_header" where
  "source_header hs i =
     (if sh_size (hs ! i) = 0 \<and> sh_file_offset (hs ! Suc i) = sh_file_offset (hs ! i) then hs ! Suc i else hs ! i)"

text \<open>
  The section of an index lies at an offset of its mapping, below a limit, and holds what the file has for that index.
\<close>

definition placed ::
    "elf_file \<Rightarrow> section_header list \<Rightarrow> byte_store \<Rightarrow> kernel_mapping \<Rightarrow> usize \<Rightarrow> nat \<Rightarrow> loaded_section \<Rightarrow> bool" where
  "placed f hs m mp lim i sec \<longleftrightarrow>
     i < length hs \<and> sec_size sec = sh_size (source_header hs i)
     \<and> sec_mapping sec = mp \<and> sec_addr sec = KernelMapping_addr mp + sec_mapping_offset sec
     \<and> unat (sec_mapping_offset sec) + unat (sec_size sec) \<le> unat lim
     \<and> read_bytes m (sec_addr sec) (unat (sec_size sec)) = section_contents f (source_header hs i)"

text \<open>The mapping the sections of a kind go to, and how far it is filled.\<close>

definition kind_mapping :: "section_mappings \<Rightarrow> section_kind \<Rightarrow> kernel_mapping option" where
  "kind_mapping sm k = (if k \<in> {Data, Bss} then sm_read_write sm else if k = Text then sm_executable sm else sm_read_only sm)"

definition kind_offset :: "section_build \<Rightarrow> section_kind \<Rightarrow> usize" where
  "kind_offset st k = (if k \<in> {Data, Bss} then sb_data_offset st else sb_rodata_offset st)"

definition before_in_mapping :: "nat \<times> loaded_section \<Rightarrow> nat \<times> loaded_section \<Rightarrow> bool" where
  "before_in_mapping a b \<longleftrightarrow> (sec_kind (snd a) \<noteq> Text \<and> sec_kind (snd b) \<noteq> Text
      \<and> (sec_kind (snd a) \<in> {Data, Bss} \<longleftrightarrow> sec_kind (snd b) \<in> {Data, Bss}) \<longrightarrow>
     unat (sec_mapping_offset (snd a)) + unat (sec_size (snd a)) \<le> unat (sec_mapping_offset (snd b)))"

definition mapping_fits :: "kernel_mapping \<Rightarrow> bool" where
  "mapping_fits mp \<longleftrightarrow> 2 ^ 64 - 2 ^ 47 \<le> unat (KernelMapping_addr mp)
     \<and> unat (KernelMapping_addr mp) + unat (kmap_size mp) < 2 ^ 64"

definition mappings_apart :: "kernel_mapping \<Rightarrow> kernel_mapping \<Rightarrow> bool" where
  "mappings_apart a b \<longleftrightarrow>
     unat (KernelMapping_addr a) + unat (kmap_size a) \<le> unat (KernelMapping_addr b)
     \<or> unat (KernelMapping_addr b) + unat (kmap_size b) \<le> unat (KernelMapping_addr a)"

definition mappings_ok :: "section_mappings \<Rightarrow> bool" where
  "mappings_ok sm \<longleftrightarrow>
     (\<forall>mp. sm_read_only sm = Some mp \<or> sm_read_write sm = Some mp \<longrightarrow> mapping_fits mp)
     \<and> (\<forall>r w. sm_read_only sm = Some r \<and> sm_read_write sm = Some w \<longrightarrow> mappings_apart r w)"

definition build_inv :: "section_context \<Rightarrow> section_header list \<Rightarrow> section_build \<Rightarrow> bool" where
  "build_inv c hs st \<longleftrightarrow>
     (\<forall>k mp. k \<noteq> Text \<and> kind_mapping (sc_mappings c) k = Some mp \<longrightarrow> kind_offset st k \<le> kmap_size mp)
     \<and> (\<forall>(i, sec) \<in> set (sb_loaded st). sec_kind sec \<noteq> Text \<longrightarrow>
          (\<exists>mp. kind_mapping (sc_mappings c) (sec_kind sec) = Some mp
             \<and> placed (sc_file c) hs (sb_bytes st) mp (kind_offset st (sec_kind sec)) i sec))
     \<and> sorted_wrt before_in_mapping (sb_loaded st)"

text \<open>Reading outside what was written.\<close>

lemma read_bytes_cong: "(\<And>i. i < n \<Longrightarrow> m (a + word_of_nat i) = m' (a + word_of_nat i)) \<Longrightarrow> read_bytes m a n = read_bytes m' a n"
  by (simp add: read_bytes_def)

lemma read_write_apart:
  assumes "unat a + length bs \<le> unat b \<or> unat b + n \<le> unat (a :: usize)" and "unat a + length bs < 2 ^ 64" "unat b + n < 2 ^ 64"
  shows "read_bytes (write_bytes a bs m) b n = read_bytes m b n"
proof (rule read_bytes_cong)
  fix i assume i: "i < n"
  have u: "unat (b + word_of_nat i) = unat b + i"
  proof -
    have "unat (word_of_nat i :: usize) = i" using i assms(3) by (simp add: unat_of_nat take_bit_nat_eq_self)
    then show ?thesis using unat_add_no_overflow [of b "word_of_nat i"] i assms(3) by simp
  qed
  have "length bs \<le> unat (b + word_of_nat i - a)"
  proof (cases "a \<le> b + word_of_nat i")
    case True
    then have "unat (b + word_of_nat i - a) = unat b + i - unat a" using unat_sub [OF True] u by simp
    moreover have "unat a \<le> unat b + i" using True u by (simp add: word_le_nat_alt)
    ultimately show ?thesis using assms(1) i by linarith
  next
    case False
    then have lt: "unat b + i < unat a" using u by (simp add: word_le_nat_alt)
    then have "unat (b + word_of_nat i - a) = unat b + i + 2 ^ 64 - unat a"
      using u by (simp add: unat_sub_if')
    then show ?thesis using assms(2) by linarith
  qed
  then show "write_bytes a bs m (b + word_of_nat i) = m (b + word_of_nat i)" by (rule write_bytes_other)
qed

lemma unat_next_multiple_of:
  assumes "next_multiple_of a b = Some (n :: usize)" and "unat a < 2 ^ 63" and "unat b < 2 ^ 63"
  shows "unat a \<le> unat n"
proof -
  have b: "b \<noteq> 0" using assms(1) by (auto simp: next_multiple_of_def)
  have "a mod b \<le> b" using b by (simp add: word_le_nat_alt unat_mod unat_gt_0)
  then have "unat (b - a mod b) \<le> unat b" by (simp add: unat_sub)
  then have "unat a + unat (b - a mod b) < 2 ^ 64" using assms(2,3) by simp
  then have "unat (a + (b - a mod b)) = unat a + unat (b - a mod b)" by (simp add: unat_add_no_overflow)
  then show ?thesis using assms(1) b by (auto simp: next_multiple_of_def Let_def split: if_splits)
qed

lemma copy_section_spec:
  assumes "copy_section c mp off h allow msg st = Some (Inr (), st')"
  shows "off + sh_size h \<le> kmap_size mp" and "length (section_contents (sc_file c) h) = unat (sh_size h)"
    and "\<exists>a. Address_add (KernelMapping_addr mp) off = Some a
      \<and> st' = st\<lparr> sb_bytes := write_bytes a (section_contents (sc_file c) h) (sb_bytes st) \<rparr>"
proof -
  obtain a len where a: "KernelMapping_as_slice_mut mp (sc_memory c) off (sh_size h) = Some (a, len)"
    using assms unfolding copy_section_def by (cases "KernelMapping_as_slice_mut mp (sc_memory c) off (sh_size h)") auto
  then have len: "len = sh_size h" "off + sh_size h \<le> kmap_size mp" "Address_add (KernelMapping_addr mp) off = Some a"
    by (auto simp: KernelMapping_as_slice_mut_def bind_eq_Some_conv)
  obtain data where d: "SectionHeader_get_data h (sc_file c) = Some data"
    using assms a unfolding copy_section_def by (cases "SectionHeader_get_data h (sc_file c)") auto
  obtain dd where data: "data = Inr dd" using assms a d unfolding copy_section_def by (cases data) auto
  have "length (section_contents (sc_file c) h) = unat (sh_size h)
      \<and> st' = st\<lparr> sb_bytes := write_bytes a (section_contents (sc_file c) h) (sb_bytes st) \<rparr>"
    using assms a d data len(1) unfolding copy_section_def section_contents_def
    by (cases dd) (simp_all split: if_splits Option.bind_splits)
  then show "off + sh_size h \<le> kmap_size mp" "length (section_contents (sc_file c) h) = unat (sh_size h)"
    "\<exists>a. Address_add (KernelMapping_addr mp) off = Some a
      \<and> st' = st\<lparr> sb_bytes := write_bytes a (section_contents (sc_file c) h) (sb_bytes st) \<rparr>"
    using len by simp_all
qed

lemma mapping_addr:
  assumes "mapping_fits mp" and "off \<le> kmap_size mp" and "Address_add (KernelMapping_addr mp) off = Some a"
  shows "a = KernelMapping_addr mp + off" and "unat a = unat (KernelMapping_addr mp) + unat off"
proof -
  have "unat off \<le> unat (kmap_size mp)" using assms(2) by (simp add: word_le_nat_alt)
  then have s: "unat (KernelMapping_addr mp + off) = unat (KernelMapping_addr mp) + unat off"
    using assms(1) by (intro unat_add_no_overflow) (simp add: mapping_fits_def)
  then have "Address_new (KernelMapping_addr mp + off) = KernelMapping_addr mp + off"
    using assms(1) by (intro Address_new_id canonical_high) (simp add: mapping_fits_def)
  then show "a = KernelMapping_addr mp + off" using assms(3) by (auto simp: Address_add_def)
  with s show "unat a = unat (KernelMapping_addr mp) + unat off" by simp
qed

lemma build_invD:
  "build_inv c hs st \<Longrightarrow> (j, s) \<in> set (sb_loaded st) \<Longrightarrow> sec_kind s \<noteq> Text \<Longrightarrow>
     \<exists>mp. kind_mapping (sc_mappings c) (sec_kind s) = Some mp
       \<and> placed (sc_file c) hs (sb_bytes st) mp (kind_offset st (sec_kind s)) j s"
  unfolding build_inv_def by blast

lemma mappings_ok_fits:
  "mappings_ok sm \<Longrightarrow> kind_mapping sm k = Some mp \<Longrightarrow> k \<noteq> Text \<Longrightarrow> mapping_fits mp"
  by (auto simp: mappings_ok_def kind_mapping_def split: if_splits)

text \<open>A write at or above what is filled of one mapping keeps every section placed before.\<close>

lemma placed_kept:
  assumes inv: "build_inv c hs st" and ok: "mappings_ok (sc_mappings c)"
    and k: "k \<noteq> Text" "kind_mapping (sc_mappings c) k = Some mp"
    and off: "unat (kind_offset st k) \<le> unat off" "unat off + length bs \<le> unat (kmap_size mp)"
    and addr: "unat addr = unat (KernelMapping_addr mp) + unat off"
    and s: "sec_kind s \<noteq> Text" "kind_mapping (sc_mappings c) (sec_kind s) = Some mp'"
      "placed (sc_file c) hs (sb_bytes st) mp' (kind_offset st (sec_kind s)) j s"
  shows "read_bytes (write_bytes addr bs (sb_bytes st)) (sec_addr s) (unat (sec_size s))
    = read_bytes (sb_bytes st) (sec_addr s) (unat (sec_size s))"
proof -
  note fits = mappings_ok_fits [OF ok]
  have lim: "unat (sec_mapping_offset s) + unat (sec_size s) \<le> unat (kind_offset st (sec_kind s))"
    using s(3) by (auto simp: placed_def)
  moreover have "unat (kind_offset st (sec_kind s)) \<le> unat (kmap_size mp')"
    using inv s(1,2) by (auto simp: build_inv_def word_le_nat_alt)
  ultimately have in': "unat (sec_mapping_offset s) + unat (sec_size s) \<le> unat (kmap_size mp')" by simp
  have B: "unat (sec_addr s) = unat (KernelMapping_addr mp') + unat (sec_mapping_offset s)"
    using s(3) fits [OF s(2,1)] in' unat_add_no_overflow [of "KernelMapping_addr mp'" "sec_mapping_offset s"]
    by (simp add: placed_def mapping_fits_def)
  have "unat addr + length bs \<le> unat (sec_addr s) \<or> unat (sec_addr s) + unat (sec_size s) \<le> unat addr"
  proof (cases "sec_kind s \<in> {Data, Bss} \<longleftrightarrow> k \<in> {Data, Bss}")
    case True
    then have "mp' = mp" "kind_offset st (sec_kind s) = kind_offset st k"
      using s(1,2) k by (auto simp: kind_mapping_def kind_offset_def split: if_splits)
    then show ?thesis using addr B lim off(1) by simp
  next
    case False
    then have "mappings_apart mp mp' \<or> mappings_apart mp' mp"
      using ok s(1,2) k by (auto simp: mappings_ok_def kind_mapping_def split: if_splits)
    then show ?thesis using addr B in' off(2) unfolding mappings_apart_def by linarith
  qed
  moreover have "unat addr + length bs < 2 ^ 64" using addr off(2) fits [OF k(2,1)] by (simp add: mapping_fits_def)
  moreover have "unat (sec_addr s) + unat (sec_size s) < 2 ^ 64" using B in' fits [OF s(2,1)] by (simp add: mapping_fits_def)
  ultimately show ?thesis by (rule read_write_apart)
qed

text \<open>Placing one more section: what both loops over the read-only and the writable sections do.\<close>

lemma build_inv_place:
  assumes inv: "build_inv c hs st" and ok: "mappings_ok (sc_mappings c)" and h: "i < length hs \<and> h = source_header hs i"
      "unat (sh_size h) < 2 ^ 63" "unat al < 2 ^ 63"
    and k: "k \<noteq> Text" "kind_mapping (sc_mappings c) k = Some mp"
    and off: "next_multiple_of (kind_offset st k) al = Some off" "off < kmap_size mp" "off + sh_size h \<le> kmap_size mp"
    and addr: "Address_add (KernelMapping_addr mp) off = Some addr"
    and cont: "length (section_contents (sc_file c) h) = unat (sh_size h)"
    and st': "sb_loaded st' = sb_loaded st @ [(i, sec)]" "sb_bytes st' = write_bytes addr (section_contents (sc_file c) h) (sb_bytes st)"
      "\<And>k'. k' \<noteq> Text \<Longrightarrow> kind_offset st' k' = (if k' \<in> {Data, Bss} \<longleftrightarrow> k \<in> {Data, Bss} then off + sh_size h else kind_offset st k')"
    and sec: "sec_kind sec = k" "sec_mapping sec = mp" "sec_addr sec = addr" "sec_mapping_offset sec = off" "sec_size sec = sh_size h"
  shows "build_inv c hs st'"
proof -
  note fits = mappings_ok_fits [OF ok]
  have lt: "unat (kmap_size mp) < 2 ^ 47" using fits [OF k(2,1)] by (simp add: mapping_fits_def)
  have "kind_offset st k \<le> kmap_size mp" using inv k by (auto simp: build_inv_def)
  then have ko: "unat (kind_offset st k) \<le> unat off"
    using unat_next_multiple_of [OF off(1)] lt h(3) by (simp add: word_le_nat_alt)
  have uo: "unat (off + sh_size h) = unat off + unat (sh_size h)"
    using off(2) lt h(2) by (intro unat_add_no_overflow) (simp add: word_less_nat_alt)
  then have ub: "unat off + unat (sh_size h) \<le> unat (kmap_size mp)" using off(3) by (simp add: word_le_nat_alt)
  note A = mapping_addr [OF fits [OF k(2,1)] less_imp_le [OF off(2)] addr]
  have other: "placed (sc_file c) hs (sb_bytes st') mp' (kind_offset st' (sec_kind s)) j s"
    if s: "sec_kind s \<noteq> Text" "kind_mapping (sc_mappings c) (sec_kind s) = Some mp'"
      "placed (sc_file c) hs (sb_bytes st) mp' (kind_offset st (sec_kind s)) j s" for j s mp'
  proof -
    have "unat (kind_offset st (sec_kind s)) \<le> unat (kind_offset st' (sec_kind s))"
      using st'(3) [OF s(1)] ko uo by (auto simp: kind_offset_def)
    moreover have "unat off + length (section_contents (sc_file c) h) \<le> unat (kmap_size mp)" using ub cont by simp
    ultimately show ?thesis
      using s(3) placed_kept [OF inv ok k ko _ A(2) s] by (auto simp: placed_def st'(2))
  qed
  have new: "placed (sc_file c) hs (sb_bytes st') mp (kind_offset st' k) i sec"
    using h(1) sec A(1) uo st'(3) [OF k(1)] read_write_bytes [of "section_contents (sc_file c) h" addr "sb_bytes st"] cont
      unsigned_less [of "sh_size h", where ?'a = nat]
    by (auto simp: placed_def st'(2))
  have "before_in_mapping x (i, sec)" if mem: "x \<in> set (sb_loaded st)" for x
  proof -
    obtain j s where x: "x = (j, s)" by (cases x)
    show ?thesis unfolding before_in_mapping_def x snd_conv
    proof
      assume s: "sec_kind s \<noteq> Text \<and> sec_kind sec \<noteq> Text \<and> (sec_kind s \<in> {Data, Bss} \<longleftrightarrow> sec_kind sec \<in> {Data, Bss})"
      then obtain mp' where "placed (sc_file c) hs (sb_bytes st) mp' (kind_offset st (sec_kind s)) j s"
        using build_invD [OF inv, of j s] mem x by blast
      moreover have "kind_offset st (sec_kind s) = kind_offset st k" using s sec(1) by (simp add: kind_offset_def)
      ultimately show "unat (sec_mapping_offset s) + unat (sec_size s) \<le> unat (sec_mapping_offset sec)"
        using ko sec by (auto simp: placed_def)
    qed
  qed
  then have "sorted_wrt before_in_mapping (sb_loaded st')"
    using inv by (auto simp: st'(1) sorted_wrt_append build_inv_def)
  moreover have "kind_offset st' k' \<le> kmap_size mp'" if k': "k' \<noteq> Text" "kind_mapping (sc_mappings c) k' = Some mp'" for k' mp'
  proof (cases "k' \<in> {Data, Bss} \<longleftrightarrow> k \<in> {Data, Bss}")
    case True
    then have "mp' = mp" using k' k by (auto simp: kind_mapping_def split: if_splits)
    then show ?thesis using True st'(3) [OF k'(1)] off(3) by simp
  next
    case False
    then show ?thesis using inv k' st'(3) [OF k'(1)] by (auto simp: build_inv_def)
  qed
  ultimately show ?thesis
    unfolding build_inv_def st'(1) using inv other new sec(1) k
    by (auto simp: build_inv_def)
qed

lemma qbind_Inr: "qbind m f = Some (Inr b, s') \<Longrightarrow> \<exists>a s. m = Some (Inr a, s) \<and> f a s = Some (Inr b, s')"
  by (cases m) (auto simp: qbind_def split: sum.splits)

lemma load_data_inv:
  assumes inv: "build_inv c hs st" and ok: "mappings_ok (sc_mappings c)"
    and h: "i < length hs \<and> h = source_header hs i" "unat (sh_size h) < 2 ^ 63" "unat (sh_align h) < 2 ^ 63"
    and l: "load_data c i nm h st = Some (Inr (), st')"
  shows "build_inv c hs st'"
proof (cases "sm_read_write (sc_mappings c)")
  case None
  then show ?thesis using l inv by (simp add: load_data_def)
next
  case (Some mp)
  let ?k = "if SectionHeader_get_type h = Inr NoBits then Bss else Data"
  obtain no where no: "symbol_name_after_prefix nm (if SectionHeader_get_type h = Inr NoBits then ''.bss.'' else ''.data.'') = Inr no"
    using l Some unfolding load_data_def Let_def by (auto dest!: qbind_Inr)
  show ?thesis
  proof (cases no)
    case None
    then show ?thesis using l inv Some no by (simp add: load_data_def)
  next
    case (Some name)
    obtain off addr st1 where o: "next_multiple_of (sb_data_offset st) (sh_align h) = Some off" "off < kmap_size mp"
        "Address_add (KernelMapping_addr mp) off = Some addr"
      and cp: "copy_section c mp off h True ''couldn't get data for `.data` section'' st = Some (Inr (), st1)"
      and st': "st' = st1\<lparr> sb_loaded := sb_loaded st1 @ [(i, make_section c (sc_demangle c (strip_dot name)) ?k
            (i \<in> set (sc_globals c)) (sh_size h) addr mp off)],
          sb_data := sb_data st1 @ [i], sb_data_offset := off + sh_size h \<rparr>"
      using l \<open>sm_read_write (sc_mappings c) = Some mp\<close> no Some unfolding load_data_def Let_def
      by (auto simp: bind_eq_Some_conv dest!: qbind_Inr)
    note C = copy_section_spec [OF cp]
    have st1: "st1 = st\<lparr> sb_bytes := write_bytes addr (section_contents (sc_file c) h) (sb_bytes st) \<rparr>"
      using C(3) o(3) by auto
    show ?thesis
      by (rule build_inv_place [OF inv ok h, where k = ?k and mp = mp and off = off and addr = addr
            and sec = "make_section c (sc_demangle c (strip_dot name)) ?k (i \<in> set (sc_globals c)) (sh_size h) addr mp off"])
        (simp_all add: st' st1 o C kind_mapping_def kind_offset_def \<open>sm_read_write (sc_mappings c) = Some mp\<close> make_section_def)
  qed
qed

lemma load_read_only_inv:
  assumes inv: "build_inv c hs st" and ok: "mappings_ok (sc_mappings c)"
    and h: "i < length hs \<and> h = source_header hs i" "unat (sh_size h) < 2 ^ 63" "unat (sh_align h) < 2 ^ 63"
    and kind: "\<And>name k g. descr = Inr (Some (name, k, g)) \<Longrightarrow> k \<in> {Rodata, GccExceptTable, EhFrame}"
    and l: "load_read_only c i descr msg h st = Some (Inr (), st')"
  shows "build_inv c hs st'"
proof (cases "sm_read_only (sc_mappings c)")
  case None
  then show ?thesis using l inv by (simp add: load_read_only_def)
next
  case (Some mp)
  obtain no where no: "descr = Inr no" using l Some unfolding load_read_only_def by (auto dest!: qbind_Inr)
  show ?thesis
  proof (cases no)
    case None
    then show ?thesis using l inv Some no by (simp add: load_read_only_def)
  next
    case (Some nkg)
    obtain name k g where nkg: "nkg = (name, k, g)" by (cases nkg)
    have k: "k \<in> {Rodata, GccExceptTable, EhFrame}" using kind no Some nkg by blast
    obtain off addr st1 where o: "next_multiple_of (sb_rodata_offset st) (sh_align h) = Some off" "off < kmap_size mp"
        "Address_add (KernelMapping_addr mp) off = Some addr"
      and cp: "copy_section c mp off h True msg st = Some (Inr (), st1)"
      and st': "st' = st1\<lparr> sb_loaded := sb_loaded st1 @ [(i, make_section c name k g (sh_size h) addr mp off)],
          sb_rodata_offset := off + sh_size h \<rparr>"
      using l \<open>sm_read_only (sc_mappings c) = Some mp\<close> no Some nkg unfolding load_read_only_def Let_def
      by (auto simp: bind_eq_Some_conv dest!: qbind_Inr)
    note C = copy_section_spec [OF cp]
    have st1: "st1 = st\<lparr> sb_bytes := write_bytes addr (section_contents (sc_file c) h) (sb_bytes st) \<rparr>"
      using C(3) o(3) by auto
    show ?thesis
      by (rule build_inv_place [OF inv ok h, where k = k and mp = mp and off = off and addr = addr
            and sec = "make_section c name k g (sh_size h) addr mp off"])
        (use k in \<open>auto simp: st' st1 o C kind_mapping_def kind_offset_def \<open>sm_read_only (sc_mappings c) = Some mp\<close> make_section_def\<close>)
  qed
qed

lemma kind_offset_loaded [simp]: "kind_offset (st\<lparr> sb_loaded := x \<rparr>) k = kind_offset st k"
  by (simp add: kind_offset_def)

lemma build_inv_text:
  "build_inv c hs st \<Longrightarrow> sec_kind sec = Text \<Longrightarrow> build_inv c hs (st\<lparr> sb_loaded := sb_loaded st @ [(i, sec)] \<rparr>)"
  by (auto simp: build_inv_def sorted_wrt_append before_in_mapping_def)

lemma load_text_inv:
  assumes inv: "build_inv c hs st" and l: "load_text c i nm h st = Some (Inr (), st')"
  shows "build_inv c hs st'"
  using l inv unfolding load_text_def Let_def
  by (auto simp: bind_eq_Some_conv make_section_def intro!: build_inv_text split: option.splits dest!: qbind_Inr)

lemma load_tls_fails: "load_tls c i nm h st = Some (Inr (), st') \<Longrightarrow> st' = st"
  by (auto simp: load_tls_def Let_def bind_eq_Some_conv split: option.splits dest!: qbind_Inr)

lemma load_kinds_inv:
  assumes "build_inv c hs st" and "mappings_ok (sc_mappings c)"
    and "j < length hs \<and> h = source_header hs j" "unat (sh_size h) < 2 ^ 63 \<and> unat (sh_align h) < 2 ^ 63"
  shows "load_data c j nm h st = Some (Inr (), st') \<Longrightarrow> build_inv c hs st'"
    and "load_rodata c j nm h st = Some (Inr (), st') \<Longrightarrow> build_inv c hs st'"
    and "load_lrodata c j nm h st = Some (Inr (), st') \<Longrightarrow> build_inv c hs st'"
    and "load_gcc_except_table c j h st = Some (Inr (), st') \<Longrightarrow> build_inv c hs st'"
    and "load_eh_frame c j h st = Some (Inr (), st') \<Longrightarrow> build_inv c hs st'"
proof -
  note b = conjunct1 [OF assms(4)] conjunct2 [OF assms(4)]
  show "load_data c j nm h st = Some (Inr (), st') \<Longrightarrow> build_inv c hs st'" by (rule load_data_inv [OF assms(1-3) b])
  note ro = load_read_only_inv [OF assms(1-3) b, rotated]
  show "load_rodata c j nm h st = Some (Inr (), st') \<Longrightarrow> build_inv c hs st'"
    "load_lrodata c j nm h st = Some (Inr (), st') \<Longrightarrow> build_inv c hs st'"
    unfolding load_rodata_def load_lrodata_def
    by (erule ro, auto simp: map_sum_def split: sum.splits)+
  show "load_gcc_except_table c j h st = Some (Inr (), st') \<Longrightarrow> build_inv c hs st'"
    "load_eh_frame c j h st = Some (Inr (), st') \<Longrightarrow> build_inv c hs st'"
    unfolding load_gcc_except_table_def load_eh_frame_def by (erule ro, simp)+
qed

text \<open>The last section is not an empty one to be loaded, so the section behind an empty one is one of the file.\<close>

definition last_section_ok :: "section_header list \<Rightarrow> bool" where
  "last_section_ok hs \<longleftrightarrow> hs = [] \<or> sh_size (last hs) \<noteq> 0 \<or> sh_flags (last hs) AND SHF_ALLOC = 0"

lemma section_or_next_source:
  assumes f: "has_sections f hs" and i: "i < length hs" and last: "last_section_ok hs"
    and a: "sh_flags (hs ! i) AND SHF_ALLOC \<noteq> 0"
    and n: "(if sh_size (hs ! i) = 0 then section_or_next f (word_of_nat i) (hs ! i) msg else Some (Inr (hs ! i))) = Some (Inr h)"
  shows "h = source_header hs i" and "h \<in> set hs"
proof -
  have s: "Suc i < length hs" if "sh_size (hs ! i) = 0"
  proof (rule ccontr)
    assume "\<not> Suc i < length hs"
    then have "i = length hs - 1" "hs \<noteq> []" using i by auto
    then have "hs ! i = last hs" by (simp add: last_conv_nth)
    then show False using last that a i by (auto simp: last_section_ok_def)
  qed
  show h: "h = source_header hs i"
    using n get_section_header_nth [OF f s]
    by (auto simp: source_header_def section_or_next_def add.commute split: if_splits)
  show "h \<in> set hs" using h s i by (auto simp: source_header_def)
qed

lemma load_section_inv:
  assumes f: "has_sections (sc_file c) hs" and i: "i < length hs" and last: "last_section_ok hs"
    and bound: "\<And>h. h \<in> set hs \<Longrightarrow> unat (sh_size h) < 2 ^ 63 \<and> unat (sh_align h) < 2 ^ 63"
    and inv: "build_inv c hs st" and ok: "mappings_ok (sc_mappings c)"
    and l: "load_section c (word_of_nat i) (hs ! i) st = Some (Inr (), st')"
  shows "build_inv c hs st'"
proof (cases "sh_flags (hs ! i) AND SHF_ALLOC = 0")
  case True
  then show ?thesis using l inv by (simp add: load_section_def)
next
  case False
  have "length hs \<le> 0xff00" using f by (simp add: has_sections_def Let_def)
  then have ui: "unat (word_of_nat i :: u16) = i" using i by (simp add: unat_of_nat take_bit_nat_eq_self)
  obtain nm h where "load_section_kind c (unat (word_of_nat i :: u16)) nm (hs ! i) h st = Some (Inr (), st')"
    and h: "(if sh_size (hs ! i) = 0 then section_or_next (sc_file c) (word_of_nat i) (hs ! i)
        ''couldn't get the section following a zero-sized section'' else Some (Inr (hs ! i))) = Some (Inr h)"
    using l False unfolding load_section_def by (auto simp: bind_eq_Some_conv dest!: qbind_Inr)
  then have k: "load_section_kind c i nm (hs ! i) h st = Some (Inr (), st')" by (simp add: ui)
  note src = section_or_next_source [OF f i last False h]
  have "i < length hs \<and> h = source_header hs i" using i src(1) by simp
  note kinds = load_kinds_inv [OF inv ok this bound [OF src(2)]]
  show ?thesis
    using k load_text_inv [OF inv] load_tls_fails inv kinds
    by (simp only: load_section_kind_def Let_def split: if_splits) blast+
qed

lemma run_sections_inv:
  assumes "\<And>j st st'. i \<le> j \<Longrightarrow> j < i + length hs \<Longrightarrow> I st \<Longrightarrow> act (word_of_nat j) (hs ! (j - i)) st = Some (Inr (), st') \<Longrightarrow> I st'"
    and "I st" and "run_sections act i hs st = Some (Inr (), st')"
  shows "I st'"
  using assms
proof (induction hs arbitrary: i st)
  case (Cons h hs)
  obtain st1 where 1: "act (word_of_nat i) h st = Some (Inr (), st1)" "run_sections act (Suc i) hs st1 = Some (Inr (), st')"
    using Cons.prems(3) by (auto dest!: qbind_Inr)
  have "I st1" using Cons.prems(1) [of i st st1] Cons.prems(2) 1(1) by simp
  moreover have "I b" if "Suc i \<le> j" "j < Suc i + length hs" "I a" "act (word_of_nat j) (hs ! (j - Suc i)) a = Some (Inr (), b)" for j a b
    using Cons.prems(1) [of j a b] that by (simp add: nth_Cons')
  ultimately show ?case using Cons.IH [of "Suc i" st1] 1(2) by blast
qed simp

text \<open>
  C37: When the loop over the sections of an object succeeds, every section it loaded into the read-only or the writable
  mapping lies inside that mapping, at the address recorded for it, and the memory there holds exactly what the file has
  for the header of its own index, zeros for a header without contents. An empty section is loaded with the size and the contents of the
  next header if both have the same offset in the file, as a copy of its own. Sections of one mapping follow each other without overlap, so
  no section overwrites another. The mappings are assumed to lie in the kernel's half without overlapping, the
  sizes and alignments to stay below half of the address range, and the last section not to be an empty one that is loaded.
\<close>

theorem load_sections_layout:
  assumes "has_sections (sc_file c) hs" and "last_section_ok hs"
    and "\<And>h. h \<in> set hs \<Longrightarrow> unat (sh_size h) < 2 ^ 63 \<and> unat (sh_align h) < 2 ^ 63"
    and "mappings_ok (sc_mappings c)"
    and "section_loop (sc_file c) (load_section c) 0 \<lparr> sb_loaded = [], sb_data = [], sb_rodata_offset = 0,
      sb_data_offset = 0, sb_bytes = m \<rparr> = Some (Inr (), st)"
  shows "(\<forall>(i, sec) \<in> set (sb_loaded st). sec_kind sec \<noteq> Text \<longrightarrow>
      (\<exists>mp. kind_mapping (sc_mappings c) (sec_kind sec) = Some mp
         \<and> placed (sc_file c) hs (sb_bytes st) mp (kmap_size mp) i sec))
    \<and> sorted_wrt before_in_mapping (sb_loaded st)"
proof -
  let ?st = "\<lparr> sb_loaded = [], sb_data = [], sb_rodata_offset = 0, sb_data_offset = 0, sb_bytes = m \<rparr>"
  have r: "run_sections (load_section c) 0 hs ?st = Some (Inr (), st)"
    using section_loop_run [OF assms(1), of 0 "load_section c" ?st] assms(5) by simp
  have inv: "build_inv c hs st"
  proof (rule run_sections_inv [OF _ _ r])
    show "build_inv c hs ?st" by (simp add: build_inv_def kind_offset_def)
    fix j a b assume "j < 0 + length hs" "build_inv c hs a" "load_section c (word_of_nat j) (hs ! (j - 0)) a = Some (Inr (), b)"
    then show "build_inv c hs b" using load_section_inv [OF assms(1) _ assms(2,3) _ assms(4), of j a b] by simp
  qed
  have "placed (sc_file c) hs (sb_bytes st) mp (kmap_size mp) i sec"
    if "placed (sc_file c) hs (sb_bytes st) mp (kind_offset st k) i sec" "kind_mapping (sc_mappings c) k = Some mp" "k \<noteq> Text"
    for mp k i sec
  proof -
    have "kind_offset st k \<le> kmap_size mp" using inv that(2,3) by (auto simp: build_inv_def)
    then show ?thesis using that(1) by (auto simp: placed_def word_le_nat_alt)
  qed
  then show ?thesis using inv build_invD [OF inv] by (fastforce simp: build_inv_def)
qed

text \<open>An object with a writable, an empty and a read-only section.\<close>

definition object_header :: "u32 \<Rightarrow> u32 \<Rightarrow> u64 \<Rightarrow> u64 \<Rightarrow> u64 \<Rightarrow> u64 \<Rightarrow> section_header" where
  "object_header name type flags off len al = \<lparr> sh_name = name, sh_type = type, sh_flags = flags, sh_address = 0,
     sh_file_offset = off, sh_size = len, sh_link = 0, sh_info = 0, sh_align = al, sh_ent_size = 0 \<rparr>"

definition object_headers :: "section_header list" where
  "object_headers = [object_header 0 0 0 0 0 0, object_header 1 1 3 384 3 4, object_header 9 8 3 388 8 8,
     object_header 16 1 2 388 2 1, object_header 26 3 0 390 36 1]"

definition object_body :: header_body where
  "object_body = \<lparr> e_type = 1, machine = 62, e_version = 1, entry_point = 0, ph_offset = 0, sh_offset = 64,
     e_flags = 0, header_size = 64, ph_entry_size = 0, ph_count = 0, sh_entry_size = 64, sh_count = 5, sh_str_index = 4 \<rparr>"

definition object_file :: elf_file where
  "object_file = \<lparr> elf_input = \<lparr> sl_addr = 0x1000, sl_bytes = encode_HeaderIdent sample_ident @ encode_HeaderBody object_body
       @ concat (map encode_SectionHeader object_headers) @ [1, 2, 3, 0, 4, 5] @ 0 # bytes_of_str ''.data.A'' @ 0 # bytes_of_str ''.bss.B''
       @ 0 # bytes_of_str ''.rodata.C'' @ [0] \<rparr>,
     elf_header = \<lparr> ident = sample_ident, body = object_body \<rparr> \<rparr>"

definition object_mapping :: "usize \<Rightarrow> usize \<Rightarrow> kernel_mapping" where
  "object_mapping p sz = \<lparr> kmap_name = ''object'', kmap_size = sz, kmap_pages = PageRange_new (Page p) (Page (p + 1)),
     kmap_flags = PRESENT \<rparr>"

definition object_context :: section_context where
  "object_context = \<lparr> sc_file = object_file, sc_globals = [1], sc_mappings = \<lparr> sm_executable = None,
     sm_read_only = Some (object_mapping 0xFFFFFF0000000 2), sm_read_write = Some (object_mapping 0xFFFFFF0000001 16) \<rparr>,
     sc_owner = 0, sc_memory = sample_memory FrameAllocator_new, sc_demangle = id \<rparr>"

lemma object_sections: "has_sections object_file object_headers"
  by (simp add: has_sections_def object_file_def, simp add: object_body_def object_headers_def bytes_of_str_def)

lemma object_names:
  "SectionHeader_get_name (object_header 1 1 3 384 3 4) object_file = Some (Inr ''.data.A'')"
  "SectionHeader_get_name (object_header 9 8 3 388 8 8) object_file = Some (Inr ''.bss.B'')"
  "SectionHeader_get_name (object_header 16 1 2 388 2 1) object_file = Some (Inr ''.rodata.C'')"
  by code_simp+

lemma object_data:
  "SectionHeader_get_data (object_header 1 1 3 384 3 4) object_file = Some (Inr (UndefinedData \<lparr> sl_addr = 0x1180, sl_bytes = [1, 2, 3] \<rparr>))"
  "SectionHeader_get_data (object_header 9 8 3 388 8 8) object_file = Some (Inr EmptyData)"
  "SectionHeader_get_data (object_header 16 1 2 388 2 1) object_file = Some (Inr (UndefinedData \<lparr> sl_addr = 0x1184, sl_bytes = [4, 5] \<rparr>))"
  by code_simp+

lemma object_mapping_addr [simp]:
  "KernelMapping_addr (object_mapping 0xFFFFFF0000000 sz) = 0xFFFFFF0000000000"
  "KernelMapping_addr (object_mapping 0xFFFFFF0000001 sz) = 0xFFFFFF0000001000"
  "kmap_size (object_mapping p sz) = sz"
  by (simp_all add: KernelMapping_addr_def object_mapping_def PageRange_new_def, code_simp+)

lemma object_slice:
  "off + len \<le> sz \<Longrightarrow> Address_add (KernelMapping_addr (object_mapping p sz)) off = Some a \<Longrightarrow>
     KernelMapping_as_slice_mut (object_mapping p sz) (sample_memory FrameAllocator_new) off len = Some (a, len)"
  by (simp add: KernelMapping_as_slice_mut_def sample_memory_def AddressSpace_is_current_def l4_addr_def sample_space_def)

lemma object_addrs:
  "Address_add 0xFFFFFF0000000000 0 = Some 0xFFFFFF0000000000" "Address_add 0xFFFFFF0000001000 0 = Some 0xFFFFFF0000001000"
  "Address_add 0xFFFFFF0000001000 8 = Some 0xFFFFFF0000001008"
  by (simp_all add: Address_add_def checked_add_def Address_new_id canonical_high)

lemma object_header_sel [simp]:
  "sh_flags (object_header n t fl o' l al) = fl" "sh_size (object_header n t fl o' l al) = l"
  "sh_align (object_header n t fl o' l al) = al" "sh_type (object_header n t fl o' l al) = t"
  "sh_file_offset (object_header n t fl o' l al) = o'"
  by (simp_all add: object_header_def)

lemmas section_flag_defs = is_flag_def SHF_ALLOC_def SHF_WRITE_def SHF_EXECINSTR_def SHF_TLS_def

lemma object_context_sel [simp]:
  "sc_file object_context = object_file" "sc_memory object_context = sample_memory FrameAllocator_new"
  "sm_read_only (sc_mappings object_context) = Some (object_mapping 0xFFFFFF0000000 2)"
  "sm_read_write (sc_mappings object_context) = Some (object_mapping 0xFFFFFF0000001 16)"
  by (simp_all add: object_context_def)

lemma object_types:
  "SectionHeader_get_type (object_header 1 1 3 384 3 4) = Inr ProgBits" "SectionHeader_get_type (object_header 9 8 3 388 8 8) = Inr NoBits"
  by code_simp+

lemma object_aligned:
  "next_multiple_of 0 (4 :: usize) = Some 0" "next_multiple_of 3 (8 :: usize) = Some 8" "next_multiple_of 0 (1 :: usize) = Some 0"
  by (simp_all add: next_multiple_of_def)

lemma object_symbols:
  "symbol_name_after_prefix ''.data.A'' ''.data.'' = Inr (Some ''A'')"
  "symbol_name_after_prefix ''.bss.B'' ''.bss.'' = Inr (Some ''B'')"
  "symbol_name_after_prefix ''.rodata.C'' ''.rodata.'' = Inr (Some ''C'')"
  "starts_with ''.rodata.C'' ''.rodata''"
  by code_simp+

lemma object_steps:
  "sb_data_offset st = 0 \<Longrightarrow> \<exists>st'. load_section object_context 1 (object_header 1 1 3 384 3 4) st = Some (Inr (), st')
     \<and> sb_data_offset st' = 3 \<and> sb_rodata_offset st' = sb_rodata_offset st \<and> length (sb_loaded st') = Suc (length (sb_loaded st))"
  "sb_data_offset st = 3 \<Longrightarrow> \<exists>st'. load_section object_context 2 (object_header 9 8 3 388 8 8) st = Some (Inr (), st')
     \<and> sb_rodata_offset st' = sb_rodata_offset st \<and> length (sb_loaded st') = Suc (length (sb_loaded st))"
  "sb_rodata_offset st = 0 \<Longrightarrow> \<exists>st'. load_section object_context 3 (object_header 16 1 2 388 2 1) st = Some (Inr (), st')
     \<and> length (sb_loaded st') = Suc (length (sb_loaded st))"
  by (simp_all add: load_section_def load_section_kind_def section_flag_defs object_names object_types load_data_def copy_section_def
      object_data object_slice object_addrs object_symbols object_aligned load_rodata_def load_read_only_def)

lemma object_loop:
  "\<exists>st. section_loop object_file (load_section object_context) 0 \<lparr> sb_loaded = [], sb_data = [], sb_rodata_offset = 0,
      sb_data_offset = 0, sb_bytes = m \<rparr> = Some (Inr (), st) \<and> length (sb_loaded st) = 3"
proof -
  let ?s0 = "\<lparr> sb_loaded = [], sb_data = [], sb_rodata_offset = 0, sb_data_offset = 0, sb_bytes = m \<rparr>"
  obtain s1 where 1: "load_section object_context 1 (object_header 1 1 3 384 3 4) ?s0 = Some (Inr (), s1)"
    "sb_data_offset s1 = 3" "sb_rodata_offset s1 = 0" "length (sb_loaded s1) = 1" using object_steps(1) [of ?s0] by auto
  obtain s2 where 2: "load_section object_context 2 (object_header 9 8 3 388 8 8) s1 = Some (Inr (), s2)"
    "sb_rodata_offset s2 = 0" "length (sb_loaded s2) = 2" using object_steps(2) [of s1] 1 by auto
  obtain s3 where 3: "load_section object_context 3 (object_header 16 1 2 388 2 1) s2 = Some (Inr (), s3)"
    "length (sb_loaded s3) = 3" using object_steps(3) [of s2] 2 by auto
  have skip: "load_section object_context i h st = Some (Inr (), st)" if "sh_flags h = 0" for i h st
    using that by (simp add: load_section_def)
  show ?thesis
    using section_loop_run [OF object_sections, of 0 "load_section object_context" ?s0] 1(1) 2(1) 3
    by (simp add: object_headers_def skip)
qed

theorem load_sections_layout_witness:
  "\<exists>st. section_loop object_file (load_section object_context) 0 \<lparr> sb_loaded = [], sb_data = [], sb_rodata_offset = 0,
      sb_data_offset = 0, sb_bytes = (\<lambda>_. 0xcc) \<rparr> = Some (Inr (), st) \<and> length (sb_loaded st) = 3
    \<and> (\<forall>(i, sec) \<in> set (sb_loaded st). sec_kind sec \<noteq> Text \<longrightarrow>
      (\<exists>mp. kind_mapping (sc_mappings object_context) (sec_kind sec) = Some mp
         \<and> placed object_file object_headers (sb_bytes st) mp (kmap_size mp) i sec))
    \<and> sorted_wrt before_in_mapping (sb_loaded st)"
proof -
  obtain st where st: "section_loop object_file (load_section object_context) 0 \<lparr> sb_loaded = [], sb_data = [], sb_rodata_offset = 0,
      sb_data_offset = 0, sb_bytes = (\<lambda>_. 0xcc) \<rparr> = Some (Inr (), st)" "length (sb_loaded st) = 3"
    using object_loop by blast
  have "mappings_ok (sc_mappings object_context)"
    by (auto simp: mappings_ok_def mapping_fits_def mappings_apart_def)
  moreover have "last_section_ok object_headers" by (simp add: last_section_ok_def object_headers_def)
  moreover have "unat (sh_size h) < 2 ^ 63 \<and> unat (sh_align h) < 2 ^ 63" if "h \<in> set object_headers" for h
    using that by (auto simp: object_headers_def)
  ultimately show ?thesis
    using load_sections_layout [of object_context object_headers, unfolded object_context_sel, OF object_sections] st by blast
qed

end
