(* ===== verification/Scheduler.thy ===== *)
theory Scheduler
  imports Loader Process_Ipc
begin

section \<open>The scheduler and the interrupt handlers\<close>

text \<open>
  The model of \<^verbatim>\<open>kernel/src/scheduler.rs\<close>, of the handlers of \<^verbatim>\<open>kernel/src/idt.rs\<close> and of
  the timer handler of \<^verbatim>\<open>kernel/src/apic.rs\<close>. The statics of the kernel that these touch are one
  record: the scheduler itself, the loader with the memory management below it, the counter of process ids, the
  mapping of the framebuffer, and the parts of the processor state the handlers change. A handler takes the
  state and the context the interrupt saved and returns the context the processor resumes with, or None
  when it does not return: it panics, or it spins on a lock that nobody will release, since interrupts are
  disabled while the scheduler is locked.

  The shell's queue lies in memory of the shell; its contents are a typed value here, with the state of its two locks.
  What the crate \<^verbatim>\<open>x86_64\<close> provides, the addresses the linker assigns and the layout the compiler chooses are
  the record of parameters \<open>cpu_env\<close>.
\<close>

subsection \<open>Processes\<close>

record cpu_registers =
  r15 :: u64
  r14 :: u64
  r13 :: u64
  r12 :: u64
  r11 :: u64
  r10 :: u64
  r9 :: u64
  r8 :: u64
  rsi :: u64
  rdi :: u64
  rbp :: u64
  rdx :: u64
  rcx :: u64
  rbx :: u64
  rax :: u64

definition CpuRegisters_EMPTY :: cpu_registers where
  "CpuRegisters_EMPTY = \<lparr> r15 = 0, r14 = 0, r13 = 0, r12 = 0, r11 = 0, r10 = 0, r9 = 0, r8 = 0, rsi = 0, rdi = 0,
     rbp = 0, rdx = 0, rcx = 0, rbx = 0, rax = 0 \<rparr>"

record interrupt_frame =
  if_rip :: u64
  if_cs :: u16
  if_rflags :: u64
  if_rsp :: u64
  if_ss :: u16

record execution_context =
  ec_registers :: cpu_registers
  ec_frame :: interrupt_frame

type_synonym fx_save_area = "u8 list"

record process =
  p_id :: u64
  p_name :: string
  p_access_policy :: access_policy
  p_priority :: priority
  p_address_space :: address_space
  p_context :: "execution_context option"
  p_heap_mapping :: "kernel_mapping option"
  p_allow_io :: bool
  p_fxsave_area :: fx_save_area

record cpu_env =
  ce_loader :: loader_env
  virt_addr_new :: "u64 \<Rightarrow> u64 rust"
  rflags_interrupt :: u64
  cr0_emulate_coprocessor :: u64
  cr4_fxsr_xmmexcpt :: u64
  fninit_area :: fx_save_area
  sel_kernel_code :: u16
  sel_kernel_data :: u16
  sel_user_code :: u16
  sel_user_data :: u16
  tss_size :: u16
  exit_site :: execution_context
  idle_entry :: u64
  kernel_stack_top :: u64
  shell_queue_size :: usize

definition InterruptStackFrameValue_new ::
    "cpu_env \<Rightarrow> u64 \<Rightarrow> u16 \<Rightarrow> u64 \<Rightarrow> u64 \<Rightarrow> u16 \<Rightarrow> interrupt_frame rust" where
  "InterruptStackFrameValue_new env ip cs flags sp ss = do {
     ip \<leftarrow> virt_addr_new env ip;
     sp \<leftarrow> virt_addr_new env sp;
     Some \<lparr> if_rip = ip, if_cs = cs, if_rflags = flags, if_rsp = sp, if_ss = ss \<rparr>
   }"

subsection \<open>State\<close>

text \<open>
  The run queue is the map from priorities to queues; a priority without an entry has an empty queue. The two flags
  say whether the shell holds the lock of its input or its output queue.
\<close>

record kernel =
  k_current :: "process option"
  k_queue :: "priority \<Rightarrow> process list"
  k_blocked :: "process list"
  k_shell_location :: "(kernel_mapping \<times> usize) option"
  k_shell :: shell_queue
  k_shell_in_locked :: bool
  k_shell_out_locked :: bool
  k_loader :: loader
  k_process_id :: u64
  k_framebuffer :: "kernel_mapping option"
  k_apic :: bool
  k_iomap_base :: u16
  k_cr0 :: u64
  k_cr4 :: u64
  k_fpu :: fx_save_area
  k_init_fxsave_area :: fx_save_area

definition IDLE_PROCESS_ID :: u64 where "IDLE_PROCESS_ID = 0"
definition DEFAULT_KERNEL_STACK_SIZE :: usize where "DEFAULT_KERNEL_STACK_SIZE = PAGE_SIZE * 8"
definition DEFAULT_USER_STACK_SIZE :: usize where "DEFAULT_USER_STACK_SIZE = PAGE_SIZE * 16"

definition k_memory :: "kernel \<Rightarrow> kernel_memory" where
  "k_memory k = ld_memory (k_loader k)"

definition set_memory :: "kernel_memory \<Rightarrow> kernel \<Rightarrow> kernel" where
  "set_memory km k = k\<lparr> k_loader := (k_loader k)\<lparr> ld_memory := km \<rparr> \<rparr>"

definition enter_kernel :: "kernel \<Rightarrow> kernel rust" where
  "enter_kernel k = do {
     sp \<leftarrow> km_kernel (k_memory k);
     Some (set_memory (AddressSpace_enter sp (k_memory k)) k)
   }"

definition drop_process :: "process \<Rightarrow> kernel \<Rightarrow> kernel rust" where
  "drop_process p k = do {
     km \<leftarrow> AddressSpace_drop (p_address_space p) (k_memory k);
     Some (set_memory km k)
   }"

definition set_user_io_allowed :: "cpu_env \<Rightarrow> bool \<Rightarrow> kernel \<Rightarrow> kernel" where
  "set_user_io_allowed env allow k = k\<lparr> k_iomap_base := if allow then tss_size env else 0xFFFF \<rparr>"

text \<open>\<^verbatim>\<open>fxrstor\<close> loads and \<^verbatim>\<open>fxsave\<close> stores the state of the floating-point unit.\<close>

definition fxrstor :: "fx_save_area \<Rightarrow> kernel \<Rightarrow> kernel" where
  "fxrstor a k = k\<lparr> k_fpu := a \<rparr>"

text \<open>
  \<^verbatim>\<open>scheduler::init\<close>. \<open>fninit_area\<close> is what \<^verbatim>\<open>fxsave\<close> stores after
  \<^verbatim>\<open>fninit\<close>. The write to \<^verbatim>\<open>CR4\<close> stores the value that was read.
\<close>

definition scheduler_init :: "cpu_env \<Rightarrow> kernel \<Rightarrow> kernel" where
  "scheduler_init env k =
     (let k = (if k_cr0 k AND cr0_emulate_coprocessor env = cr0_emulate_coprocessor env
               then k\<lparr> k_cr0 := k_cr0 k AND NOT (cr0_emulate_coprocessor env) \<rparr> else k);
          cr4 = k_cr4 k;
          k = (if cr4 AND cr4_fxsr_xmmexcpt env \<noteq> cr4_fxsr_xmmexcpt env then k\<lparr> k_cr4 := cr4 \<rparr> else k);
          area = (fninit_area env)[0x18 := 0x80, 0x18 + 1 := 0x1F]
      in fxrstor area (k\<lparr> k_init_fxsave_area := area \<rparr>))"

definition Scheduler_new :: "kernel \<Rightarrow> kernel" where
  "Scheduler_new k = k\<lparr> k_current := None, k_queue := (\<lambda>_. []), k_blocked := [], k_shell_location := None,
     k_process_id := IDLE_PROCESS_ID + 1 \<rparr>"

subsection \<open>The run queue\<close>

definition add_to_queue :: "process \<Rightarrow> kernel \<Rightarrow> kernel" where
  "add_to_queue p k = k\<lparr> k_queue := (k_queue k)(p_priority p := k_queue k (p_priority p) @ [p]) \<rparr>"

definition set_current_context :: "execution_context \<Rightarrow> kernel \<Rightarrow> kernel rust" where
  "set_current_context ctx k = do {
     p \<leftarrow> k_current k;
     rust_assert (p_context p = None);
     Some (k\<lparr> k_current := Some (p\<lparr> p_context := Some ctx, p_fxsave_area := k_fpu k \<rparr>) \<rparr>)
   }"

definition preempt_current :: "kernel \<Rightarrow> kernel rust" where
  "preempt_current k = do {
     p \<leftarrow> k_current k;
     Some (add_to_queue p (k\<lparr> k_current := None \<rparr>))
   }"

text \<open>The queue of the shell in its mapping, checked to lie inside it.\<close>

definition shell_queue_at :: "cpu_env \<Rightarrow> kernel \<Rightarrow> kernel_mapping \<times> usize \<Rightarrow> unit rust" where
  "shell_queue_at env k loc = do {
     _ \<leftarrow> KernelMapping_as_mut (fst loc) (shell_queue_size env) (snd loc);
     Some ()
   }"

definition block_current :: "cpu_env \<Rightarrow> shell_input \<Rightarrow> kernel \<Rightarrow> kernel rust" where
  "block_current env request k = do {
     p \<leftarrow> k_current k;
     k \<leftarrow> enter_kernel (k\<lparr> k_current := None \<rparr>);
     let k = k\<lparr> k_blocked := k_blocked k @ [p] \<rparr>;
     loc \<leftarrow> k_shell_location k;
     shell_queue_at env k loc;
     rust_assert (\<not> k_shell_in_locked k);
     q \<leftarrow> SizedQueue_push request (shell_in (k_shell k));
     Some (k\<lparr> k_shell := (k_shell k)\<lparr> shell_in := q \<rparr> \<rparr>)
   }"

subsection \<open>Starting processes\<close>

definition fetch_process_id :: "kernel \<Rightarrow> u64 \<times> kernel" where
  "fetch_process_id k = (k_process_id k, k\<lparr> k_process_id := k_process_id k + 1 \<rparr>)"

definition process_space_name :: "string \<Rightarrow> u64 \<Rightarrow> string" where
  "process_space_name name pid = name @ ''.'' @ decimal (unat pid)"

definition run_kernel_process :: "cpu_env \<Rightarrow> string \<Rightarrow> u64 \<Rightarrow> usize option \<Rightarrow> kernel \<Rightarrow> kernel rust" where
  "run_kernel_process env name entry_addr stack_size k = do {
     let (pid, k) = fetch_process_id k;
     kernel_sp \<leftarrow> km_kernel (k_memory k);
     (sp, km) \<leftarrow> AddressSpace_new (process_space_name name pid) (Some kernel_sp) (k_memory k);
     let stack_size = (case stack_size of Some n \<Rightarrow> n | None \<Rightarrow> DEFAULT_KERNEL_STACK_SIZE);
     let stack_top_addr = AddressDomain_base_addr UserCode;
     pages \<leftarrow> PageRange_from_end_size (Page_containing_addr stack_top_addr) stack_size;
     (_, sp, km) \<leftarrow> AddressSpace_map_pages sp (''kernel_stack.'' @ decimal (unat pid)) pages (PRESENT OR WRITABLE) km;
     fr \<leftarrow> InterruptStackFrameValue_new env entry_addr (sel_kernel_code env) (rflags_interrupt env)
       (stack_top_addr - 8) (sel_kernel_data env);
     Some (add_to_queue \<lparr> p_id = pid, p_name = name, p_access_policy = AllAccess, p_priority = NormalPriority,
       p_address_space = sp, p_context = Some \<lparr> ec_registers = CpuRegisters_EMPTY, ec_frame = fr \<rparr>, p_heap_mapping = None,
       p_allow_io = True, p_fxsave_area = k_init_fxsave_area k \<rparr> (set_memory km k))
   }"

definition run_user_process ::
    "cpu_env \<Rightarrow> string \<Rightarrow> usize option \<Rightarrow> bool \<Rightarrow> access_policy \<Rightarrow> kernel \<Rightarrow> (nat \<times> kernel) rust" where
  "run_user_process env name stack_size allow_io access_policy k = do {
     let (pid, k) = fetch_process_id k;
     (sp, km) \<leftarrow> AddressSpace_new (process_space_name name pid) None (k_memory k);
     let user_code_addr = AddressDomain_base_addr UserCode;
     (r, ln) \<leftarrow> load_object (ce_loader env) name
       (with_address_space sp (Page_containing_addr user_code_addr) ((k_loader k)\<lparr> ld_memory := km \<rparr>));
     object \<leftarrow> (case r of Inl _ \<Rightarrow> panic | Inr object \<Rightarrow> Some object);
     let ld = loader.truncate ln;
     weak \<leftarrow> get_text_section (ce_loader env) ld name ''main'';
     entry_point_section \<leftarrow> upgrade_section ld weak;
     entry_addr \<leftarrow> Address_add user_code_addr (sec_mapping_offset entry_point_section);
     let stack_size = (case stack_size of Some n \<Rightarrow> n | None \<Rightarrow> DEFAULT_USER_STACK_SIZE);
     let stack_top_addr = AddressDomain_base_addr UserCode;
     rust_assert (stack_top_addr mod 16 = 0);
     pages \<leftarrow> PageRange_from_end_size (Page_containing_addr stack_top_addr) stack_size;
     (mr, sp, km) \<leftarrow> AddressSpace_map_pages (ln_space ln) (''user_stack.'' @ decimal (unat pid)) pages
       (PRESENT OR WRITABLE OR USER_ACCESSIBLE OR NO_EXECUTE) (ld_memory ld);
     rust_assert (mr = Inr ());
     fr \<leftarrow> InterruptStackFrameValue_new env entry_addr (sel_user_code env) (rflags_interrupt env)
       (stack_top_addr - 8) (sel_user_data env);
     Some (object, add_to_queue \<lparr> p_id = pid, p_name = name, p_access_policy = access_policy, p_priority = NormalPriority,
       p_address_space = sp, p_context = Some \<lparr> ec_registers = CpuRegisters_EMPTY, ec_frame = fr \<rparr>, p_heap_mapping = None,
       p_allow_io = allow_io, p_fxsave_area = k_init_fxsave_area k \<rparr> (k\<lparr> k_loader := ld\<lparr> ld_memory := km \<rparr> \<rparr>))
   }"

definition Scheduler_init :: "cpu_env \<Rightarrow> kernel \<Rightarrow> kernel rust" where
  "Scheduler_init env k = do {
     (sp, km) \<leftarrow> AddressSpace_new ''idle'' None (k_memory k);
     fr \<leftarrow> InterruptStackFrameValue_new env (idle_entry env) (sel_kernel_code env) (rflags_interrupt env)
       (kernel_stack_top env - 8) (sel_kernel_code env);
     let k = add_to_queue \<lparr> p_id = IDLE_PROCESS_ID, p_name = ''idle'', p_access_policy = AllAccess,
       p_priority = IdlePriority, p_address_space = sp,
       p_context = Some \<lparr> ec_registers = CpuRegisters_EMPTY, ec_frame = fr \<rparr>, p_heap_mapping = None, p_allow_io = True,
       p_fxsave_area = k_init_fxsave_area k \<rparr> (set_memory km k);
     weak \<leftarrow> get_section (k_loader k) ''shell::QUEUE'';
     sec \<leftarrow> upgrade_section (k_loader k) weak;
     Some (k\<lparr> k_shell_location := Some (sec_mapping sec, sec_mapping_offset sec) \<rparr>)
   }"

subsection \<open>Scheduling\<close>

text \<open>\<^verbatim>\<open>values_mut\<close> visits the queues in the order of their priorities.\<close>

definition PRIORITIES :: "priority list" where
  "PRIORITIES = [NoPriority, NormalPriority, IdlePriority]"

definition pop_queue :: "kernel \<Rightarrow> (process \<times> kernel) rust" where
  "pop_queue k = do {
     pr \<leftarrow> List.find (\<lambda>pr. k_queue k pr \<noteq> []) PRIORITIES;
     Some (hd (k_queue k pr), k\<lparr> k_queue := (k_queue k)(pr := tl (k_queue k pr)) \<rparr>)
   }"

definition poll_shell :: "cpu_env \<Rightarrow> kernel \<Rightarrow> (shell_output option \<times> kernel) rust" where
  "poll_shell env k =
     (case k_shell_location k of None \<Rightarrow> Some (None, k)
      | Some loc \<Rightarrow> do {
          shell_queue_at env k loc;
          rust_assert (\<not> k_shell_out_locked k);
          (r, q) \<leftarrow> SizedQueue_pop (shell_out (k_shell k));
          Some (r, k\<lparr> k_shell := (k_shell k)\<lparr> shell_out := q \<rparr> \<rparr>)
        })"

definition unblock_front :: "kernel \<Rightarrow> (process \<times> kernel) rust" where
  "unblock_front k = (case k_blocked k of [] \<Rightarrow> panic | p # ps \<Rightarrow> Some (p, k\<lparr> k_blocked := ps \<rparr>))"

text \<open>\<^verbatim>\<open>get_section_for_addr(addr).and_then(|weak| weak.upgrade())\<close>\<close>

definition live_section_for_addr :: "kernel \<Rightarrow> address \<Rightarrow> loaded_section option rust" where
  "live_section_for_addr k addr = do {
     weak \<leftarrow> get_section_for_addr (k_loader k) addr;
     Some (Option.bind weak (upgrade_section (k_loader k)))
   }"

definition map_section_into ::
    "loaded_section \<Rightarrow> process \<Rightarrow> kernel \<Rightarrow> (mapping_error, unit, process \<times> kernel) outcome" where
  "map_section_into sec p k = do {
     (r, sp, km) \<leftarrow> KernelMapping_map_into (sec_mapping sec) (p_address_space p) (kmap_pages (sec_mapping sec))
       (kmap_flags (sec_mapping sec)) (k_memory k);
     Some (r, p\<lparr> p_address_space := sp \<rparr>, set_memory km k)
   }"

definition handle_shell_output :: "cpu_env \<Rightarrow> shell_output \<Rightarrow> kernel \<Rightarrow> kernel rust" where
  "handle_shell_output env output k =
     (case output of
        ExitProcess code \<Rightarrow> do { (p, k) \<leftarrow> unblock_front k; drop_process p k }
      | StartProcess name \<Rightarrow> do {
          (_, k) \<leftarrow> run_user_process env (SizedString_as_str name) None True NormalAccess k;
          Some k
        }
      | AllowModuleAccess addr process_id \<Rightarrow> do {
          (p, k) \<leftarrow> unblock_front k;
          rust_assert (process_id = p_id p);
          section_opt \<leftarrow> live_section_for_addr k (Address_new addr);
          case section_opt of
            Some sec \<Rightarrow> do {
              (r, p, k) \<leftarrow> map_section_into sec p k;
              case r of Inl e \<Rightarrow> drop_process p k | Inr _ \<Rightarrow> Some (add_to_queue p k)
            }
          | None \<Rightarrow> drop_process p k
        })"

definition take_context :: "kernel \<Rightarrow> (execution_context \<times> kernel) rust" where
  "take_context k = do {
     p \<leftarrow> k_current k;
     ctx \<leftarrow> p_context p;
     Some (ctx, k\<lparr> k_current := Some (p\<lparr> p_context := None \<rparr>) \<rparr>)
   }"

text \<open>Entering the space of the process that runs, or of the one taken from the run queue.\<close>

definition dispatch :: "cpu_env \<Rightarrow> kernel \<Rightarrow> kernel rust" where
  "dispatch env k =
     (case k_current k of
        Some p \<Rightarrow> Some (set_memory (AddressSpace_enter (p_address_space p) (k_memory k)) k)
      | None \<Rightarrow> do {
          (p, k) \<leftarrow> pop_queue k;
          let k = set_memory (AddressSpace_enter (p_address_space p) (k_memory k)) k;
          let k = set_user_io_allowed env (p_allow_io p) k;
          Some ((fxrstor (p_fxsave_area p) k)\<lparr> k_current := Some p \<rparr>)
        })"

definition schedule_next :: "cpu_env \<Rightarrow> kernel \<Rightarrow> (execution_context \<times> kernel) rust" where
  "schedule_next env k = do {
     k \<leftarrow> enter_kernel k;
     (output, k) \<leftarrow> poll_shell env k;
     k \<leftarrow> (case output of None \<Rightarrow> Some k | Some m \<Rightarrow> handle_shell_output env m k);
     k \<leftarrow> dispatch env k;
     take_context k
   }"

text \<open>\<^verbatim>\<open>scheduler::run\<close>: from here on the processor runs processes.\<close>

definition scheduler_run :: "cpu_env \<Rightarrow> kernel \<Rightarrow> (execution_context \<times> kernel) rust" where
  "scheduler_run env k = Scheduler_init env k \<bind> schedule_next env"

text \<open>The end of \<^verbatim>\<open>main\<close>: the shell is started and the scheduler runs.\<close>

definition start_shell_and_run :: "cpu_env \<Rightarrow> kernel \<Rightarrow> (execution_context \<times> kernel) rust" where
  "start_shell_and_run env k = do {
     (_, k) \<leftarrow> run_user_process env ''shell'' None True AllAccess k;
     scheduler_run env k
   }"

subsection \<open>Contexts on the stack\<close>

text \<open>
  The processor pushes the frame, the handler's prologue the registers; the top of the stack is the head of the list.
  \<open>read_context\<close> is the \<^verbatim>\<open>repr(C)\<close> layout of \<^verbatim>\<open>ExecutionContext\<close> the handler reads it with, and
  \<open>pop_context\<close> the instructions at the end of \<^verbatim>\<open>schedule\<close>, which pop the registers in turn and leave the
  frame to \<^verbatim>\<open>iretq\<close>.
\<close>

definition frame_words :: "interrupt_frame \<Rightarrow> u64 list" where
  "frame_words f = [if_rip f, ucast (if_cs f), if_rflags f, if_rsp f, ucast (if_ss f)]"

definition push_context :: "cpu_registers \<Rightarrow> interrupt_frame \<Rightarrow> u64 list" where
  "push_context r f = fold (#) [rax r, rbx r, rcx r, rdx r, rbp r, rdi r, rsi r, r8 r, r9 r, r10 r, r11 r, r12 r, r13 r, r14 r,
     r15 r] (frame_words f)"

definition frame_of_words :: "u64 list \<Rightarrow> interrupt_frame" where
  "frame_of_words ws = \<lparr> if_rip = ws ! 0, if_cs = ucast (ws ! 1), if_rflags = ws ! 2, if_rsp = ws ! 3, if_ss = ucast (ws ! 4) \<rparr>"

definition read_context :: "u64 list \<Rightarrow> execution_context" where
  "read_context ws = \<lparr> ec_registers = \<lparr> r15 = ws ! 0, r14 = ws ! 1, r13 = ws ! 2, r12 = ws ! 3, r11 = ws ! 4, r10 = ws ! 5,
       r9 = ws ! 6, r8 = ws ! 7, rsi = ws ! 8, rdi = ws ! 9, rbp = ws ! 10, rdx = ws ! 11, rcx = ws ! 12, rbx = ws ! 13,
       rax = ws ! 14 \<rparr>,
     ec_frame = frame_of_words (drop 15 ws) \<rparr>"

definition context_words :: "execution_context \<Rightarrow> u64 list" where
  "context_words c = (let r = ec_registers c in [r15 r, r14 r, r13 r, r12 r, r11 r, r10 r, r9 r, r8 r, rsi r, rdi r, rbp r, rdx r,
     rcx r, rbx r, rax r] @ frame_words (ec_frame c))"

fun pop_registers :: "((u64 \<Rightarrow> u64) \<Rightarrow> cpu_registers \<Rightarrow> cpu_registers) list \<Rightarrow> u64 list \<times> cpu_registers \<Rightarrow> u64 list \<times> cpu_registers" where
  "pop_registers [] st = st"
| "pop_registers (u # us) (stack, r) = pop_registers us (tl stack, u (\<lambda>_. hd stack) r)"

definition pop_context :: "u64 list \<Rightarrow> cpu_registers \<Rightarrow> cpu_registers \<times> interrupt_frame" where
  "pop_context stack r = (let (stack, r) = pop_registers [r15_update, r14_update, r13_update, r12_update, r11_update, r10_update,
       r9_update, r8_update, rsi_update, rdi_update, rbp_update, rdx_update, rcx_update, rbx_update, rax_update] (stack, r)
     in (r, frame_of_words stack))"

text \<open>What the interrupt saved is what the handler reads, and what \<^verbatim>\<open>schedule\<close> resumes is the context it was given.\<close>

lemma selector_word [simp]: "ucast (ucast (s :: u16) :: u64) = s"
  by (rule bit_word_eqI) (simp add: bit_simps)

lemma read_push_context: "read_context (push_context r f) = \<lparr> ec_registers = r, ec_frame = f \<rparr>"
  by (simp add: read_context_def push_context_def frame_words_def frame_of_words_def)

lemma pop_context_words: "pop_context (context_words c) r = (ec_registers c, ec_frame c)"
  by (simp add: pop_context_def context_words_def frame_words_def frame_of_words_def Let_def)

subsection \<open>Interrupt handlers\<close>

text \<open>
  The handlers that \<^verbatim>\<open>define_interrupt_handler_with_context\<close> defines. The interrupt gates of the table
  disable interrupts, which is what the handler asserts first.
\<close>

definition interrupt_handler ::
    "cpu_env \<Rightarrow> (kernel \<Rightarrow> kernel rust) \<Rightarrow> execution_context \<Rightarrow> kernel \<Rightarrow> (execution_context \<times> kernel) rust" where
  "interrupt_handler env run ctx k = do {
     k \<leftarrow> set_current_context ctx k;
     k \<leftarrow> run k;
     schedule_next env k
   }"

definition defer_interrupt_handler :: "cpu_env \<Rightarrow> execution_context \<Rightarrow> kernel \<Rightarrow> (execution_context \<times> kernel) rust" where
  "defer_interrupt_handler env = interrupt_handler env preempt_current"

definition end_of_interrupt :: "kernel \<Rightarrow> kernel rust" where
  "end_of_interrupt k = do { rust_assert (k_apic k); Some k }"

definition timer_interrupt_handler :: "cpu_env \<Rightarrow> execution_context \<Rightarrow> kernel \<Rightarrow> (execution_context \<times> kernel) rust" where
  "timer_interrupt_handler env = interrupt_handler env (\<lambda>k. end_of_interrupt k \<bind> preempt_current)"

definition exit_current :: "kernel \<Rightarrow> kernel rust" where
  "exit_current k = do {
     p \<leftarrow> k_current k;
     _ \<leftarrow> p_context p;
     k \<leftarrow> enter_kernel (k\<lparr> k_current := None \<rparr>);
     drop_process p k
   }"

definition exit_interrupt_handler :: "cpu_env \<Rightarrow> execution_context \<Rightarrow> kernel \<Rightarrow> (execution_context \<times> kernel) rust" where
  "exit_interrupt_handler env = interrupt_handler env exit_current"

definition translate_current :: "kernel \<Rightarrow> kernel rust" where
  "translate_current k = do {
     p \<leftarrow> k_current k;
     ctx \<leftarrow> p_context p;
     r \<leftarrow> AddressSpace_translate_address (p_address_space p) (k_memory k) (Address_new (rdi (ec_registers ctx)));
     let result = (case r of Some phys_addr \<Rightarrow> phys_addr | None \<Rightarrow> word_of_int (- 2));
     Some (k\<lparr> k_current := Some (p\<lparr> p_context := Some (ctx\<lparr> ec_registers := (ec_registers ctx)\<lparr> rax := result \<rparr> \<rparr>) \<rparr>) \<rparr>)
   }"

definition translate_addr_interrupt_handler ::
    "cpu_env \<Rightarrow> execution_context \<Rightarrow> kernel \<Rightarrow> (execution_context \<times> kernel) rust" where
  "translate_addr_interrupt_handler env = interrupt_handler env translate_current"

text \<open>
  \<^verbatim>\<open>scheduler::exit\<close> raises the exit interrupt with the code in \<^verbatim>\<open>rdi\<close>; the other registers and the frame
  at that instruction of the kernel are \<open>exit_site\<close>.
\<close>

definition exit :: "cpu_env \<Rightarrow> int \<Rightarrow> kernel \<Rightarrow> (execution_context \<times> kernel) rust" where
  "exit env code k = exit_interrupt_handler env
     ((exit_site env)\<lparr> ec_registers := (ec_registers (exit_site env))\<lparr> rdi := word_of_int code \<rparr> \<rparr>) k"

subsection \<open>Faults\<close>

record page_fault_context =
  pf_registers :: cpu_registers
  pf_error_code :: u64
  pf_rip :: address
  pf_cs :: u64
  pf_rflags :: u64
  pf_rsp :: address
  pf_ss :: u64

definition PF_USER_MODE :: u64 where "PF_USER_MODE = 4"

definition USER_HEAP_FLAGS :: pt_flags where
  "USER_HEAP_FLAGS = PRESENT OR WRITABLE OR USER_ACCESSIBLE OR NO_EXECUTE"

definition set_current :: "process \<Rightarrow> kernel_memory \<Rightarrow> kernel \<Rightarrow> kernel" where
  "set_current p km k = (set_memory km k)\<lparr> k_current := Some p \<rparr>"

text \<open>The heap grows up to the page of the address; the result says whether the process must exit.\<close>

definition grow_user_heap :: "address \<Rightarrow> kernel \<Rightarrow> (bool \<times> kernel) rust" where
  "grow_user_heap addr k = do {
     p \<leftarrow> k_current k;
     heap_offset \<leftarrow> Address_sub addr (AddressDomain_base_addr UserHeap);
     if heap_offset \<ge> 1 * GIBIBYTE then Some (True, k)
     else do {
       let heap_base_page = Page_containing_addr (AddressDomain_base_addr UserHeap);
       new_heap_end_page \<leftarrow> page_add (Page_containing_addr addr) 1;
       case p_heap_mapping p of
         Some heap_mapping \<Rightarrow> do {
           current_heap_end_page \<leftarrow> page_add heap_base_page (PageRange_len (kmap_pages heap_mapping));
           let extension_pages = PageRange_new current_heap_end_page new_heap_end_page;
           rust_assert (PageRange_len extension_pages > 0);
           (r, m, sp, km) \<leftarrow> KernelMapping_extend heap_mapping (p_address_space p) extension_pages (k_memory k);
           Some (r \<noteq> Inr (), set_current (p\<lparr> p_address_space := sp, p_heap_mapping := Some m \<rparr>) km k)
         }
       | None \<Rightarrow> do {
           let pages = PageRange_new heap_base_page new_heap_end_page;
           (m, km) \<leftarrow> KernelMapping_new (''user_heap.'' @ p_name p) (PageRange_len pages * PAGE_SIZE) USER_HEAP_FLAGS
             (k_memory k);
           (r, sp, km) \<leftarrow> KernelMapping_map_into m (p_address_space p) pages USER_HEAP_FLAGS km;
           Some (r \<noteq> Inr (), set_current (p\<lparr> p_address_space := sp,
             p_heap_mapping := if r = Inr () then Some m else None \<rparr>) km k)
         }
     }
   }"

definition grant_pages :: "page_range \<Rightarrow> pt_flags \<Rightarrow> kernel \<Rightarrow> (bool \<times> kernel) rust" where
  "grant_pages pages flags k = do {
     p \<leftarrow> k_current k;
     (r, sp, km) \<leftarrow> AddressSpace_set_flags (p_address_space p) pages flags (k_memory k);
     Some (r \<noteq> Inr (), set_current (p\<lparr> p_address_space := sp \<rparr>) km k)
   }"

text \<open>An address outside every section: the framebuffer, the registers of a device or physical memory.\<close>

definition grant_unowned :: "address \<Rightarrow> address \<Rightarrow> kernel \<Rightarrow> (bool \<times> kernel) rust" where
  "grant_unowned addr instruction_addr k = do {
     _ \<leftarrow> k_current k;
     fb_mapping \<leftarrow> k_framebuffer k;
     let fb_addr = KernelMapping_addr fb_mapping;
     let fb_mapping_end = fb_addr + kmap_size fb_mapping;
     if addr \<ge> fb_addr \<and> addr < fb_mapping_end then
       grant_pages (kmap_pages fb_mapping) (kmap_flags fb_mapping OR USER_ACCESSIBLE) k
     else case MemoryTracker_get_pci_bar (km_tracker (k_memory k)) addr of
       Some (bar, bar_pages) \<Rightarrow> grant_pages bar_pages (PRESENT OR WRITABLE OR USER_ACCESSIBLE) k
     | None \<Rightarrow>
         if Address_domain addr = Physical then do {
           pages \<leftarrow> PageRange_from_start_len (Page_containing_addr addr) 1;
           grant_pages pages (PRESENT OR WRITABLE OR USER_ACCESSIBLE) k
         } else do {
           _ \<leftarrow> live_section_for_addr k instruction_addr;
           Some (True, k)
         }
   }"

definition access_section :: "cpu_env \<Rightarrow> address \<Rightarrow> loaded_section \<Rightarrow> kernel \<Rightarrow> (bool \<times> kernel) rust" where
  "access_section env addr sec k = do {
     p \<leftarrow> k_current k;
     case p_access_policy p of
       AllAccess \<Rightarrow> do {
         (r, p, k) \<leftarrow> map_section_into sec p k;
         Some (r \<noteq> Inr (), k\<lparr> k_current := Some p \<rparr>)
       }
     | NormalAccess \<Rightarrow> do {
         rust_assert (object_alive (k_loader k) (sec_owner sec) \<and> sec_owner sec < length (ld_store (k_loader k)));
         k \<leftarrow> block_current env (AccessModuleRequest addr (p_id p) (SizedString_new_truncate 32 (p_name p))
           (SizedString_new_truncate 32 (lo_name (ld_store (k_loader k) ! sec_owner sec)))
           (SizedString_new_truncate 32 (sec_name sec))) k;
         Some (False, k)
       }
   }"

definition exit_or_schedule :: "cpu_env \<Rightarrow> int \<Rightarrow> bool \<times> kernel \<Rightarrow> (execution_context \<times> kernel) rust" where
  "exit_or_schedule env code = (\<lambda>(exit_process, k). if exit_process then exit env code k else schedule_next env k)"

definition page_fault_handler ::
    "cpu_env \<Rightarrow> u64 \<Rightarrow> page_fault_context \<Rightarrow> kernel \<Rightarrow> (execution_context \<times> kernel) rust" where
  "page_fault_handler env cr2 ctx k = do {
     fr \<leftarrow> InterruptStackFrameValue_new env (pf_rip ctx) (ucast (pf_cs ctx)) (pf_rflags ctx) (pf_rsp ctx)
       (ucast (pf_ss ctx));
     k \<leftarrow> set_current_context \<lparr> ec_registers = pf_registers ctx, ec_frame = fr \<rparr> k;
     let addr = Address_new cr2;
     rust_assert (pf_error_code ctx AND PF_USER_MODE = PF_USER_MODE);
     if Address_domain addr = Invalid then exit env (- 17) k
     else if Address_domain addr = UserHeap then grow_user_heap addr k \<bind> exit_or_schedule env (- 7)
     else do {
       section_opt \<leftarrow> live_section_for_addr k addr;
       case section_opt of
         None \<Rightarrow> grant_unowned addr (pf_rip ctx) k \<bind> exit_or_schedule env (- 2)
       | Some sec \<Rightarrow> access_section env addr sec k \<bind> exit_or_schedule env (- 2)
     }
   }"

definition IO_PORT_OPCODES :: "u8 list" where
  "IO_PORT_OPCODES = [0xE4, 0xE5, 0xE6, 0xE7, 0xEC, 0xED, 0xEE, 0xEF]"

text \<open>\<open>opcode\<close> is the byte the instruction pointer points to.\<close>

definition general_protection_fault_handler :: "cpu_env \<Rightarrow> u8 \<Rightarrow> kernel \<Rightarrow> (execution_context \<times> kernel) rust" where
  "general_protection_fault_handler env opcode k =
     (if opcode \<in> set IO_PORT_OPCODES then do {
        kernel_sp \<leftarrow> km_kernel (k_memory k);
        rust_assert (\<not> AddressSpace_is_current kernel_sp (k_memory k));
        exit env (- 2) k
      } else panic)"

end
