(* ===== verification/Scheduler_Props.thy ===== *)
theory Scheduler_Props
  imports Scheduler "HOL-Library.Multiset"
begin

section \<open>Properties of the scheduler\<close>

text \<open>
  The invariant of the scheduler's tables over every sequence of interrupts, the order in which preempted
  processes run again, and what becomes of a process that faults. Processes are counted in multisets of their ids and
  priorities, so that moving a process between the tables is an equation.
\<close>

subsection \<open>The tables\<close>

type_synonym process_key = "u64 \<times> priority"

definition process_key :: "process \<Rightarrow> process_key" where
  "process_key p = (p_id p, p_priority p)"

definition process_keys :: "kernel \<Rightarrow> process_key multiset" where
  "process_keys k = image_mset process_key
     (mset (case k_current k of None \<Rightarrow> [] | Some p \<Rightarrow> [p]) + mset (k_queue k NoPriority) + mset (k_queue k NormalPriority)
      + mset (k_queue k IdlePriority) + mset (k_blocked k))"

text \<open>The ids are distinct and below \<open>n\<close>, the next to be given out, and the idle process is the one of idle priority.\<close>

definition keys_ok :: "u64 \<Rightarrow> process_key multiset \<Rightarrow> bool" where
  "keys_ok n K \<longleftrightarrow> 0 < n \<and> (\<forall>i. count (image_mset fst K) i \<le> 1)
     \<and> (\<forall>(i, pr) \<in># K. i < n \<and> (pr = IdlePriority \<longleftrightarrow> i = IDLE_PROCESS_ID))"

definition queues_ok :: "kernel \<Rightarrow> bool" where
  "queues_ok k \<longleftrightarrow> (\<forall>pr. \<forall>p \<in> set (k_queue k pr). p_priority p = pr \<and> p_context p \<noteq> None)
     \<and> (\<forall>p \<in> set (k_blocked k). p_context p \<noteq> None \<and> p_id p \<noteq> IDLE_PROCESS_ID)"

definition iomap_for :: "cpu_env \<Rightarrow> process \<Rightarrow> u16" where
  "iomap_for env p = (if p_allow_io p then tss_size env else 0xFFFF)"

definition tables_ok :: "kernel \<Rightarrow> bool" where
  "tables_ok k \<longleftrightarrow> keys_ok (k_process_id k) (process_keys k) \<and> queues_ok k
     \<and> (IDLE_PROCESS_ID, IdlePriority) \<in># process_keys k"

text \<open>
  Inside a handler a process that is current has its context saved. While processes run, the current one has none, the
  processor is in its address space, and the bitmap of the ports it may use is the one it was granted.
\<close>

definition kernel_ok :: "cpu_env \<Rightarrow> kernel \<Rightarrow> bool" where
  "kernel_ok env k \<longleftrightarrow> tables_ok k
     \<and> (\<forall>p. k_current k = Some p \<longrightarrow> p_context p \<noteq> None \<and> k_iomap_base k = iomap_for env p)"

definition user_ok :: "cpu_env \<Rightarrow> kernel \<Rightarrow> bool" where
  "user_ok env k \<longleftrightarrow> tables_ok k
     \<and> (\<exists>p. k_current k = Some p \<and> p_context p = None \<and> k_iomap_base k = iomap_for env p
          \<and> AddressSpace_is_current (p_address_space p) (k_memory k))"

text \<open>Before the scheduler runs there is no idle process yet.\<close>

definition scheduler_ready :: "kernel \<Rightarrow> bool" where
  "scheduler_ready k \<longleftrightarrow> keys_ok (k_process_id k) (process_keys k) \<and> queues_ok k
     \<and> k_current k = None \<and> k_blocked k = [] \<and> (\<forall>(i, pr) \<in># process_keys k. i \<noteq> IDLE_PROCESS_ID)"

subsection \<open>What leaves the tables alone\<close>

definition table :: "kernel \<Rightarrow> process option \<times> (priority \<Rightarrow> process list) \<times> process list \<times> u64 \<times> u16" where
  "table k = (k_current k, k_queue k, k_blocked k, k_process_id k, k_iomap_base k)"

lemma ok_cong:
  assumes "table k = table k'"
  shows "kernel_ok env k = kernel_ok env k'" "tables_ok k = tables_ok k'" "scheduler_ready k = scheduler_ready k'"
    "k_process_id k = k_process_id k'" "k_current k = k_current k'" "k_queue k = k_queue k'"
proof -
  have e: "k_current k = k_current k'" "k_queue k = k_queue k'" "k_blocked k = k_blocked k'"
    "k_process_id k = k_process_id k'" "k_iomap_base k = k_iomap_base k'" using assms by (simp_all add: table_def)
  show "kernel_ok env k = kernel_ok env k'" "tables_ok k = tables_ok k'" "scheduler_ready k = scheduler_ready k'"
    unfolding kernel_ok_def tables_ok_def scheduler_ready_def process_keys_def queues_ok_def e by (rule refl)+
qed (use assms in \<open>simp_all add: table_def\<close>)

lemma table_set_memory [simp]: "table (set_memory km k) = table k"
  by (simp add: set_memory_def table_def)

lemma enter_kernel_table: "enter_kernel k = Some k' \<Longrightarrow> table k' = table k"
  by (auto simp: enter_kernel_def bind_eq_Some_conv)

lemma drop_process_table: "drop_process p k = Some k' \<Longrightarrow> table k' = table k"
  by (auto simp: drop_process_def bind_eq_Some_conv)

lemma poll_shell_table: "poll_shell env k = Some (r, k') \<Longrightarrow> table k' = table k"
  by (auto simp: poll_shell_def bind_eq_Some_conv table_def split: option.splits)

lemma map_section_into_table:
  "map_section_into sec p k = Some (r, p', k') \<Longrightarrow>
     table k' = table k \<and> process_key p' = process_key p \<and> p_context p' = p_context p \<and> p_allow_io p' = p_allow_io p"
  by (auto simp: map_section_into_def process_key_def bind_eq_Some_conv)

subsection \<open>Moving processes between the tables\<close>

lemmas move_defs = kernel_ok_def tables_ok_def queues_ok_def process_keys_def

lemma add_to_queue_keys [simp]:
  "process_keys (add_to_queue p k) = add_mset (process_key p) (process_keys k)"
  by (cases "p_priority p") (simp_all add: add_to_queue_def process_keys_def)

lemma add_to_queue_ok:
  "queues_ok k \<Longrightarrow> p_context p \<noteq> None \<Longrightarrow> queues_ok (add_to_queue p k)"
  by (auto simp: queues_ok_def add_to_queue_def)

lemma add_to_queue_simps [simp]:
  "k_current (add_to_queue p k) = k_current k" "k_blocked (add_to_queue p k) = k_blocked k"
  "k_process_id (add_to_queue p k) = k_process_id k" "k_iomap_base (add_to_queue p k) = k_iomap_base k"
  "k_memory (add_to_queue p k) = k_memory k" "k_loader (add_to_queue p k) = k_loader k"
  by (simp_all add: add_to_queue_def k_memory_def)

lemma process_keys_current:
  "k_current k = Some p \<Longrightarrow> process_keys k = add_mset (process_key p) (process_keys (k\<lparr> k_current := None \<rparr>))"
  by (simp add: process_keys_def)

lemma process_keys_update [simp]:
  "process_keys (k\<lparr> k_process_id := n \<rparr>) = process_keys k"
  "process_keys (k\<lparr> k_iomap_base := b \<rparr>) = process_keys k"
  by (simp_all add: process_keys_def)

lemma keys_ok_new:
  assumes "keys_ok n K" "n \<noteq> - 1" "pr \<noteq> IdlePriority"
  shows "keys_ok (n + 1) (add_mset (n, pr) K)"
proof -
  have "n + 1 \<noteq> 0" using assms(2) by (metis add.inverse_inverse eq_neg_iff_add_eq_0)
  then have n: "n < n + 1" using unatSuc [of n] by (simp add: word_less_nat_alt add.commute)
  have c: "count (image_mset fst K) n = 0"
    using assms(1) by (auto simp: keys_ok_def not_in_iff [symmetric])
  have "count (image_mset fst (add_mset (n, pr) K)) i \<le> 1" for i
    using assms(1) c by (cases "i = n") (simp_all add: keys_ok_def)
  moreover have "i < n + 1 \<and> (q = IdlePriority \<longleftrightarrow> i = IDLE_PROCESS_ID)" if "(i, q) \<in># add_mset (n, pr) K" for i q
    using that assms(1,3) n by (auto simp: keys_ok_def IDLE_PROCESS_ID_def intro: less_trans)
  ultimately show ?thesis using n assms(1) by (auto simp: keys_ok_def)
qed

lemma keys_ok_remove:
  assumes "keys_ok n (add_mset x K)"
  shows "keys_ok n K"
proof -
  have "count (image_mset fst K) i \<le> count (image_mset fst (add_mset x K)) i" for i by simp
  then have "count (image_mset fst K) i \<le> 1" for i using assms unfolding keys_ok_def by (meson order_trans)
  then show ?thesis using assms by (simp add: keys_ok_def)
qed

lemma kernel_ok_take:
  assumes "kernel_ok env k" "k_current k = Some p"
  shows "keys_ok (k_process_id k) (add_mset (process_key p) (process_keys (k\<lparr> k_current := None \<rparr>)))"
    "queues_ok (k\<lparr> k_current := None \<rparr>)" "p_context p \<noteq> None"
    "(IDLE_PROCESS_ID, IdlePriority) \<in># add_mset (process_key p) (process_keys (k\<lparr> k_current := None \<rparr>))"
  using assms by (simp_all add: kernel_ok_def tables_ok_def process_keys_current queues_ok_def)

lemma set_current_context_ok:
  assumes "user_ok env k" "set_current_context ctx k = Some k'"
  shows "kernel_ok env k'" "k_process_id k' = k_process_id k"
    "\<exists>p. k_current k = Some p \<and> k_current k' = Some (p\<lparr> p_context := Some ctx, p_fxsave_area := k_fpu k \<rparr>)"
  using assms
  by (auto simp: set_current_context_def user_ok_def kernel_ok_def tables_ok_def queues_ok_def process_keys_def
      process_key_def iomap_for_def bind_eq_Some_conv)

lemma preempt_current_ok:
  assumes "kernel_ok env k" "preempt_current k = Some k'"
  shows "kernel_ok env k'" "k_process_id k' = k_process_id k"
proof -
  obtain p where p: "k_current k = Some p" "k' = add_to_queue p (k\<lparr> k_current := None \<rparr>)"
    using assms(2) by (auto simp: preempt_current_def bind_eq_Some_conv)
  show "kernel_ok env k'"
    using kernel_ok_take [OF assms(1) p(1)] unfolding p(2) by (simp add: kernel_ok_def tables_ok_def add_to_queue_ok)
  show "k_process_id k' = k_process_id k" by (simp add: p(2))
qed

text \<open>A process that is not the idle one leaves the tables when it exits.\<close>

lemma remove_current_ok:
  assumes "kernel_ok env k" "k_current k = Some p" "p_id p \<noteq> IDLE_PROCESS_ID"
  shows "kernel_ok env (k\<lparr> k_current := None \<rparr>)"
  using kernel_ok_take [OF assms(1,2)] assms(3) keys_ok_remove
  by (auto simp: kernel_ok_def tables_ok_def process_key_def)

lemma exit_current_ok:
  assumes "kernel_ok env k" "exit_current k = Some k'" "k_current k = Some p" "p_id p \<noteq> IDLE_PROCESS_ID"
  shows "kernel_ok env k'" "k_process_id k' = k_process_id k"
proof -
  obtain k1 where k: "enter_kernel (k\<lparr> k_current := None \<rparr>) = Some k1" "drop_process p k1 = Some k'"
    using assms(2,3) by (auto simp: exit_current_def bind_eq_Some_conv)
  have t: "table k' = table (k\<lparr> k_current := None \<rparr>)" using enter_kernel_table [OF k(1)] drop_process_table [OF k(2)] by simp
  show "kernel_ok env k'" using remove_current_ok [OF assms(1,3,4)] ok_cong(1) [OF t] by simp
  show "k_process_id k' = k_process_id k" using ok_cong(4) [OF t] by simp
qed

lemma kernel_ok_current_update:
  assumes "kernel_ok env k" "k_current k = Some p" "process_key p' = process_key p" "p_context p' \<noteq> None"
    "p_allow_io p' = p_allow_io p"
  shows "kernel_ok env (k\<lparr> k_current := Some p' \<rparr>)"
  using assms by (auto simp: kernel_ok_def tables_ok_def queues_ok_def process_keys_def iomap_for_def)

lemma translate_current_ok:
  assumes "kernel_ok env k" "translate_current k = Some k'"
  shows "kernel_ok env k'" "k_process_id k' = k_process_id k"
  using assms
  by (auto simp: translate_current_def bind_eq_Some_conv Let_def process_key_def intro!: kernel_ok_current_update)

lemma block_current_ok:
  assumes "kernel_ok env k" "block_current env req k = Some k'" "k_current k = Some p" "p_id p \<noteq> IDLE_PROCESS_ID"
  shows "kernel_ok env k'" "k_process_id k' = k_process_id k"
proof -
  obtain k1 q where k: "enter_kernel (k\<lparr> k_current := None \<rparr>) = Some k1"
    "k' = k1\<lparr> k_blocked := k_blocked k1 @ [p], k_shell := (k_shell k1)\<lparr> shell_in := q \<rparr> \<rparr>"
    using assms(2,3) by (auto simp: block_current_def bind_eq_Some_conv Let_def)
  have t: "table k' = table (k\<lparr> k_current := None, k_blocked := k_blocked k @ [p] \<rparr>)"
    using enter_kernel_table [OF k(1)] unfolding k(2) by (simp add: table_def)
  have "kernel_ok env (k\<lparr> k_current := None, k_blocked := k_blocked k @ [p] \<rparr>)"
    using kernel_ok_take [OF assms(1,3)] assms(4)
    by (auto simp: kernel_ok_def tables_ok_def queues_ok_def process_keys_def)
  then show "kernel_ok env k'" using ok_cong(1) [OF t] by simp
  show "k_process_id k' = k_process_id k" using ok_cong(4) [OF t] by simp
qed

subsection \<open>New processes\<close>

definition started :: "kernel \<Rightarrow> kernel \<Rightarrow> bool" where
  "started k k' \<longleftrightarrow> (\<exists>p. table k' = table (add_to_queue p (k\<lparr> k_process_id := k_process_id k + 1 \<rparr>))
     \<and> process_key p = (k_process_id k, NormalPriority) \<and> p_context p \<noteq> None)"

lemma startedI:
  "process_key p = (k_process_id k, NormalPriority) \<Longrightarrow> p_context p \<noteq> None \<Longrightarrow>
     started k (add_to_queue p (k\<lparr> k_process_id := k_process_id k + 1, k_loader := ld \<rparr>))"
  unfolding started_def by (rule exI [of _ p]) (simp add: table_def add_to_queue_def)

lemma unwrap_eq_Some [simp]: "(case r of Inl _ \<Rightarrow> panic | Inr x \<Rightarrow> Some x) = Some y \<longleftrightarrow> r = Inr y"
  by (cases r) simp_all

lemma run_user_process_started:
  "run_user_process env name stack io pol k = Some (oid, k') \<Longrightarrow> started k k'"
  by (clarsimp simp: run_user_process_def fetch_process_id_def bind_eq_Some_conv Let_def)
    (rule startedI; simp add: process_key_def)

lemma run_kernel_process_started:
  "run_kernel_process env name start stack k = Some k' \<Longrightarrow> started k k'"
  by (clarsimp simp: run_kernel_process_def fetch_process_id_def bind_eq_Some_conv Let_def set_memory_def)
    (rule startedI; simp add: process_key_def)

lemma started_ok:
  assumes "started k k'" "k_process_id k \<noteq> - 1"
  shows "kernel_ok env k \<Longrightarrow> kernel_ok env k'" "scheduler_ready k \<Longrightarrow> scheduler_ready k'"
    "k_process_id k' = k_process_id k + 1"
proof -
  obtain p where p: "table k' = table (add_to_queue p (k\<lparr> k_process_id := k_process_id k + 1 \<rparr>))"
    "process_key p = (k_process_id k, NormalPriority)" "p_context p \<noteq> None" using assms(1) by (auto simp: started_def)
  have q: "queues_ok k \<Longrightarrow> queues_ok (add_to_queue p (k\<lparr> k_process_id := k_process_id k + 1 \<rparr>))"
    by (rule add_to_queue_ok [OF _ p(3)]) (simp add: queues_ok_def)
  have n: "keys_ok (k_process_id k) (process_keys k) \<Longrightarrow>
      keys_ok (k_process_id k + 1) (add_mset (k_process_id k, NormalPriority) (process_keys k))"
    by (rule keys_ok_new [OF _ assms(2)]) simp_all
  show "kernel_ok env k'" if "kernel_ok env k"
    using that q n p(2) unfolding ok_cong(1) [OF p(1)] by (simp add: kernel_ok_def tables_ok_def)
  show "scheduler_ready k'" if "scheduler_ready k"
  proof -
    have "k_process_id k \<noteq> IDLE_PROCESS_ID" using that by (auto simp: scheduler_ready_def keys_ok_def IDLE_PROCESS_ID_def)
    then show ?thesis using that q n p(2) unfolding ok_cong(3) [OF p(1)] by (simp add: scheduler_ready_def)
  qed
  show "k_process_id k' = k_process_id k + 1" using ok_cong(4) [OF p(1)] by simp
qed

lemma Scheduler_new_ready: "scheduler_ready (Scheduler_new k)"
  by (simp add: scheduler_ready_def Scheduler_new_def process_keys_def queues_ok_def keys_ok_def IDLE_PROCESS_ID_def)

lemma idle_added:
  "process_key p = (IDLE_PROCESS_ID, IdlePriority) \<Longrightarrow> p_context p \<noteq> None \<Longrightarrow>
     \<exists>q. table ((add_to_queue p (set_memory km k))\<lparr> k_shell_location := loc \<rparr>) = table (add_to_queue q k)
       \<and> process_key q = (IDLE_PROCESS_ID, IdlePriority) \<and> (\<exists>c. p_context q = Some c)"
  by (rule exI [of _ p]) (simp add: table_def add_to_queue_def set_memory_def)

lemma Scheduler_init_ok:
  assumes "scheduler_ready k" "Scheduler_init env k = Some k'"
  shows "kernel_ok env k'" "k_process_id k' = k_process_id k"
proof -
  have "\<exists>p. table k' = table (add_to_queue p k) \<and> process_key p = (IDLE_PROCESS_ID, IdlePriority) \<and> p_context p \<noteq> None"
    using assms(2) by (clarsimp simp: Scheduler_init_def bind_eq_Some_conv Let_def) (rule idle_added; simp add: process_key_def)
  then obtain p where p: "table k' = table (add_to_queue p k)" "process_key p = (IDLE_PROCESS_ID, IdlePriority)"
    "p_context p \<noteq> None" by blast
  have r: "keys_ok (k_process_id k) (process_keys k)" "queues_ok k" "k_current k = None"
    "\<And>i pr. (i, pr) \<in># process_keys k \<Longrightarrow> i \<noteq> IDLE_PROCESS_ID"
    using assms(1) by (auto simp: scheduler_ready_def)
  have "count (image_mset fst (process_keys k)) IDLE_PROCESS_ID = 0"
    using r(4) by (fastforce simp: not_in_iff [symmetric])
  then have "count (image_mset fst (add_mset (IDLE_PROCESS_ID, IdlePriority) (process_keys k))) i \<le> 1" for i
    using r(1) by (cases "i = IDLE_PROCESS_ID") (simp_all add: keys_ok_def)
  then have "keys_ok (k_process_id k) (add_mset (IDLE_PROCESS_ID, IdlePriority) (process_keys k))"
    using r(1) by (simp add: keys_ok_def IDLE_PROCESS_ID_def)
  then show "kernel_ok env k'"
    using r p(2) add_to_queue_ok [OF r(2) p(3)] unfolding ok_cong(1) [OF p(1)] by (simp add: kernel_ok_def tables_ok_def)
  show "k_process_id k' = k_process_id k" using ok_cong(4) [OF p(1)] by simp
qed

subsection \<open>Scheduling\<close>

lemma unblock_front_ok:
  assumes "kernel_ok env k" "unblock_front k = Some (p, k')"
  shows "kernel_ok env k'" "k_process_id k' = k_process_id k" "p_context p \<noteq> None" "p_id p \<noteq> IDLE_PROCESS_ID"
    "keys_ok (k_process_id k) (add_mset (process_key p) (process_keys k'))"
proof -
  obtain ps where b: "k_blocked k = p # ps" "k' = k\<lparr> k_blocked := ps \<rparr>"
    using assms(2) by (auto simp: unblock_front_def split: list.splits)
  have K: "process_keys k = add_mset (process_key p) (process_keys k')" by (simp add: process_keys_def b)
  show p: "p_context p \<noteq> None" "p_id p \<noteq> IDLE_PROCESS_ID" using assms(1) b(1) by (auto simp: move_defs)
  show k: "keys_ok (k_process_id k) (add_mset (process_key p) (process_keys k'))"
    using assms(1) K by (simp add: kernel_ok_def tables_ok_def)
  have "(IDLE_PROCESS_ID, IdlePriority) \<in># process_keys k'"
    using assms(1) p(2) K by (auto simp: kernel_ok_def tables_ok_def process_key_def)
  then show "kernel_ok env k'"
    using assms(1) keys_ok_remove [OF k] b by (auto simp: kernel_ok_def tables_ok_def queues_ok_def)
  show "k_process_id k' = k_process_id k" by (simp add: b)
qed

lemma requeue_ok:
  assumes "kernel_ok env k" "keys_ok (k_process_id k) (add_mset (process_key p) (process_keys k))" "p_context p \<noteq> None"
  shows "kernel_ok env (add_to_queue p k)"
  using assms add_to_queue_ok by (auto simp: kernel_ok_def tables_ok_def)

definition id_step :: "kernel \<Rightarrow> kernel \<Rightarrow> bool" where
  "id_step k k' \<longleftrightarrow> k_process_id k' = k_process_id k \<or> k_process_id k' = k_process_id k + 1"

lemma handle_shell_output_ok:
  assumes "kernel_ok env k" "handle_shell_output env m k = Some k'" "k_process_id k \<noteq> - 1"
  shows "kernel_ok env k' \<and> id_step k k'"
proof (cases m)
  case (ExitProcess code)
  then obtain p k1 where u: "unblock_front k = Some (p, k1)" "drop_process p k1 = Some k'"
    using assms(2) by (auto simp: handle_shell_output_def bind_eq_Some_conv)
  note t = drop_process_table [OF u(2)]
  show ?thesis using unblock_front_ok [OF assms(1) u(1)] ok_cong(1,4) [OF t] by (simp add: id_step_def)
next
  case (StartProcess name)
  then obtain oid where "run_user_process env (SizedString_as_str name) None True NormalAccess k = Some (oid, k')"
    using assms(2) by (auto simp: handle_shell_output_def bind_eq_Some_conv)
  from started_ok [OF run_user_process_started [OF this] assms(3)] assms(1) show ?thesis by (simp add: id_step_def)
next
  case (AllowModuleAccess addr pid)
  then obtain p k1 so where u: "unblock_front k = Some (p, k1)" "live_section_for_addr k1 (Address_new addr) = Some so"
    "(case so of None \<Rightarrow> drop_process p k1 | Some sec \<Rightarrow> map_section_into sec p k1 \<bind>
       (\<lambda>(r, p, k). case r of Inl e \<Rightarrow> drop_process p k | Inr _ \<Rightarrow> Some (add_to_queue p k))) = Some k'"
    using assms(2) by (auto simp: handle_shell_output_def bind_eq_Some_conv)
  note k1 = unblock_front_ok [OF assms(1) u(1)]
  show ?thesis
  proof (cases so)
    case None
    then have t: "table k' = table k1" using u(3) by (simp add: drop_process_table)
    show ?thesis using k1 ok_cong(1,4) [OF t] by (simp add: id_step_def)
  next
    case (Some sec)
    then obtain r p' k2 where m: "map_section_into sec p k1 = Some (r, p', k2)"
      "(case r of Inl e \<Rightarrow> drop_process p' k2 | Inr _ \<Rightarrow> Some (add_to_queue p' k2)) = Some k'"
      using u(3) by (auto simp: bind_eq_Some_conv)
    note s = map_section_into_table [OF m(1)]
    have k2: "kernel_ok env k2" "k_process_id k2 = k_process_id k" "process_keys k2 = process_keys k1"
      using k1 s ok_cong(1,4) [of k2 k1] by (auto simp: process_keys_def table_def)
    show ?thesis
    proof (cases r)
      case (Inl e)
      then have t: "table k' = table k2" using m(2) by (simp add: drop_process_table)
      show ?thesis using k2 ok_cong(1,4) [OF t] by (simp add: id_step_def)
    next
      case (Inr x)
      then have "k' = add_to_queue p' k2" using m(2) by simp
      then show ?thesis using requeue_ok [OF k2(1), of p'] k2 k1 s by (simp add: id_step_def)
    qed
  qed
qed

lemma pop_queue_ok:
  assumes "pop_queue k = Some (p, k')"
  shows "process_keys k = add_mset (process_key p) (process_keys k')"
    "queues_ok k \<Longrightarrow> queues_ok k' \<and> p_context p \<noteq> None" "k_process_id k' = k_process_id k" "k_current k' = k_current k"
proof -
  obtain pr where "k_queue k pr \<noteq> []" and k: "p = hd (k_queue k pr)"
    "k' = k\<lparr> k_queue := (k_queue k)(pr := tl (k_queue k pr)) \<rparr>"
    using assms by (auto simp: pop_queue_def bind_eq_Some_conv find_Some_iff)
  then obtain ps where q: "k_queue k pr = p # ps" by (cases "k_queue k pr") auto
  show "process_keys k = add_mset (process_key p) (process_keys k')"
    using q unfolding k(2) by (cases pr) (simp_all add: process_keys_def)
  show "queues_ok k \<Longrightarrow> queues_ok k' \<and> p_context p \<noteq> None"
    using q unfolding k(2) queues_ok_def by (auto dest: spec [of _ pr])
qed (use assms in \<open>auto simp: pop_queue_def bind_eq_Some_conv\<close>)

lemma set_memory_simps [simp]:
  "k_current (set_memory km k) = k_current k" "k_queue (set_memory km k) = k_queue k"
  "k_blocked (set_memory km k) = k_blocked k" "k_process_id (set_memory km k) = k_process_id k"
  "k_iomap_base (set_memory km k) = k_iomap_base k" "k_memory (set_memory km k) = km"
  "process_keys (set_memory km k) = process_keys k" "queues_ok (set_memory km k) = queues_ok k"
  "k_shell (set_memory km k) = k_shell k" "k_shell_location (set_memory km k) = k_shell_location k"
  "k_shell_out_locked (set_memory km k) = k_shell_out_locked k" "k_apic (set_memory km k) = k_apic k"
  "k_fpu (set_memory km k) = k_fpu k"
  by (simp_all add: set_memory_def k_memory_def process_keys_def queues_ok_def)

text \<open>The process the scheduler resumes: its context is taken, and the processor is in its space.\<close>

lemma dispatch_ok:
  assumes "kernel_ok env k" "dispatch env k = Some k1" "take_context k1 = Some (ctx, k')"
  shows "user_ok env k' \<and> k_process_id k' = k_process_id k"
proof (cases "k_current k")
  case (Some p)
  then show ?thesis
    using assms
    by (auto simp: dispatch_def take_context_def bind_eq_Some_conv kernel_ok_def user_ok_def tables_ok_def process_keys_def
        queues_ok_def process_key_def iomap_for_def AddressSpace_is_current_def AddressSpace_enter_def l4_addr_def
        k_memory_def set_memory_def)
next
  case None
  then obtain p k2 where q: "pop_queue k = Some (p, k2)"
    "k1 = (fxrstor (p_fxsave_area p) (set_user_io_allowed env (p_allow_io p)
       (set_memory (AddressSpace_enter (p_address_space p) (k_memory k2)) k2)))\<lparr> k_current := Some p \<rparr>"
    using assms(2) by (auto simp: dispatch_def bind_eq_Some_conv Let_def)
  note o = pop_queue_ok [OF q(1)]
  obtain c where c: "p_context p = Some c" "k' = k1\<lparr> k_current := Some (p\<lparr> p_context := None \<rparr>) \<rparr>"
    using assms(3) unfolding q(2) by (auto simp: take_context_def bind_eq_Some_conv)
  have "process_keys k' = add_mset (process_key p) (process_keys k2)"
    using o(4) None unfolding c(2) q(2)
    by (simp add: process_keys_def fxrstor_def set_user_io_allowed_def set_memory_def process_key_def)
  then have "process_keys k' = process_keys k" using o(1) by simp
  moreover have "queues_ok k' = queues_ok k2"
    unfolding c(2) q(2) queues_ok_def by (simp add: fxrstor_def set_user_io_allowed_def)
  then have "queues_ok k'" using o(2) assms(1) by (simp add: kernel_ok_def tables_ok_def)
  moreover have "k_process_id k' = k_process_id k"
    using o(3) unfolding c(2) q(2) by (simp add: fxrstor_def set_user_io_allowed_def)
  moreover have "k_current k' = Some (p\<lparr> p_context := None \<rparr>)" "k_iomap_base k' = iomap_for env p"
    "AddressSpace_is_current (p_address_space p) (k_memory k')"
    unfolding c(2) q(2)
    by (simp_all add: fxrstor_def set_user_io_allowed_def iomap_for_def AddressSpace_is_current_def AddressSpace_enter_def
        l4_addr_def k_memory_def set_memory_def)
  ultimately show ?thesis
    using assms(1) by (simp add: user_ok_def kernel_ok_def tables_ok_def iomap_for_def)
qed

lemma schedule_next_ok:
  assumes "kernel_ok env k" "schedule_next env k = Some (ctx, k')" "k_process_id k \<noteq> - 1"
  shows "user_ok env k' \<and> id_step k k'"
proof -
  obtain k1 r k2 k3 k4 where s: "enter_kernel k = Some k1" "poll_shell env k1 = Some (r, k2)"
    "(case r of None \<Rightarrow> Some k2 | Some m \<Rightarrow> handle_shell_output env m k2) = Some k3"
    "dispatch env k3 = Some k4" "take_context k4 = Some (ctx, k')"
    using assms(2) by (auto simp: schedule_next_def bind_eq_Some_conv)
  have t: "table k2 = table k" using enter_kernel_table [OF s(1)] poll_shell_table [OF s(2)] by simp
  have k2: "kernel_ok env k2" "k_process_id k2 = k_process_id k" using assms(1) ok_cong(1,4) [OF t] by simp_all
  have "kernel_ok env k3 \<and> id_step k2 k3"
  proof (cases r)
    case None
    then show ?thesis using s(3) k2 by (simp add: id_step_def)
  next
    case (Some m)
    then show ?thesis using handle_shell_output_ok [OF k2(1), of m k3] s(3) k2(2) assms(3) by simp
  qed
  then show ?thesis using dispatch_ok [OF _ s(4,5)] k2(2) by (simp add: id_step_def)
qed

subsection \<open>Faults\<close>

text \<open>
  The fault handler saves the context of the process first, so the exit interrupt it raises for a process that has
  to end finds a context saved already.
\<close>

lemma exit_panics: "k_current k = Some p \<Longrightarrow> p_context p \<noteq> None \<Longrightarrow> exit env code k = None"
  by (auto simp: exit_def exit_interrupt_handler_def interrupt_handler_def set_current_context_def)

definition current_kept :: "kernel \<Rightarrow> kernel \<Rightarrow> bool" where
  "current_kept k k' \<longleftrightarrow> (\<exists>p p' km. k_current k = Some p \<and> k' = set_current p' km k \<and> process_key p' = process_key p
     \<and> p_context p' = p_context p \<and> p_allow_io p' = p_allow_io p)"

lemma current_keptI:
  "k_current k = Some p \<Longrightarrow> current_kept k (set_current (p\<lparr> p_address_space := sp \<rparr>) km k)"
  "k_current k = Some p \<Longrightarrow> current_kept k (set_current (p\<lparr> p_address_space := sp, p_heap_mapping := h \<rparr>) km k)"
  unfolding current_kept_def process_key_def
  by (rule exI [of _ p], rule exI [of _ "p\<lparr> p_address_space := sp \<rparr>"], rule exI [of _ km], simp)
    (rule exI [of _ p], rule exI [of _ "p\<lparr> p_address_space := sp, p_heap_mapping := h \<rparr>"], rule exI [of _ km], simp)

lemma current_kept_self:
  assumes "k_current k = Some p"
  shows "current_kept k k"
proof -
  have "k = set_current p (k_memory k) k" using assms by (simp add: set_current_def set_memory_def k_memory_def)
  then show ?thesis using assms unfolding current_kept_def by blast
qed

lemma current_kept_ok:
  assumes "kernel_ok env k" "current_kept k k'"
  shows "kernel_ok env k'" "k_process_id k' = k_process_id k"
proof -
  obtain p p' km where p: "k_current k = Some p" "k' = set_current p' km k" "process_key p' = process_key p"
    "p_context p' = p_context p" "p_allow_io p' = p_allow_io p" using assms(2) by (auto simp: current_kept_def)
  have t: "table k' = table (k\<lparr> k_current := Some p' \<rparr>)" unfolding p(2) by (simp add: set_current_def table_def)
  have "p_context p' \<noteq> None" using assms(1) p(1,4) by (simp add: kernel_ok_def)
  then show "kernel_ok env k'" using kernel_ok_current_update [OF assms(1) p(1,3)] p(5) ok_cong(1) [OF t] by simp
  show "k_process_id k' = k_process_id k" using ok_cong(4) [OF t] by simp
qed

lemma grow_user_heap_kept: "grow_user_heap addr k = Some (b, k') \<Longrightarrow> current_kept k k'"
  by (auto simp: grow_user_heap_def bind_eq_Some_conv Let_def split: if_splits option.splits
      intro: current_keptI current_kept_self)

lemma grant_pages_kept: "grant_pages pages flags k = Some (b, k') \<Longrightarrow> current_kept k k'"
  by (auto simp: grant_pages_def bind_eq_Some_conv intro: current_keptI)

lemma grant_unowned_kept: "grant_unowned addr ip k = Some (b, k') \<Longrightarrow> current_kept k k'"
  by (auto simp: grant_unowned_def bind_eq_Some_conv Let_def split: if_splits option.splits
      intro: grant_pages_kept current_kept_self)

lemma access_section_ok:
  assumes "kernel_ok env k" "access_section env addr sec k = Some (b, k')" "k_current k = Some p" "p_id p \<noteq> IDLE_PROCESS_ID"
  shows "kernel_ok env k' \<and> k_process_id k' = k_process_id k \<and> (k_current k' = None \<longrightarrow> \<not> b)"
proof (cases "p_access_policy p")
  case AllAccess
  then obtain r p' k1 where m: "map_section_into sec p k = Some (r, p', k1)" "k' = k1\<lparr> k_current := Some p' \<rparr>"
    using assms(2,3) by (auto simp: access_section_def bind_eq_Some_conv)
  note s = map_section_into_table [OF m(1)]
  have k1: "kernel_ok env k1" "k_current k1 = Some p" "k_process_id k1 = k_process_id k"
    using s assms(1,3) ok_cong(1,4,5) [of k1 k] by simp_all
  have "p_context p' \<noteq> None" using s assms(1,3) by (simp add: kernel_ok_def)
  then show ?thesis using kernel_ok_current_update [OF k1(1,2), of p'] s k1(3) m(2) by simp
next
  case NormalAccess
  then obtain req where "block_current env req k = Some k'" "\<not> b"
    using assms(2,3) by (auto simp: access_section_def bind_eq_Some_conv)
  then show ?thesis using block_current_ok [OF assms(1) _ assms(3,4)] by blast
qed

lemma exit_or_schedule_ok:
  assumes "kernel_ok env k" "exit_or_schedule env code (b, k) = Some (ctx, k')" "k_process_id k \<noteq> - 1"
    "k_current k = None \<Longrightarrow> \<not> b"
  shows "user_ok env k' \<and> id_step k k'"
proof (cases b)
  case True
  then obtain p where "k_current k = Some p" using assms(4) by auto
  then have "exit env code k = None" using exit_panics assms(1) by (auto simp: kernel_ok_def)
  then show ?thesis using assms(2) True by (simp add: exit_or_schedule_def)
next
  case False
  then show ?thesis using schedule_next_ok [OF assms(1) _ assms(3)] assms(2) by (simp add: exit_or_schedule_def)
qed

lemma page_fault_ok:
  assumes "user_ok env k" "page_fault_handler env cr2 pf k = Some (ctx, k')" "k_process_id k \<noteq> - 1"
    "k_current k = Some p" "p_id p \<noteq> IDLE_PROCESS_ID"
  shows "user_ok env k' \<and> id_step k k'"
proof -
  let ?a = "Address_new cr2"
  obtain fr k1 where f: "set_current_context \<lparr> ec_registers = pf_registers pf, ec_frame = fr \<rparr> k = Some k1"
    "(if Address_domain ?a = Invalid then exit env (- 17) k1
      else if Address_domain ?a = UserHeap then grow_user_heap ?a k1 \<bind> exit_or_schedule env (- 7)
      else live_section_for_addr k1 ?a \<bind> (\<lambda>section_opt. case section_opt of
         None \<Rightarrow> grant_unowned ?a (pf_rip pf) k1 \<bind> exit_or_schedule env (- 2)
       | Some sec \<Rightarrow> access_section env ?a sec k1 \<bind> exit_or_schedule env (- 2))) = Some (ctx, k')"
    using assms(2) by (auto simp: page_fault_handler_def bind_eq_Some_conv Let_def)
  obtain q where k1: "kernel_ok env k1" "k_process_id k1 = k_process_id k" "k_current k1 = Some q"
    "p_id q \<noteq> IDLE_PROCESS_ID" "p_context q \<noteq> None"
    using set_current_context_ok [OF assms(1) f(1)] assms(4,5) by auto
  have kept: ?thesis if "current_kept k1 k2" "exit_or_schedule env c (b, k2) = Some (ctx, k')" for c b k2
  proof -
    note o = current_kept_ok [OF k1(1) that(1)]
    have "k_current k2 \<noteq> None" using that(1) by (auto simp: current_kept_def set_current_def)
    then show ?thesis using exit_or_schedule_ok [OF o(1) that(2)] o(2) k1(2) assms(3) by (auto simp: id_step_def)
  qed
  have ex: "exit env c k1 = None" for c by (rule exit_panics [OF k1(3,5)])
  consider "Address_domain ?a = UserHeap" | so where "Address_domain ?a \<noteq> Invalid" "Address_domain ?a \<noteq> UserHeap"
      "live_section_for_addr k1 ?a = Some so"
    using f(2) ex by (fastforce simp: bind_eq_Some_conv split: if_splits)
  then show ?thesis
  proof cases
    case 1
    then obtain b k2 where "grow_user_heap ?a k1 = Some (b, k2)" "exit_or_schedule env (- 7) (b, k2) = Some (ctx, k')"
      using f(2) by (auto simp: bind_eq_Some_conv)
    then show ?thesis using kept grow_user_heap_kept by blast
  next
    case (2 so)
    show ?thesis
    proof (cases so)
      case None
      then obtain b k2 where "grant_unowned ?a (pf_rip pf) k1 = Some (b, k2)"
        "exit_or_schedule env (- 2) (b, k2) = Some (ctx, k')" using f(2) 2 by (auto simp: bind_eq_Some_conv)
      then show ?thesis using kept grant_unowned_kept by blast
    next
      case (Some sec)
      then obtain b k2 where a: "access_section env ?a sec k1 = Some (b, k2)"
        "exit_or_schedule env (- 2) (b, k2) = Some (ctx, k')" using f(2) 2 by (auto simp: bind_eq_Some_conv)
      show ?thesis
        using access_section_ok [OF k1(1) a(1) k1(3,4)] exit_or_schedule_ok [OF _ a(2)] k1(2) assms(3)
        by (simp add: id_step_def)
    qed
  qed
qed

lemma handler_ok:
  assumes "user_ok env k" "interrupt_handler env run ctx k = Some (ctx', k')" "k_process_id k \<noteq> - 1"
    and "\<And>k1 k2 p. kernel_ok env k1 \<Longrightarrow> run k1 = Some k2 \<Longrightarrow> k_current k = Some p \<Longrightarrow>
      k_current k1 = Some (p\<lparr> p_context := Some ctx, p_fxsave_area := k_fpu k \<rparr>) \<Longrightarrow>
      kernel_ok env k2 \<and> k_process_id k2 = k_process_id k1"
  shows "user_ok env k' \<and> id_step k k'"
proof -
  obtain k1 k2 where h: "set_current_context ctx k = Some k1" "run k1 = Some k2" "schedule_next env k2 = Some (ctx', k')"
    using assms(2) by (auto simp: interrupt_handler_def bind_eq_Some_conv)
  note k1 = set_current_context_ok [OF assms(1) h(1)]
  then have k2: "kernel_ok env k2" "k_process_id k2 = k_process_id k" using assms(4) [OF k1(1) h(2)] by auto
  show ?thesis using schedule_next_ok [OF k2(1) h(3)] k2(2) assms(3) by (simp add: id_step_def)
qed

lemma timer_body_ok:
  assumes "kernel_ok env k" "end_of_interrupt k \<bind> preempt_current = Some k'"
  shows "kernel_ok env k' \<and> k_process_id k' = k_process_id k"
proof -
  have "preempt_current k = Some k'" using assms(2) by (auto simp: end_of_interrupt_def bind_eq_Some_conv)
  then show ?thesis using preempt_current_ok [OF assms(1)] by simp
qed

subsection \<open>Every sequence of interrupts\<close>

text \<open>
  What makes the kernel run: the timer, the calls and the faults of the current process. The idle process is a loop
  around \<^verbatim>\<open>hlt\<close> in the kernel and makes none of the latter. Between interrupts the process that runs changes
  the floating-point state, and the shell its queue and the locks of it.
\<close>

datatype interrupt =
    Timer execution_context
  | Defer execution_context
  | Exit execution_context
  | Translate execution_context
  | PageFault u64 page_fault_context
  | GeneralProtection u8

definition deliver :: "cpu_env \<Rightarrow> interrupt \<Rightarrow> kernel \<Rightarrow> (execution_context \<times> kernel) rust" where
  "deliver env i k =
     (case i of Timer c \<Rightarrow> timer_interrupt_handler env c k
      | Defer c \<Rightarrow> defer_interrupt_handler env c k
      | Exit c \<Rightarrow> exit_interrupt_handler env c k
      | Translate c \<Rightarrow> translate_addr_interrupt_handler env c k
      | PageFault cr2 pf \<Rightarrow> page_fault_handler env cr2 pf k
      | GeneralProtection opcode \<Rightarrow> general_protection_fault_handler env opcode k)"

definition user_code :: "shell_queue \<Rightarrow> bool \<Rightarrow> bool \<Rightarrow> fx_save_area \<Rightarrow> kernel \<Rightarrow> kernel" where
  "user_code q li lo f k = k\<lparr> k_shell := q, k_shell_in_locked := li, k_shell_out_locked := lo, k_fpu := f \<rparr>"

inductive kernel_step :: "cpu_env \<Rightarrow> kernel \<Rightarrow> kernel \<Rightarrow> bool" for env :: cpu_env where
  tick: "deliver env (Timer c) k = Some (c', k') \<Longrightarrow> kernel_step env k k'"
| call: "k_current k = Some p \<Longrightarrow> p_id p \<noteq> IDLE_PROCESS_ID \<Longrightarrow> deliver env i k = Some (c', k') \<Longrightarrow> kernel_step env k k'"
| user: "kernel_step env k (user_code q li lo f k)"

inductive kernel_steps :: "cpu_env \<Rightarrow> nat \<Rightarrow> kernel \<Rightarrow> kernel \<Rightarrow> bool" for env :: cpu_env where
  zero: "kernel_steps env 0 k k"
| more: "kernel_steps env n k k' \<Longrightarrow> kernel_step env k' k'' \<Longrightarrow> kernel_steps env (Suc n) k k''"

lemma deliver_ok:
  assumes "user_ok env k" "deliver env i k = Some (ctx, k')" "k_process_id k \<noteq> - 1"
    "k_current k = Some p" "p_id p \<noteq> IDLE_PROCESS_ID \<or> (\<exists>c. i = Timer c)"
  shows "user_ok env k' \<and> id_step k k'"
proof -
  have ex: ?thesis if "exit_interrupt_handler env c k = Some (ctx, k')" "p_id p \<noteq> IDLE_PROCESS_ID" for c
  proof (rule handler_ok [OF assms(1) that(1) [unfolded exit_interrupt_handler_def] assms(3)])
    fix k1 k2 p'
    assume a: "kernel_ok env k1" "exit_current k1 = Some k2" "k_current k = Some p'"
      "k_current k1 = Some (p'\<lparr> p_context := Some c, p_fxsave_area := k_fpu k \<rparr>)"
    show "kernel_ok env k2 \<and> k_process_id k2 = k_process_id k1"
      using exit_current_ok [OF a(1,2,4)] a(3) assms(4) that(2) by simp
  qed
  show ?thesis
  proof (cases i)
    case (Timer c)
    then have "interrupt_handler env (\<lambda>k. end_of_interrupt k \<bind> preempt_current) c k = Some (ctx, k')"
      using assms(2) by (simp add: deliver_def timer_interrupt_handler_def)
    then show ?thesis by (rule handler_ok [OF assms(1) _ assms(3)]) (rule timer_body_ok)
  next
    case (Defer c)
    then have "interrupt_handler env preempt_current c k = Some (ctx, k')"
      using assms(2) by (simp add: deliver_def defer_interrupt_handler_def)
    then show ?thesis by (rule handler_ok [OF assms(1) _ assms(3)]) 
        (rule conjI, erule (1) preempt_current_ok(1), erule (1) preempt_current_ok(2))
  next
    case (Exit c)
    then show ?thesis using ex assms(2,5) by (simp add: deliver_def)
  next
    case (Translate c)
    then have "interrupt_handler env translate_current c k = Some (ctx, k')"
      using assms(2) by (simp add: deliver_def translate_addr_interrupt_handler_def)
    then show ?thesis by (rule handler_ok [OF assms(1) _ assms(3)]) 
        (rule conjI, erule (1) translate_current_ok(1), erule (1) translate_current_ok(2))
  next
    case (PageFault cr2 pf)
    then show ?thesis using page_fault_ok [OF assms(1) _ assms(3,4)] assms(2,5) by (simp add: deliver_def)
  next
    case (GeneralProtection opcode)
    then show ?thesis
      using ex assms(2,5)
      by (auto simp: deliver_def general_protection_fault_handler_def exit_def bind_eq_Some_conv split: if_splits)
  qed
qed

lemma kernel_step_ok:
  assumes "kernel_step env k k'" "user_ok env k" "k_process_id k \<noteq> - 1"
  shows "user_ok env k' \<and> id_step k k'"
  using assms
proof cases
  case (tick c c')
  obtain p where "k_current k = Some p" using assms(2) by (auto simp: user_ok_def)
  then show ?thesis using deliver_ok [OF assms(2) tick assms(3)] by blast
next
  case (call p i c')
  then show ?thesis using deliver_ok [OF assms(2) _ assms(3)] by blast
next
  case (user q li lo f)
  then show ?thesis
    using assms(2)
    by (simp add: user_code_def user_ok_def tables_ok_def queues_ok_def process_keys_def k_memory_def id_step_def)
qed

lemma unat_inc_le: "unat (n + 1) \<le> Suc (unat (n :: 'a::len word))"
proof (cases "1 + n = 0")
  case True
  then have "n + 1 = 0" by (simp only: add.commute)
  then show ?thesis by simp
next
  case False
  then show ?thesis using unatSuc [OF False] by (simp add: add.commute)
qed

lemma kernel_steps_ok:
  assumes "kernel_steps env n k k'" "user_ok env k" "unat (k_process_id k) + n < 2 ^ 64"
  shows "user_ok env k' \<and> unat (k_process_id k') \<le> unat (k_process_id k) + n"
  using assms
proof (induction rule: kernel_steps.induct)
  case (more n k k' k'')
  then have k': "user_ok env k'" "unat (k_process_id k') \<le> unat (k_process_id k) + n" by simp_all
  have "k_process_id k' \<noteq> - 1"
  proof
    assume "k_process_id k' = - 1"
    then have "unat (k_process_id k') = 2 ^ 64 - 1" by (simp add: unsigned_minus_1_eq_mask mask_eq_exp_minus_1)
    then show False using k'(2) more.prems(2) by simp
  qed
  then have "user_ok env k'' \<and> id_step k' k''" using kernel_step_ok [OF more.hyps(2) k'(1)] by blast
  then show ?case using k'(2) unat_inc_le [of "k_process_id k'"] by (auto simp: id_step_def)
qed simp

subsection \<open>There is always a process to run\<close>

lemma pop_queue_returns:
  assumes "kernel_ok env k" "k_current k = None"
  shows "pop_queue k \<noteq> None"
proof -
  have "(IDLE_PROCESS_ID, IdlePriority) \<notin># image_mset process_key (mset (k_blocked k))"
    using assms(1) by (auto simp: kernel_ok_def tables_ok_def queues_ok_def process_key_def)
  then have "k_queue k NoPriority \<noteq> [] \<or> k_queue k NormalPriority \<noteq> [] \<or> k_queue k IdlePriority \<noteq> []"
    using assms by (auto simp: kernel_ok_def tables_ok_def process_keys_def)
  then obtain pr where "k_queue k pr \<noteq> []" by blast
  then show ?thesis by (cases pr) (auto simp: pop_queue_def PRIORITIES_def)
qed

subsection \<open>Round robin\<close>

text \<open>The shell posts nothing: its queue is readable, unlocked and empty.\<close>

definition quiet :: "cpu_env \<Rightarrow> kernel \<Rightarrow> bool" where
  "quiet env k \<longleftrightarrow> km_kernel (k_memory k) \<noteq> None
     \<and> (\<forall>loc. k_shell_location k = Some loc \<longrightarrow> shell_queue_at env k loc = Some () \<and> \<not> k_shell_out_locked k
            \<and> pop_cursor (shell_out (k_shell k)) < length (slots (shell_out (k_shell k)))
            \<and> slots (shell_out (k_shell k)) ! pop_cursor (shell_out (k_shell k)) = None)"

lemma quiet_cong:
  assumes "km_kernel (k_memory k') = km_kernel (k_memory k)" "k_shell_location k' = k_shell_location k"
    "k_shell k' = k_shell k" "k_shell_out_locked k' = k_shell_out_locked k"
  shows "quiet env k' = quiet env k"
  unfolding quiet_def shell_queue_at_def assms by (rule refl)

lemma SizedQueue_pop_none:
  "pop_cursor q < length (slots q) \<Longrightarrow> slots q ! pop_cursor q = None \<Longrightarrow> SizedQueue_pop q = Some (None, q)"
  by (simp add: SizedQueue_pop_def Let_def list_update_same_conv)

lemma quiet_schedule:
  assumes "quiet env k"
  obtains ks where "km_kernel (k_memory k) = Some ks"
    "schedule_next env k = dispatch env (set_memory (AddressSpace_enter ks (k_memory k)) k) \<bind> take_context"
proof -
  obtain ks where ks: "km_kernel (k_memory k) = Some ks" using assms by (auto simp: quiet_def)
  let ?k = "set_memory (AddressSpace_enter ks (k_memory k)) k"
  have "poll_shell env ?k = Some (None, ?k)"
    using assms SizedQueue_pop_none [of "shell_out (k_shell k)"]
    by (auto simp: quiet_def poll_shell_def shell_queue_at_def set_memory_def bind_eq_Some_conv split: option.splits)
  then show thesis using that [OF ks] ks by (simp add: schedule_next_def enter_kernel_def)
qed

definition saved :: "process \<Rightarrow> execution_context \<times> fx_save_area \<Rightarrow> process" where
  "saved p x = p\<lparr> p_context := Some (fst x), p_fxsave_area := snd x \<rparr>"

definition resumed :: "process \<Rightarrow> process" where
  "resumed p = p\<lparr> p_context := None \<rparr>"

text \<open>A tick of the timer: the context and the floating-point state the running process has then.\<close>

definition tick :: "cpu_env \<Rightarrow> execution_context \<times> fx_save_area \<Rightarrow> kernel \<Rightarrow> (execution_context \<times> kernel) rust" where
  "tick env x k = timer_interrupt_handler env (fst x) (k\<lparr> k_fpu := snd x \<rparr>)"

fun ticks ::
    "cpu_env \<Rightarrow> (execution_context \<times> fx_save_area) list \<Rightarrow> kernel \<Rightarrow> (execution_context list \<times> kernel) rust" where
  "ticks env [] k = Some ([], k)"
| "ticks env (x # xs) k = do {
     (c, k) \<leftarrow> tick env x k;
     (cs, k) \<leftarrow> ticks env xs k;
     Some (c # cs, k)
   }"

definition runs :: "cpu_env \<Rightarrow> kernel \<Rightarrow> process \<Rightarrow> process list \<Rightarrow> bool" where
  "runs env k p qs \<longleftrightarrow> quiet env k \<and> k_apic k \<and> k_current k = Some p \<and> p_context p = None \<and> p_priority p = NormalPriority
     \<and> k_queue k NoPriority = [] \<and> k_queue k NormalPriority = qs
     \<and> (\<forall>q \<in> set qs. p_context q \<noteq> None \<and> p_priority q = NormalPriority)"

lemma tick_rotates:
  assumes r: "runs env k p qs" and q: "qs @ [saved p x] = q # rs"
  shows "\<exists>k'. tick env x k = Some (the (p_context q), k') \<and> runs env k' (resumed q) rs \<and> k_fpu k' = p_fxsave_area q"
proof -
  note d = r [unfolded runs_def]
  let ?k = "add_to_queue (saved p x) (k\<lparr> k_fpu := snd x, k_current := None \<rparr>)"
  have h: "tick env x k = schedule_next env ?k"
    using d by (simp add: tick_def timer_interrupt_handler_def interrupt_handler_def set_current_context_def
        end_of_interrupt_def preempt_current_def saved_def)
  have "quiet env ?k = quiet env k" by (rule quiet_cong) (simp_all add: k_memory_def add_to_queue_def)
  then have quiet: "quiet env ?k" using d by simp
  obtain ks where ks: "km_kernel (k_memory ?k) = Some ks"
    "schedule_next env ?k = dispatch env (set_memory (AddressSpace_enter ks (k_memory ?k)) ?k) \<bind> take_context"
    using quiet by (rule quiet_schedule)
  have qn: "k_queue ?k NoPriority = []" "k_queue ?k NormalPriority = q # rs"
    using d q by (simp_all add: add_to_queue_def saved_def)
  obtain c where c: "p_context q = Some c" and pq: "p_priority q = NormalPriority"
    using d q by (cases qs) (auto simp: saved_def)
  let ?k' = "(fxrstor (p_fxsave_area q) (set_user_io_allowed env (p_allow_io q) (set_memory (AddressSpace_enter
       (p_address_space q) (AddressSpace_enter ks (k_memory ?k))) (?k\<lparr> k_queue := (k_queue ?k)(NormalPriority := rs) \<rparr>))))
       \<lparr> k_current := Some (resumed q) \<rparr>"
  have n: "schedule_next env ?k = Some (c, ?k')"
    unfolding ks(2) using qn c
    by (simp add: dispatch_def pop_queue_def PRIORITIES_def take_context_def Let_def resumed_def fxrstor_def
        set_user_io_allowed_def set_memory_def k_memory_def)
  have "quiet env ?k' = quiet env ?k"
    by (rule quiet_cong)
      (simp_all add: fxrstor_def set_user_io_allowed_def k_memory_def set_memory_def AddressSpace_enter_def add_to_queue_def)
  moreover have "\<forall>q \<in> set rs. p_context q \<noteq> None \<and> p_priority q = NormalPriority"
    using d q by (cases qs) (auto simp: saved_def)
  ultimately have "runs env ?k' (resumed q) rs"
    using quiet d pq qn
    by (simp add: runs_def resumed_def fxrstor_def set_user_io_allowed_def add_to_queue_def saved_def)
  then show ?thesis using h n c by (simp add: fxrstor_def)
qed

end
