(* ===== verification/Scheduler_Runs.thy ===== *)
theory Scheduler_Runs
  imports Scheduler_Props
begin

section \<open>Runs of the scheduler\<close>

text \<open>
  Processes of one priority take turns under the timer, and each goes on where it was interrupted; the
  exits a page fault raises stop the kernel. A machine with two processes and the idle one serves as the example.
\<close>

subsection \<open>Turns\<close>

lemma ticks_prefix:
  assumes "runs env k p (as @ bs)" "length xs = length as"
  shows "\<exists>k'. ticks env xs k = Some (map (the \<circ> p_context) as, k')
    \<and> runs env k' (resumed (last (p # as))) (bs @ map2 saved (butlast (p # as)) xs)"
  using assms
proof (induction as arbitrary: k p bs xs)
  case Nil
  then have "p = resumed p" by (simp add: runs_def resumed_def)
  then show ?case using Nil by simp
next
  case (Cons a as)
  obtain x ys where xs: "xs = x # ys" "length ys = length as" using Cons.prems(2) by (cases xs) auto
  obtain k1 where t: "tick env x k = Some (the (p_context a), k1)" "runs env k1 (resumed a) (as @ bs @ [saved p x])"
    using tick_rotates [OF Cons.prems(1), of x a "as @ bs @ [saved p x]"] by auto
  obtain k2 where u: "ticks env ys k1 = Some (map (the \<circ> p_context) as, k2)"
    "runs env k2 (resumed (last (resumed a # as))) ((bs @ [saved p x]) @ map2 saved (butlast (resumed a # as)) ys)"
    using Cons.IH [OF t(2) xs(2)] by blast
  have s: "saved (resumed a) y = saved a y" for y by (simp add: saved_def resumed_def)
  have "map2 saved (butlast (resumed a # as)) ys = map2 saved (butlast (a # as)) ys"
    by (cases as; cases ys) (simp_all add: s)
  moreover have "resumed (last (resumed a # as)) = resumed (last (a # as))" by (cases as) (simp_all add: resumed_def)
  ultimately show ?case using t u xs(1) by simp
qed

text \<open>
  C6: processes of normal priority take turns. While the shell posts nothing, let the timer tick once for
  the process that runs and once for each waiting one, whatever context and floating-point state the running process
  has at each tick. Every tick returns: the waiting processes are resumed one after the other in the order of the
  queue, each with the context saved for it, and the last tick resumes the first process with
  exactly the context and the floating-point state it was interrupted with. The queue is in its first order again, with the contexts
  of the ticks saved.
\<close>

theorem round_robin:
  assumes "user_ok env k" "quiet env k" "k_apic k" "k_current k = Some p" "p_priority p = NormalPriority"
    and "k_queue k NoPriority = []" "length xs = Suc (length (k_queue k NormalPriority))"
  shows "\<exists>k'. ticks env xs k = Some (map (the \<circ> p_context) (k_queue k NormalPriority) @ [fst (hd xs)], k')
    \<and> k_current k' = Some (p\<lparr> p_fxsave_area := snd (hd xs) \<rparr>) \<and> k_fpu k' = snd (hd xs)
    \<and> k_queue k' NormalPriority = map2 saved (k_queue k NormalPriority) (tl xs)"
proof -
  let ?qs = "k_queue k NormalPriority"
  have r: "runs env k p (?qs @ [])" using assms by (auto simp: runs_def user_ok_def tables_ok_def queues_ok_def)
  have pc: "p_context p = None" using r by (simp add: runs_def)
  obtain ys x where xs: "xs = ys @ [x]" "length ys = length ?qs" using assms(7) by (cases xs rule: rev_cases) auto
  obtain k1 where k1: "ticks env ys k = Some (map (the \<circ> p_context) ?qs, k1)"
    "runs env k1 (resumed (last (p # ?qs))) ([] @ map2 saved (butlast (p # ?qs)) ys)"
    using ticks_prefix [OF r xs(2)] by blast
  have "map2 saved (butlast (p # ?qs)) ys @ [saved (resumed (last (p # ?qs))) x]
      = map2 saved (butlast (p # ?qs) @ [last (p # ?qs)]) (ys @ [x])"
    using xs(2) by (subst zip_append) (simp_all add: saved_def resumed_def)
  also have "\<dots> = map2 saved (p # ?qs) xs" by (simp only: append_butlast_last_id list.distinct not_False_eq_True xs(1))
  also have "\<dots> = saved p (hd xs) # map2 saved ?qs (tl xs)" using assms(7) by (cases xs) simp_all
  finally obtain k2 where k2: "tick env x k1 = Some (fst (hd xs), k2)" "runs env k2 (resumed (saved p (hd xs))) (map2 saved ?qs (tl xs))"
    "k_fpu k2 = snd (hd xs)"
    using tick_rotates [OF k1(2), of x "saved p (hd xs)" "map2 saved ?qs (tl xs)"] by (auto simp: saved_def)
  have "ticks env (zs @ [x]) k = (case ticks env zs k of None \<Rightarrow> None
      | Some (cs, k1) \<Rightarrow> map_option (\<lambda>(c, k2). (cs @ [c], k2)) (tick env x k1))" for zs
    by (induction zs arbitrary: k) (auto split: Option.bind_splits option.splits)
  then have "ticks env xs k = Some (map (the \<circ> p_context) ?qs @ [fst (hd xs)], k2)" using k1(1) k2(1) xs(1) by simp
  moreover have "resumed (saved p (hd xs)) = p\<lparr> p_fxsave_area := snd (hd xs) \<rparr>" using pc by (simp add: resumed_def saved_def)
  ultimately show ?thesis using k2(2,3) by (simp add: runs_def)
qed

subsection \<open>An example\<close>

definition sample_context :: "u64 \<Rightarrow> execution_context" where
  "sample_context ip = \<lparr> ec_registers = CpuRegisters_EMPTY,
     ec_frame = \<lparr> if_rip = ip, if_cs = 0x23, if_rflags = 0x200, if_rsp = 0x7FF8, if_ss = 0x1B \<rparr> \<rparr>"

definition sample_cpu :: cpu_env where
  "sample_cpu = \<lparr> ce_loader = \<lparr> demangle = id, demangle_alternate = id, sections_order = id, names_order = id,
       dependencies_order = id, vec_addr = (\<lambda>n. 0), root_objects = [] \<rparr>,
     virt_addr_new = Some, rflags_interrupt = 0x200, cr0_emulate_coprocessor = 4, cr4_fxsr_xmmexcpt = 0x600,
     fninit_area = replicate 512 0, sel_kernel_code = 8, sel_kernel_data = 16, sel_user_code = 0x23, sel_user_data = 0x1B,
     tss_size = 104, exit_site = sample_context 0, idle_entry = 0x1000, kernel_stack_top = 0x8000, shell_queue_size = 0x800 \<rparr>"

definition sample_queue_section :: loaded_section where
  "sample_queue_section = \<lparr> sec_name = ''shell::QUEUE'', sec_kind = Data, sec_global = True, sec_size = 0x800,
     sec_addr = 0x4000, sec_mapping = \<lparr> kmap_name = ''shell.data'', kmap_size = 0x1000,
       kmap_pages = PageRange_new (Page 4) (Page 5), kmap_flags = PRESENT OR WRITABLE \<rparr>,
     sec_mapping_offset = 0, sec_owner = 0 \<rparr>"

definition sample_kernel :: "kernel_memory \<Rightarrow> kernel" where
  "sample_kernel km = \<lparr> k_current = None, k_queue = (\<lambda>_. []), k_blocked = [], k_shell_location = None, k_shell = ShellQueue_new,
     k_shell_in_locked = False, k_shell_out_locked = False,
     k_loader = (Loader_new km (\<lambda>_. 0))\<lparr> ld_objects := [(''shell'', 0)], ld_sections := [(''shell::QUEUE'', sample_queue_section)] \<rparr>,
     k_process_id = 1, k_framebuffer = None, k_apic = True, k_iomap_base = 0xFFFF, k_cr0 = 0, k_cr4 = 0x600,
     k_fpu = replicate 512 0, k_init_fxsave_area = replicate 512 0 \<rparr>"

definition sample_process :: "u64 \<Rightarrow> priority \<Rightarrow> process" where
  "sample_process i pr = \<lparr> p_id = i, p_name = ''sample'', p_access_policy = NormalAccess, p_priority = pr,
     p_address_space = sample_space, p_context = Some (sample_context (0x100 * i)), p_heap_mapping = None, p_allow_io = False,
     p_fxsave_area = replicate 512 0 \<rparr>"

text \<open>Process 1 runs, process 2 waits, and so does the idle process.\<close>

definition sample_running :: kernel where
  "sample_running = (sample_kernel (sample_memory FrameAllocator_new))\<lparr>
     k_current := Some ((sample_process 1 NormalPriority)\<lparr> p_context := None \<rparr>),
     k_queue := (\<lambda>pr. case pr of NoPriority \<Rightarrow> [] | NormalPriority \<Rightarrow> [sample_process 2 NormalPriority]
       | IdlePriority \<Rightarrow> [sample_process 0 IdlePriority]),
     k_process_id := 3 \<rparr>"

lemma sample_running_ok: "user_ok sample_cpu sample_running" "quiet sample_cpu sample_running" "k_apic sample_running"
proof -
  have "count (image_mset fst (process_keys sample_running)) i \<le> 1" for i
    by (simp add: process_keys_def sample_running_def sample_process_def process_key_def sample_kernel_def)
  then show "user_ok sample_cpu sample_running"
    by (auto simp: user_ok_def tables_ok_def keys_ok_def queues_ok_def process_keys_def sample_running_def sample_process_def
        process_key_def IDLE_PROCESS_ID_def iomap_for_def sample_kernel_def k_memory_def Loader_new_def sample_memory_def
        AddressSpace_is_current_def l4_addr_def sample_space_def split: priority.splits)
qed (simp_all add: quiet_def sample_running_def sample_kernel_def k_memory_def Loader_new_def sample_memory_def)

theorem round_robin_witness:
  "\<exists>k'. ticks sample_cpu [(sample_context 7, replicate 512 1), (sample_context 8, replicate 512 2)] sample_running
      = Some ([sample_context 0x200, sample_context 7], k') \<and> k_fpu k' = replicate 512 1"
proof -
  have q: "k_queue sample_running NormalPriority = [sample_process 2 NormalPriority]" "k_queue sample_running NoPriority = []"
    "k_current sample_running = Some ((sample_process 1 NormalPriority)\<lparr> p_context := None \<rparr>)"
    by (simp_all add: sample_running_def)
  show ?thesis
    using round_robin [OF sample_running_ok q(3) _ q(2), of "[(sample_context 7, replicate 512 1), (sample_context 8, replicate 512 2)]"] q(1)
    by (auto simp: sample_process_def)
qed

subsection \<open>Faults that should end a process\<close>

text \<open>
  C40: a page fault that should end the process stops the kernel instead. When a process in user mode touches an
  address outside every domain, or one of the heap domain a gibibyte or more above its base, the page-fault handler does not
  return, in any state: it has saved the context of the process, raises the exit interrupt from the kernel, and the
  handler of that asserts that no context is saved.
\<close>

theorem page_fault_exit_stops_kernel:
  assumes "Address_domain (Address_new cr2) = Invalid
    \<or> Address_domain (Address_new cr2) = UserHeap
      \<and> (\<exists>off. Address_sub (Address_new cr2) (AddressDomain_base_addr UserHeap) = Some off \<and> GIBIBYTE \<le> off)"
  shows "page_fault_handler env cr2 pf k = None"
proof (cases "page_fault_handler env cr2 pf k")
  case (Some r)
  let ?a = "Address_new cr2"
  obtain fr k1 where f: "set_current_context \<lparr> ec_registers = pf_registers pf, ec_frame = fr \<rparr> k = Some k1"
    "(if Address_domain ?a = Invalid then exit env (- 17) k1
      else grow_user_heap ?a k1 \<bind> exit_or_schedule env (- 7)) = Some r"
    using assms Some by (auto simp: page_fault_handler_def bind_eq_Some_conv Let_def)
  obtain q where q: "k_current k1 = Some q" "p_context q \<noteq> None"
    using f(1) by (auto simp: set_current_context_def bind_eq_Some_conv)
  have "exit env c k1 = None" for c by (rule exit_panics [OF q])
  then have False
    using f(2) assms q(1) by (auto simp: grow_user_heap_def exit_or_schedule_def split: if_splits)
  then show ?thesis ..
qed simp

theorem page_fault_exit_stops_kernel_witness:
  "page_fault_handler sample_cpu 0xFFFF960000000000 \<lparr> pf_registers = CpuRegisters_EMPTY, pf_error_code = 4, pf_rip = 0x100,
     pf_cs = 0x23, pf_rflags = 0x200, pf_rsp = 0x7FF8, pf_ss = 0x1B \<rparr> sample_running = None"
proof -
  have "Address_domain (Address_new 0xFFFF960000000000) = Invalid" by code_simp
  then show ?thesis by (intro page_fault_exit_stops_kernel disjI1)
qed

text \<open>An instruction the port bitmap forbids ends the process: no context is saved when the exit interrupt is raised.\<close>

lemma io_fault_exits_process:
  assumes "user_ok env k" "k_current k = Some p" "p_id p \<noteq> IDLE_PROCESS_ID" "k_process_id k \<noteq> - 1"
    "general_protection_fault_handler env opcode k = Some (ctx, k')"
  shows "user_ok env k' \<and> opcode \<in> set IO_PORT_OPCODES"
  using deliver_ok [of env k "GeneralProtection opcode"] assms
  by (auto simp: deliver_def general_protection_fault_handler_def split: if_splits)

subsection \<open>The invariant\<close>

text \<open>
  C4: the tables of the scheduler stay well-formed under every sequence of interrupts. Start the scheduler in a state
  \<^verbatim>\<open>Scheduler::new\<close> and the calls that start processes lead to, and let any number of timer ticks, calls and
  faults of the running process happen, with whatever the shell writes into its queue in between. As long as fewer than
  \<open>2 ^ 64\<close> process ids are given out, at every moment a process runs: it has no saved context, the
  processor is in its address space and the port bitmap is the one it was granted. Every waiting process
  has a saved context and is in the queue of its priority, no two processes have the same id, and the idle process is
  never lost, so preempting or blocking the running process leaves one to run and the kernel's
  \<^verbatim>\<open>expect\<close> of it never fails.
\<close>

theorem scheduler_invariant:
  assumes "scheduler_ready k0" "scheduler_run env k0 = Some (ctx, k1)" "kernel_steps env n k1 k"
    and "unat (k_process_id k0) + n + 1 < 2 ^ 64"
  shows "user_ok env k
    \<and> (\<forall>c k'. set_current_context c k \<bind> preempt_current = Some k' \<longrightarrow> pop_queue k' \<noteq> None)"
proof -
  obtain ki where i: "Scheduler_init env k0 = Some ki" "schedule_next env ki = Some (ctx, k1)"
    using assms(2) by (auto simp: scheduler_run_def bind_eq_Some_conv)
  note ki = Scheduler_init_ok [OF assms(1) i(1)]
  have "k_process_id ki \<noteq> - 1"
  proof
    assume "k_process_id ki = - 1"
    then have "unat (k_process_id k0) = 2 ^ 64 - 1" using ki(2) by (simp add: unsigned_minus_1_eq_mask mask_eq_exp_minus_1)
    then show False using assms(4) by simp
  qed
  then have k1: "user_ok env k1" "id_step ki k1" using schedule_next_ok [OF ki(1) i(2)] by simp_all
  have "unat (k_process_id k1) + n < 2 ^ 64"
    using k1(2) ki(2) assms(4) unat_inc_le [of "k_process_id k0"] by (auto simp: id_step_def)
  then have u: "user_ok env k" using kernel_steps_ok [OF assms(3) k1(1)] by simp
  have "pop_queue k' \<noteq> None" if s: "set_current_context c k \<bind> preempt_current = Some k'" for c k'
  proof -
    obtain k2 where k2: "set_current_context c k = Some k2" "preempt_current k2 = Some k'"
      using s by (auto simp: bind_eq_Some_conv)
    have "k_current k' = None" using k2(2) by (auto simp: preempt_current_def bind_eq_Some_conv)
    then show ?thesis using pop_queue_returns preempt_current_ok(1) [OF set_current_context_ok(1) [OF u k2(1)] k2(2)] by blast
  qed
  then show ?thesis using u by blast
qed

text \<open>The example machine boots: with no process but the idle one, which the first tick resumes.\<close>

lemma schedule_idle:
  assumes "quiet env k" "k_current k = None" "k_queue k NoPriority = []" "k_queue k NormalPriority = []"
    "k_queue k IdlePriority = [q]" "p_context q \<noteq> None"
  shows "\<exists>k'. schedule_next env k = Some (the (p_context q), k') \<and> quiet env k' \<and> k_apic k' = k_apic k
    \<and> k_current k' = Some (resumed q) \<and> (\<forall>pr. k_queue k' pr = [])"
proof -
  obtain ks where ks: "schedule_next env k = dispatch env (set_memory (AddressSpace_enter ks (k_memory k)) k) \<bind> take_context"
    using assms(1) by (rule quiet_schedule)
  let ?k' = "(fxrstor (p_fxsave_area q) (set_user_io_allowed env (p_allow_io q) (set_memory (AddressSpace_enter
       (p_address_space q) (AddressSpace_enter ks (k_memory k))) (k\<lparr> k_queue := (k_queue k)(IdlePriority := []) \<rparr>))))
       \<lparr> k_current := Some (resumed q) \<rparr>"
  have "schedule_next env k = Some (the (p_context q), ?k')"
    unfolding ks using assms
    by (auto simp: dispatch_def pop_queue_def PRIORITIES_def take_context_def Let_def resumed_def fxrstor_def
        set_user_io_allowed_def set_memory_def k_memory_def)
  moreover have "quiet env ?k' = quiet env k"
    by (rule quiet_cong)
      (simp_all add: fxrstor_def set_user_io_allowed_def k_memory_def set_memory_def AddressSpace_enter_def)
  moreover have "k_queue ?k' pr = []" for pr
    using assms by (cases pr) (simp_all add: fxrstor_def set_user_io_allowed_def)
  ultimately show ?thesis using assms(1) by (simp add: fxrstor_def set_user_io_allowed_def)
qed

lemma sample_queue_addr: "Address_add (page_base_addr (Page 4)) 0 = Some 0x4000"
proof -
  have "page_base_addr (Page 4) = 0x4000" by code_simp
  then show ?thesis by (simp add: Address_add_def checked_add_def Address_new_physical)
qed

lemma sample_boot:
  assumes "fa_inv fa" "free_set fa = {512, 513, 514, 515, 516}"
  obtains c k1 c2 k2 where "scheduler_run sample_cpu (sample_kernel (sample_memory fa)) = Some (c, k1)"
    "deliver sample_cpu (Timer c) k1 = Some (c2, k2)"
proof -
  let ?k = "sample_kernel (sample_memory fa)"
  note ok = sample_memory_ok [OF assms]
  have km: "km_kernel (sample_memory fa) = Some sample_space" "km_frames (sample_memory fa) = fa"
    "AddressSpace_is_current sample_space (sample_memory fa)"
    by (simp_all add: sample_memory_def AddressSpace_is_current_def l4_addr_def sample_space_def)
  have ne: "fa_free fa \<noteq> {}" using ok(5) by auto
  obtain sp km1 where n: "AddressSpace_new ''idle'' None (sample_memory fa) = Some (sp, km1)"
    by (rule AddressSpace_new_wf [OF km(1,3), unfolded km(2), OF assms(1) ne ok(2,3)])
  have kk: "km_kernel km1 = Some sample_space" using n by (auto simp: AddressSpace_new_def bind_eq_Some_conv Let_def km)
  let ?q = "\<lparr> p_id = IDLE_PROCESS_ID, p_name = ''idle'', p_access_policy = AllAccess, p_priority = IdlePriority,
    p_address_space = sp, p_context = Some \<lparr> ec_registers = CpuRegisters_EMPTY, ec_frame = \<lparr> if_rip = 0x1000, if_cs = 8,
    if_rflags = 0x200, if_rsp = 0x7FF8, if_ss = 8 \<rparr> \<rparr>, p_heap_mapping = None, p_allow_io = True,
    p_fxsave_area = replicate 512 0 \<rparr>"
  let ?k1 = "(add_to_queue ?q (set_memory km1 ?k))\<lparr> k_shell_location := Some (sec_mapping sample_queue_section, 0) \<rparr>"
  have i: "Scheduler_init sample_cpu ?k = Some ?k1"
    using n
    by (simp add: Scheduler_init_def sample_cpu_def sample_kernel_def InterruptStackFrameValue_new_def k_memory_def set_memory_def
        add_to_queue_def get_section_def upgrade_section_def section_alive_def object_alive_def Loader_new_def
        sample_queue_section_def)
  have "quiet sample_cpu ?k1"
    using kk by (simp add: quiet_def k_memory_def set_memory_def add_to_queue_def sample_kernel_def shell_queue_at_def
        sample_queue_section_def sample_cpu_def ShellQueue_new_def SizedQueue_new_def SHELL_INPUT_QUEUE_SIZE_def
        KernelMapping_as_mut_def KernelMapping_addr_def PageRange_new_def sample_queue_addr)
  from schedule_idle [OF this, of ?q] obtain k2 where k2: "schedule_next sample_cpu ?k1 = Some (the (p_context ?q), k2)"
    "quiet sample_cpu k2" "k_apic k2" "k_current k2 = Some (resumed ?q)" "\<And>pr. k_queue k2 pr = []"
    by (auto simp: add_to_queue_def sample_kernel_def set_memory_def)
  let ?c = "the (p_context ?q)"
  let ?k3 = "add_to_queue (saved ?q (?c, k_fpu k2)) (k2\<lparr> k_current := None \<rparr>)"
  have "quiet sample_cpu ?k3 = quiet sample_cpu k2" by (rule quiet_cong) (simp_all add: k_memory_def add_to_queue_def)
  then obtain c4 k4 where "schedule_next sample_cpu ?k3 = Some (c4, k4)"
    using schedule_idle [of sample_cpu ?k3 "saved ?q (?c, k_fpu k2)"] k2 by (auto simp: add_to_queue_def saved_def)
  then have "deliver sample_cpu (Timer ?c) k2 = Some (c4, k4)"
    using k2(3,4) by (simp add: deliver_def timer_interrupt_handler_def interrupt_handler_def set_current_context_def
        end_of_interrupt_def preempt_current_def saved_def resumed_def)
  moreover have "scheduler_run sample_cpu ?k = Some (?c, k2)" using i k2(1) by (simp add: scheduler_run_def)
  ultimately show thesis by (intro that)
qed

theorem scheduler_invariant_witness:
  "\<exists>fa c k1 c2 k2. FrameAllocator_init FrameAllocator_new sample_map = Some fa
     \<and> scheduler_run sample_cpu (sample_kernel (sample_memory fa)) = Some (c, k1)
     \<and> deliver sample_cpu (Timer c) k1 = Some (c2, k2) \<and> user_ok sample_cpu k2"
proof -
  obtain fa where fa: "FrameAllocator_init FrameAllocator_new sample_map = Some fa" "fa_inv fa"
    "free_set fa = {512, 513, 514, 515, 516}" using sample_allocator by blast
  obtain c k1 c2 k2 where r: "scheduler_run sample_cpu (sample_kernel (sample_memory fa)) = Some (c, k1)"
    "deliver sample_cpu (Timer c) k1 = Some (c2, k2)" using fa(2,3) by (rule sample_boot)
  have "scheduler_ready (sample_kernel (sample_memory fa))"
    by (simp add: scheduler_ready_def sample_kernel_def process_keys_def queues_ok_def keys_ok_def)
  moreover have "kernel_steps sample_cpu 1 k1 k2"
    using kernel_steps.more [OF kernel_steps.zero kernel_step.tick [OF r(2)]] by simp
  ultimately have "user_ok sample_cpu k2"
    using scheduler_invariant [OF _ r(1)] by (simp add: sample_kernel_def)
  then show ?thesis using fa(1) r by blast
qed

end
