(* ===== verification/Pci.thy ===== *)
theory Pci
  imports Rust_Bytes
begin

section \<open>PCI configuration space\<close>

text \<open>
  The model of \<^verbatim>\<open>drivers/pci/src/\<close> with the macros \<^verbatim>\<open>bit_range!\<close> and \<^verbatim>\<open>bit_field!\<close> of
  \<^verbatim>\<open>crates/bit-utils/src/bit_utils.rs\<close> it reads registers with. The instructions \<^verbatim>\<open>in\<close> and
  \<^verbatim>\<open>out\<close> of \<^verbatim>\<open>drivers/x86-port/src/x86_port.rs\<close> act on the state of the machine behind the ports, which is of any
  type; the record \<open>ports\<close> says how. What a claim relies on of the hardware is its hypothesis \<open>config_space\<close>: reading a
  configuration register through the two ports returns its content and changes none.
\<close>

subsection \<open>Bit ranges (bit_utils.rs)\<close>

text \<open>Shifts by the width of the type or more wrap around in a release build.\<close>

definition rust_shl :: "'a::len word \<Rightarrow> nat \<Rightarrow> 'a word" where
  "rust_shl w n = push_bit (n mod LENGTH('a)) w"

definition rust_shr :: "'a::len word \<Rightarrow> nat \<Rightarrow> 'a word" where
  "rust_shr w n = drop_bit (n mod LENGTH('a)) w"

definition bit_range :: "'a::len word \<Rightarrow> nat \<Rightarrow> nat \<Rightarrow> 'a word" where
  "bit_range num start end_bit =
     (if start = end_bit then num AND rust_shl 1 start
      else let bits = rust_shr (rust_shl num (LENGTH('a) - end_bit)) (LENGTH('a) - end_bit) in rust_shr bits start)"

definition bit_at :: "'a::len word \<Rightarrow> nat \<Rightarrow> bool" where
  "bit_at num index \<longleftrightarrow> num AND rust_shl 1 index \<noteq> 0"

lemma bit_range_eq:
  assumes "start < e" "e \<le> LENGTH('a)"
  shows "bit_range (w :: 'a::len word) start e = take_bit (e - start) (drop_bit start w)"
  using assms
  by (intro bit_word_eqI) (auto simp: bit_range_def rust_shl_def rust_shr_def Let_def bit_simps mod_if)

lemma bit_at_iff: "i < LENGTH('a) \<Longrightarrow> bit_at (w :: 'a::len word) i = bit w i"
  by (simp add: bit_at_def rust_shl_def and_exp_eq_0_iff_not_bit push_bit_of_1)

lemma rust_smoke:
  "bit_range (43 :: u64) 5 31 = 1" "bit_range (0b00110101 :: u8) 2 6 = 0b1101" "bit_range (0b00110101 :: u8) 0 0 = 1"
  by code_simp+

subsection \<open>Ports and configuration registers\<close>

record 'h ports =
  write_u32 :: "u16 \<Rightarrow> u32 \<Rightarrow> 'h \<Rightarrow> 'h"
  read_u32 :: "u16 \<Rightarrow> 'h \<Rightarrow> u32 \<times> 'h"

definition CONFIG_ADDRESS :: u16 where "CONFIG_ADDRESS = 0xCF8"
definition CONFIG_DATA :: u16 where "CONFIG_DATA = 0xCFC"

definition config_addr :: "u8 \<Rightarrow> u8 \<Rightarrow> u8 \<Rightarrow> u8 \<Rightarrow> u32" where
  "config_addr bus device func offset =
     push_bit 16 (ucast bus) OR push_bit 11 (ucast device) OR push_bit 8 (ucast func) OR (ucast offset AND 0xFC) OR 0x80000000"

definition pci_read :: "'h ports \<Rightarrow> u8 \<Rightarrow> u8 \<Rightarrow> u8 \<Rightarrow> u8 \<Rightarrow> 'h \<Rightarrow> u32 \<times> 'h" where
  "pci_read io bus device func offset h =
     read_u32 io CONFIG_DATA (write_u32 io CONFIG_ADDRESS (config_addr bus device func offset) h)"

definition pci_write :: "'h ports \<Rightarrow> u8 \<Rightarrow> u8 \<Rightarrow> u8 \<Rightarrow> u8 \<Rightarrow> u32 \<Rightarrow> 'h \<Rightarrow> 'h" where
  "pci_write io bus device func offset v h =
     write_u32 io CONFIG_DATA v (write_u32 io CONFIG_ADDRESS (config_addr bus device func offset) h)"

subsection \<open>Classes and capabilities\<close>

datatype (plugins only: code) pci_class =
  Unclassified | MassStorageController | NetworkController | DisplayController | MultimediaDevice | MemoryController | BridgeDevice
| SimpleCommunicationController | BaseSystemPeripheral | InputDevice | DockingStation | Processor | SerialBus | WirelessController
| IntelligentIoController | SatelliteCommunicationController | EncryptionController | SignalProcessingController
| ProcessingAccelerator | NonEssentialInstrumentation | CoProcessor | VendorSpecificClass

definition Class_codes :: "(u8 \<times> pci_class) list" where
  "Class_codes = [(0x00, Unclassified), (0x01, MassStorageController), (0x02, NetworkController), (0x03, DisplayController),
     (0x04, MultimediaDevice), (0x05, MemoryController), (0x06, BridgeDevice), (0x07, SimpleCommunicationController),
     (0x08, BaseSystemPeripheral), (0x09, InputDevice), (0x0A, DockingStation), (0x0B, Processor), (0x0C, SerialBus),
     (0x0D, WirelessController), (0x0E, IntelligentIoController), (0x0F, SatelliteCommunicationController),
     (0x10, EncryptionController), (0x11, SignalProcessingController), (0x12, ProcessingAccelerator),
     (0x13, NonEssentialInstrumentation), (0x40, CoProcessor), (0xFF, VendorSpecificClass)]"

definition Class_from_raw :: "u8 \<Rightarrow> pci_class option" where
  "Class_from_raw raw = map_of Class_codes raw"

datatype (plugins only: code) capability =
  NullCapability | Pmi | Agp | Vpd | SlotIdentification | Msi | CompactPciHotSwap | PciX | HyperTransport | VendorSpecific | DebugPort
| CompactPciCentralResourceControl | HotPlug | BridgeSubsystemVendorId | Agp8x | SecureDevice | PciExpress | MsiX | SerialAta
| AdvancedFeatures | EnhancedAllocation | FlatteningPortalBridge

definition Capability_codes :: "(u8 \<times> capability) list" where
  "Capability_codes = [(0x00, NullCapability), (0x01, Pmi), (0x02, Agp), (0x03, Vpd), (0x04, SlotIdentification), (0x05, Msi),
     (0x06, CompactPciHotSwap), (0x07, PciX), (0x08, HyperTransport), (0x09, VendorSpecific), (0x0A, DebugPort),
     (0x0B, CompactPciCentralResourceControl), (0x0C, HotPlug), (0x0D, BridgeSubsystemVendorId), (0x0E, Agp8x),
     (0x0F, SecureDevice), (0x10, PciExpress), (0x11, MsiX), (0x12, SerialAta), (0x13, AdvancedFeatures),
     (0x14, EnhancedAllocation), (0x15, FlatteningPortalBridge)]"

definition Capability_from_raw :: "u8 \<Rightarrow> capability option" where
  "Capability_from_raw raw = map_of Capability_codes raw"

subsection \<open>Registers\<close>

definition ConfigSpaceRegister0 :: "u32 \<Rightarrow> u16 \<times> u16" where
  "ConfigSpaceRegister0 w = (ucast (bit_range w 0 16), ucast (bit_range w 16 32))"

definition ConfigSpaceRegister2 :: "u32 \<Rightarrow> u8 \<times> u8 \<times> u8 \<times> u8" where
  "ConfigSpaceRegister2 w =
     (ucast (bit_range w 0 8), ucast (bit_range w 8 16), ucast (bit_range w 16 24), ucast (bit_range w 24 32))"

definition ConfigSpaceRegister3 :: "u32 \<Rightarrow> u8 \<times> u8 \<times> u8 \<times> u8" where
  "ConfigSpaceRegister3 w =
     (ucast (bit_range w 0 8), ucast (bit_range w 8 16), ucast (bit_range w 16 24), ucast (bit_range w 24 32))"

type_synonym header_type = u8

definition HeaderType_get :: "header_type \<Rightarrow> u8" where
  "HeaderType_get t = t AND NOT (push_bit 7 1)"

definition multiple_functions :: "header_type \<Rightarrow> bool" where
  "multiple_functions t \<longleftrightarrow> t AND push_bit 7 1 = push_bit 7 1"

definition is_pci_bridge :: "header_type \<Rightarrow> bool" where
  "is_pci_bridge t \<longleftrightarrow> HeaderType_get t = 1"

record raw_bar =
  rb_io :: bool
  rb_io_address :: u32
  rb_mem_type :: u8
  rb_mem_prefetchable :: bool
  rb_mem_address :: u32

definition RawBaseAddressRegister :: "u32 \<Rightarrow> raw_bar" where
  "RawBaseAddressRegister w = \<lparr> rb_io = bit_at w 0, rb_io_address = bit_range w 2 32, rb_mem_type = ucast (bit_range w 1 3),
     rb_mem_prefetchable = bit_at w 3, rb_mem_address = bit_range w 4 32 \<rparr>"

definition u32_set_bit :: "u32 \<Rightarrow> nat \<Rightarrow> bool \<Rightarrow> u32 rust" where
  "u32_set_bit w b v = do {
     rust_assert (b < 32);
     Some (if v then w OR push_bit b 1 else w AND NOT (push_bit b 1))
   }"

text \<open>\<^verbatim>\<open>u32_set_range\<close> and \<^verbatim>\<open>u64_set_range\<close> differ in the width only.\<close>

definition set_range :: "'a::len word \<Rightarrow> nat \<Rightarrow> nat \<Rightarrow> 'a word \<Rightarrow> 'a word" where
  "set_range num start end_bit v =
     (if start \<noteq> end_bit then
        let bitmask = NOT (rust_shl (rust_shr (rust_shr (rust_shl (NOT 0) (LENGTH('a) - end_bit)) (LENGTH('a) - end_bit)) start) start)
        in (num AND bitmask) OR rust_shl v start
      else num)"

subsection \<open>Devices\<close>

record device =
  d_bus :: u8
  d_device :: u8
  d_function :: u8
  d_device_id :: u16
  d_vendor_id :: u16
  d_class :: pci_class
  d_subclass :: u8
  d_header_type :: header_type
  d_interface :: u8
  d_interrupt_line :: u8
  d_interrupt_pin :: u8

definition Device_open :: "'h ports \<Rightarrow> u8 \<Rightarrow> u8 \<Rightarrow> u8 \<Rightarrow> 'h \<Rightarrow> device option \<times> 'h" where
  "Device_open io bus dev func h =
     (let (w0, h) = pci_read io bus dev func 0x00 h; (vendor_id, device_id) = ConfigSpaceRegister0 w0 in
      if vendor_id = 0xFFFF then (None, h)
      else let (w2, h) = pci_read io bus dev func 0x08 h; (_, prog_if, subclass, class_code) = ConfigSpaceRegister2 w2;
               (w3, h) = pci_read io bus dev func 0x0C h; (_, _, header_type, _) = ConfigSpaceRegister3 w3 in
      case Class_from_raw class_code of None \<Rightarrow> (None, h)
      | Some cl \<Rightarrow>
          let (last_row, h) = pci_read io bus dev 0 0x3C h in
          (Some \<lparr> d_bus = bus, d_device = dev, d_function = func, d_device_id = device_id, d_vendor_id = vendor_id, d_class = cl,
             d_subclass = subclass, d_header_type = header_type, d_interface = prog_if,
             d_interrupt_line = ucast (last_row AND 0xFF), d_interrupt_pin = ucast (drop_bit 8 last_row AND 0xFF) \<rparr>, h))"

definition Device_name :: "device \<Rightarrow> string" where
  "Device_name d =
     (if d_vendor_id d = 0x1AF4 then
        (case map_of [(0x1000, ''Virtio network device''), (0x1001, ''Virtio block device''), (0x1041, ''Virtio 1.0 network device''),
             (0x1042, ''Virtio 1.0 block device''), (0x1043, ''Virtio 1.0 console''), (0x1044, ''Virtio 1.0 RNG''),
             (0x1050, ''Virtio 1.0 GPU''), (0x1051, ''Virtio 1.0 clock/timer''), (0x1052, ''Virtio 1.0 input'')] (d_device_id d) of
           Some name \<Rightarrow> name | None \<Rightarrow> ''Unknown Red Hat, Inc. device'')
      else if d_vendor_id d = 0x8086 then
        (case map_of [(0x100E, ''82540EM Gigabit Ethernet Controller''), (0x1237, ''82441FX PMC [Natoma]''),
             (0x7000, ''82371SB PIIX3 ISA [Natoma/Triton II]'')] (d_device_id d) of
           Some name \<Rightarrow> name | None \<Rightarrow> ''Unknown Intel Corp. device'')
      else ''Unknown device'')"

definition Device_read :: "'h ports \<Rightarrow> device \<Rightarrow> u8 \<Rightarrow> 'h \<Rightarrow> u32 \<times> 'h" where
  "Device_read io d offset h = pci_read io (d_bus d) (d_device d) (d_function d) offset h"

definition Device_write :: "'h ports \<Rightarrow> device \<Rightarrow> u8 \<Rightarrow> u32 \<Rightarrow> 'h \<Rightarrow> 'h" where
  "Device_write io d offset v h = pci_write io (d_bus d) (d_device d) (d_function d) offset v h"

subsection \<open>Base address registers\<close>

datatype bar =
    Mem32 (bar_address32: u32) (bar_size32: u32) (bar_prefetchable32: bool)
  | Mem64 (bar_address64: u64) (bar_size64: u64) (bar_prefetchable64: bool)
  | Io u32

text \<open>
  The size of a 64-bit register whose low half answers is computed as an \<^verbatim>\<open>i32\<close> and converted with its sign.
\<close>

definition Device_bar :: "'h ports \<Rightarrow> device \<Rightarrow> u8 \<Rightarrow> 'h \<Rightarrow> (bar option \<times> 'h) rust" where
  "Device_bar io d slot h =
     (if slot \<ge> 6 then Some (None, h)
      else if d_class d = BridgeDevice \<and> (\<not> is_pci_bridge (d_header_type d) \<or> slot \<ge> 2) then Some (None, h)
      else
        let offset = 16 + slot * 4; (raw, h) = Device_read io d offset h; bar = RawBaseAddressRegister raw in
        if rb_io bar then Some (Some (Io (rb_io_address bar)), h)
        else
          let prefetchable = rb_mem_prefetchable bar; addr = push_bit 4 (rb_mem_address bar) in
          if rb_mem_type bar = 0 then
            let h = Device_write io d offset 0xFFFFFFFF h; (readback, h) = Device_read io d offset h;
                h = Device_write io d offset addr h in
            if readback = 0 then Some (None, h)
            else Some (Some (Mem32 addr (rust_shl 1 (trailing_zeros (set_range readback 0 4 0))) prefetchable), h)
          else if rb_mem_type bar = 2 then
            if slot \<ge> 5 then Some (None, h)
            else
              let (address_upper, h) = Device_read io d (offset + 4) h;
                  h = Device_write io d offset 0xFFFFFFFF h; h = Device_write io d (offset + 4) 0xFFFFFFFF h;
                  (readback_low, h) = Device_read io d offset h; (readback_high, h) = Device_read io d (offset + 4) h;
                  h = Device_write io d offset addr h; h = Device_write io d (offset + 4) address_upper h;
                  readback_low = set_range readback_low 0 4 0;
                  bar_size = (if readback_low \<noteq> 0 then scast (rust_shl (1 :: u32) (trailing_zeros readback_low))
                              else rust_shl 1 (trailing_zeros readback_high + 32))
              in Some (Some (Mem64 (set_range (ucast addr) 32 64 (ucast address_upper)) bar_size prefetchable), h)
          else panic)"

subsection \<open>Capabilities\<close>

record capability_iter =
  ci_device :: device
  ci_offset :: u8

definition CapabilityIter_new :: "'h ports \<Rightarrow> device \<Rightarrow> 'h \<Rightarrow> (capability_iter \<times> 'h) rust" where
  "CapabilityIter_new io d h = do {
     let (w, h) = Device_read io d 0x34 h;
     w \<leftarrow> u32_set_bit w 0 False;
     w \<leftarrow> u32_set_bit w 1 False;
     Some (\<lparr> ci_device = d, ci_offset = ucast (bit_range w 0 8) \<rparr>, h)
   }"

definition CapabilityIter_next :: "'h ports \<Rightarrow> capability_iter \<Rightarrow> 'h \<Rightarrow> (capability \<times> u8) option \<times> capability_iter \<times> 'h" where
  "CapabilityIter_next io it h =
     (let offset = ci_offset it; (w, h) = Device_read io (ci_device it) offset h in
      (map_option (\<lambda>i. (i, offset)) (Capability_from_raw (ucast (bit_range w 0 8))),
       it\<lparr> ci_offset := ucast (bit_range w 8 16) \<rparr>, h))"

text \<open>
  A search among the capabilities: \<^verbatim>\<open>find\<close>, or \<^verbatim>\<open>filter\<close> and \<^verbatim>\<open>filter_map\<close> with \<^verbatim>\<open>next\<close>.
  It does not end on a list of capabilities that runs in a circle: None when the fuel is used up.
\<close>

fun find_capability ::
    "nat \<Rightarrow> 'h ports \<Rightarrow> (capability \<times> u8 \<Rightarrow> 'h \<Rightarrow> ('b option \<times> 'h) rust) \<Rightarrow> capability_iter \<Rightarrow> 'h \<Rightarrow> ('b option \<times> 'h) rust" where
  "find_capability 0 io f it h = None"
| "find_capability (Suc fuel) io f it h =
     (case CapabilityIter_next io it h of
        (None, _, h) \<Rightarrow> Some (None, h)
      | (Some cap, it, h) \<Rightarrow> do {
          (r, h) \<leftarrow> f cap h;
          case r of Some b \<Rightarrow> Some (Some b, h) | None \<Rightarrow> find_capability fuel io f it h
        })"

definition set_msix :: "nat \<Rightarrow> 'h ports \<Rightarrow> device \<Rightarrow> bool \<Rightarrow> 'h \<Rightarrow> 'h rust" where
  "set_msix fuel io d enabled h = do {
     (it, h) \<leftarrow> CapabilityIter_new io d h;
     (r, h) \<leftarrow> find_capability fuel io (\<lambda>(i, off) h. Some (if i = MsiX then Some off else None, h)) it h;
     case r of None \<Rightarrow> Some h
     | Some off \<Rightarrow> do {
         let (w, h) = Device_read io d off h;
         w \<leftarrow> u32_set_bit w 31 enabled;
         Some (Device_write io d off w h)
       }
   }"

text \<open>The words of a structure in configuration space, for a structure of a multiple of four bytes.\<close>

fun read_words :: "'h ports \<Rightarrow> device \<Rightarrow> u8 \<Rightarrow> nat list \<Rightarrow> 'h \<Rightarrow> u32 list \<times> 'h" where
  "read_words io d offset [] h = ([], h)"
| "read_words io d offset (i # is) h =
     (let (w, h) = Device_read io d (offset + 4 * word_of_nat i) h; (ws, h) = read_words io d offset is h in (w # ws, h))"

definition read_struct :: "'h ports \<Rightarrow> device \<Rightarrow> nat \<Rightarrow> u8 \<Rightarrow> 'h \<Rightarrow> (u8 list \<times> 'h) rust" where
  "read_struct io d struct_size offset h = do {
     rust_assert (struct_size mod 4 = 0);
     rust_assert (struct_size div 4 \<le> 256);
     let (ws, h) = read_words io d offset [0..<struct_size div 4] h;
     Some (concat (map to_le_bytes ws), h)
   }"

subsection \<open>Enumerating devices\<close>

record device_iter =
  it_bus :: u8
  it_id :: u8
  it_multi_function :: "(u8 \<times> u8 \<times> u8) option"

definition enumerate_devices :: device_iter where
  "enumerate_devices = \<lparr> it_bus = 0, it_id = 0, it_multi_function = None \<rparr>"

definition range_inclusive :: "u8 \<Rightarrow> u8 \<Rightarrow> u8 list" where
  "range_inclusive a b = map word_of_nat [unat a..<Suc (unat b)]"

text \<open>The loops of \<^verbatim>\<open>next\<close> return the first of the given functions that opens.\<close>

fun first_open :: "'h ports \<Rightarrow> (u8 \<times> u8 \<times> u8) list \<Rightarrow> 'h \<Rightarrow> ((u8 \<times> u8 \<times> u8) \<times> device) option \<times> 'h" where
  "first_open io [] h = (None, h)"
| "first_open io ((bus, dev, func) # fs) h =
     (case Device_open io bus dev func h of
        (Some d, h) \<Rightarrow> (Some ((bus, dev, func), d), h)
      | (None, h) \<Rightarrow> first_open io fs h)"

definition functions_after :: "device \<Rightarrow> u8 \<Rightarrow> u8 \<Rightarrow> (u8 \<times> u8 \<times> u8) option" where
  "functions_after d bus dev = (if multiple_functions (d_header_type d) then Some (bus, dev, 1) else None)"

text \<open>The stages of \<^verbatim>\<open>next\<close>, the last one first: the buses behind the current one, the current bus, pending functions.\<close>

definition next_bus :: "'h ports \<Rightarrow> device_iter \<Rightarrow> 'h \<Rightarrow> device option \<times> device_iter \<times> 'h" where
  "next_bus io it h =
     (if \<not> it_bus it < 255 then (None, it, h)
      else let it = it\<lparr> it_bus := it_bus it + 1 \<rparr> in
      case first_open io (concat (map (\<lambda>b. map (\<lambda>i. (b, i, 0)) (range_inclusive 0 31)) (range_inclusive (it_bus it) 255))) h of
        (Some ((bus, dev, _), d), h) \<Rightarrow>
          (Some d, it\<lparr> it_bus := bus, it_id := dev + 1, it_multi_function := functions_after d bus dev \<rparr>, h)
      | (None, h) \<Rightarrow> (None, it, h))"

definition next_on_bus :: "'h ports \<Rightarrow> device_iter \<Rightarrow> 'h \<Rightarrow> device option \<times> device_iter \<times> 'h" where
  "next_on_bus io it h =
     (if it_id it \<le> 31 then
        case first_open io (map (\<lambda>i. (it_bus it, i, 0)) (range_inclusive (it_id it) 31)) h of
          (Some ((bus, dev, _), d), h) \<Rightarrow>
            (Some d, it\<lparr> it_id := dev + 1, it_multi_function := functions_after d (it_bus it) dev \<rparr>, h)
        | (None, h) \<Rightarrow> next_bus io it h
      else next_bus io it h)"

definition DeviceIter_next :: "'h ports \<Rightarrow> device_iter \<Rightarrow> 'h \<Rightarrow> device option \<times> device_iter \<times> 'h" where
  "DeviceIter_next io it h =
     (case it_multi_function it of
        None \<Rightarrow> next_on_bus io it h
      | Some (bus, dev, func) \<Rightarrow>
          let it = it\<lparr> it_multi_function := None \<rparr> in
          case first_open io (map (\<lambda>f. (bus, dev, f)) (range_inclusive func 7)) h of
            (Some ((_, _, f), d), h) \<Rightarrow>
              (Some d, it\<lparr> it_multi_function := if f < 7 then Some (bus, dev, f + 1) else None \<rparr>, h)
          | (None, h) \<Rightarrow> next_on_bus io it h)"

text \<open>The devices an iterator gives until it is exhausted; None when the fuel is used up.\<close>

fun collect_devices :: "nat \<Rightarrow> 'h ports \<Rightarrow> device_iter \<Rightarrow> 'h \<Rightarrow> (device list \<times> 'h) rust" where
  "collect_devices 0 io it h = None"
| "collect_devices (Suc fuel) io it h =
     (case DeviceIter_next io it h of
        (None, _, h) \<Rightarrow> Some ([], h)
      | (Some d, it, h) \<Rightarrow> map_option (\<lambda>(ds, h). (d # ds, h)) (collect_devices fuel io it h))"

subsection \<open>The iterator visits every device\<close>

definition config_space :: "'h ports \<Rightarrow> ('h \<Rightarrow> u32 \<Rightarrow> u32) \<Rightarrow> bool" where
  "config_space io cfg \<longleftrightarrow> (\<forall>a h. \<exists>h'. read_u32 io CONFIG_DATA (write_u32 io CONFIG_ADDRESS a h) = (cfg h a, h') \<and> cfg h' = cfg h)"

text \<open>The device the registers describe, and the nested loops over buses, devices and functions.\<close>

definition device_at :: "(u32 \<Rightarrow> u32) \<Rightarrow> u8 \<Rightarrow> u8 \<Rightarrow> u8 \<Rightarrow> device option" where
  "device_at c bus dev func = fst (Device_open \<lparr> write_u32 = (\<lambda>p a h. a), read_u32 = (\<lambda>p h. (c h, h)) \<rparr> bus dev func 0)"

definition devices_on :: "(u32 \<Rightarrow> u32) \<Rightarrow> u8 \<times> u8 \<times> u8 \<Rightarrow> device list" where
  "devices_on c = (\<lambda>(bus, dev, _). case device_at c bus dev 0 of None \<Rightarrow> []
     | Some d \<Rightarrow> d # (if multiple_functions (d_header_type d) then List.map_filter (device_at c bus dev) (range_inclusive 1 7) else []))"

definition bus_slots :: "u8 \<Rightarrow> (u8 \<times> u8 \<times> u8) list" where
  "bus_slots b = map (\<lambda>i. (b, i, 0)) (range_inclusive 0 31)"

definition all_devices :: "(u32 \<Rightarrow> u32) \<Rightarrow> device list" where
  "all_devices c = concat (map (devices_on c) (concat (map bus_slots (range_inclusive 0 255))))"

text \<open>The loops of the comment on \<^verbatim>\<open>next\<close>, which push the further functions of a device before the device.\<close>

definition documented_on :: "(u32 \<Rightarrow> u32) \<Rightarrow> u8 \<times> u8 \<times> u8 \<Rightarrow> device list" where
  "documented_on c = (\<lambda>(bus, dev, _). case device_at c bus dev 0 of None \<Rightarrow> []
     | Some d \<Rightarrow> (if multiple_functions (d_header_type d) then List.map_filter (device_at c bus dev) (range_inclusive 1 7) else []) @ [d])"

definition documented_devices :: "(u32 \<Rightarrow> u32) \<Rightarrow> device list" where
  "documented_devices c = concat (map (documented_on c) (concat (map bus_slots (range_inclusive 0 255))))"

lemma documented_on_rotate: "documented_on c x = rotate1 (devices_on c x)"
  by (auto simp: documented_on_def devices_on_def split: prod.splits option.splits)

lemma pci_read_config:
  assumes "config_space io cfg"
  obtains h' where "pci_read io bus dev func offset h = (cfg h (config_addr bus dev func offset), h')" "cfg h' = cfg h"
  using assms unfolding config_space_def pci_read_def by metis

lemma Device_open_config:
  assumes "config_space io cfg"
  shows "\<exists>h'. Device_open io bus dev func h = (device_at (cfg h) bus dev func, h') \<and> cfg h' = cfg h"
proof -
  obtain h0 where 0: "pci_read io bus dev func 0 h = (cfg h (config_addr bus dev func 0), h0)" "cfg h0 = cfg h"
    by (rule pci_read_config [OF assms])
  obtain h2 where 2: "pci_read io bus dev func 8 h0 = (cfg h0 (config_addr bus dev func 8), h2)" "cfg h2 = cfg h0"
    by (rule pci_read_config [OF assms])
  obtain h3 where 3: "pci_read io bus dev func 12 h2 = (cfg h2 (config_addr bus dev func 12), h3)" "cfg h3 = cfg h2"
    by (rule pci_read_config [OF assms])
  obtain h4 where 4: "pci_read io bus dev 0 60 h3 = (cfg h3 (config_addr bus dev 0 60), h4)" "cfg h4 = cfg h3"
    by (rule pci_read_config [OF assms])
  show ?thesis
    unfolding device_at_def Device_open_def
    using 0 2 3 4 by (auto simp: pci_read_def Let_def split: prod.splits option.splits)
qed

definition at :: "(u32 \<Rightarrow> u32) \<Rightarrow> u8 \<times> u8 \<times> u8 \<Rightarrow> device option" where
  "at c = (\<lambda>(bus, dev, func). device_at c bus dev func)"

lemma first_open_config:
  assumes "config_space io cfg"
  obtains h' where "cfg h' = cfg h" "\<forall>x \<in> set fs. at (cfg h) x = None" "first_open io fs h = (None, h')"
  | h' pre x d post where "cfg h' = cfg h" "fs = pre @ x # post" "\<forall>x \<in> set pre. at (cfg h) x = None" "at (cfg h) x = Some d"
      "first_open io fs h = (Some (x, d), h')"
proof (induction fs arbitrary: h thesis)
  case Nil
  then show ?case by simp
next
  case (Cons f fs)
  obtain bus dev func where f: "f = (bus, dev, func)" by (cases f) auto
  obtain h1 where h1: "Device_open io bus dev func h = (device_at (cfg h) bus dev func, h1)" "cfg h1 = cfg h"
    using Device_open_config [OF assms] by blast
  show ?case
  proof (cases "device_at (cfg h) bus dev func")
    case (Some d)
    then show ?thesis using Cons.prems(2) [of h1 "[]" f fs d] h1 by (simp add: f at_def)
  next
    case None
    have n: "at (cfg h) f = None" "first_open io (f # fs) h = first_open io fs h1" using None h1 by (simp_all add: f at_def)
    show ?thesis
    proof (rule Cons.IH [of h1])
      fix h' assume "cfg h' = cfg h1" "\<forall>x \<in> set fs. at (cfg h1) x = None" "first_open io fs h1 = (None, h')"
      then show ?thesis using Cons.prems(1) [of h'] n h1(2) by simp
    next
      fix h' pre x d post
      assume a: "cfg h' = cfg h1" "fs = pre @ x # post" "\<forall>x \<in> set pre. at (cfg h1) x = None" "at (cfg h1) x = Some d"
        "first_open io fs h1 = (Some (x, d), h')"
      then show ?thesis using Cons.prems(2) [of h' "f # pre" x post d] n h1(2) by simp
    qed
  qed
qed

text \<open>What an iterator has yet to give.\<close>

definition rest_inclusive :: "u8 \<Rightarrow> u8 \<Rightarrow> u8 list" where
  "rest_inclusive a b = map word_of_nat [Suc (unat a)..<Suc (unat b)]"

definition remaining :: "(u32 \<Rightarrow> u32) \<Rightarrow> device_iter \<Rightarrow> device list" where
  "remaining c it =
     (case it_multi_function it of None \<Rightarrow> []
      | Some (bus, dev, func) \<Rightarrow> List.map_filter (at c) (map (\<lambda>f. (bus, dev, f)) (range_inclusive func 7)))
     @ concat (map (devices_on c) (map (\<lambda>i. (it_bus it, i, 0)) (range_inclusive (it_id it) 31)))
     @ concat (map (devices_on c) (concat (map bus_slots (rest_inclusive (it_bus it) 255))))"

lemma upt_split: "map word_of_nat [m..<n] = pre @ (x :: u8) # post \<Longrightarrow> n \<le> 256 \<Longrightarrow>
    post = map word_of_nat [Suc (unat x)..<n] \<and> m \<le> unat x \<and> unat x < n"
proof (induction pre arbitrary: m)
  case Nil
  then have "m < n" by (cases "m < n") auto
  then have "x = word_of_nat m" "post = map word_of_nat [Suc m..<n]" using Nil by (auto simp: upt_conv_Cons)
  then show ?case using \<open>m < n\<close> Nil(2) by (simp add: unat_of_nat)
next
  case (Cons y pre)
  then have "m < n" by (cases "m < n") auto
  then have "map word_of_nat [Suc m..<n] = pre @ x # post" using Cons.prems by (simp add: upt_conv_Cons)
  then show ?case using Cons.IH [of "Suc m"] Cons.prems(2) by simp
qed

lemma range_inclusive_split:
  assumes "range_inclusive a b = pre @ x # post"
  shows "post = rest_inclusive x b" "x \<le> b"
proof -
  have "unat b < 256" using unsigned_less [of b] by simp
  then show "post = rest_inclusive x b" "x \<le> b"
    using upt_split [OF assms [unfolded range_inclusive_def]] by (simp_all add: rest_inclusive_def word_le_nat_alt)
qed

lemma rest_inclusive_range: "x < 255 \<Longrightarrow> rest_inclusive x b = range_inclusive (x + 1) b"
proof -
  assume "x < 255"
  then have "unat x < 255" by (simp add: word_less_nat_alt)
  then have "unat (x + 1) = Suc (unat x)" by (simp add: unat_word_ariths)
  then show ?thesis by (simp add: rest_inclusive_def range_inclusive_def)
qed

lemma map_split_pair:
  assumes "map g xs = pre @ y # post"
  obtains xs1 x xs2 where "xs = xs1 @ x # xs2" "pre = map g xs1" "y = g x" "post = map g xs2"
  using assms by (auto simp: map_eq_append_conv map_eq_Cons_conv)

lemma append_split:
  assumes "xs @ ys = pre @ x # post"
  obtains us where "ys = us @ x # post" | us where "xs = pre @ x # us" "post = us @ ys"
proof -
  obtain us where "xs = pre @ us \<and> us @ ys = x # post \<or> xs @ us = pre \<and> ys = us @ x # post"
    using assms unfolding append_eq_append_conv2 by blast
  then show thesis using that by (cases us) auto
qed

lemma bus_slots_split:
  "concat (map bus_slots bs) = pre @ (b, i, f) # post \<Longrightarrow>
     \<exists>bs1 bs2 pre2. bs = bs1 @ b # bs2 \<and> f = 0 \<and> range_inclusive 0 31 = pre2 @ i # rest_inclusive i 31
       \<and> post = map (\<lambda>i. (b, i, 0)) (rest_inclusive i 31) @ concat (map bus_slots bs2)"
proof (induction bs arbitrary: pre)
  case (Cons b' bs)
  then have "bus_slots b' @ concat (map bus_slots bs) = pre @ (b, i, f) # post" by simp
  then consider pre2 where "concat (map bus_slots bs) = pre2 @ (b, i, f) # post"
    | post2 where "bus_slots b' = pre @ (b, i, f) # post2" "post = post2 @ concat (map bus_slots bs)"
  proof (cases rule: append_split)
    case (1 us)
    then show thesis using that(1) by blast
  next
    case (2 us)
    then show thesis using that(2) by blast
  qed
  then show ?case
  proof cases
    case 1
    from Cons.IH [OF 1] obtain bs1 bs2 pre2 where "bs = bs1 @ b # bs2" "f = 0"
      "range_inclusive 0 31 = pre2 @ i # rest_inclusive i 31"
      "post = map (\<lambda>i. (b, i, 0)) (rest_inclusive i 31) @ concat (map bus_slots bs2)" by blast
    then show ?thesis by (intro exI [of _ "b' # bs1"] exI [of _ bs2] exI [of _ pre2]) simp
  next
    case 2
    obtain xs1 x xs2 where x: "range_inclusive 0 31 = xs1 @ x # xs2" "(b, i, f) = (b', x, 0)"
      "post2 = map (\<lambda>i. (b', i, 0)) xs2" by (rule map_split_pair [OF 2(1) [unfolded bus_slots_def]])
    then have "xs2 = rest_inclusive i 31" using range_inclusive_split(1) by blast
    then show ?thesis using x 2(2) by (intro exI [of _ "[]"] exI [of _ bs] exI [of _ xs1]) simp
  qed
qed simp

lemma devices_on_none: "at c (b, i, 0) = None \<Longrightarrow> devices_on c (b, i, 0) = []"
  by (simp add: at_def devices_on_def)

lemma devices_on_some: "at c (b, i, 0) = Some d \<Longrightarrow> devices_on c (b, i, 0)
    = d # (case functions_after d b i of None \<Rightarrow> [] | Some (b, i, f) \<Rightarrow> List.map_filter (at c) (map (\<lambda>f. (b, i, f)) (range_inclusive f 7)))"
  by (simp add: at_def devices_on_def functions_after_def List.map_filter_def comp_def filter_map)

lemma devices_on_skip:
  "\<forall>x \<in> set xs. at c x = None \<and> snd (snd x) = 0 \<Longrightarrow> concat (map (devices_on c) xs) = []"
  by (induction xs) (auto simp: devices_on_none)

lemma map_filter_skip: "\<forall>x \<in> set xs. g x = None \<Longrightarrow> List.map_filter g (xs @ ys) = List.map_filter g ys"
  by (simp add: List.map_filter_def)

definition gives :: "('h \<Rightarrow> u32 \<Rightarrow> u32) \<Rightarrow> 'h \<Rightarrow> device list \<Rightarrow> device option \<times> device_iter \<times> 'h \<Rightarrow> bool" where
  "gives cfg h ds = (\<lambda>(r, it, h'). cfg h' = cfg h \<and> (case ds of [] \<Rightarrow> r = None | d # ds \<Rightarrow> r = Some d \<and> remaining (cfg h) it = ds))"

lemma gives_cong:
  assumes "cfg h' = cfg h"
  shows "gives cfg h' ds = gives cfg h ds"
  unfolding gives_def assms by (rule refl)

lemma functions_split:
  assumes "map (\<lambda>f. (bus, dev, f)) (range_inclusive func 7) = pre @ (b, i, f) # post" "\<forall>x \<in> set pre. at c x = None"
    "at c (b, i, f) = Some d"
  shows "b = bus" "i = dev" "f \<le> 7"
    "List.map_filter (at c) (map (\<lambda>f. (bus, dev, f)) (range_inclusive func 7))
      = d # (if f < 7 then List.map_filter (at c) (map (\<lambda>f. (bus, dev, f)) (range_inclusive (f + 1) 7)) else [])"
proof -
  obtain xs1 x xs2 where x: "range_inclusive func 7 = xs1 @ x # xs2" "(b, i, f) = (bus, dev, x)"
    "post = map (\<lambda>f. (bus, dev, f)) xs2" by (rule map_split_pair [OF assms(1)])
  note r = range_inclusive_split [OF x(1)]
  show "b = bus" "i = dev" "f \<le> 7" using x(2) r(2) by simp_all
  have "List.map_filter (at c) (pre @ (b, i, f) # post) = d # List.map_filter (at c) post"
    using assms(2,3) by (simp add: map_filter_skip)
  moreover have "xs2 = (if f < 7 then range_inclusive (f + 1) 7 else [])"
  proof (cases "f < 7")
    case True
    then have "f < 255" by (rule less_trans) simp
    then show ?thesis using True r(1) x(2) rest_inclusive_range [of f 7] by simp
  next
    case False
    then have "f = 7" using \<open>f \<le> 7\<close> by simp
    then show ?thesis using r(1) x(2) by (simp add: rest_inclusive_def)
  qed
  ultimately show "List.map_filter (at c) (map (\<lambda>f. (bus, dev, f)) (range_inclusive func 7))
      = d # (if f < 7 then List.map_filter (at c) (map (\<lambda>f. (bus, dev, f)) (range_inclusive (f + 1) 7)) else [])"
    using assms(1) x(3) by (simp add: List.map_filter_def)
qed

lemma slots_split:
  assumes "map (\<lambda>i. (bus, i, 0)) (range_inclusive k 31) = pre @ (b, i, f) # post" "\<forall>x \<in> set pre. at c x = None"
    "at c (b, i, f) = Some d"
  shows "b = bus" "f = 0" "i \<le> 31"
    "concat (map (devices_on c) (map (\<lambda>i. (bus, i, 0)) (range_inclusive k 31))) = devices_on c (bus, i, 0)
      @ concat (map (devices_on c) (map (\<lambda>i. (bus, i, 0)) (range_inclusive (i + 1) 31)))"
proof -
  obtain xs1 x xs2 where x: "range_inclusive k 31 = xs1 @ x # xs2" "pre = map (\<lambda>i. (bus, i, 0)) xs1" "(b, i, f) = (bus, x, 0)"
    "post = map (\<lambda>i. (bus, i, 0)) xs2" by (rule map_split_pair [OF assms(1)])
  note r = range_inclusive_split [OF x(1)]
  show b: "b = bus" "f = 0" "i \<le> 31" using x(3) r(2) by simp_all
  then have "i < 255" by (simp add: word_le_nat_alt word_less_nat_alt)
  then have "xs2 = range_inclusive (i + 1) 31" using r(1) x(3) rest_inclusive_range [of i 31] by simp
  moreover have "concat (map (devices_on c) pre) = []" using assms(2) x(2) by (intro devices_on_skip) auto
  ultimately show "concat (map (devices_on c) (map (\<lambda>i. (bus, i, 0)) (range_inclusive k 31))) = devices_on c (bus, i, 0)
      @ concat (map (devices_on c) (map (\<lambda>i. (bus, i, 0)) (range_inclusive (i + 1) 31)))"
    using assms(1) x(4) b by simp
qed

lemma remaining_buses:
  assumes "concat (map bus_slots (rest_inclusive b0 255)) = pre @ (b, i, f) # post" "\<forall>x \<in> set pre. at c x = None"
    "at c (b, i, f) = Some d"
  shows "f = 0" "concat (map (devices_on c) (concat (map bus_slots (rest_inclusive b0 255)))) = devices_on c (b, i, 0)
      @ concat (map (devices_on c) (map (\<lambda>i. (b, i, 0)) (range_inclusive (i + 1) 31)))
      @ concat (map (devices_on c) (concat (map bus_slots (rest_inclusive b 255))))"
proof -
  obtain bs1 bs2 pre2 where s: "rest_inclusive b0 255 = bs1 @ b # bs2" "f = 0"
    "range_inclusive 0 31 = pre2 @ i # rest_inclusive i 31"
    "post = map (\<lambda>i. (b, i, 0)) (rest_inclusive i 31) @ concat (map bus_slots bs2)"
    using bus_slots_split [OF assms(1)] by blast
  show "f = 0" by (rule s(2))
  have "i < 255" using range_inclusive_split(2) [OF s(3)] by (simp add: word_le_nat_alt word_less_nat_alt)
  moreover have "bs2 = rest_inclusive b 255"
    using upt_split [OF s(1) [unfolded rest_inclusive_def]] by (simp add: rest_inclusive_def)
  moreover have "concat (map (devices_on c) pre) = []"
  proof (rule devices_on_skip)
    have "set pre \<subseteq> set (concat (map bus_slots (rest_inclusive b0 255)))" unfolding assms(1) by auto
    then have "snd (snd x) = 0" if "x \<in> set pre" for x using that by (auto simp: bus_slots_def)
    then show "\<forall>x \<in> set pre. at c x = None \<and> snd (snd x) = 0" using assms(2) by blast
  qed
  ultimately show "concat (map (devices_on c) (concat (map bus_slots (rest_inclusive b0 255)))) = devices_on c (b, i, 0)
      @ concat (map (devices_on c) (map (\<lambda>i. (b, i, 0)) (range_inclusive (i + 1) 31)))
      @ concat (map (devices_on c) (concat (map bus_slots (rest_inclusive b 255))))"
    unfolding assms(1) using s(2,4) rest_inclusive_range [of i 31] by simp
qed

lemma remaining_none:
  "it_multi_function it = None \<Longrightarrow> remaining c it
    = concat (map (devices_on c) (map (\<lambda>i. (it_bus it, i, 0)) (range_inclusive (it_id it) 31)))
     @ concat (map (devices_on c) (concat (map bus_slots (rest_inclusive (it_bus it) 255))))"
  by (simp add: remaining_def)

lemma remaining_after:
  assumes "at c (b, i, 0) = Some d"
  shows "devices_on c (b, i, 0) @ concat (map (devices_on c) (map (\<lambda>i. (b, i, 0)) (range_inclusive (i + 1) 31)))
      @ concat (map (devices_on c) (concat (map bus_slots (rest_inclusive b 255))))
    = d # remaining c (it\<lparr> it_bus := b, it_id := i + 1, it_multi_function := functions_after d b i \<rparr>)"
  using devices_on_some [OF assms] by (simp add: remaining_def split: option.split)

lemma next_bus_gives:
  assumes "config_space io cfg" "it_multi_function it = None"
  shows "gives cfg h (concat (map (devices_on (cfg h)) (concat (map bus_slots (rest_inclusive (it_bus it) 255))))) (next_bus io it h)"
proof (cases "it_bus it < 255")
  case False
  then have "rest_inclusive (it_bus it) 255 = []" by (simp add: rest_inclusive_def word_less_nat_alt)
  then show ?thesis using False by (simp add: next_bus_def gives_def)
next
  case True
  let ?fs = "concat (map bus_slots (rest_inclusive (it_bus it) 255))"
  have fs: "concat (map (\<lambda>b. map (\<lambda>i. (b, i, 0)) (range_inclusive 0 31)) (range_inclusive (it_bus it + 1) 255)) = ?fs"
    using rest_inclusive_range [OF True, of 255] by (simp add: bus_slots_def [abs_def])
  have n: "next_bus io it h = (case first_open io ?fs h of
        (Some ((bus, dev, _), d), h) \<Rightarrow> (Some d, it\<lparr> it_bus := it_bus it + 1, it_bus := bus, it_id := dev + 1,
           it_multi_function := functions_after d bus dev \<rparr>, h)
      | (None, h) \<Rightarrow> (None, it\<lparr> it_bus := it_bus it + 1 \<rparr>, h))"
    using True fs by (simp add: next_bus_def Let_def)
  show ?thesis
  proof (rule first_open_config [OF assms(1), of h ?fs])
    fix h' assume a: "cfg h' = cfg h" "\<forall>x \<in> set ?fs. at (cfg h) x = None" "first_open io ?fs h = (None, h')"
    have e: "concat (map (devices_on (cfg h)) ?fs) = []" using a(2) by (intro devices_on_skip) (auto simp: bus_slots_def)
    show ?thesis using a(1) unfolding n e a(3) by (simp add: gives_def)
  next
    fix h' pre x d post
    assume a: "cfg h' = cfg h" "?fs = pre @ x # post" "\<forall>x \<in> set pre. at (cfg h) x = None" "at (cfg h) x = Some d"
      "first_open io ?fs h = (Some (x, d), h')"
    obtain b i f where x: "x = (b, i, f)" by (cases x) auto
    note r = remaining_buses [OF a(2) [unfolded x] a(3) a(4) [unfolded x]]
    have "at (cfg h) (b, i, 0) = Some d" using a(4) r(1) x by simp
    note e = remaining_after [OF this, of "it\<lparr> it_bus := it_bus it + 1 \<rparr>"]
    show ?thesis using a(1) unfolding n a(5) x r(2) e by (simp add: gives_def)
  qed
qed

lemma next_on_bus_gives:
  assumes "config_space io cfg" "it_multi_function it = None"
  shows "gives cfg h (remaining (cfg h) it) (next_on_bus io it h)"
proof -
  let ?fs = "map (\<lambda>i. (it_bus it, i, 0)) (range_inclusive (it_id it) 31)"
  let ?later = "concat (map (devices_on (cfg h)) (concat (map bus_slots (rest_inclusive (it_bus it) 255))))"
  show ?thesis
  proof (cases "it_id it \<le> 31")
    case False
    then have "?fs = []" by (simp add: range_inclusive_def word_le_nat_alt)
    then show ?thesis
      using next_bus_gives [OF assms, of h] False unfolding remaining_none [OF assms(2)] by (simp add: next_on_bus_def)
  next
    case True
    have n: "next_on_bus io it h = (case first_open io ?fs h of
          (Some ((bus, dev, _), d), h) \<Rightarrow>
            (Some d, it\<lparr> it_id := dev + 1, it_multi_function := functions_after d (it_bus it) dev \<rparr>, h)
        | (None, h) \<Rightarrow> next_bus io it h)" using True by (simp add: next_on_bus_def)
    show ?thesis
    proof (rule first_open_config [OF assms(1), of h ?fs])
      fix h' assume a: "cfg h' = cfg h" "\<forall>x \<in> set ?fs. at (cfg h) x = None" "first_open io ?fs h = (None, h')"
      have "concat (map (devices_on (cfg h)) ?fs) = []" using a(2) by (intro devices_on_skip) auto
      then have e: "remaining (cfg h) it = ?later" unfolding remaining_none [OF assms(2)] by (simp only: append_Nil)
      show ?thesis using next_bus_gives [OF assms, of h'] gives_cong [OF a(1)] a(1) unfolding n e a(3) by simp
    next
      fix h' pre x d post
      assume a: "cfg h' = cfg h" "?fs = pre @ x # post" "\<forall>x \<in> set pre. at (cfg h) x = None" "at (cfg h) x = Some d"
        "first_open io ?fs h = (Some (x, d), h')"
      obtain b i f where x: "x = (b, i, f)" by (cases x) auto
      note r = slots_split [OF a(2) [unfolded x] a(3) a(4) [unfolded x]]
      have "remaining (cfg h) it
          = d # remaining (cfg h) (it\<lparr> it_bus := it_bus it, it_id := i + 1, it_multi_function := functions_after d (it_bus it) i \<rparr>)"
        using r remaining_after [of "cfg h" "it_bus it" i d it] a(4) x unfolding remaining_none [OF assms(2)] by simp
      then show ?thesis using a(1) unfolding n a(5) x by (simp add: gives_def)
    qed
  qed
qed

lemma DeviceIter_next_gives:
  assumes "config_space io cfg"
  shows "gives cfg h (remaining (cfg h) it) (DeviceIter_next io it h)"
proof (cases "it_multi_function it")
  case None
  then show ?thesis using next_on_bus_gives [OF assms None] by (simp add: DeviceIter_next_def)
next
  case (Some m)
  obtain bus dev func where m: "m = (bus, dev, func)" by (cases m) auto
  let ?it = "it\<lparr> it_multi_function := None \<rparr>" and ?fs = "map (\<lambda>f. (bus, dev, f)) (range_inclusive func 7)"
  have r: "remaining (cfg h) it = List.map_filter (at (cfg h)) ?fs @ remaining (cfg h) ?it"
    using Some m by (simp add: remaining_def)
  note n = DeviceIter_next_def [of io it h, unfolded Some m option.case prod.case Let_def]
  show ?thesis
  proof (rule first_open_config [OF assms, of h ?fs])
    fix h' assume a: "cfg h' = cfg h" "\<forall>x \<in> set ?fs. at (cfg h) x = None" "first_open io ?fs h = (None, h')"
    have "List.map_filter (at (cfg h)) ?fs = []" using map_filter_skip [OF a(2), of "[]"] by (simp add: List.map_filter_def)
    then have e: "remaining (cfg h) it = remaining (cfg h) ?it" using r by simp
    show ?thesis using next_on_bus_gives [OF assms, of ?it h'] gives_cong [OF a(1)] a(1) unfolding n e a(3) by simp
  next
    fix h' pre x d post
    assume a: "cfg h' = cfg h" "?fs = pre @ x # post" "\<forall>x \<in> set pre. at (cfg h) x = None" "at (cfg h) x = Some d"
      "first_open io ?fs h = (Some (x, d), h')"
    obtain b i f where x: "x = (b, i, f)" by (cases x) auto
    note s = functions_split [OF a(2) [unfolded x] a(3) a(4) [unfolded x]]
    show ?thesis using s(3) a(1) unfolding n a(5) x r s(4) by (simp add: gives_def remaining_def)
  qed
qed

lemma collect_devices_remaining:
  assumes "config_space io cfg" "length (remaining (cfg h) it) < fuel"
  shows "\<exists>h'. collect_devices fuel io it h = Some (remaining (cfg h) it, h') \<and> cfg h' = cfg h"
  using assms(2)
proof (induction fuel arbitrary: it h)
  case (Suc fuel)
  obtain r it' h' where n: "DeviceIter_next io it h = (r, it', h')" by (cases "DeviceIter_next io it h") auto
  note g = DeviceIter_next_gives [OF assms(1), of h it, unfolded n gives_def prod.case]
  show ?case
  proof (cases "remaining (cfg h) it")
    case Nil
    then show ?thesis using g n by simp
  next
    case (Cons d ds)
    then have "r = Some d" "remaining (cfg h') it' = ds" "cfg h' = cfg h" using g by simp_all
    then show ?thesis using Suc.IH [of h' it'] Suc.prems Cons n by auto
  qed
qed simp

lemma length_devices_on: "length (devices_on c x) \<le> 8"
proof -
  have "length (List.map_filter g (range_inclusive 1 7)) \<le> 7" for g :: "u8 \<Rightarrow> device option"
    using length_filter_le [of "\<lambda>x. g x \<noteq> None" "range_inclusive 1 7"] by (simp add: List.map_filter_def range_inclusive_def)
  then show ?thesis by (auto simp: devices_on_def split: option.split prod.split)
qed

lemma length_concat_le: "\<forall>x \<in> set xs. length (g x) \<le> n \<Longrightarrow> length (concat (map g xs)) \<le> n * length xs"
  by (induction xs) auto

lemma length_all_devices: "length (all_devices c) \<le> 65536"
proof -
  have "length (bus_slots b) = 32" for b by (simp add: bus_slots_def range_inclusive_def)
  then have "length (concat (map bus_slots (range_inclusive 0 255))) \<le> 32 * length (range_inclusive 0 255)"
    by (intro length_concat_le) simp
  then have "length (concat (map bus_slots (range_inclusive 0 255))) \<le> 8192" by (simp add: range_inclusive_def)
  moreover have "length (all_devices c) \<le> 8 * length (concat (map bus_slots (range_inclusive 0 255)))"
    unfolding all_devices_def by (intro length_concat_le) (simp add: length_devices_on)
  ultimately show ?thesis by simp
qed

lemma range_inclusive_first: "range_inclusive 0 b = 0 # rest_inclusive 0 b"
  by (simp add: range_inclusive_def rest_inclusive_def upt_conv_Cons del: upt.simps)

lemma remaining_all: "remaining c enumerate_devices = all_devices c"
  by (simp add: remaining_def enumerate_devices_def all_devices_def range_inclusive_first [of 255] bus_slots_def [of 0])

text \<open>
  C8: the iterator over the PCI devices, with its state of buses, slots and pending functions, gives every device of the 256 buses,
  32 slots and 8 functions. On hardware whose configuration registers can be read without changing them it ends after
  at most 65537 calls, and the devices are those of \<open>all_devices\<close>: for every slot in order the device at function 0 if its vendor and
  class are valid, followed by those of the functions 1 to 7 when it says it has several. No device is skipped and none given twice.
  These are not the loops of the comment in \<^verbatim>\<open>next\<close>, which it calls equivalent: for each slot the comment lists the same devices with the
  one at function 0 moved from the front to the end.
\<close>

theorem device_enumeration_complete:
  assumes "config_space io cfg"
  shows "(\<exists>h'. collect_devices 65537 io enumerate_devices h = Some (all_devices (cfg h), h') \<and> cfg h' = cfg h)
    \<and> documented_devices (cfg h)
         = concat (map (\<lambda>x. rotate1 (devices_on (cfg h) x)) (concat (map bus_slots (range_inclusive 0 255))))"
proof
  show "\<exists>h'. collect_devices 65537 io enumerate_devices h = Some (all_devices (cfg h), h') \<and> cfg h' = cfg h"
    using collect_devices_remaining [OF assms, of h enumerate_devices 65537] length_all_devices [of "cfg h"]
    unfolding remaining_all by simp
  show "documented_devices (cfg h)
      = concat (map (\<lambda>x. rotate1 (devices_on (cfg h) x)) (concat (map bus_slots (range_inclusive 0 255))))"
    unfolding documented_devices_def documented_on_rotate [abs_def] ..
qed

text \<open>A machine with one host bridge: the state behind the ports is the address last selected.\<close>

definition sample_registers :: "u32 \<Rightarrow> u32" where
  "sample_registers a = (if a = 0x80000000 then 0x12378086 else if a = 0x80000008 then 0x06000000
     else if a = 0x8000000C then 0 else 0xFFFFFFFF)"

definition sample_ports :: "u32 ports" where
  "sample_ports = \<lparr> write_u32 = (\<lambda>p v h. if p = CONFIG_ADDRESS then v else h), read_u32 = (\<lambda>p h. (sample_registers h, h)) \<rparr>"

theorem device_enumeration_complete_witness:
  "\<exists>d ds h'. collect_devices 65537 sample_ports enumerate_devices 0 = Some (d # ds, h') \<and> d_vendor_id d = 0x8086 \<and> d_class d = BridgeDevice"
proof -
  have "config_space sample_ports (\<lambda>h. sample_registers)" by (simp add: config_space_def sample_ports_def)
  from device_enumeration_complete [OF this, of 0] obtain h' where
    c: "collect_devices 65537 sample_ports enumerate_devices 0 = Some (all_devices sample_registers, h')" by blast
  have o: "case device_at sample_registers 0 0 0 of None \<Rightarrow> False | Some d \<Rightarrow> d_vendor_id d = 0x8086 \<and> d_class d = BridgeDevice"
    by code_simp
  then obtain d where d: "device_at sample_registers 0 0 0 = Some d" "d_vendor_id d = 0x8086" "d_class d = BridgeDevice"
    by (cases "device_at sample_registers 0 0 0") auto
  have "\<exists>ds. all_devices sample_registers = d # ds"
    using d(1) by (simp add: all_devices_def range_inclusive_first bus_slots_def [of 0] devices_on_def)
  then show ?thesis using c d(2,3) by auto
qed

text \<open>A 64-bit register of two gibibytes: the size is computed in 32 bits with a sign.\<close>

lemma bar_size_2gib: "scast (rust_shl (1 :: u32) (trailing_zeros (set_range (0x80000004 :: u32) 0 4 0))) = (0xFFFFFFFF80000000 :: u64)"
  by code_simp

end
