(* ===== verification/Memory_Init.thy ===== *)
theory Memory_Init
  imports Address_Space Pci
begin

section \<open>Setting up memory management\<close>

text \<open>
  The model of \<^verbatim>\<open>memory::init\<close> in \<^verbatim>\<open>kernel/src/memory.rs\<close>: the physical allocator and the kernel's heap, the mapping of the
  framebuffer, and the registers of PCI devices that processes may be granted. The kernel's heap is the crate
  \<^verbatim>\<open>linked_list_allocator\<close>; where it puts the three vectors of the allocation test is a parameter. What is only logged is left out.
\<close>

record memory_env =
  heap_test_addrs :: "usize \<Rightarrow> usize \<Rightarrow> usize \<times> usize \<times> usize"
  cr0_write_protect :: u64

record 'h memory_state =
  ms_memory :: kernel_memory
  ms_cr0 :: u64
  ms_heap :: "(usize \<times> usize) option"
  ms_framebuffer :: "kernel_mapping option"
  ms_hardware :: 'h

definition initial_heap_allocation_test :: "memory_env \<Rightarrow> usize \<Rightarrow> usize \<Rightarrow> unit rust" where
  "initial_heap_allocation_test env base n =
     (case heap_test_addrs env base n of (object_1_addr, object_2_addr, object_3_addr) \<Rightarrow> do {
        rust_assert (object_1_addr = KERNEL_HEAP_BASE);
        rust_assert (object_2_addr = KERNEL_HEAP_BASE);
        rust_assert (object_3_addr > KERNEL_HEAP_BASE)
      })"

text \<open>The loop over the slots of a device: a 64-bit register takes two of them.\<close>

fun register_slots ::
    "'h ports \<Rightarrow> device \<Rightarrow> u8 list \<Rightarrow> bool \<Rightarrow> memory_tracker \<times> 'h \<Rightarrow> (memory_tracker \<times> 'h) rust" where
  "register_slots io d [] prev_was_64 st = Some st"
| "register_slots io d (slot # slots) prev_was_64 (tr, h) =
     (if prev_was_64 then register_slots io d slots False (tr, h)
      else do {
        (bar_opt, h) \<leftarrow> Device_bar io d slot h;
        case bar_opt of
          None \<Rightarrow> register_slots io d slots False (tr, h)
        | Some (Io _) \<Rightarrow> register_slots io d slots False (tr, h)
        | Some (Mem32 a n _) \<Rightarrow> do {
            pages \<leftarrow> PageRange_from_base_size (Address_new (ucast a)) (ucast n);
            register_slots io d slots False
              (MemoryTracker_register_pci_bar tr (d_bus d) (d_device d) (d_function d) slot pages, h)
          }
        | Some (Mem64 a n _) \<Rightarrow> do {
            pages \<leftarrow> PageRange_from_base_size (Address_new a) n;
            register_slots io d slots True
              (MemoryTracker_register_pci_bar tr (d_bus d) (d_device d) (d_function d) slot pages, h)
          }
      })"

fun register_bars :: "nat \<Rightarrow> 'h ports \<Rightarrow> device_iter \<Rightarrow> memory_tracker \<times> 'h \<Rightarrow> (memory_tracker \<times> 'h) rust" where
  "register_bars 0 io it st = None"
| "register_bars (Suc fuel) io it (tr, h) =
     (case DeviceIter_next io it h of
        (None, _, h) \<Rightarrow> Some (tr, h)
      | (Some d, it, h) \<Rightarrow> do {
          st \<leftarrow> register_slots io d (range_inclusive 0 5) False (tr, h);
          register_bars fuel io it st
        })"

text \<open>The heap's pages are mapped with the kernel's allocator itself; an error of it or of \<^verbatim>\<open>map_to\<close> panics.\<close>

definition map_kernel_heap :: "page_range \<Rightarrow> kernel_memory \<Rightarrow> kernel_memory rust" where
  "map_kernel_heap pages km = do {
     sp \<leftarrow> km_kernel km;
     (r, mem, fa) \<leftarrow> map_untracked_loop FrameAllocator_allocate_frame (l4_addr sp) (PRESENT OR WRITABLE)
       (PageRange_pages pages) (km_tables km, km_frames km);
     rust_assert (r = Inr ());
     Some (km\<lparr> km_tables := mem, km_frames := fa \<rparr>)
   }"

definition memory_init :: "nat \<Rightarrow> memory_env \<Rightarrow> 'h ports \<Rightarrow> boot_info \<Rightarrow> 'h memory_state \<Rightarrow> 'h memory_state rust" where
  "memory_init fuel env io boot_info ms = do {
     let km = ms_memory ms;
     tr \<leftarrow> MemoryTracker_init (km_tracker km) boot_info;
     km \<leftarrow> init_kernel_address_space (km\<lparr> km_tracker := tr \<rparr>);
     addr_space \<leftarrow> km_kernel km;
     rust_assert (AddressSpace_is_current addr_space km);
     let cr0 = (if ms_cr0 ms AND cr0_write_protect env = cr0_write_protect env
                then ms_cr0 ms AND NOT (cr0_write_protect env) else ms_cr0 ms);
     fa \<leftarrow> init_frame_allocator boot_info (km_frames km);
     let free = free_frames fa;
     fa \<leftarrow> initial_frame_allocation_test fa;
     rust_assert (free * PAGE_SIZE > 64 * MEBIBYTE);
     let heap_size = 32 * MEBIBYTE;
     let heap_start = Address_new KERNEL_HEAP_BASE;
     heap_pages \<leftarrow> PageRange_from_base_size heap_start heap_size;
     km \<leftarrow> map_kernel_heap heap_pages (km\<lparr> km_frames := fa \<rparr>);
     _ \<leftarrow> initial_heap_allocation_test env KERNEL_HEAP_BASE heap_size;
     let fb_addr = Address_new (framebuffer_addr (display_info boot_info));
     let fb_size = framebuffer_size (display_info boot_info);
     fb_pages \<leftarrow> PageRange_from_base_size fb_addr fb_size;
     (tr, h) \<leftarrow> register_bars fuel io enumerate_devices (km_tracker km, ms_hardware ms);
     Some \<lparr> ms_memory = km\<lparr> km_tracker := tr \<rparr>, ms_cr0 = cr0, ms_heap = Some (KERNEL_HEAP_BASE, heap_size),
       ms_framebuffer = Some \<lparr> kmap_name = ''framebuffer'', kmap_size = fb_size, kmap_pages = fb_pages,
         kmap_flags = PRESENT OR WRITABLE \<rparr>, ms_hardware = h \<rparr>
   }"

text \<open>
  What the page-fault handler and the scheduler rely on: there is a kernel address space, it is the current one, and the
  framebuffer has a mapping.
\<close>

lemma map_kernel_heap_simps:
  "map_kernel_heap pages km = Some km' \<Longrightarrow> km_kernel km' = km_kernel km \<and> km_cr3 km' = km_cr3 km \<and> km_tracker km' = km_tracker km"
  by (auto simp: map_kernel_heap_def bind_eq_Some_conv)

lemma memory_init_ready:
  assumes "memory_init fuel env io bi ms = Some ms'"
  shows "\<exists>sp m. km_kernel (ms_memory ms') = Some sp \<and> AddressSpace_is_current sp (ms_memory ms')
    \<and> ms_framebuffer ms' = Some m \<and> kmap_size m = framebuffer_size (display_info bi)"
  using assms
  by (auto simp: memory_init_def bind_eq_Some_conv Let_def AddressSpace_is_current_def dest!: map_kernel_heap_simps)

end
