(* ===== verification/Virtio.thy ===== *)
theory Virtio
  imports Pci Process_Ipc
begin

section \<open>VirtIO devices and their queues\<close>

text \<open>
  The model of \<^verbatim>\<open>drivers/virtio/src/virtio.rs\<close> and \<^verbatim>\<open>drivers/virtio/src/virtio_input.rs\<close> and of the events of
  \<^verbatim>\<open>shell/apps/input-driver\<close>. Registers in memory are accessed through the record \<open>virtio_env\<close>, which also says where
  \<^verbatim>\<open>Box::new\<close> puts the allocations it makes for a device, the first one being the storage of its queue, and what \<^verbatim>\<open>process::translate_address\<close> makes of them. A queue is the
  record of its storage, which the device shares, and of the buffers behind its descriptors: a buffer holds one value of the
  message type.
\<close>

subsection \<open>Devices\<close>

record 'h virtio_env =
  ve_ports :: "'h ports"
  mmio_write :: "u64 \<Rightarrow> nat \<Rightarrow> u64 \<Rightarrow> 'h \<Rightarrow> 'h"
  mmio_read :: "u64 \<Rightarrow> nat \<Rightarrow> 'h \<Rightarrow> u64 \<times> 'h"
  box_addr :: "device \<Rightarrow> nat \<Rightarrow> usize"
  ve_translate :: "usize \<Rightarrow> usize rust"
  capability_fuel :: nat

record virtio_capability =
  config_space_offset :: u8
  vc_cfg_type :: u8
  vc_bar :: u8
  vc_offset :: u32

record virtio_device =
  vdev_pci :: device
  vdev_common_cap :: virtio_capability
  vdev_notification_cap :: virtio_capability
  vdev_specific_cap :: "virtio_capability option"
  vdev_common_config :: u64

text \<open>The fields of \<^verbatim>\<open>VirtioPciCap\<close> the driver uses, from its 16 bytes.\<close>

definition virtio_capability_at :: "u8 \<Rightarrow> u8 list \<Rightarrow> virtio_capability" where
  "virtio_capability_at offset bytes = \<lparr> config_space_offset = offset, vc_cfg_type = bytes ! 3, vc_bar = bytes ! 4,
     vc_offset = from_le_bytes (take 4 (drop 8 bytes)) \<rparr>"

definition find_virtio_capability ::
    "'h virtio_env \<Rightarrow> device \<Rightarrow> u8 \<Rightarrow> 'h \<Rightarrow> (virtio_capability option \<times> 'h) rust" where
  "find_virtio_capability env d cfg_type h = do {
     (it, h) \<leftarrow> CapabilityIter_new (ve_ports env) d h;
     find_capability (capability_fuel env) (ve_ports env) (\<lambda>(i, offset) h.
       if i = VendorSpecific then do {
         (bytes, h) \<leftarrow> read_struct (ve_ports env) d 16 offset h;
         let cap = virtio_capability_at offset bytes;
         Some (if vc_cfg_type cap \<noteq> cfg_type then None else Some cap, h)
       } else Some (None, h)) it h
   }"

definition addr_in_bar :: "'h virtio_env \<Rightarrow> device \<Rightarrow> virtio_capability \<Rightarrow> 'h \<Rightarrow> (u64 \<times> 'h) rust" where
  "addr_in_bar env d cap h = do {
     (b, h) \<leftarrow> Device_bar (ve_ports env) d (vc_bar cap) h;
     case b of
       Some (Mem32 a _ _) \<Rightarrow> Some (ucast a + ucast (vc_offset cap), h)
     | Some (Mem64 a _ _) \<Rightarrow> Some (a + ucast (vc_offset cap), h)
     | _ \<Rightarrow> panic
   }"

definition VirtioDevice_new :: "'h virtio_env \<Rightarrow> device \<Rightarrow> 'h \<Rightarrow> (string, virtio_device, 'h) outcome" where
  "VirtioDevice_new env d h = do {
     (common, h) \<leftarrow> find_virtio_capability env d 1 h;
     case common of None \<Rightarrow> Some (Inl ''failed to find common config capability'', h)
     | Some common \<Rightarrow> do {
     (notify, h) \<leftarrow> find_virtio_capability env d 2 h;
     case notify of None \<Rightarrow> Some (Inl ''failed to find notification capability'', h)
     | Some notify \<Rightarrow> do {
     (specific, h) \<leftarrow> find_virtio_capability env d 4 h;
     (addr, h) \<leftarrow> addr_in_bar env d common h;
     if addr = 0 then Some (Inl ''capability address in BAR was null'', h)
     else Some (Inr \<lparr> vdev_pci = d, vdev_common_cap = common, vdev_notification_cap = notify, vdev_specific_cap = specific,
       vdev_common_config = addr \<rparr>, h) }}}"

text \<open>The fields of \<^verbatim>\<open>VirtioPciCommonCfg\<close>: their offset and size.\<close>

datatype common_field =
  DriverFeatureSelect | DriverFeature | DeviceStatus | QueueSelect | QueueSize | QueueEnable | QueueNotifyOff
| QueueDesc | QueueDriver | QueueDevice

definition field_at :: "common_field \<Rightarrow> u64 \<times> nat" where
  "field_at f = (case f of DriverFeatureSelect \<Rightarrow> (8, 4) | DriverFeature \<Rightarrow> (12, 4) | DeviceStatus \<Rightarrow> (20, 1) | QueueSelect \<Rightarrow> (22, 2)
     | QueueSize \<Rightarrow> (24, 2) | QueueEnable \<Rightarrow> (28, 2) | QueueNotifyOff \<Rightarrow> (30, 2) | QueueDesc \<Rightarrow> (32, 8) | QueueDriver \<Rightarrow> (40, 8)
     | QueueDevice \<Rightarrow> (48, 8))"

definition write_field :: "'h virtio_env \<Rightarrow> virtio_device \<Rightarrow> common_field \<Rightarrow> u64 \<Rightarrow> 'h \<Rightarrow> 'h" where
  "write_field env dev f v = mmio_write env (vdev_common_config dev + fst (field_at f)) (snd (field_at f)) v"

definition read_field :: "'h virtio_env \<Rightarrow> virtio_device \<Rightarrow> common_field \<Rightarrow> 'h \<Rightarrow> u64 \<times> 'h" where
  "read_field env dev f = mmio_read env (vdev_common_config dev + fst (field_at f)) (snd (field_at f))"

definition write_feature_bits :: "'h virtio_env \<Rightarrow> virtio_device \<Rightarrow> u32 \<Rightarrow> u32 \<Rightarrow> 'h \<Rightarrow> 'h" where
  "write_feature_bits env dev select v h =
     write_field env dev DriverFeature (ucast v) (write_field env dev DriverFeatureSelect (ucast select) h)"

definition initialize ::
    "'h virtio_env \<Rightarrow> virtio_device \<Rightarrow> u32 \<Rightarrow> ('h \<Rightarrow> ('r \<times> 'h) rust) \<Rightarrow> 'h \<Rightarrow> ('r \<times> 'h) rust" where
  "initialize env dev feature_bits setup_fn h = do {
     let h = write_field env dev DeviceStatus 0 h;
     h \<leftarrow> set_msix (capability_fuel env) (ve_ports env) (vdev_pci dev) False h;
     let h = write_field env dev DeviceStatus 1 h;
     let h = write_field env dev DeviceStatus 2 h;
     let h = write_feature_bits env dev 0 feature_bits h;
     let h = write_feature_bits env dev 1 1 h;
     let h = write_field env dev DeviceStatus 8 h;
     let (status, h) = read_field env dev DeviceStatus h;
     rust_assert (status = 8);
     (r, h) \<leftarrow> setup_fn h;
     Some (r, write_field env dev DeviceStatus 4 h)
   }"

definition queue_notify_addr :: "'h virtio_env \<Rightarrow> virtio_device \<Rightarrow> u16 \<Rightarrow> 'h \<Rightarrow> (u64 \<times> 'h) rust" where
  "queue_notify_addr env dev queue_index h = do {
     let h = write_field env dev QueueSelect (ucast queue_index) h;
     let (queue_notify_offset, h) = read_field env dev QueueNotifyOff h;
     let (multiplier, h) = Device_read (ve_ports env) (vdev_pci dev) (config_space_offset (vdev_notification_cap dev) + 4) h;
     (base_addr, h) \<leftarrow> addr_in_bar env (vdev_pci dev) (vdev_notification_cap dev) h;
     Some (base_addr + queue_notify_offset * ucast multiplier, h)
   }"

subsection \<open>Queues\<close>

record virtqueue_desc =
  vd_addr :: u64
  vd_len :: u32
  vd_flags :: u16
  vd_next :: u16

record 'a virtqueue =
  vq_index :: u16
  vq_desc :: "virtqueue_desc list"
  vq_avail_idx :: u16
  vq_avail_ring :: "u16 list"
  vq_used_idx :: u16
  vq_used_ring :: "(u32 \<times> u32) list"
  vq_pop_index :: usize
  vq_notify_addr :: u64
  vq_available :: "bool list"
  vq_buffers :: "u64 \<Rightarrow> 'a"

datatype 'a virtqueue_message = DeviceWrite | DeviceRead 'a "usize option"

text \<open>
  \<open>VirtqueueStorage::new\<close> with the address of a buffer in each descriptor; the storage is the first allocation and the buffers are
  the next ones. A buffer of zeros is the value \<open>zero\<close> of the message type.
\<close>

definition VirtqueueStorage_new :: "nat \<Rightarrow> u64 list \<Rightarrow> u16 \<Rightarrow> u64 \<Rightarrow> 'a \<Rightarrow> 'a virtqueue" where
  "VirtqueueStorage_new n addrs index notify_addr zero = \<lparr> vq_index = index,
     vq_desc = map (\<lambda>a. \<lparr> vd_addr = a, vd_len = 0, vd_flags = 0, vd_next = 0 \<rparr>) addrs,
     vq_avail_idx = 0, vq_avail_ring = replicate n 0, vq_used_idx = 0, vq_used_ring = replicate n (0, 0),
     vq_pop_index = 0, vq_notify_addr = notify_addr, vq_available = replicate n True, vq_buffers = (\<lambda>_. zero) \<rparr>"

definition initialize_queue ::
    "'h virtio_env \<Rightarrow> virtio_device \<Rightarrow> nat \<Rightarrow> u16 \<Rightarrow> 'a \<Rightarrow> 'h \<Rightarrow> ('a virtqueue \<times> 'h) rust" where
  "initialize_queue env dev n index zero h = do {
     addrs \<leftarrow> those (map (\<lambda>k. ve_translate env (box_addr env (vdev_pci dev) (Suc k))) [0..<n]);
     let storage = box_addr env (vdev_pci dev) 0;
     desc_area_addr \<leftarrow> ve_translate env storage;
     driver_area_addr \<leftarrow> ve_translate env (storage + 16 * word_of_nat n);
     device_area_addr \<leftarrow> ve_translate env (storage + ((16 * word_of_nat n + 6 + 2 * word_of_nat n + 3) AND NOT 3));
     let h = write_field env dev QueueSelect (ucast index) h;
     let h = write_field env dev QueueDesc desc_area_addr h;
     let h = write_field env dev QueueDriver driver_area_addr h;
     let h = write_field env dev QueueDevice device_area_addr h;
     let h = write_field env dev QueueEnable 1 h;
     let (queue_size, h) = read_field env dev QueueSize h;
     rust_assert (queue_size = word_of_nat n);
     (notify_addr, h) \<leftarrow> queue_notify_addr env dev index h;
     Some (VirtqueueStorage_new n addrs index notify_addr zero, h)
   }"

definition notify_device :: "'h virtio_env \<Rightarrow> 'a virtqueue \<Rightarrow> 'h \<Rightarrow> 'h rust" where
  "notify_device env q h = do {
     rust_assert (vq_index q < 256);
     Some (mmio_write env (vq_notify_addr q) 2 (ucast (vq_index q)) h)
   }"

definition take_descriptor :: "'a virtqueue \<Rightarrow> (nat \<times> 'a virtqueue) option" where
  "take_descriptor q = map_option (\<lambda>i. (i, q\<lparr> vq_available := (vq_available q)[i := False] \<rparr>)) (iter_position id (vq_available q))"

definition return_descriptor :: "nat \<Rightarrow> 'a virtqueue \<Rightarrow> 'a virtqueue rust" where
  "return_descriptor i q = do {
     rust_assert (i < length (vq_available q));
     Some (q\<lparr> vq_available := (vq_available q)[i := True] \<rparr>)
   }"

fun return_descriptors :: "nat list \<Rightarrow> 'a virtqueue \<Rightarrow> 'a virtqueue rust" where
  "return_descriptors [] q = Some q"
| "return_descriptors (i # is) q = return_descriptor i q \<bind> return_descriptors is"

text \<open>Reserving the descriptors of a push: all of them, or none.\<close>

fun take_descriptors :: "nat \<Rightarrow> nat list \<Rightarrow> 'a virtqueue \<Rightarrow> (nat list option \<times> 'a virtqueue) rust" where
  "take_descriptors 0 taken q = Some (Some taken, q)"
| "take_descriptors (Suc n) taken q =
     (case take_descriptor q of
        Some (i, q) \<Rightarrow> take_descriptors n (taken @ [i]) q
      | None \<Rightarrow> map_option (\<lambda>q. (None, q)) (return_descriptors taken q))"

definition message_parts :: "usize \<Rightarrow> 'a \<Rightarrow> 'a virtqueue_message \<Rightarrow> u16 \<times> u32 \<times> 'a" where
  "message_parts size_of_t default_t m =
     (case m of
        DeviceRead v len \<Rightarrow> (0, ucast (case len of Some n \<Rightarrow> n | None \<Rightarrow> size_of_t), v)
      | DeviceWrite \<Rightarrow> (2, ucast size_of_t, default_t))"

definition write_message ::
    "usize \<Rightarrow> 'a \<Rightarrow> nat \<Rightarrow> nat option \<Rightarrow> 'a virtqueue_message \<Rightarrow> 'a virtqueue \<Rightarrow> 'a virtqueue rust" where
  "write_message size_of_t default_t i next_index m q = do {
     rust_assert (i < length (vq_desc q));
     let desc = vq_desc q ! i;
     let (flags, len, buffer) = message_parts size_of_t default_t m;
     let desc = desc\<lparr> vd_flags := flags, vd_len := len \<rparr>;
     let desc = (case next_index of Some j \<Rightarrow> desc\<lparr> vd_next := word_of_nat j, vd_flags := flags OR 1 \<rparr> | None \<Rightarrow> desc);
     Some (q\<lparr> vq_desc := (vq_desc q)[i := desc], vq_buffers := (vq_buffers q)(vd_addr desc := buffer) \<rparr>)
   }"

fun write_messages ::
    "usize \<Rightarrow> 'a \<Rightarrow> (nat \<times> 'a virtqueue_message) list \<Rightarrow> 'a virtqueue \<Rightarrow> 'a virtqueue rust" where
  "write_messages sz def [] q = Some q"
| "write_messages sz def ((i, m) # rest) q =
     write_message sz def i (case rest of [] \<Rightarrow> None | (j, _) # _ \<Rightarrow> Some j) m q \<bind> write_messages sz def rest"

definition Virtqueue_push ::
    "usize \<Rightarrow> 'a \<Rightarrow> 'a virtqueue_message list \<Rightarrow> 'a virtqueue \<Rightarrow> ((unit + unit) \<times> 'a virtqueue) rust" where
  "Virtqueue_push sz def messages q = do {
     let n = length (vq_available q);
     rust_assert (length messages > 0 \<and> length messages \<le> n);
     (taken, q) \<leftarrow> take_descriptors (length messages) [] q;
     case taken of
       None \<Rightarrow> Some (Inl (), q)
     | Some desc_indices \<Rightarrow> do {
         q \<leftarrow> write_messages sz def (zip desc_indices messages) q;
         rust_assert (unat (vq_avail_idx q) mod n < length (vq_avail_ring q));
         Some (Inr (), q\<lparr> vq_avail_ring := (vq_avail_ring q)[unat (vq_avail_idx q) mod n := word_of_nat (hd desc_indices)],
           vq_avail_idx := vq_avail_idx q + 1 \<rparr>)
       }
   }"

text \<open>The chain of descriptors behind the given one; \<open>n\<close> slots of the result are left, and a longer chain panics.\<close>

fun pop_chain :: "nat \<Rightarrow> nat \<Rightarrow> 'a virtqueue \<Rightarrow> ('a list \<times> 'a virtqueue) rust" where
  "pop_chain 0 i q = panic"
| "pop_chain (Suc n) i q = do {
     rust_assert (i < length (vq_desc q));
     let desc = vq_desc q ! i;
     let v = vq_buffers q (vd_addr desc);
     q \<leftarrow> return_descriptor i q;
     if vd_next desc = 0 then Some ([v], q)
     else do {
       (vs, q) \<leftarrow> pop_chain n (unat (vd_next desc)) q;
       Some (v # vs, q)
     }
   }"

definition Virtqueue_pop :: "nat \<Rightarrow> 'a virtqueue \<Rightarrow> ('a option list option \<times> 'a virtqueue) rust" where
  "Virtqueue_pop n q =
     (if ucast (vq_used_idx q) = vq_pop_index q then Some (None, q)
      else do {
        let queue_size = length (vq_available q);
        rust_assert (unat (vq_pop_index q) mod queue_size < length (vq_used_ring q));
        let element = vq_used_ring q ! (unat (vq_pop_index q) mod queue_size);
        (vs, q) \<leftarrow> pop_chain n (unat (fst element)) q;
        Some (Some (map Some vs @ replicate (n - length vs) None), q\<lparr> vq_pop_index := vq_pop_index q + 1 \<rparr>)
      })"

subsection \<open>Input devices\<close>

record virtio_event =
  ev_type :: u16
  ev_code :: u16
  ev_value :: u32

definition virtio_event_default :: virtio_event where
  "virtio_event_default = \<lparr> ev_type = 0, ev_code = 0, ev_value = 0 \<rparr>"

abbreviation push_event_buffer :: "virtio_event virtqueue \<Rightarrow> ((unit + unit) \<times> virtio_event virtqueue) rust" where
  "push_event_buffer \<equiv> Virtqueue_push 8 virtio_event_default [DeviceWrite]"

text \<open>\<^verbatim>\<open>while event_queue.push(&msg).is_ok() {}\<close>: every push takes a descriptor.\<close>

fun fill_queue :: "nat \<Rightarrow> virtio_event virtqueue \<Rightarrow> virtio_event virtqueue rust" where
  "fill_queue 0 q = None"
| "fill_queue (Suc fuel) q = do {
     (r, q) \<leftarrow> push_event_buffer q;
     case r of Inr _ \<Rightarrow> fill_queue fuel q | Inl _ \<Rightarrow> Some q
   }"

definition InputDevice_new ::
    "'h virtio_env \<Rightarrow> device \<Rightarrow> 'h \<Rightarrow> (string, virtio_device \<times> virtio_event virtqueue, 'h) outcome" where
  "InputDevice_new env d h = qbind (VirtioDevice_new env d h) (\<lambda>dev h. do {
     (q, h) \<leftarrow> initialize env dev 0 (initialize_queue env dev 64 0 virtio_event_default) h;
     q \<leftarrow> fill_queue 65 q;
     Some (Inr (dev, q), h)
   })"

text \<open>One round of the loop of \<^verbatim>\<open>poll\<close>: the event taken from the queue, whose buffer is handed back at once.\<close>

definition poll_one :: "virtio_event virtqueue \<Rightarrow> (virtio_event option \<times> virtio_event virtqueue) rust" where
  "poll_one q = do {
     (r, q) \<leftarrow> Virtqueue_pop 1 q;
     case r of
       None \<Rightarrow> Some (None, q)
     | Some resp_list \<Rightarrow> do {
         event \<leftarrow> (case resp_list of [] \<Rightarrow> panic | e # _ \<Rightarrow> e);
         (r, q) \<leftarrow> push_event_buffer q;
         rust_assert (r = Inr ());
         Some (Some event, q)
       }
   }"

fun poll :: "nat \<Rightarrow> virtio_event virtqueue \<Rightarrow> (virtio_event list \<times> virtio_event virtqueue) rust" where
  "poll 0 q = None"
| "poll (Suc fuel) q = do {
     (r, q) \<leftarrow> poll_one q;
     case r of None \<Rightarrow> Some ([], q) | Some e \<Rightarrow> map_option (\<lambda>(es, q). (e # es, q)) (poll fuel q)
   }"

definition convert_input_event :: "virtio_event \<Rightarrow> input_event option" where
  "convert_input_event e =
     (if ev_type e = 0 then None
      else if ev_type e = 1 then if ev_value e = 0 then Some (KeyPress (ev_code e)) else None
      else if ev_type e = 2 then
        if ev_code e = 0 then Some (MouseMove (ev_value e) 0)
        else if ev_code e = 1 then Some (MouseMove 0 (ev_value e))
        else if ev_code e = 8 then Some (MouseWheel (ev_value e))
        else None
      else None)"

text \<open>
  One device of one round of the driver's loop: the events go into the global queue until the key Q is seen, on which the
  process exits. The result says whether it does.
\<close>

fun handle_events :: "virtio_event list \<Rightarrow> input_queue \<Rightarrow> bool \<times> input_queue" where
  "handle_events [] iq = (False, iq)"
| "handle_events (e # es) iq =
     (case convert_input_event e of
        None \<Rightarrow> handle_events es iq
      | Some ev \<Rightarrow> let iq = snd (InputQueue_push ev iq) in if ev = KeyPress 16 then (True, iq) else handle_events es iq)"


fun input_round ::
    "nat \<Rightarrow> virtio_event virtqueue list \<Rightarrow> input_queue \<Rightarrow> (bool \<times> virtio_event virtqueue list \<times> input_queue) rust" where
  "input_round fuel [] iq = Some (False, [], iq)"
| "input_round fuel (q # qs) iq = do {
     (es, q) \<leftarrow> poll fuel q;
     let (leave, iq) = handle_events es iq;
     if leave then Some (True, q # qs, iq)
     else map_option (\<lambda>(leave, qs, iq). (leave, q # qs, iq)) (input_round fuel qs iq)
   }"

text \<open>The devices the driver opens before its loop: those VirtIO input devices that can be set up.\<close>

fun open_inputs ::
    "nat \<Rightarrow> 'h virtio_env \<Rightarrow> device_iter \<Rightarrow> 'h \<Rightarrow> ((virtio_device \<times> virtio_event virtqueue) list \<times> 'h) rust" where
  "open_inputs 0 env it h = None"
| "open_inputs (Suc fuel) env it h =
     (case DeviceIter_next (ve_ports env) it h of
        (None, _, h) \<Rightarrow> Some ([], h)
      | (Some d, it, h) \<Rightarrow>
          if d_vendor_id d = 0x1AF4 \<and> d_device_id d = 0x1040 + 18 then do {
            (r, h) \<leftarrow> InputDevice_new env d h;
            (ds, h) \<leftarrow> open_inputs fuel env it h;
            Some (case r of Inr x \<Rightarrow> x # ds | Inl _ \<Rightarrow> ds, h)
          } else open_inputs fuel env it h)"

end
