(* ===== verification/Virtio_Props.thy ===== *)
theory Virtio_Props
  imports Virtio "HOL-Library.Multiset"
begin

section \<open>Events pass through the queue of an input device\<close>

text \<open>
  The queue of an input device together with what the VirtIO specification lets a device do: take buffers the driver made
  available, write an event into one it holds, and return it as used. Every interleaving of that with the driver's polling
  delivers the events in the order in which the device returned them.
\<close>

subsection \<open>Windows of a ring\<close>

definition window :: "('b \<Rightarrow> nat) \<Rightarrow> 'b list \<Rightarrow> nat \<Rightarrow> nat list \<Rightarrow> bool" where
  "window get rs s xs \<longleftrightarrow> (\<forall>k < length xs. get (rs ! ((s + k) mod 64)) = xs ! k)"

lemma window_Nil [simp]: "window get rs s []"
  by (simp add: window_def)

lemma window_Cons: "window get rs s (x # xs) \<Longrightarrow> get (rs ! (s mod 64)) = x \<and> window get rs (Suc s) xs"
  unfolding window_def by (metis Suc_less_eq add.right_neutral add_Suc add_Suc_right length_Cons nth_Cons_0 nth_Cons_Suc zero_less_Suc)

lemma mod_64_distinct: "k < m \<Longrightarrow> m < 64 \<Longrightarrow> (s + k) mod 64 \<noteq> (s + m) mod (64 :: nat)"
proof
  assume m: "k < m" "m < 64" and e: "(s + k) mod 64 = (s + m) mod 64"
  have "64 dvd s + m - (s + k)" using e m by (subst mod_eq_dvd_iff_nat [symmetric]) simp_all
  then show False using m by (simp add: nat_dvd_not_less)
qed

lemma window_snoc:
  assumes "window get rs s xs" "length rs = 64" "length xs < 64" "get v = x"
  shows "window get (rs[(s + length xs) mod 64 := v]) s (xs @ [x])"
  unfolding window_def
proof (intro allI impI)
  fix k assume k: "k < length (xs @ [x])"
  show "get (rs[(s + length xs) mod 64 := v] ! ((s + k) mod 64)) = (xs @ [x]) ! k"
  proof (cases "k = length xs")
    case True
    then show ?thesis using assms by simp
  next
    case False
    then have l: "k < length xs" using k by simp
    then have "(s + k) mod 64 \<noteq> (s + length xs) mod 64" using mod_64_distinct assms(3) by blast
    then show ?thesis using assms l by (simp add: window_def nth_append)
  qed
qed

lemma u16_slot [simp]: "unat (word_of_nat m :: u16) mod 64 = m mod 64"
proof -
  have "m mod 65536 mod 64 = m mod 64" by (rule mod_mod_cancel) simp
  then show ?thesis by (simp add: unat_of_nat)
qed

lemma u16_slot_add [simp]: "unat (word_of_nat m + word_of_nat k :: u16) mod 64 = (m + k) mod 64"
  using u16_slot [of "m + k"] by (simp only: of_nat_add)

subsection \<open>What the device does\<close>

record input_run =
  rn_queue :: "virtio_event virtqueue"
  rn_fetched :: u16
  rn_owned :: "nat list"

definition device_fetch :: "input_run \<Rightarrow> input_run" where
  "device_fetch st = (let q = rn_queue st in
     if rn_fetched st = vq_avail_idx q then st
     else st\<lparr> rn_fetched := rn_fetched st + 1,
              rn_owned := rn_owned st @ [unat (vq_avail_ring q ! (unat (rn_fetched st) mod length (vq_avail_ring q)))] \<rparr>)"

definition device_use :: "nat \<Rightarrow> virtio_event \<Rightarrow> input_run \<Rightarrow> input_run" where
  "device_use k e st = (let q = rn_queue st; i = rn_owned st ! k in
     st\<lparr> rn_owned := take k (rn_owned st) @ drop (Suc k) (rn_owned st),
         rn_queue := q\<lparr> vq_buffers := (vq_buffers q)(vd_addr (vq_desc q ! i) := e),
           vq_used_ring := (vq_used_ring q)[unat (vq_used_idx q) mod length (vq_used_ring q) := (word_of_nat i, 8)],
           vq_used_idx := vq_used_idx q + 1 \<rparr> \<rparr>)"

datatype input_op = Fetch | Use nat virtio_event | Poll

text \<open>A run: the events the device returned and those the driver took, in order.\<close>

fun input_steps ::
    "input_op list \<Rightarrow> input_run \<Rightarrow> (virtio_event list \<times> virtio_event list \<times> input_run) rust" where
  "input_steps [] st = Some ([], [], st)"
| "input_steps (Fetch # ops) st = input_steps ops (device_fetch st)"
| "input_steps (Use k e # ops) st =
     (if k < length (rn_owned st) then
        map_option (\<lambda>(ws, es, st). (e # ws, es, st)) (input_steps ops (device_use k e st))
      else input_steps ops st)"
| "input_steps (Poll # ops) st = do {
     (r, q) \<leftarrow> poll_one (rn_queue st);
     (ws, es, st) \<leftarrow> input_steps ops (st\<lparr> rn_queue := q \<rparr>);
     Some (ws, (case r of None \<Rightarrow> es | Some e \<Rightarrow> e # es), st)
   }"

subsection \<open>Invariant\<close>

definition queue_shape :: "virtio_event virtqueue \<Rightarrow> bool" where
  "queue_shape q \<longleftrightarrow> length (vq_desc q) = 64 \<and> length (vq_avail_ring q) = 64 \<and> length (vq_used_ring q) = 64
     \<and> length (vq_available q) = 64 \<and> distinct (map vd_addr (vq_desc q)) \<and> (\<forall>d \<in> set (vq_desc q). vd_next d = 0)"

text \<open>
  \<open>W\<close> are the descriptors made available and not yet fetched, \<open>P\<close> those returned and not yet popped, with
  the events \<open>evs\<close> in their buffers; together with those the device holds they are all 64, once each.
\<close>

definition run_ok :: "nat \<Rightarrow> nat list \<Rightarrow> nat list \<Rightarrow> virtio_event list \<Rightarrow> input_run \<Rightarrow> bool" where
  "run_ok c W P evs st \<longleftrightarrow> (let q = rn_queue st in queue_shape q
     \<and> vq_available q = replicate 64 False
     \<and> rn_fetched st = word_of_nat c \<and> vq_avail_idx q = word_of_nat (c + length W) \<and> window unat (vq_avail_ring q) c W
     \<and> unat (vq_used_idx q) = unat (vq_pop_index q) + length P \<and> window (unat \<circ> fst) (vq_used_ring q) (unat (vq_pop_index q)) P
     \<and> distinct (W @ rn_owned st @ P) \<and> set (W @ rn_owned st @ P) = {..<64}
     \<and> evs = map (\<lambda>i. vq_buffers q (vd_addr (vq_desc q ! i))) P)"

lemma run_ok_length:
  assumes "run_ok c W P evs st"
  shows "length W + length (rn_owned st) + length P = 64"
proof -
  have d: "distinct (W @ rn_owned st @ P)" and e: "set (W @ rn_owned st @ P) = {..<64}"
    using assms by (simp_all only: run_ok_def Let_def)
  show ?thesis using distinct_card [OF d] unfolding e by simp
qed

lemma u16_eq_iff: "m \<le> 64 \<Longrightarrow> (word_of_nat c :: u16) = word_of_nat (c + m) \<longleftrightarrow> m = 0"
proof
  assume m: "m \<le> 64" and e: "(word_of_nat c :: u16) = word_of_nat (c + m)"
  have "(word_of_nat m :: u16) = 0" using e by simp
  then have "65536 dvd m" by (simp add: word_of_nat_eq_0_iff)
  then show "m = 0" using m dvd_imp_le [of 65536 m] by (cases "m = 0") simp_all
qed simp

lemma device_fetch_ok:
  assumes "run_ok c W P evs st"
  shows "\<exists>c' W'. run_ok c' W' P evs (device_fetch st)"
proof (cases W)
  case Nil
  then have "device_fetch st = st" using assms by (simp add: run_ok_def device_fetch_def Let_def)
  then show ?thesis using assms by auto
next
  case (Cons i W')
  have "length W \<le> 64" using run_ok_length [OF assms] by simp
  then have ne: "rn_fetched st \<noteq> vq_avail_idx (rn_queue st)"
    using assms u16_eq_iff [of "length W" c] Cons by (simp add: run_ok_def Let_def)
  have w: "unat (vq_avail_ring (rn_queue st) ! (c mod 64)) = i" "window unat (vq_avail_ring (rn_queue st)) (Suc c) W'"
    using assms Cons window_Cons [of unat "vq_avail_ring (rn_queue st)" c i W'] by (simp_all add: run_ok_def Let_def)
  have "run_ok (Suc c) W' P evs (device_fetch st)"
    using assms ne w Cons
    by (auto simp: run_ok_def device_fetch_def Let_def queue_shape_def)
  then show ?thesis by blast
qed

lemma device_use_ok:
  assumes ok: "run_ok c W P evs st" and k: "k < length (rn_owned st)" and room: "unat (vq_used_idx (rn_queue st)) < 65535"
  shows "run_ok c W (P @ [rn_owned st ! k]) (evs @ [e]) (device_use k e st)"
    and "unat (vq_used_idx (rn_queue (device_use k e st))) = unat (vq_used_idx (rn_queue st)) + 1"
proof -
  let ?q = "rn_queue st" let ?i = "rn_owned st ! k" let ?rest = "take k (rn_owned st) @ drop (Suc k) (rn_owned st)"
  have owned: "rn_owned st = take k (rn_owned st) @ ?i # drop (Suc k) (rn_owned st)"
    using k by (rule id_take_nth_drop)
  have shape: "queue_shape ?q" and dist: "distinct (W @ rn_owned st @ P)" and all: "set (W @ rn_owned st @ P) = {..<64}"
    and evs: "evs = map (\<lambda>i. vq_buffers ?q (vd_addr (vq_desc ?q ! i))) P"
    and used: "unat (vq_used_idx ?q) = unat (vq_pop_index ?q) + length P"
    and win: "window (unat \<circ> fst) (vq_used_ring ?q) (unat (vq_pop_index ?q)) P"
    using ok by (simp_all only: run_ok_def Let_def)
  have i: "?i < 64" "?i \<notin> set P" using k dist all nth_mem [OF k] by (auto simp: set_eq_iff)
  have P: "length P < 64" using run_ok_length [OF ok] k by simp
  have addr: "vd_addr (vq_desc ?q ! j) \<noteq> vd_addr (vq_desc ?q ! ?i)" if "j \<in> set P" for j
  proof -
    have "j < 64" "j \<noteq> ?i" using that all i by auto
    then show ?thesis using shape i nth_eq_iff_index_eq [of "map vd_addr (vq_desc ?q)" j ?i] by (simp add: queue_shape_def)
  qed
  show idx: "unat (vq_used_idx (rn_queue (device_use k e st))) = unat (vq_used_idx ?q) + 1"
    using room by (simp add: device_use_def Let_def unat_word_ariths)
  have w: "window (unat \<circ> fst) ((vq_used_ring ?q)[(unat (vq_pop_index ?q) + length P) mod 64 := (word_of_nat ?i, 8)])
      (unat (vq_pop_index ?q)) (P @ [?i])"
    using win shape P i by (intro window_snoc) (simp_all add: queue_shape_def unat_of_nat)
  have perm: "mset (W @ ?rest @ P @ [?i]) = mset (W @ rn_owned st @ P)"
    using arg_cong [OF owned, of mset] by simp
  have dist': "distinct (W @ ?rest @ P @ [?i])" using dist perm mset_eq_imp_distinct_iff by blast
  have all': "set (W @ ?rest @ P @ [?i]) = {..<64}" using all perm mset_eq_setD by blast
  show "run_ok c W (P @ [?i]) (evs @ [e]) (device_use k e st)"
    using ok shape w dist' all' idx used addr
    unfolding run_ok_def Let_def
    by (auto simp: device_use_def Let_def evs queue_shape_def)
qed

subsection \<open>What the driver does\<close>

definition buffer_pushed :: "nat \<Rightarrow> virtio_event virtqueue \<Rightarrow> virtio_event virtqueue" where
  "buffer_pushed i q = q\<lparr> vq_available := (vq_available q)[i := False],
     vq_desc := (vq_desc q)[i := (vq_desc q ! i)\<lparr> vd_flags := 2, vd_len := 8 \<rparr>],
     vq_buffers := (vq_buffers q)(vd_addr (vq_desc q ! i) := virtio_event_default),
     vq_avail_ring := (vq_avail_ring q)[unat (vq_avail_idx q) mod 64 := word_of_nat i],
     vq_avail_idx := vq_avail_idx q + 1 \<rparr>"

lemma push_event_buffer_eq:
  assumes "queue_shape q" "iter_position id (vq_available q) = Some i" "i < 64"
  shows "push_event_buffer q = Some (Inr (), buffer_pushed i q)"
  using assms by (simp add: Virtqueue_push_def take_descriptor_def write_message_def message_parts_def queue_shape_def
      buffer_pushed_def rust_assert_def Let_def)

lemma push_event_buffer_full: "queue_shape q \<Longrightarrow> iter_position id (vq_available q) = None \<Longrightarrow> push_event_buffer q = Some (Inl (), q)"
  by (simp add: Virtqueue_push_def take_descriptor_def queue_shape_def rust_assert_def Let_def)

lemma replicate_update [simp]: "(replicate n x)[i := x] = replicate n x"
  by (cases "i < n") (simp_all add: list_update_same_conv list_update_beyond)

lemma list_update_field: "f v = f (xs ! i) \<Longrightarrow> f (xs[i := v] ! j) = f (xs ! j)"
  by (cases "i < length xs") (auto simp: nth_list_update list_update_beyond)

lemma buffer_pushed_desc:
  "vd_addr (vq_desc (buffer_pushed i q) ! j) = vd_addr (vq_desc q ! j)"
  "map vd_addr (vq_desc (buffer_pushed i q)) = map vd_addr (vq_desc q)"
  "map vd_next (vq_desc (buffer_pushed i q)) = map vd_next (vq_desc q)"
  by (auto simp: buffer_pushed_def list_eq_iff_nth_eq list_update_field [of vd_addr] list_update_field [of vd_next])

lemma queue_shape_next: "queue_shape q \<longleftrightarrow> length (map vd_addr (vq_desc q)) = 64 \<and> length (vq_avail_ring q) = 64 \<and> length (vq_used_ring q) = 64
     \<and> length (vq_available q) = 64 \<and> distinct (map vd_addr (vq_desc q)) \<and> set (map vd_next (vq_desc q)) \<subseteq> {0}"
  by (auto simp: queue_shape_def)

lemma buffer_pushed_shape: "queue_shape q \<Longrightarrow> queue_shape (buffer_pushed i q)"
  unfolding queue_shape_next buffer_pushed_desc by (simp add: buffer_pushed_def)

lemma iter_position_first: "iter_position id (replicate i False @ True # bs) = Some i"
proof -
  have "takeWhile (\<lambda>x. \<not> id x) (replicate i False @ True # bs) = replicate i False"
    by (subst takeWhile_append2) simp_all
  then show ?thesis by (simp add: iter_position_def Let_def)
qed

lemma iter_position_single: "i < n \<Longrightarrow> iter_position id ((replicate n False)[i := True]) = Some i"
  by (simp add: upd_conv_take_nth_drop iter_position_first)

lemma used_idx_eq: "ucast (u :: u16) = (p :: usize) \<longleftrightarrow> unat u = unat p"
proof -
  have "unat u < 2 ^ 64" using unsigned_less [of u, where 'a = nat] by simp
  then have "unat (ucast u :: usize) = unat u" by (simp add: unsigned_ucast_eq take_bit_nat_eq_self)
  then show ?thesis by (simp add: word_unat_eq_iff)
qed

lemma poll_one_empty: "run_ok c W [] evs st \<Longrightarrow> poll_one (rn_queue st) = Some (None, rn_queue st) \<and> evs = []"
  by (simp add: run_ok_def Let_def poll_one_def Virtqueue_pop_def used_idx_eq)


lemma poll_one_next:
  assumes ok: "run_ok c W (i # P) evs st"
  shows "\<exists>q e evs'. evs = e # evs' \<and> poll_one (rn_queue st) = Some (Some e, q) \<and> run_ok c (W @ [i]) P evs' (st\<lparr> rn_queue := q \<rparr>)
    \<and> vq_used_idx q = vq_used_idx (rn_queue st)"
proof -
  let ?q = "rn_queue st"
  let ?q1 = "?q\<lparr> vq_available := (replicate 64 False)[i := True], vq_pop_index := vq_pop_index ?q + 1 \<rparr>"
  let ?e = "vq_buffers ?q (vd_addr (vq_desc ?q ! i))"
  have shape: "queue_shape ?q" and dist: "distinct (W @ rn_owned st @ i # P)" and all: "set (W @ rn_owned st @ i # P) = {..<64}"
    and avail: "vq_available ?q = replicate 64 False" "vq_avail_idx ?q = word_of_nat (c + length W)"
    and ring: "window unat (vq_avail_ring ?q) c W"
    and used: "unat (vq_used_idx ?q) = unat (vq_pop_index ?q) + length (i # P)"
    and win: "window (unat \<circ> fst) (vq_used_ring ?q) (unat (vq_pop_index ?q)) (i # P)"
    using ok by (simp_all only: run_ok_def Let_def)
  have i: "i < 64" using all by auto
  have W: "length W < 64" using run_ok_length [OF ok] by simp
  have head: "unat (fst (vq_used_ring ?q ! (unat (vq_pop_index ?q) mod 64))) = i"
    and tail: "window (unat \<circ> fst) (vq_used_ring ?q) (Suc (unat (vq_pop_index ?q))) P"
    using window_Cons [OF win] by simp_all
  have ne: "ucast (vq_used_idx ?q) \<noteq> vq_pop_index ?q" using used by (simp add: used_idx_eq)
  have next0: "vd_next (vq_desc ?q ! i) = 0" using shape i by (simp add: queue_shape_def)
  have pop: "Virtqueue_pop 1 ?q = Some (Some [Some ?e], ?q1)"
    using shape i head ne next0 avail(1)
    by (simp add: Virtqueue_pop_def queue_shape_def rust_assert_def return_descriptor_def Let_def)
  have shape1: "queue_shape ?q1" using shape by (simp add: queue_shape_def)
  have push: "push_event_buffer ?q1 = Some (Inr (), buffer_pushed i ?q1)"
    using shape1 i by (intro push_event_buffer_eq) (simp_all add: iter_position_single)
  have bound: "unat (vq_pop_index ?q) < 65535"
    using used unsigned_less [of "vq_used_idx ?q", where 'a = nat] by simp
  then have pop_index: "unat (vq_pop_index ?q + 1) = Suc (unat (vq_pop_index ?q))" by (simp add: unat_word_ariths)
  have addr: "vd_addr (vq_desc ?q ! j) \<noteq> vd_addr (vq_desc ?q ! i)" if "j \<in> set P" for j
  proof -
    have "j < 64" "j \<noteq> i" using that all dist by auto
    then show ?thesis using shape i nth_eq_iff_index_eq [of "map vd_addr (vq_desc ?q)" j i] by (simp add: queue_shape_def)
  qed
  have ring': "window unat ((vq_avail_ring ?q)[(c + length W) mod 64 := word_of_nat i]) c (W @ [i])"
    using ring shape W i by (intro window_snoc) (simp_all add: queue_shape_def unat_of_nat)
  have "run_ok c (W @ [i]) P (map (\<lambda>i. vq_buffers ?q (vd_addr (vq_desc ?q ! i))) P) (st\<lparr> rn_queue := buffer_pushed i ?q1 \<rparr>)"
    using ok buffer_pushed_shape [OF shape1, of i] ring' tail used dist all addr avail pop_index
    unfolding run_ok_def Let_def
    by (auto simp: buffer_pushed_desc) (auto simp: buffer_pushed_def)
  then show ?thesis using ok pop push by (auto simp: run_ok_def Let_def poll_one_def rust_assert_def buffer_pushed_def)
qed


lemma poll_all:
  "run_ok c W P evs st \<Longrightarrow> length P < fuel \<Longrightarrow> \<exists>q. poll fuel (rn_queue st) = Some (evs, q)"
proof (induction fuel arbitrary: W P evs st)
  case (Suc fuel)
  show ?case
  proof (cases P)
    case Nil
    then show ?thesis using poll_one_empty Suc.prems(1) by fastforce
  next
    case (Cons i P')
    obtain q e evs' where n: "evs = e # evs'" "poll_one (rn_queue st) = Some (Some e, q)"
      "run_ok c (W @ [i]) P' evs' (st\<lparr> rn_queue := q \<rparr>)"
      using poll_one_next Suc.prems(1) unfolding Cons by blast
    then show ?thesis using Suc.IH [OF n(3)] Suc.prems(2) Cons by auto
  qed
qed simp

subsection \<open>Filling the queue\<close>

definition filling :: "nat \<Rightarrow> virtio_event virtqueue \<Rightarrow> bool" where
  "filling k q \<longleftrightarrow> queue_shape q \<and> vq_available q = replicate k False @ replicate (64 - k) True
     \<and> vq_avail_idx q = word_of_nat k \<and> window unat (vq_avail_ring q) 0 [0..<k] \<and> vq_used_idx q = 0 \<and> vq_pop_index q = 0"

lemma filling_push:
  assumes "filling k q" "k < 64"
  shows "push_event_buffer q = Some (Inr (), buffer_pushed k q)" "filling (Suc k) (buffer_pushed k q)"
proof -
  have free: "vq_available q = replicate k False @ True # replicate (64 - Suc k) True"
    using assms by (simp add: filling_def flip: replicate_Suc)
  have shape: "queue_shape q" using assms(1) by (simp add: filling_def)
  show "push_event_buffer q = Some (Inr (), buffer_pushed k q)"
    using assms(2) by (intro push_event_buffer_eq) (simp_all only: free iter_position_first shape)
  have w: "window unat ((vq_avail_ring q)[(0 + length [0..<k]) mod 64 := word_of_nat k]) 0 ([0..<k] @ [k])"
    using assms by (intro window_snoc) (simp_all add: filling_def queue_shape_def unat_of_nat)
  have "vq_available (buffer_pushed k q) = replicate (Suc k) False @ replicate (64 - Suc k) True"
    by (simp add: buffer_pushed_def free list_update_append replicate_app_Cons_same)
  then show "filling (Suc k) (buffer_pushed k q)"
    using assms w buffer_pushed_shape [of q k] by (simp add: filling_def) (simp add: buffer_pushed_def)
qed

lemma fill_queue_filling:
  "filling k q \<Longrightarrow> k \<le> 64 \<Longrightarrow> 64 - k < fuel \<Longrightarrow> \<exists>q'. fill_queue fuel q = Some q' \<and> filling 64 q'"
proof (induction fuel arbitrary: k q)
  case (Suc fuel)
  show ?case
  proof (cases "k = 64")
    case True
    then have "iter_position id (vq_available q) = None" using Suc.prems(1) by (simp add: filling_def iter_position_def Let_def)
    then show ?thesis using Suc.prems True push_event_buffer_full [of q] by (simp add: filling_def)
  next
    case False
    then have k: "k < 64" using Suc.prems by simp
    show ?thesis using Suc.IH [OF filling_push(2) [OF Suc.prems(1) k]] filling_push(1) [OF Suc.prems(1) k] Suc.prems k by simp
  qed
qed simp

lemma filling_start: "distinct addrs \<Longrightarrow> length addrs = 64 \<Longrightarrow> filling 0 (VirtqueueStorage_new 64 addrs ix na virtio_event_default)"
  by (auto simp: filling_def queue_shape_def VirtqueueStorage_new_def o_def)

lemma filled_run_ok: "filling 64 q \<Longrightarrow> run_ok 0 [0..<64] [] [] \<lparr> rn_queue = q, rn_fetched = 0, rn_owned = [] \<rparr>"
  by (simp add: filling_def run_ok_def Let_def del: upt_rec_numeral) (simp add: atLeast0LessThan del: upt_rec_numeral)

subsection \<open>Runs\<close>

fun is_Use :: "input_op \<Rightarrow> bool" where
  "is_Use (Use _ _) = True"
| "is_Use _ = False"

lemma input_steps_ok:
  assumes "run_ok c W P evs st" "unat (vq_used_idx (rn_queue st)) + length (filter is_Use ops) < 65536"
  shows "\<exists>ws es st' c' W' P' evs'. input_steps ops st = Some (ws, es, st') \<and> run_ok c' W' P' evs' st' \<and> evs @ ws = es @ evs'"
  using assms
proof (induction ops st arbitrary: c W P evs rule: input_steps.induct)
  case (1 st)
  then show ?case by auto
next
  case (2 ops st)
  obtain c' W' where "run_ok c' W' P evs (device_fetch st)" using device_fetch_ok [OF 2(2)] by blast
  moreover have "vq_used_idx (rn_queue (device_fetch st)) = vq_used_idx (rn_queue st)" by (simp add: device_fetch_def Let_def)
  ultimately show ?case using 2(1) [of c' W' P evs] 2(3) by simp
next
  case (3 k e ops st)
  show ?case
  proof (cases "k < length (rn_owned st)")
    case True
    have room: "unat (vq_used_idx (rn_queue st)) < 65535" using 3(4) by simp
    note u = device_use_ok [OF 3(3) True room, of e]
    have "unat (vq_used_idx (rn_queue (device_use k e st))) + length (filter is_Use ops) < 65536"
      using u(2) 3(4) by simp
    from 3(1) [OF True u(1) this] obtain ws es st' c' W' P' evs' where
      r: "input_steps ops (device_use k e st) = Some (ws, es, st')" "run_ok c' W' P' evs' st'" "(evs @ [e]) @ ws = es @ evs'"
      by blast
    have "input_steps (Use k e # ops) st = Some (e # ws, es, st')" using r(1) True by simp
    then show ?thesis using r(2,3) by fastforce
  next
    case False
    then show ?thesis using 3(2) [OF False 3(3)] 3(4) by simp
  qed
next
  case (4 ops st)
  show ?case
  proof (cases P)
    case Nil
    then have p: "poll_one (rn_queue st) = Some (None, rn_queue st)" "evs = []" using poll_one_empty 4(2) by blast+
    have "run_ok c W P evs (st\<lparr> rn_queue := rn_queue st \<rparr>)" using 4(2) by simp
    from 4(1) [OF p(1) refl this] obtain ws es st' c' W' P' evs' where
      r: "input_steps ops (st\<lparr> rn_queue := rn_queue st \<rparr>) = Some (ws, es, st')" "run_ok c' W' P' evs' st'" "evs @ ws = es @ evs'"
      using 4(3) by auto
    have "input_steps (Poll # ops) st = Some (ws, es, st')" using r(1) p(1) by simp
    then show ?thesis using r(2,3) by fastforce
  next
    case (Cons i P')
    obtain q e evs' where n: "evs = e # evs'" "poll_one (rn_queue st) = Some (Some e, q)"
      "run_ok c (W @ [i]) P' evs' (st\<lparr> rn_queue := q \<rparr>)" "vq_used_idx q = vq_used_idx (rn_queue st)"
      using poll_one_next 4(2) unfolding Cons by blast
    from 4(1) [OF n(2) refl n(3)] obtain ws es st' c' W' P' evs2 where
      r: "input_steps ops (st\<lparr> rn_queue := q \<rparr>) = Some (ws, es, st')" "run_ok c' W' P' evs2 st'" "evs' @ ws = es @ evs2"
      using 4(3) n(4) by auto
    have "input_steps (Poll # ops) st = Some (ws, e # es, st')" using r(1) n(2) by simp
    moreover have "evs @ ws = (e # es) @ evs2" using r(3) n(1) by simp
    ultimately show ?thesis using r(2) by blast
  qed
qed

text \<open>
  C7: Let the queue of an input device be the one the driver starts with, 64 distinct buffers all made available by
  \<open>fill_queue\<close>, and let the device take buffers, return them with events in any order of the buffers it holds, and the driver
  poll, interleaved in any way and with fewer than 65536 events in all. Then no step panics, and the events the driver took, followed by the
  ones a last \<open>poll\<close> returns, are exactly the events the device returned, each once and in the order of their return.
\<close>

theorem input_events_in_order:
  assumes "distinct addrs" "length addrs = 64" "length (filter is_Use ops) < 65536"
  shows "\<exists>q ws es st rest q'. fill_queue 65 (VirtqueueStorage_new 64 addrs ix na virtio_event_default) = Some q
    \<and> input_steps ops \<lparr> rn_queue = q, rn_fetched = 0, rn_owned = [] \<rparr> = Some (ws, es, st)
    \<and> poll 65 (rn_queue st) = Some (rest, q') \<and> ws = es @ rest"
proof -
  obtain q where q: "fill_queue 65 (VirtqueueStorage_new 64 addrs ix na virtio_event_default) = Some q" "filling 64 q"
    using fill_queue_filling [OF filling_start [OF assms(1,2)], of 65] by auto
  have "unat (vq_used_idx q) = 0" using q(2) by (simp add: filling_def)
  then obtain ws es st c W P evs where r: "input_steps ops \<lparr> rn_queue = q, rn_fetched = 0, rn_owned = [] \<rparr> = Some (ws, es, st)"
      "run_ok c W P evs st" "ws = es @ evs"
    using input_steps_ok [OF filled_run_ok [OF q(2)], of ops] assms(3) by auto
  obtain q' where "poll 65 (rn_queue st) = Some (evs, q')"
    using poll_all [OF r(2), of 65] run_ok_length [OF r(2)] by auto
  then show ?thesis using q r by blast
qed


definition sample_event :: virtio_event where
  "sample_event = \<lparr> ev_type = 1, ev_code = 30, ev_value = 1 \<rparr>"

theorem input_events_in_order_witness:
  "\<exists>q ws es st rest q'. fill_queue 65 (VirtqueueStorage_new 64 (map word_of_nat [0..<64]) 0 0 virtio_event_default) = Some q
    \<and> input_steps [Fetch, Fetch, Use 1 sample_event, Poll, Use 0 sample_event] \<lparr> rn_queue = q, rn_fetched = 0, rn_owned = [] \<rparr> = Some (ws, es, st)
    \<and> poll 65 (rn_queue st) = Some (rest, q') \<and> ws = es @ rest"
proof (rule input_events_in_order)
  show "distinct (map word_of_nat [0..<64] :: u64 list)"
    by (auto simp: distinct_map inj_on_def word_of_nat_eq_iff take_bit_nat_eq_self simp del: upt_rec_numeral)
qed simp_all

text \<open>
  The bound on the number of events is needed: the driver counts in a \<open>usize\<close> what the device counts in a \<open>u16\<close>, and once it has
  popped 65536 elements the two never agree again, so that it takes stale elements of the ring as new.
\<close>

lemma pop_after_wrap:
  assumes "queue_shape q" "65536 \<le> unat (vq_pop_index q)"
    "unat (fst (vq_used_ring q ! (unat (vq_pop_index q) mod 64))) = i" "i < 64"
  shows "\<exists>q'. Virtqueue_pop 1 q = Some (Some [Some (vq_buffers q (vd_addr (vq_desc q ! i)))], q')"
proof -
  have ne: "ucast (vq_used_idx q) \<noteq> vq_pop_index q"
    using assms(2) unsigned_less [of "vq_used_idx q", where 'a = nat] by (simp add: used_idx_eq)
  then show ?thesis using assms
    by (simp add: Virtqueue_pop_def queue_shape_def rust_assert_def return_descriptor_def Let_def)
qed

end
