(* ===== verification/Clock.thy ===== *)
theory Clock
  imports Rust_Bytes
begin

section \<open>Ports, instants and the real-time clock\<close>

text \<open>
  The models of \<^verbatim>\<open>crates/time/src/time.rs\<close>, of \<^verbatim>\<open>drivers/rtc/src/rtc.rs\<close> and of the serial port in
  \<^verbatim>\<open>drivers/uart-16550/src/uart_16550.rs\<close>. The port instructions of \<^verbatim>\<open>drivers/x86-port\<close> and the time-stamp
  counter act on the state of the machine, which is of any type; the record \<open>pio\<close> says how. Its last field is
  \<^verbatim>\<open>hardware::TSC_PERIOD_FS\<close>, which the kernel sets once at boot. A \<^verbatim>\<open>Duration\<close> is its number of nanoseconds.
  Loops that wait for the hardware have fuel, and None stands for a loop that goes on.
\<close>

record 'h pio =
  inb :: "u16 \<Rightarrow> 'h \<Rightarrow> u8 \<times> 'h"
  inw :: "u16 \<Rightarrow> 'h \<Rightarrow> u16 \<times> 'h"
  outb :: "u16 \<Rightarrow> u8 \<Rightarrow> 'h \<Rightarrow> 'h"
  rdtsc :: "'h \<Rightarrow> u64 \<times> 'h"
  tsc_period_fs :: u64

subsection \<open>Instants (time.rs)\<close>

type_synonym instant = u64
type_synonym duration = nat

definition FEMTOS_PER_NANO :: nat where "FEMTOS_PER_NANO = 1000000"
definition NANOS_PER_SECOND :: nat where "NANOS_PER_SECOND = 1000000000"

definition Instant_now :: "'h pio \<Rightarrow> 'h \<Rightarrow> instant \<times> 'h" where
  "Instant_now io = rdtsc io"

text \<open>The products fit into a \<open>u128\<close>; \<^verbatim>\<open>Duration::from_nanos_u128\<close> panics when the seconds exceed 64 bits.\<close>

definition checked_duration_since :: "'h pio \<Rightarrow> instant \<Rightarrow> instant \<Rightarrow> duration option rust" where
  "checked_duration_since io self earlier =
     (case checked_sub self earlier of
        None \<Rightarrow> Some None
      | Some delta \<Rightarrow>
          let femtos = unat delta * unat (tsc_period_fs io); nanos = femtos div FEMTOS_PER_NANO in
          if nanos div NANOS_PER_SECOND < 2 ^ 64 then Some (Some nanos) else panic)"

definition duration_since :: "'h pio \<Rightarrow> instant \<Rightarrow> instant \<Rightarrow> duration rust" where
  "duration_since io self earlier = map_option (\<lambda>d. case d of Some n \<Rightarrow> n | None \<Rightarrow> 0) (checked_duration_since io self earlier)"

definition elapsed :: "'h pio \<Rightarrow> instant \<Rightarrow> 'h \<Rightarrow> (duration \<times> 'h) rust" where
  "elapsed io self h = (let (now, h) = Instant_now io h in map_option (\<lambda>d. (d, h)) (duration_since io now self))"

definition checked_add_duration :: "'h pio \<Rightarrow> instant \<Rightarrow> duration \<Rightarrow> instant option rust" where
  "checked_add_duration io self dur =
     (if tsc_period_fs io = 0 then panic
      else Some (checked_add self (word_of_nat (dur * FEMTOS_PER_NANO div unat (tsc_period_fs io)))))"

definition add_duration :: "'h pio \<Rightarrow> instant \<Rightarrow> duration \<Rightarrow> instant rust" where
  "add_duration io self dur = map_option (\<lambda>t. case t of Some t \<Rightarrow> t | None \<Rightarrow> - 1) (checked_add_duration io self dur)"

lemma duration_since_eq:
  assumes "e \<le> t" "(unat t - unat e) * unat (tsc_period_fs io) < 2 ^ 64 * 10 ^ 15"
  shows "duration_since io t e = Some ((unat t - unat e) * unat (tsc_period_fs io) div 10 ^ 6)"
proof -
  have u: "unat (t - e) = unat t - unat e" using assms(1) by (rule unat_sub)
  have "(unat t - unat e) * unat (tsc_period_fs io) div (10 ^ 6 * 10 ^ 9) < 2 ^ 64"
    using assms(2) by (intro less_mult_imp_div_less) simp
  then have "(unat t - unat e) * unat (tsc_period_fs io) div 10 ^ 6 div 10 ^ 9 < 2 ^ 64" by (simp only: div_mult2_eq)
  then show ?thesis using assms(1)
    by (simp add: duration_since_def checked_duration_since_def checked_sub_def Let_def u FEMTOS_PER_NANO_def NANOS_PER_SECOND_def)
qed

text \<open>Adding a duration and measuring the time since loses less than one tick of the counter and a nanosecond.\<close>

lemma duration_since_add_duration:
  assumes p: "0 < tsc_period_fs io" and fits: "unat self + dur * 10 ^ 6 div unat (tsc_period_fs io) < 2 ^ 64"
    and small: "dur < 2 ^ 64 * 10 ^ 9"
  shows "\<exists>t d. add_duration io self dur = Some t \<and> duration_since io t self = Some d
    \<and> d \<le> dur \<and> dur \<le> d + 1 + unat (tsc_period_fs io) div 10 ^ 6"
proof -
  define p k where "p = unat (tsc_period_fs io)" and "k = dur * 10 ^ 6 div p"
  have p': "0 < p" using p by (simp add: p_def word_less_nat_alt)
  have fits': "unat self + k < 2 ^ 64" using fits by (simp only: k_def p_def)
  have uk: "unat (word_of_nat k :: u64) = k" using fits' by (simp add: unat_of_nat)
  let ?t = "self + word_of_nat k"
  have ut: "unat ?t = unat self + k" using fits' uk by (subst unat_plus_if') simp
  have ne: "tsc_period_fs io \<noteq> 0" using p' by (auto simp: p_def)
  have "add_duration io self dur = Some (case checked_add self (word_of_nat k) of Some t \<Rightarrow> t | None \<Rightarrow> - 1)"
    using ne by (simp add: add_duration_def checked_add_duration_def FEMTOS_PER_NANO_def k_def p_def)
  then have add: "add_duration io self dur = Some ?t" using fits' uk by (simp add: checked_add_def)
  have kp: "k * p \<le> dur * 10 ^ 6" by (simp add: k_def)
  also have "\<dots> < 2 ^ 64 * 10 ^ 15" using small by simp
  finally have "(unat ?t - unat self) * unat (tsc_period_fs io) < 2 ^ 64 * 10 ^ 15" by (simp add: ut p_def)
  from duration_since_eq [OF _ this] have since: "duration_since io ?t self = Some (k * p div 10 ^ 6)"
    by (simp add: ut p_def word_le_nat_alt)
  have "k * p div 10 ^ 6 \<le> dur * 10 ^ 6 div 10 ^ 6" using kp by (rule div_le_mono)
  then have upper: "k * p div 10 ^ 6 \<le> dur" by simp
  have "dur * 10 ^ 6 = k * p + dur * 10 ^ 6 mod p" by (simp add: k_def)
  moreover have "dur * 10 ^ 6 mod p < p" using p' by simp
  ultimately have "dur * 10 ^ 6 < k * p + p" by linarith
  then have "dur \<le> k * p div 10 ^ 6 + 1 + p div 10 ^ 6" by (simp add: div_less_iff_less_mult)
  then show ?thesis using add since upper by (auto simp: p_def)
qed


subsection \<open>The real-time clock (rtc.rs)\<close>

record rtc_time =
  t_year :: u8
  t_month :: u8
  t_day :: u8
  t_hour :: u8
  t_minute :: u8
  t_second :: u8

definition Time_ZERO :: rtc_time where
  "Time_ZERO = \<lparr> t_year = 0, t_month = 0, t_day = 0, t_hour = 0, t_minute = 0, t_second = 0 \<rparr>"

definition read_cmos :: "'h pio \<Rightarrow> u8 \<Rightarrow> 'h \<Rightarrow> u8 \<times> 'h" where
  "read_cmos io reg h = inb io 0x71 (outb io 0x70 (0x80 OR reg) h)"

definition convert_bcd :: "u8 \<Rightarrow> u8" where
  "convert_bcd v = (v AND 0x0F) + (v div 16) * 10"

definition now_unsynced :: "'h pio \<Rightarrow> 'h \<Rightarrow> rtc_time \<times> 'h" where
  "now_unsynced io h =
     (let (second, h) = read_cmos io 0x00 h; (minute, h) = read_cmos io 0x02 h; (hour, h) = read_cmos io 0x04 h;
          (day, h) = read_cmos io 0x07 h; (month, h) = read_cmos io 0x08 h; (year, h) = read_cmos io 0x09 h;
          (format, h) = read_cmos io 0x0B h;
          (second, minute, hour, day, month, year) =
            (if format AND 4 \<noteq> 4
             then (convert_bcd second, convert_bcd minute, convert_bcd (hour AND 0x7F) OR (hour AND 0x80), convert_bcd day,
               convert_bcd month, convert_bcd year)
             else (second, minute, hour, day, month, year));
          after_noon = hour AND 0x80 = 0x80;
          format_24_hour = hour AND 2 = 2;
          hour = (if format_24_hour \<and> after_noon then ((hour AND 0x7F) + 12) mod 24 else hour) in
      (\<lparr> t_year = year, t_month = month, t_day = day, t_hour = hour, t_minute = minute, t_second = second \<rparr>, h))"

definition update_in_progress :: "'h pio \<Rightarrow> 'h \<Rightarrow> bool \<times> 'h" where
  "update_in_progress io h = (let (a, h) = read_cmos io 0x0A h in (a AND 0x80 > 0, h))"

text \<open>The loop of \<^verbatim>\<open>now\<close> and, within it, the loop that waits for the end of an update; they share their fuel.\<close>

fun Time_now :: "nat \<Rightarrow> 'h pio \<Rightarrow> 'h \<Rightarrow> (rtc_time \<times> 'h) rust" where
  "Time_now 0 io h = None"
| "Time_now (Suc fuel) io h =
     (let (updating, h) = update_in_progress io h in
      if updating then Time_now fuel io h
      else let (time_1, h) = now_unsynced io h; (again, h) = update_in_progress io h in
      if again then Time_now fuel io h
      else let (time_2, h) = now_unsynced io h in
      if time_1 = time_2 then Some (time_1, h) else Time_now fuel io h)"

definition from_seconds :: "u64 \<Rightarrow> rtc_time rust" where
  "from_seconds seconds =
     (if seconds \<ge> 3600 * 24 then panic
      else if seconds \<ge> 3600 then
        Some (Time_ZERO\<lparr> t_second := ucast (seconds mod 60), t_minute := ucast (seconds div 60), t_hour := ucast (seconds div 3600) \<rparr>)
      else if seconds \<ge> 60 then
        Some (Time_ZERO\<lparr> t_second := ucast (seconds mod 60), t_minute := ucast (seconds div 60) \<rparr>)
      else Some (Time_ZERO\<lparr> t_second := ucast seconds \<rparr>))"

definition Time_add :: "rtc_time \<Rightarrow> rtc_time \<Rightarrow> rtc_time" where
  "Time_add a rhs =
     (let seconds = t_second a + t_second rhs;
          a = (if seconds \<ge> 60 then a\<lparr> t_minute := t_minute a + 1, t_second := seconds - 60 \<rparr> else a\<lparr> t_second := seconds \<rparr>);
          minutes = t_minute a + t_minute rhs;
          a = (if minutes \<ge> 60 then a\<lparr> t_hour := t_hour a + 1, t_minute := minutes - 60 \<rparr> else a\<lparr> t_minute := minutes \<rparr>);
          hours = t_hour a + t_hour rhs in
      if hours \<ge> 24 then a\<lparr> t_day := t_day a + 1, t_hour := hours - 24 \<rparr> else a\<lparr> t_hour := hours \<rparr>)"

definition time_ok :: "rtc_time \<Rightarrow> bool" where
  "time_ok t \<longleftrightarrow> t_hour t < 24 \<and> t_minute t < 60 \<and> t_second t < 60"

definition seconds_of_day :: "rtc_time \<Rightarrow> nat" where
  "seconds_of_day t = 3600 * unat (t_hour t) + 60 * unat (t_minute t) + unat (t_second t)"

lemma u8_add_below: "unat (a :: u8) + unat b < 256 \<Longrightarrow> unat (a + b) = unat a + unat b"
  by (subst unat_plus_if') simp

lemma u8_sub_above: "(b :: u8) \<le> a \<Longrightarrow> unat (a - b) = unat a - unat b"
  by (rule unat_sub)

text \<open>One digit of the sum: it carries exactly when the sum reaches the modulus.\<close>

lemma carry_step:
  fixes x y m :: u8
  assumes "unat x + unat y < 2 * unat m" "unat m \<le> 100"
  shows "m \<le> x + y \<longleftrightarrow> unat m \<le> unat x + unat y"
    and "m \<le> x + y \<Longrightarrow> unat (x + y - m) = unat x + unat y - unat m"
    and "unat (x + y) = unat x + unat y"
proof -
  show s: "unat (x + y) = unat x + unat y" using assms by (intro u8_add_below) linarith
  show "m \<le> x + y \<longleftrightarrow> unat m \<le> unat x + unat y" by (simp add: word_le_nat_alt s)
  show "unat (x + y - m) = unat x + unat y - unat m" if "m \<le> x + y" using that by (simp add: u8_sub_above s)
qed

text \<open>Adding two times of day adds their seconds, and carries a day when the sum reaches one.\<close>

lemma Time_add_seconds:
  assumes "time_ok a" "time_ok b"
  defines "n \<equiv> seconds_of_day a + seconds_of_day b"
  shows "time_ok (Time_add a b) \<and> seconds_of_day (Time_add a b) = n mod 86400
    \<and> t_day (Time_add a b) = t_day a + (if 86400 \<le> n then 1 else 0)"
proof -
  have bounds: "unat (t_hour a) < 24" "unat (t_minute a) < 60" "unat (t_second a) < 60"
    "unat (t_hour b) < 24" "unat (t_minute b) < 60" "unat (t_second b) < 60"
    using assms(1,2) by (simp_all add: time_ok_def word_less_nat_alt)
  define c1 :: u8 where "c1 = (if 60 \<le> t_second a + t_second b then 1 else 0)"
  have c1: "unat c1 \<le> 1" by (simp add: c1_def)
  then have m: "unat (t_minute a + c1) = unat (t_minute a) + unat c1" using bounds by (intro u8_add_below) linarith
  define c2 :: u8 where "c2 = (if 60 \<le> t_minute a + c1 + t_minute b then 1 else 0)"
  have c2: "unat c2 \<le> 1" by (simp add: c2_def)
  then have h: "unat (t_hour a + c2) = unat (t_hour a) + unat c2" using bounds by (intro u8_add_below) linarith
  note s1 = carry_step [of "t_second a" "t_second b" 60] and s2 = carry_step [of "t_minute a + c1" "t_minute b" 60]
    and s3 = carry_step [of "t_hour a + c2" "t_hour b" 24]
  have r: "t_second (Time_add a b) = (if 60 \<le> t_second a + t_second b then t_second a + t_second b - 60 else t_second a + t_second b)"
    "t_minute (Time_add a b) = (if 60 \<le> t_minute a + c1 + t_minute b then t_minute a + c1 + t_minute b - 60 else t_minute a + c1 + t_minute b)"
    "t_hour (Time_add a b) = (if 24 \<le> t_hour a + c2 + t_hour b then t_hour a + c2 + t_hour b - 24 else t_hour a + c2 + t_hour b)"
    "t_day (Time_add a b) = t_day a + (if 24 \<le> t_hour a + c2 + t_hour b then 1 else 0)"
    by (simp_all add: Time_add_def Let_def c1_def c2_def)
  have u1: "unat c1 = (if 60 \<le> unat (t_second a) + unat (t_second b) then 1 else 0)"
    and sec: "unat (t_second (Time_add a b)) + 60 * unat c1 = unat (t_second a) + unat (t_second b)" "unat (t_second (Time_add a b)) < 60"
    using s1 bounds unfolding r by (auto simp: c1_def)
  have u2: "unat c2 = (if 60 \<le> unat (t_minute a) + unat c1 + unat (t_minute b) then 1 else 0)"
    and min: "unat (t_minute (Time_add a b)) + 60 * unat c2 = unat (t_minute a) + unat c1 + unat (t_minute b)" "unat (t_minute (Time_add a b)) < 60"
    using s2 bounds m c1 unfolding r by (auto simp: c2_def)
  define c3 :: nat where "c3 = (if 24 \<le> t_hour a + c2 + t_hour b then 1 else 0)"
  have u3: "c3 = (if 24 \<le> unat (t_hour a) + unat c2 + unat (t_hour b) then 1 else 0)"
    and hr: "unat (t_hour (Time_add a b)) + 24 * c3 = unat (t_hour a) + unat c2 + unat (t_hour b)" "unat (t_hour (Time_add a b)) < 24"
    using s3 bounds h c2 unfolding r by (auto simp: c3_def)
  have ok: "time_ok (Time_add a b)" using sec(2) min(2) hr(2) by (simp add: time_ok_def word_less_nat_alt)
  have total: "seconds_of_day (Time_add a b) + 86400 * c3 = n" "seconds_of_day (Time_add a b) < 86400"
    using sec min hr unfolding n_def seconds_of_day_def by linarith+
  have "c3 \<le> 1" by (simp add: c3_def)
  then have "seconds_of_day (Time_add a b) = n mod 86400" "c3 = (if 86400 \<le> n then 1 else 0)"
    using total by auto
  then show ?thesis using ok by (auto simp: r(4) c3_def split: if_splits)
qed

lemma rtc_smoke:
  "convert_bcd 0x59 = 59" "from_seconds 59 = Some (Time_ZERO\<lparr> t_second := 59 \<rparr>)"
  "map_option t_minute (from_seconds 3661) = Some 61"
  by code_simp+

end
