(* ===== verification/Uart.thy ===== *)
theory Uart
  imports Clock
begin

section \<open>The serial port\<close>

text \<open>
  The model of \<^verbatim>\<open>drivers/uart-16550/src/uart_16550.rs\<close>, over the ports of \<open>pio\<close>. A device is its base port. The loop of
  \<^verbatim>\<open>send\<close> waits for the transmitter and has fuel.
\<close>

definition Uart_init :: "'h pio \<Rightarrow> u16 \<Rightarrow> 'h \<Rightarrow> 'h" where
  "Uart_init io io_port h =
     (let interrupt_enable = io_port + 1; fifo_control = io_port + 2; line_control = io_port + 3; modem_control = io_port + 4;
          h = outb io interrupt_enable 0 h;
          h = outb io line_control 0x80 h;
          h = outb io io_port 3 h;
          h = outb io interrupt_enable 0 h;
          h = outb io line_control (3 AND NOT 0x80) h;
          h = outb io fifo_control (1 OR 4 OR 2 OR 0xC0) h;
          h = outb io modem_control (1 OR 2 OR 8) h in
      outb io interrupt_enable 1 h)"

definition line_output_empty :: "'h pio \<Rightarrow> u16 \<Rightarrow> 'h \<Rightarrow> bool \<times> 'h" where
  "line_output_empty io io_port h = (let (status, h) = inb io (io_port + 5) h in (status AND 0x20 = 0x20, h))"

definition try_send :: "'h pio \<Rightarrow> u16 \<Rightarrow> u8 \<Rightarrow> 'h \<Rightarrow> bool \<times> 'h" where
  "try_send io io_port byte h =
     (let (empty, h) = line_output_empty io io_port h in if empty then (True, outb io io_port byte h) else (False, h))"

fun send :: "nat \<Rightarrow> 'h pio \<Rightarrow> u16 \<Rightarrow> u8 \<Rightarrow> 'h \<Rightarrow> 'h rust" where
  "send 0 io io_port byte h = None"
| "send (Suc fuel) io io_port byte h =
     (let (sent, h) = try_send io io_port byte h in if sent then Some h else send fuel io io_port byte h)"

definition Uart_write :: "nat \<Rightarrow> 'h pio \<Rightarrow> u16 \<Rightarrow> u8 \<Rightarrow> 'h \<Rightarrow> 'h rust" where
  "Uart_write fuel io io_port byte h =
     (if byte = 0x08 \<or> byte = 0x7F then do {
        h \<leftarrow> send fuel io io_port 0x08 h;
        h \<leftarrow> send fuel io io_port 0x20 h;
        send fuel io io_port 0x08 h
      }
      else if byte = 0x0A then do {
        h \<leftarrow> send fuel io io_port 0x0D h;
        send fuel io io_port 0x0A h
      }
      else send fuel io io_port byte h)"

fun write_str :: "nat \<Rightarrow> 'h pio \<Rightarrow> u16 \<Rightarrow> u8 list \<Rightarrow> 'h \<Rightarrow> 'h rust" where
  "write_str fuel io io_port [] h = Some h"
| "write_str fuel io io_port (byte # s) h = Uart_write fuel io io_port byte h \<bind> write_str fuel io io_port s"

subsection \<open>What is sent\<close>

text \<open>
  A transmitter with the bytes it took, oldest first, and the number of times its status will still be read before it is empty;
  it is never busy for more than \<open>n\<close> reads.
\<close>

definition transmitter :: "'h pio \<Rightarrow> u16 \<Rightarrow> nat \<Rightarrow> ('h \<Rightarrow> u8 list) \<Rightarrow> ('h \<Rightarrow> nat) \<Rightarrow> bool" where
  "transmitter io io_port n taken busy \<longleftrightarrow>
     (\<forall>h. \<exists>s h'. inb io (io_port + 5) h = (s, h') \<and> (bit s 5 \<longleftrightarrow> busy h = 0) \<and> busy h' = busy h - 1 \<and> taken h' = taken h)
     \<and> (\<forall>h b. busy h = 0 \<longrightarrow> taken (outb io io_port b h) = taken h @ [b] \<and> busy (outb io io_port b h) \<le> n)"

definition shown :: "u8 \<Rightarrow> u8 list" where
  "shown byte = (if byte = 0x08 \<or> byte = 0x7F then [0x08, 0x20, 0x08] else if byte = 0x0A then [0x0D, 0x0A] else [byte])"

lemma bit_5_iff: "(s :: u8) AND 0x20 = 0x20 \<longleftrightarrow> bit s 5"
proof -
  have e: "(0x20 :: u8) = push_bit 5 1" by simp
  have b: "bit (push_bit 5 (1 :: u8)) n \<longleftrightarrow> n = 5" for n by (simp only: bit_push_bit_iff bit_1_iff) auto
  show ?thesis unfolding e
    by (auto intro!: bit_word_eqI dest!: arg_cong [of _ _ "\<lambda>w. bit w 5"] simp: bit_and_iff b simp del: push_bit_of_1 push_bit_numeral)
qed

lemma send_taken:
  assumes t: "transmitter io io_port n taken busy"
  shows "busy h < fuel \<Longrightarrow> \<exists>h'. send fuel io io_port b h = Some h' \<and> taken h' = taken h @ [b] \<and> busy h' \<le> n"
proof (induction fuel arbitrary: h)
  case (Suc fuel)
  obtain s h' where r: "inb io (io_port + 5) h = (s, h')" "bit s 5 \<longleftrightarrow> busy h = 0" "busy h' = busy h - 1" "taken h' = taken h"
    using t unfolding transmitter_def by meson
  show ?case
  proof (cases "busy h = 0")
    case True
    then show ?thesis using r t by (simp add: try_send_def line_output_empty_def bit_5_iff transmitter_def)
  next
    case False
    then have "busy h' < fuel" using r Suc.prems by simp
    then show ?thesis using Suc.IH [of h'] r False by (simp add: try_send_def line_output_empty_def bit_5_iff)
  qed
qed simp

fun send_all :: "nat \<Rightarrow> 'h pio \<Rightarrow> u16 \<Rightarrow> u8 list \<Rightarrow> 'h \<Rightarrow> 'h rust" where
  "send_all fuel io io_port [] h = Some h"
| "send_all fuel io io_port (b # bs) h = send fuel io io_port b h \<bind> send_all fuel io io_port bs"

lemma Uart_write_shown: "Uart_write fuel io io_port byte h = send_all fuel io io_port (shown byte) h"
  by (auto simp: Uart_write_def shown_def split: Option.bind_splits)

lemma send_all_taken:
  assumes t: "transmitter io io_port n taken busy" and f: "n < fuel"
  shows "busy h \<le> n \<Longrightarrow> \<exists>h'. send_all fuel io io_port bs h = Some h' \<and> taken h' = taken h @ bs \<and> busy h' \<le> n"
proof (induction bs arbitrary: h)
  case (Cons b bs)
  obtain h1 where h1: "send fuel io io_port b h = Some h1" "taken h1 = taken h @ [b]" "busy h1 \<le> n"
    using send_taken [OF t, of h fuel b] Cons.prems f by auto
  then show ?case using Cons.IH [OF h1(3)] by auto
qed simp

lemma write_str_taken:
  assumes t: "transmitter io io_port n taken busy" and f: "n < fuel"
  shows "busy h \<le> n \<Longrightarrow> \<exists>h'. write_str fuel io io_port s h = Some h' \<and> taken h' = taken h @ concat (map shown s) \<and> busy h' \<le> n"
proof (induction s arbitrary: h)
  case (Cons byte s)
  obtain h1 where h1: "Uart_write fuel io io_port byte h = Some h1" "taken h1 = taken h @ shown byte" "busy h1 \<le> n"
    using send_all_taken [OF t f Cons.prems] unfolding Uart_write_shown by blast
  then show ?case using Cons.IH [OF h1(3)] by auto
qed simp

end
