(* ===== verification/Ata.thy ===== *)
theory Ata
  imports Clock Pci
begin

section \<open>ATA disks\<close>

text \<open>
  The model of \<^verbatim>\<open>drivers/ata/src/ata.rs\<close> with the error type of \<^verbatim>\<open>crates/io/src/io.rs\<close>. The two buses are the state behind the
  mutex \<^verbatim>\<open>BUSES\<close>; the ports and the clock are those of \<open>pio\<close>. An operation of a bus acts on the bus and the machine. The
  loops that poll the status end after a second, and those that wait end after 400 nanoseconds; fuel bounds the number of
  rounds, and the claim below shows how much is enough. What is only logged is left out.
\<close>

datatype read_error = InvalidBufferLength usize | OffsetPastEnd usize usize | TimedOut | OtherError string

definition SECTOR_SIZE :: nat where "SECTOR_SIZE = 512"

record ata_bus =
  bus_id :: u8
  selected_drive :: "u8 option"
  io_port_base :: u16
  control_port_base :: u16

definition Bus_new :: "u8 \<Rightarrow> u16 \<Rightarrow> u16 \<Rightarrow> ata_bus" where
  "Bus_new i io_base control_base =
     \<lparr> bus_id = i, selected_drive = None, io_port_base = io_base, control_port_base = control_base \<rparr>"

definition BUSES :: "ata_bus list" where
  "BUSES = [Bus_new 0 0x1F0 0x3F6, Bus_new 1 0x170 0x376]"

text \<open>The bits of \<^verbatim>\<open>Status\<close> the driver reads.\<close>

abbreviation status_error :: "u8 \<Rightarrow> bool" where "status_error s \<equiv> bit_at s 0"
abbreviation data_request :: "u8 \<Rightarrow> bool" where "data_request s \<equiv> bit_at s 3"
abbreviation busy :: "u8 \<Rightarrow> bool" where "busy s \<equiv> bit_at s 7"

type_synonym 'h bus_state = "ata_bus \<times> 'h"

definition Bus_status :: "'h pio \<Rightarrow> 'h bus_state \<Rightarrow> u8 \<times> 'h bus_state" where
  "Bus_status io = (\<lambda>(b, h). let (s, h) = inb io (control_port_base b + 0) h in (s, b, h))"

definition read_data :: "'h pio \<Rightarrow> 'h bus_state \<Rightarrow> u16 \<times> 'h bus_state" where
  "read_data io = (\<lambda>(b, h). let (w, h) = inw io (io_port_base b + 0) h in (w, b, h))"

text \<open>Polling the status until it is as wanted, or more than a second has passed since \<open>start\<close>.\<close>

fun poll_status :: "nat \<Rightarrow> 'h pio \<Rightarrow> instant \<Rightarrow> (u8 \<Rightarrow> bool) \<Rightarrow> 'h bus_state \<Rightarrow> (string, unit, 'h bus_state) outcome" where
  "poll_status 0 io start check st = None"
| "poll_status (Suc fuel) io start check st =
     (let (s, b, h) = Bus_status io st in
      if check s then Some (Inr (), b, h)
      else let (now, h) = Instant_now io h in do {
        d \<leftarrow> duration_since io now start;
        if d > 1000000000 then Some (Inl ''poll hangup'', b, h) else poll_status fuel io start check (b, h)
      })"

definition Bus_poll :: "nat \<Rightarrow> 'h pio \<Rightarrow> (u8 \<Rightarrow> bool) \<Rightarrow> 'h bus_state \<Rightarrow> (string, unit, 'h bus_state) outcome" where
  "Bus_poll fuel io check = (\<lambda>(b, h). let (start, h) = Instant_now io h in poll_status fuel io start check (b, h))"

fun wait_since :: "nat \<Rightarrow> 'h pio \<Rightarrow> instant \<Rightarrow> duration \<Rightarrow> 'h \<Rightarrow> 'h rust" where
  "wait_since 0 io start n h = None"
| "wait_since (Suc fuel) io start n h =
     (let (now, h) = Instant_now io h in do {
        d \<leftarrow> duration_since io now start;
        if d < n then wait_since fuel io start n h else Some h
      })"

definition wait_nanos :: "nat \<Rightarrow> 'h pio \<Rightarrow> duration \<Rightarrow> 'h \<Rightarrow> 'h rust" where
  "wait_nanos fuel io n h = (let (start, h) = Instant_now io h in wait_since fuel io start n h)"

definition select_drive :: "nat \<Rightarrow> 'h pio \<Rightarrow> u8 \<Rightarrow> 'h bus_state \<Rightarrow> (string, unit, 'h bus_state) outcome" where
  "select_drive fuel io drive st =
     qbind (Bus_poll fuel io (\<lambda>s. \<not> busy s) st) (\<lambda>_ st.
     qbind (Bus_poll fuel io (\<lambda>s. \<not> data_request s) st) (\<lambda>_ (b, h).
     if selected_drive b = Some drive then Some (Inr (), b, h)
     else do {
       let b = b\<lparr> selected_drive := Some drive \<rparr>;
       let h = outb io (io_port_base b + 6) (0xA0 OR push_bit 4 drive) h;
       h \<leftarrow> wait_nanos fuel io 400 h;
       qbind (Bus_poll fuel io (\<lambda>s. \<not> busy s) (b, h)) (\<lambda>_ st.
       qbind (Bus_poll fuel io (\<lambda>s. \<not> data_request s) st) (\<lambda>_ st. Some (Inr (), st)))
     }))"

definition write_registers :: "'h pio \<Rightarrow> u16 \<Rightarrow> u8 \<Rightarrow> u32 \<Rightarrow> 'h \<Rightarrow> 'h" where
  "write_registers io base drive block h =
     (let block_bytes = to_le_bytes block;
          h = outb io (base + 2) 1 h;
          h = outb io (base + 3) (block_bytes ! 0) h;
          h = outb io (base + 4) (block_bytes ! 1) h;
          h = outb io (base + 5) (block_bytes ! 2) h in
      outb io (base + 6) ((block_bytes ! 3) OR (0xE0 OR push_bit 4 drive)) h)"

definition write_command ::
    "nat \<Rightarrow> 'h pio \<Rightarrow> u8 \<Rightarrow> u32 \<Rightarrow> u16 \<Rightarrow> 'h bus_state \<Rightarrow> (string, unit, 'h bus_state) outcome" where
  "write_command fuel io drive block command = (\<lambda>(b, h). do {
     let h = write_registers io (io_port_base b) drive block h;
     let h = outb io (io_port_base b + 7) (ucast command) h;
     h \<leftarrow> wait_nanos fuel io 400 h;
     let (_, b, h) = Bus_status io (b, h);
     let (_, h) = inb io (io_port_base b + 7) h;
     let (s, b, h) = Bus_status io (b, h);
     if s = 0 then Some (Inl ''drive does not exist'', b, h)
     else let (s, b, h) = Bus_status io (b, h) in
     if status_error s then Some (Inl ''failed to write command'', b, h)
     else
     qbind (Bus_poll fuel io (\<lambda>s. \<not> busy s) (b, h)) (\<lambda>_ st.
     qbind (Bus_poll fuel io data_request st) (\<lambda>_ st. Some (Inr (), st)))
   })"

fun read_data_words :: "nat \<Rightarrow> 'h pio \<Rightarrow> 'h bus_state \<Rightarrow> u16 list \<times> 'h bus_state" where
  "read_data_words 0 io st = ([], st)"
| "read_data_words (Suc n) io st = (let (w, st) = read_data io st; (ws, st) = read_data_words n io st in (w # ws, st))"

text \<open>
  \<^verbatim>\<open>Bus::read\<close> on a buffer that is left as it is when the command fails. \<^verbatim>\<open>clone_from_slice\<close> panics on the last chunk of a buffer of odd
  length.
\<close>

definition Bus_read ::
    "nat \<Rightarrow> 'h pio \<Rightarrow> u8 \<Rightarrow> u32 \<Rightarrow> u8 list \<Rightarrow> 'h bus_state \<Rightarrow> ((string + unit) \<times> u8 list \<times> 'h bus_state) rust" where
  "Bus_read fuel io drive block buf st = do {
     (r, st) \<leftarrow> qbind (select_drive fuel io drive st) (\<lambda>_ st. write_command fuel io drive block 0x20 st);
     case r of
       Inl e \<Rightarrow> Some (Inl e, buf, st)
     | Inr _ \<Rightarrow> do {
         rust_assert (even (length buf));
         let (ws, st) = read_data_words (length buf div 2) io st;
         let buf = concat (map to_le_bytes ws);
         let (s, st) = Bus_status io st;
         Some (if status_error s then Inl ''failed to read bus'' else Inr (), buf, st)
       }
   }"

datatype identify_response = Pata "u16 list" | PataPi | Sata | NoDrive

definition identify_drive :: "nat \<Rightarrow> 'h pio \<Rightarrow> u8 \<Rightarrow> 'h bus_state \<Rightarrow> (string, identify_response, 'h bus_state) outcome" where
  "identify_drive fuel io drive st =
     (let (s, st) = Bus_status io st in
      if s = 0xFF then Some (Inr NoDrive, st)
      else qbind (select_drive fuel io drive st) (\<lambda>_ st. do {
        (r, b, h) \<leftarrow> write_command fuel io drive 0 0xEC st;
        case r of
          Inl _ \<Rightarrow> Some (Inr NoDrive, b, h)
        | Inr _ \<Rightarrow>
            let (mid, h) = inb io (io_port_base b + 4) h; (high, h) = inb io (io_port_base b + 5) h in
            if mid = 0 \<and> high = 0 then let (ws, st) = read_data_words 256 io (b, h) in Some (Inr (Pata ws), st)
            else if mid = 0x14 \<and> high = 0xEB then Some (Inr PataPi, b, h)
            else if mid = 0x3C \<and> high = 0xC3 then Some (Inr Sata, b, h)
            else Some (Inl ''unknown device type'', b, h)
      }))"

record drive =
  drive_id :: u8
  drive_bus :: u8
  drive_model :: string
  drive_serial :: string
  drive_sector_count :: u32

text \<open>The characters of a word of the answer, high byte first, without null characters; and \<^verbatim>\<open>trim\<close> on such characters.\<close>

definition word_chars :: "u16 \<Rightarrow> string" where
  "word_chars v = map (\<lambda>b. char_of (unat b)) (filter (\<lambda>b. b \<noteq> 0) [ucast (drop_bit 8 v), ucast v :: u8])"

definition is_whitespace :: "char \<Rightarrow> bool" where
  "is_whitespace c \<longleftrightarrow> (let n = (of_char c :: nat) in 9 \<le> n \<and> n \<le> 13 \<or> n = 32 \<or> n = 0x85 \<or> n = 0xA0)"

definition rust_trim :: "string \<Rightarrow> string" where
  "rust_trim s = rev (dropWhile is_whitespace (rev (dropWhile is_whitespace s)))"

definition drive_from_words :: "u8 \<Rightarrow> u8 \<Rightarrow> u16 list \<Rightarrow> drive" where
  "drive_from_words bus i buf =
     (let serial = concat (map (\<lambda>k. word_chars (buf ! k)) [10..<20]);
          model = concat (map (\<lambda>k. word_chars (buf ! k)) [27..<47]);
          w = (\<lambda>k. ucast (buf ! k) :: u64);
          sector_count = w 100 OR push_bit 16 (w 101) OR push_bit 32 (w 102) OR push_bit 48 (w 103);
          sector_count = (if sector_count = 0 then w 60 OR push_bit 16 (w 61) else sector_count) in
      \<lparr> drive_id = i, drive_bus = bus, drive_model = rust_trim model, drive_serial = rust_trim serial,
        drive_sector_count = ucast sector_count \<rparr>)"

type_synonym 'h ata_state = "ata_bus list \<times> 'h"

definition Drive_open :: "nat \<Rightarrow> 'h pio \<Rightarrow> u8 \<Rightarrow> u8 \<Rightarrow> 'h ata_state \<Rightarrow> (drive option \<times> 'h ata_state) rust" where
  "Drive_open fuel io bus i = (\<lambda>(buses, h). do {
     rust_assert (unat bus < length buses);
     (r, b, h) \<leftarrow> identify_drive fuel io i (buses ! unat bus, h);
     Some (case r of Inr (Pata buf) \<Rightarrow> Some (drive_from_words bus i buf) | _ \<Rightarrow> None, buses[unat bus := b], h)
   })"

fun open_drives :: "nat \<Rightarrow> 'h pio \<Rightarrow> (u8 \<times> u8) list \<Rightarrow> 'h ata_state \<Rightarrow> (drive list \<times> 'h ata_state) rust" where
  "open_drives fuel io [] st = Some ([], st)"
| "open_drives fuel io ((bus, disk) # rest) st = do {
     (d, st) \<leftarrow> Drive_open fuel io bus disk st;
     (ds, st) \<leftarrow> open_drives fuel io rest st;
     Some (case d of Some d \<Rightarrow> d # ds | None \<Rightarrow> ds, st)
   }"

definition enumerate_drives :: "nat \<Rightarrow> 'h pio \<Rightarrow> 'h ata_state \<Rightarrow> (drive list \<times> 'h ata_state) rust" where
  "enumerate_drives fuel io = open_drives fuel io [(0, 0), (0, 1), (1, 0), (1, 1)]"

text \<open>The loop over the blocks of the buffer; the blocks before an error keep what was read.\<close>

fun read_block_loop ::
    "nat \<Rightarrow> 'h pio \<Rightarrow> u8 \<Rightarrow> usize \<Rightarrow> nat list \<Rightarrow> u8 list \<Rightarrow> 'h bus_state \<Rightarrow> ((string + unit) \<times> u8 list \<times> 'h bus_state) rust" where
  "read_block_loop fuel io i offset [] buf st = Some (Inr (), buf, st)"
| "read_block_loop fuel io i offset (k # ks) buf st = do {
     let block_start = k * SECTOR_SIZE;
     (r, chunk, st) \<leftarrow> Bus_read fuel io i (ucast (offset + word_of_nat k)) (take SECTOR_SIZE (drop block_start buf)) st;
     let buf = take block_start buf @ chunk @ drop (block_start + SECTOR_SIZE) buf;
     case r of Inl e \<Rightarrow> Some (Inl e, buf, st) | Inr _ \<Rightarrow> read_block_loop fuel io i offset ks buf st
   }"

definition read_blocks ::
    "nat \<Rightarrow> 'h pio \<Rightarrow> drive \<Rightarrow> usize \<Rightarrow> u8 list \<Rightarrow> 'h ata_state \<Rightarrow> ((read_error + nat) \<times> u8 list \<times> 'h ata_state) rust" where
  "read_blocks fuel io d offset buffer = (\<lambda>(buses, h).
     if length buffer mod SECTOR_SIZE \<noteq> 0 then Some (Inl (InvalidBufferLength (word_of_nat (length buffer))), buffer, buses, h)
     else do {
       let block_count = length buffer div SECTOR_SIZE;
       rust_assert (unat (drive_bus d) < length buses);
       (r, buffer, b, h) \<leftarrow> read_block_loop fuel io (drive_id d) offset [0..<block_count] buffer (buses ! unat (drive_bus d), h);
       Some (case r of Inl e \<Rightarrow> Inl (OtherError e) | Inr _ \<Rightarrow> Inr (length buffer), buffer, buses[unat (drive_bus d) := b], h)
     })"


subsection \<open>Reading from a drive\<close>

text \<open>
  What the driver relies on of a drive in programmed input mode, by the ATA protocol. The drive is in one of three phases: busy
  (2), no longer busy but without data yet (1), or done (0). The status shows the busy bit in the first phase only, when its
  data-request bit means nothing; in the last phase it requests the transfer of the words it has. The phase goes down, at any time,
  and it is 0 once the clock has reached \<open>a_until\<close>. The registers and the command may be written only when the
  drive is neither busy nor has data, and the data port may be read only in phase 0. The command 0x20 with a sector count of one makes the
  256 words of the sector addressed available; the command, the selection of the other drive and the last word of a transfer start
  a new busy period, of at most \<open>B\<close> ticks. There is no error. The time-stamp counter advances from one reading to the next, by
  \<open>D\<close> at most, and \<open>B + D\<close> ticks take no longer than the second after which the driver gives up.
\<close>

record ata_view =
  a_count :: u8
  a_low :: u8
  a_mid :: u8
  a_high :: u8
  a_device :: u8
  a_data :: "u16 list"
  a_phase :: nat
  a_until :: nat
  a_clock :: nat
  a_media :: "bool \<Rightarrow> nat \<Rightarrow> u16 list"

definition lba :: "ata_view \<Rightarrow> nat" where
  "lba x = unat (a_low x) + 256 * unat (a_mid x) + 65536 * unat (a_high x) + 16777216 * unat (a_device x AND 15)"

definition second_drive :: "ata_view \<Rightarrow> bool" where
  "second_drive x = bit (a_device x) 4"

definition idle :: "ata_view \<Rightarrow> bool" where
  "idle x \<longleftrightarrow> a_phase x \<le> 1 \<and> a_data x = []"

definition busy_again :: "nat \<Rightarrow> ata_view \<Rightarrow> ata_view \<Rightarrow> bool" where
  "busy_again B x y \<longleftrightarrow> (\<exists>p u. u \<le> a_clock x + B \<and> y = x\<lparr> a_phase := p, a_until := u \<rparr>)"

definition ata_registers :: "'h pio \<Rightarrow> nat \<Rightarrow> u16 \<Rightarrow> ('h \<Rightarrow> ata_view) \<Rightarrow> bool" where
  "ata_registers io B base v \<longleftrightarrow> (\<forall>h x. idle (v h) \<longrightarrow>
     v (outb io (base + 2) x h) = (v h)\<lparr> a_count := x \<rparr> \<and> v (outb io (base + 3) x h) = (v h)\<lparr> a_low := x \<rparr>
     \<and> v (outb io (base + 4) x h) = (v h)\<lparr> a_mid := x \<rparr> \<and> v (outb io (base + 5) x h) = (v h)\<lparr> a_high := x \<rparr>
     \<and> (if bit x 4 = second_drive (v h) then v (outb io (base + 6) x h) = (v h)\<lparr> a_device := x \<rparr>
        else busy_again B ((v h)\<lparr> a_device := x \<rparr>) (v (outb io (base + 6) x h))))"

definition ata_data :: "'h pio \<Rightarrow> nat \<Rightarrow> u16 \<Rightarrow> ('h \<Rightarrow> ata_view) \<Rightarrow> bool" where
  "ata_data io B base v \<longleftrightarrow> (\<forall>h.
     (idle (v h) \<and> a_count (v h) = 1 \<longrightarrow>
        busy_again B ((v h)\<lparr> a_data := a_media (v h) (second_drive (v h)) (lba (v h)) \<rparr>) (v (outb io (base + 7) 0x20 h)))
     \<and> (\<forall>w ws. a_phase (v h) = 0 \<and> a_data (v h) = w # ws \<longrightarrow> (\<exists>h'. inw io base h = (w, h')
          \<and> (if ws = [] then busy_again B ((v h)\<lparr> a_data := [] \<rparr>) (v h') else v h' = (v h)\<lparr> a_data := ws \<rparr>)))
     \<and> (\<forall>second sector. length (a_media (v h) second sector) = 256))"

definition shows_status :: "u8 \<Rightarrow> ata_view \<Rightarrow> bool" where
  "shows_status s x \<longleftrightarrow> s \<noteq> 0 \<and> \<not> bit s 0 \<and> (bit s 7 \<longleftrightarrow> 1 < a_phase x) \<and> (a_phase x = 1 \<longrightarrow> \<not> bit s 3)
     \<and> (a_phase x = 0 \<longrightarrow> (bit s 3 \<longleftrightarrow> a_data x \<noteq> []))"

definition ata_status :: "'h pio \<Rightarrow> u16 \<Rightarrow> u16 \<Rightarrow> ('h \<Rightarrow> ata_view) \<Rightarrow> bool" where
  "ata_status io base control v \<longleftrightarrow> (\<forall>h. \<forall>port \<in> {control, base + 7}. \<exists>s h' p. inb io port h = (s, h')
     \<and> v h' = (v h)\<lparr> a_phase := p \<rparr> \<and> p \<le> a_phase (v h) \<and> (a_until (v h) \<le> a_clock (v h) \<longrightarrow> p = 0) \<and> shows_status s (v h'))"

definition tsc_runs :: "'h pio \<Rightarrow> nat \<Rightarrow> ('h \<Rightarrow> ata_view) \<Rightarrow> bool" where
  "tsc_runs io D v \<longleftrightarrow> 0 < tsc_period_fs io \<and> unat (tsc_period_fs io) < 10 ^ 15 \<and> (\<forall>h. a_clock (v h) + D < 2 ^ 64 \<longrightarrow>
     (\<exists>t h'. rdtsc io h = (t, h') \<and> v h' = (v h)\<lparr> a_clock := unat t \<rparr> \<and> a_clock (v h) < unat t \<and> unat t \<le> a_clock (v h) + D))"

definition ata_drive :: "'h pio \<Rightarrow> nat \<Rightarrow> nat \<Rightarrow> ata_bus \<Rightarrow> ('h \<Rightarrow> ata_view) \<Rightarrow> bool" where
  "ata_drive io D B b v \<longleftrightarrow> ata_registers io B (io_port_base b) v \<and> ata_data io B (io_port_base b) v
     \<and> ata_status io (io_port_base b) (control_port_base b) v \<and> tsc_runs io D v
     \<and> (B + D) * unat (tsc_period_fs io) \<le> 10 ^ 15"

text \<open>The drive is done in time; the bus knows which drive is selected, when it knows one.\<close>

definition due :: "nat \<Rightarrow> ata_view \<Rightarrow> bool" where
  "due B x \<longleftrightarrow> a_until x \<le> a_clock x + B"

definition selection_known :: "ata_bus \<Rightarrow> ata_view \<Rightarrow> bool" where
  "selection_known b x \<longleftrightarrow> (\<forall>i. selected_drive b = Some i \<longrightarrow> second_drive x = (i = 1))"

text \<open>What stays when at most \<open>k\<close> readings of the clock are made and nothing is written.\<close>

definition calm :: "nat \<Rightarrow> nat \<Rightarrow> ata_view \<Rightarrow> ata_view \<Rightarrow> bool" where
  "calm D k x y \<longleftrightarrow> a_data y = a_data x \<and> a_media y = a_media x \<and> a_device y = a_device x \<and> a_until y = a_until x
     \<and> a_phase y \<le> a_phase x \<and> a_clock x \<le> a_clock y \<and> a_clock y \<le> a_clock x + k * D"

definition kept :: "nat \<Rightarrow> nat \<Rightarrow> ata_view \<Rightarrow> ata_view \<Rightarrow> bool" where
  "kept D k x y \<longleftrightarrow> a_media y = a_media x \<and> a_clock y \<le> a_clock x + k * D"

lemma calm_refl [simp]: "calm D k x x"
  by (simp add: calm_def)

lemma calm_trans: "calm D j x y \<Longrightarrow> calm D k y z \<Longrightarrow> calm D (j + k) x z"
  by (auto simp: calm_def add_mult_distrib)

lemma calm_mono: "calm D j x y \<Longrightarrow> j \<le> k \<Longrightarrow> calm D k x y"
  unfolding calm_def using mult_le_mono1 [of j k D] by linarith

lemma calm_kept: "calm D k x y \<Longrightarrow> kept D k x y"
  by (simp add: calm_def kept_def)

lemma kept_refl [simp]: "kept D k x x"
  by (simp add: kept_def)

lemma kept_trans: "kept D j x y \<Longrightarrow> kept D k y z \<Longrightarrow> kept D (j + k) x z"
  by (auto simp: kept_def add_mult_distrib)

lemma kept_mono: "kept D j x y \<Longrightarrow> j \<le> k \<Longrightarrow> kept D k x y"
  unfolding kept_def using mult_le_mono1 [of j k D] by linarith

lemma kept_budget: "kept D j x y \<Longrightarrow> a_clock x + (j + k) * D < n \<Longrightarrow> a_clock y + k * D < n"
  by (auto simp: kept_def add_mult_distrib)

lemmas calm_budget = kept_budget [OF calm_kept]

lemma less_budget: "c + k * D < (n :: nat) \<Longrightarrow> j \<le> k \<Longrightarrow> c + j * D < n"
  using mult_le_mono1 [of j k D] by linarith

lemma calm_due: "calm D k x y \<Longrightarrow> due B x \<Longrightarrow> due B y"
  by (auto simp: calm_def due_def)

lemma busy_again_due: "busy_again B x y \<Longrightarrow> due B y"
  by (auto simp: busy_again_def due_def)

lemma Instant_now_calm:
  assumes "tsc_runs io D v" "a_clock (v h) + D < 2 ^ 64"
  shows "\<exists>t h'. Instant_now io h = (t, h') \<and> calm D 1 (v h) (v h') \<and> unat t = a_clock (v h') \<and> a_clock (v h) < unat t
    \<and> a_phase (v h') = a_phase (v h)"
proof -
  obtain t h' where "rdtsc io h = (t, h')" "v h' = (v h)\<lparr> a_clock := unat t \<rparr>" "a_clock (v h) < unat t" "unat t \<le> a_clock (v h) + D"
    using assms unfolding tsc_runs_def by meson
  then show ?thesis by (simp add: Instant_now_def calm_def)
qed

lemma Bus_status_shows:
  assumes "ata_status io base (control_port_base b) v"
  shows "\<exists>s h'. Bus_status io (b, h) = (s, b, h') \<and> calm D 0 (v h) (v h') \<and> a_clock (v h') = a_clock (v h)
    \<and> (a_until (v h) \<le> a_clock (v h) \<longrightarrow> a_phase (v h') = 0) \<and> shows_status s (v h')"
proof -
  obtain s h' p where "inb io (control_port_base b) h = (s, h')" "v h' = (v h)\<lparr> a_phase := p \<rparr>" "p \<le> a_phase (v h)"
    "a_until (v h) \<le> a_clock (v h) \<longrightarrow> p = 0" "shows_status s (v h')"
    using assms unfolding ata_status_def by blast
  then show ?thesis by (simp add: Bus_status_def calm_def)
qed

text \<open>The time since an instant, as long as the counter has not wrapped.\<close>

lemma duration_since_ticks:
  assumes "tsc_runs io D v" "start \<le> t"
  shows "duration_since io t start = Some ((unat t - unat start) * unat (tsc_period_fs io) div 10 ^ 6)"
proof (rule duration_since_eq [OF assms(2)])
  have "unat t - unat start < 2 ^ 64" using unsigned_less [of t, where 'a = nat] by simp
  then show "(unat t - unat start) * unat (tsc_period_fs io) < 2 ^ 64 * 10 ^ 15"
    using assms(1) by (intro mult_strict_mono) (auto simp: tsc_runs_def)
qed

text \<open>A poll for a condition that depends on the phase ends when the phase has it, at the latest when the drive is done.\<close>

lemma poll_status_ends:
  assumes a: "ata_drive io D B b v" and q: "Q 0"
    and check: "\<And>s x. shows_status s x \<Longrightarrow> a_data x = ws \<Longrightarrow> a_phase x \<le> q \<Longrightarrow> (check s \<longleftrightarrow> Q (a_phase x))"
  shows "a_data (v h) = ws \<Longrightarrow> a_phase (v h) \<le> q \<Longrightarrow> unat start \<le> a_clock (v h) \<Longrightarrow> a_until (v h) \<le> unat start + B \<Longrightarrow>
    a_until (v h) - a_clock (v h) < fuel \<Longrightarrow> a_clock (v h) + (a_until (v h) - a_clock (v h)) * D < 2 ^ 64 \<Longrightarrow>
    \<exists>h'. poll_status fuel io start check (b, h) = Some (Inr (), b, h') \<and> calm D (a_until (v h) - a_clock (v h)) (v h) (v h')
      \<and> Q (a_phase (v h'))"
proof (induction fuel arbitrary: h)
  case (Suc fuel)
  have laws: "tsc_runs io D v" "ata_status io (io_port_base b) (control_port_base b) v"
    "(B + D) * unat (tsc_period_fs io) \<le> 10 ^ 15" using a by (simp_all add: ata_drive_def)
  define k where "k = a_until (v h) - a_clock (v h)"
  obtain s h1 where s: "Bus_status io (b, h) = (s, b, h1)" "calm D 0 (v h) (v h1)" "a_clock (v h1) = a_clock (v h)"
    "a_until (v h) \<le> a_clock (v h) \<longrightarrow> a_phase (v h1) = 0" "shows_status s (v h1)"
    using Bus_status_shows [OF laws(2)] by blast
  have x: "a_data (v h1) = ws" "a_phase (v h1) \<le> q" "a_until (v h1) = a_until (v h)"
    using s(2) Suc.prems(1,2) by (simp_all add: calm_def)
  show ?case
  proof (cases "Q (a_phase (v h1))")
    case True
    then have "check s" using check [OF s(5)] x by simp
    then show ?thesis using s(1) True calm_mono [OF s(2), of k] by (simp add: k_def)
  next
    case False
    then have c: "\<not> check s" using check [OF s(5)] x by simp
    have lt: "a_clock (v h) < a_until (v h)" using False s(4) q by (metis not_le)
    then have "1 \<le> k" by (simp add: k_def)
    then have bd: "a_clock (v h1) + D < 2 ^ 64" using less_budget [OF Suc.prems(6) [folded k_def], of 1] s(3) by simp
    obtain t h2 where t: "Instant_now io h1 = (t, h2)" "calm D 1 (v h1) (v h2)" "unat t = a_clock (v h2)" "a_clock (v h1) < unat t"
      using Instant_now_calm [OF laws(1) bd] by blast
    have c2: "calm D 1 (v h) (v h2)" using calm_trans [OF s(2) t(2)] by simp
    have "unat t \<le> a_clock (v h) + D" using c2 t(3) by (simp add: calm_def)
    then have "unat t - unat start \<le> B + D" using lt Suc.prems(4) by linarith
    then have "(unat t - unat start) * unat (tsc_period_fs io) \<le> (B + D) * unat (tsc_period_fs io)" by (rule mult_le_mono1)
    then have "(unat t - unat start) * unat (tsc_period_fs io) div 10 ^ 6 \<le> 10 ^ 15 div 10 ^ 6" using laws(3) by (intro div_le_mono) linarith
    moreover have "start \<le> t" using t(4) s(3) Suc.prems(3) by (simp add: word_le_nat_alt)
    ultimately have since: "\<exists>d. duration_since io t start = Some d \<and> d \<le> 1000000000" using duration_since_ticks [OF laws(1)] by simp
    have u: "a_until (v h2) = a_until (v h)" using c2 by (simp add: calm_def)
    have k': "a_until (v h2) - a_clock (v h2) + 1 \<le> k" using u t(3,4) s(3) lt by (simp add: k_def)
    have "a_clock (v h2) + (a_until (v h2) - a_clock (v h2)) * D < 2 ^ 64"
      using calm_budget [OF c2, of "a_until (v h2) - a_clock (v h2)" "2 ^ 64"] less_budget [OF Suc.prems(6) [folded k_def] k'] by (simp add: add.commute)
    moreover have "a_data (v h2) = ws" "a_phase (v h2) \<le> q" "unat start \<le> a_clock (v h2)" "a_until (v h2) \<le> unat start + B"
      "a_until (v h2) - a_clock (v h2) < fuel"
      using c2 Suc.prems k' by (auto simp: calm_def k_def)
    ultimately obtain h' where h': "poll_status fuel io start check (b, h2) = Some (Inr (), b, h')"
      "calm D (a_until (v h2) - a_clock (v h2)) (v h2) (v h')" "Q (a_phase (v h'))" using Suc.IH by blast
    have "calm D k (v h) (v h')" by (rule calm_mono [OF calm_trans [OF c2 h'(2)]]) (use k' in simp)
    then show ?thesis using s(1) c t(1) since h'(1,3) by (auto simp: k_def)
  qed
qed simp

lemma Bus_poll_ends:
  assumes a: "ata_drive io D B b v" and due: "due B (v h)" and budget: "a_clock (v h) + (B + 1) * D < 2 ^ 64" and fuel: "B < fuel" and q: "Q 0"
    and check: "\<And>s x. shows_status s x \<Longrightarrow> a_data x = a_data (v h) \<Longrightarrow> a_phase x \<le> a_phase (v h) \<Longrightarrow> (check s \<longleftrightarrow> Q (a_phase x))"
  shows "\<exists>h'. Bus_poll fuel io check (b, h) = Some (Inr (), b, h') \<and> calm D (B + 1) (v h) (v h') \<and> Q (a_phase (v h'))"
proof -
  have c: "tsc_runs io D v" using a by (simp add: ata_drive_def)
  have b0: "a_clock (v h) + D < 2 ^ 64" using less_budget [OF budget, of 1] by simp
  obtain t h1 where t: "Instant_now io h = (t, h1)" "calm D 1 (v h) (v h1)" "unat t = a_clock (v h1)" "a_clock (v h) < unat t"
    using Instant_now_calm [OF c b0] by (elim exE conjE)
  have u: "a_until (v h1) \<le> unat t + B" using t due by (simp add: calm_def due_def)
  have "a_clock (v h1) + B * D < 2 ^ 64" using calm_budget [OF t(2), of B "2 ^ 64"] budget by (simp add: add.commute)
  then have b1: "a_clock (v h1) + (a_until (v h1) - a_clock (v h1)) * D < 2 ^ 64" by (rule less_budget) (use u t(3) in linarith)
  have le: "a_until (v h1) - a_clock (v h1) \<le> B" using u t(3) by linarith
  obtain h' where h': "poll_status fuel io t check (b, h1) = Some (Inr (), b, h')"
      "calm D (a_until (v h1) - a_clock (v h1)) (v h1) (v h')" "Q (a_phase (v h'))"
  proof -
    have "a_data (v h1) = a_data (v h)" "a_phase (v h1) \<le> a_phase (v h)" "unat t \<le> a_clock (v h1)" "a_until (v h1) - a_clock (v h1) < fuel"
      using t le fuel by (simp_all add: calm_def)
    from poll_status_ends [where check = check and Q = Q, OF a q check this(1,2,3) u this(4) b1] show thesis using that by blast
  qed
  have "calm D (B + 1) (v h) (v h')" by (rule calm_mono [OF calm_trans [OF t(2) h'(2)]]) (use le in simp)
  then show ?thesis using t(1) h'(1,3) by (auto simp: Bus_poll_def)
qed

lemma wait_since_ends:
  assumes c: "tsc_runs io D v"
  shows "unat start \<le> a_clock (v h) \<Longrightarrow> unat start + n * 10 ^ 6 - a_clock (v h) < fuel \<Longrightarrow> a_clock (v h) + (fuel + 1) * D < 2 ^ 64 \<Longrightarrow>
    \<exists>h'. wait_since fuel io start n h = Some h' \<and> calm D fuel (v h) (v h')"
proof (induction fuel arbitrary: h)
  case (Suc fuel)
  obtain t h1 where t: "Instant_now io h = (t, h1)" "calm D 1 (v h) (v h1)" "unat t = a_clock (v h1)" "a_clock (v h) < unat t"
    using Instant_now_calm [OF c, of h] Suc.prems(3) by auto
  have le: "start \<le> t" using t Suc.prems(1) by (simp add: word_le_nat_alt)
  define d where "d = (unat t - unat start) * unat (tsc_period_fs io)"
  have since: "duration_since io t start = Some (d div 10 ^ 6)" unfolding d_def by (rule duration_since_ticks [OF c le])
  show ?case
  proof (cases "d div 10 ^ 6 < n")
    case False
    have "calm D (Suc fuel) (v h) (v h1)" using t(2) by (rule calm_mono) simp
    then show ?thesis using t since False by simp
  next
    case True
    then have "d < n * 10 ^ 6" by (simp add: div_less_iff_less_mult)
    moreover have "unat t - unat start \<le> d" using c by (simp add: d_def tsc_runs_def word_less_nat_alt)
    ultimately have "unat start + n * 10 ^ 6 - a_clock (v h1) < fuel" using t Suc.prems by linarith
    moreover have "a_clock (v h1) + (fuel + 1) * D < 2 ^ 64"
      using calm_budget [OF t(2), of "fuel + 1"] Suc.prems(3) by (simp add: algebra_simps)
    ultimately obtain h' where h': "wait_since fuel io start n h1 = Some h'" "calm D fuel (v h1) (v h')"
      using Suc.IH [of h1] t Suc.prems(1) by auto
    then show ?thesis using t since True calm_trans [OF t(2) h'(2)] by auto
  qed
qed simp

lemma wait_since_mono: "wait_since f io start n h = Some h' \<Longrightarrow> f \<le> g \<Longrightarrow> wait_since g io start n h = Some h'"
proof (induction f arbitrary: g h)
  case (Suc f)
  then obtain g' where "g = Suc g'" "f \<le> g'" by (cases g) auto
  then show ?case using Suc by (auto simp: bind_eq_Some_conv split: if_splits prod.splits)
qed simp

lemma wait_nanos_calm:
  assumes c: "tsc_runs io D v" and budget: "a_clock (v h) + 400000003 * D < 2 ^ 64" and fuel: "400000000 < fuel"
  shows "\<exists>h'. wait_nanos fuel io 400 h = Some h' \<and> calm D 400000003 (v h) (v h')"
proof -
  have b0: "a_clock (v h) + D < 2 ^ 64" using less_budget [OF budget, of 1] by simp
  obtain t h1 where t: "Instant_now io h = (t, h1)" "calm D 1 (v h) (v h1)" "unat t = a_clock (v h1)"
    using Instant_now_calm [OF c b0] by (elim exE conjE)
  have b: "a_clock (v h1) + (400000001 + 1) * D < 2 ^ 64" using calm_budget [OF t(2), of 400000002 "2 ^ 64"] budget by simp
  obtain h' where h': "wait_since 400000001 io t 400 h1 = Some h'" "calm D 400000001 (v h1) (v h')"
    using wait_since_ends [OF c, of t h1 400 400000001] t(3) b by auto
  have "wait_since fuel io t 400 h1 = Some h'" using wait_since_mono [OF h'(1)] fuel by simp
  moreover have "calm D 400000003 (v h) (v h')" by (rule calm_mono [OF calm_trans [OF t(2) h'(2)]]) simp
  ultimately show ?thesis using t(1) by (simp add: wait_nanos_def)
qed

lemma ata_drive_select: "ata_drive io D B (b\<lparr> selected_drive := x \<rparr>) v = ata_drive io D B b v"
  by (simp add: ata_drive_def)

text \<open>The polls come in pairs: first until the drive is not busy, then for the data-request bit.\<close>

lemma poll_not_busy:
  assumes "ata_drive io D B b v" "due B (v h)" "a_clock (v h) + (B + 1) * D < 2 ^ 64" "B < fuel"
  shows "\<exists>h'. Bus_poll fuel io (\<lambda>s. \<not> busy s) (b, h) = Some (Inr (), b, h') \<and> calm D (B + 1) (v h) (v h') \<and> a_phase (v h') \<le> 1"
  by (rule Bus_poll_ends [OF assms, where Q = "\<lambda>p. p \<le> 1"]) (auto simp: shows_status_def bit_at_iff)

lemma poll_no_data:
  assumes "ata_drive io D B b v" "due B (v h)" "a_clock (v h) + (B + 1) * D < 2 ^ 64" "B < fuel" "idle (v h)"
  shows "\<exists>h'. Bus_poll fuel io (\<lambda>s. \<not> data_request s) (b, h) = Some (Inr (), b, h') \<and> calm D (B + 1) (v h) (v h') \<and> idle (v h')"
proof -
  have "\<exists>h'. Bus_poll fuel io (\<lambda>s. \<not> data_request s) (b, h) = Some (Inr (), b, h') \<and> calm D (B + 1) (v h) (v h') \<and> True"
  proof (rule Bus_poll_ends [OF assms(1-4), where Q = "\<lambda>p. True"])
    fix s x assume "shows_status s x" "a_data x = a_data (v h)" "a_phase x \<le> a_phase (v h)"
    then show "(\<not> data_request s) \<longleftrightarrow> True"
      using assms(5) by (cases "a_phase x = 0") (auto simp: shows_status_def bit_at_iff idle_def)
  qed simp
  then obtain h' where "Bus_poll fuel io (\<lambda>s. \<not> data_request s) (b, h) = Some (Inr (), b, h')" "calm D (B + 1) (v h) (v h')" by blast
  then show ?thesis using assms(5) by (auto simp: idle_def calm_def)
qed

lemma poll_data:
  assumes "ata_drive io D B b v" "due B (v h)" "a_clock (v h) + (B + 1) * D < 2 ^ 64" "B < fuel" "a_phase (v h) \<le> 1" "a_data (v h) \<noteq> []"
  shows "\<exists>h'. Bus_poll fuel io data_request (b, h) = Some (Inr (), b, h') \<and> calm D (B + 1) (v h) (v h') \<and> a_phase (v h') = 0"
proof (rule Bus_poll_ends [OF assms(1-4), where Q = "\<lambda>p. p = 0"])
  fix s x assume "shows_status s x" "a_data x = a_data (v h)" "a_phase x \<le> a_phase (v h)"
  then show "data_request s \<longleftrightarrow> a_phase x = 0"
    using assms(5,6) by (cases "a_phase x = 0") (auto simp: shows_status_def bit_at_iff)
qed simp

lemma two_polls:
  assumes a: "ata_drive io D B b v" and due: "due B (v h)" and budget: "a_clock (v h) + (2 * B + 2) * D < 2 ^ 64" and fuel: "B < fuel"
    and data: "a_data (v h) = []"
  shows "\<exists>h' h''. Bus_poll fuel io (\<lambda>s. \<not> busy s) (b, h) = Some (Inr (), b, h')
    \<and> Bus_poll fuel io (\<lambda>s. \<not> data_request s) (b, h') = Some (Inr (), b, h'') \<and> calm D (2 * B + 2) (v h) (v h'') \<and> idle (v h'')"
proof -
  obtain h1 where h1: "Bus_poll fuel io (\<lambda>s. \<not> busy s) (b, h) = Some (Inr (), b, h1)" "calm D (B + 1) (v h) (v h1)" "a_phase (v h1) \<le> 1"
    using poll_not_busy [OF a due less_budget [OF budget] fuel] by auto
  have b1: "a_clock (v h1) + (B + 1) * D < 2 ^ 64"
    by (rule calm_budget [OF h1(2)]) (use budget in \<open>simp add: algebra_simps\<close>)
  have i: "idle (v h1)" using h1(2,3) data by (simp add: idle_def calm_def)
  obtain h2 where h2: "Bus_poll fuel io (\<lambda>s. \<not> data_request s) (b, h1) = Some (Inr (), b, h2)" "calm D (B + 1) (v h1) (v h2)" "idle (v h2)"
    using poll_no_data [OF a calm_due [OF h1(2) due] b1 fuel i] by (elim exE conjE)
  have "calm D (2 * B + 2) (v h) (v h2)" by (rule calm_mono [OF calm_trans [OF h1(2) h2(2)]]) simp
  then show ?thesis using h1(1) h2(1,3) by (intro exI conjI)
qed

lemma second_drive_bit: "(i :: u8) < 2 \<Longrightarrow> bit (0xA0 OR push_bit 4 i) 4 = (i = 1)"
proof -
  assume "i < 2"
  then have "i = 0 \<or> i = 1" by unat_arith
  then show ?thesis by auto
qed

lemma select_drive_ready:
  assumes a: "ata_drive io D B b v" and due: "due B (v h)" and data: "a_data (v h) = []" and sel: "selection_known b (v h)" and i: "i < 2"
    and budget: "a_clock (v h) + (4 * B + 400000007) * D < 2 ^ 64" and fuel: "400000000 + B < fuel"
  shows "\<exists>h'. select_drive fuel io i (b, h) = Some (Inr (), b\<lparr> selected_drive := Some i \<rparr>, h') \<and> kept D (4 * B + 400000007) (v h) (v h')
    \<and> idle (v h') \<and> due B (v h') \<and> second_drive (v h') = (i = 1)"
proof -
  let ?b = "b\<lparr> selected_drive := Some i \<rparr>"
  have f: "B < fuel" "400000000 < fuel" using fuel by simp_all
  obtain h0 h1 where h1: "Bus_poll fuel io (\<lambda>s. \<not> busy s) (b, h) = Some (Inr (), b, h0)"
      "Bus_poll fuel io (\<lambda>s. \<not> data_request s) (b, h0) = Some (Inr (), b, h1)" and c1: "calm D (2 * B + 2) (v h) (v h1)" and i1: "idle (v h1)"
    using two_polls [OF a due less_budget [OF budget] f(1) data] by auto
  show ?thesis
  proof (cases "selected_drive b = Some i")
    case True
    then have "?b = b" by simp
    moreover have "second_drive (v h1) = (i = 1)" using sel True c1 by (simp add: selection_known_def second_drive_def calm_def)
    moreover have "kept D (4 * B + 400000007) (v h) (v h1)" by (rule kept_mono [OF calm_kept [OF c1]]) simp
    ultimately show ?thesis using h1 i1 calm_due [OF c1 due] True by (simp add: select_drive_def)
  next
    case False
    let ?h2 = "outb io (io_port_base b + 6) (0xA0 OR push_bit 4 i) h1"
    have a': "ata_drive io D B ?b v" using a by (simp add: ata_drive_select)
    have d1: "due B (v h1)" by (rule calm_due [OF c1 due])
    have "v ?h2 = (v h1)\<lparr> a_device := 0xA0 OR push_bit 4 i \<rparr> \<or> busy_again B ((v h1)\<lparr> a_device := 0xA0 OR push_bit 4 i \<rparr>) (v ?h2)"
      using a i1 unfolding ata_drive_def ata_registers_def by meson
    then have v2: "due B (v ?h2)" "a_data (v ?h2) = []" "a_device (v ?h2) = 0xA0 OR push_bit 4 i" "kept D 0 (v h1) (v ?h2)"
      using i1 d1 by (auto simp: busy_again_def due_def idle_def kept_def)
    have c2: "kept D (2 * B + 2) (v h) (v ?h2)" using kept_trans [OF calm_kept [OF c1] v2(4)] by simp
    have b2: "a_clock (v ?h2) + (2 * B + 400000005) * D < 2 ^ 64"
      by (rule kept_budget [OF c2]) (use budget in \<open>simp add: algebra_simps\<close>)
    have c: "tsc_runs io D v" using a by (simp add: ata_drive_def)
    have "a_clock (v ?h2) + 400000003 * D < 2 ^ 64" by (rule less_budget [OF b2]) simp
    from wait_nanos_calm [OF c this f(2)] obtain h3 where
      h3: "wait_nanos fuel io 400 ?h2 = Some h3" "calm D 400000003 (v ?h2) (v h3)" by (elim exE conjE)
    have b3: "a_clock (v h3) + (2 * B + 2) * D < 2 ^ 64"
      by (rule calm_budget [OF h3(2)]) (use b2 in \<open>simp add: algebra_simps\<close>)
    have d3: "a_data (v h3) = []" using h3(2) v2(2) by (simp add: calm_def)
    obtain h0' h4 where h4: "Bus_poll fuel io (\<lambda>s. \<not> busy s) (?b, h3) = Some (Inr (), ?b, h0')"
        "Bus_poll fuel io (\<lambda>s. \<not> data_request s) (?b, h0') = Some (Inr (), ?b, h4)" and c4: "calm D (2 * B + 2) (v h3) (v h4)" and i4: "idle (v h4)"
      using two_polls [OF a' calm_due [OF h3(2) v2(1)] b3 f(1) d3] by (elim exE conjE)
    have "kept D (4 * B + 400000007) (v h) (v h4)"
      by (rule kept_mono [OF kept_trans [OF c2 kept_trans [OF calm_kept [OF h3(2)] calm_kept [OF c4]]]]) simp
    moreover have "due B (v h4)" by (rule calm_due [OF c4 calm_due [OF h3(2) v2(1)]])
    moreover have "second_drive (v h4) = (i = 1)" using c4 h3(2) v2(3) second_drive_bit [OF i] by (simp add: calm_def second_drive_def)
    ultimately show ?thesis using h1 h3(1) h4 i4 False by (simp add: select_drive_def)
  qed
qed

subsection \<open>Addresses\<close>

lemma unat_byte: "unat (ucast (drop_bit n (w :: u32)) :: u8) = unat w div 2 ^ n mod 256"
  by (simp only: unsigned_ucast_eq unat_drop_bit take_bit_eq_mod) simp

lemma drive_bits: "i < 2 \<Longrightarrow> (0xE0 OR push_bit 4 i) AND 15 = (0 :: u8) \<and> bit (0xE0 OR push_bit 4 i) 4 = (i = 1)"
proof -
  assume "i < 2"
  then have "i = 0 \<or> i = 1" by unat_arith
  then show ?thesis by auto
qed

lemma device_register:
  assumes "unat (x :: u8) < 16" "i < 2"
  shows "unat ((x OR (0xE0 OR push_bit 4 i)) AND 15) = unat x" "bit (x OR (0xE0 OR push_bit 4 i)) 4 = (i = 1)"
proof -
  have "take_bit 4 x = x" using assms(1) by (simp add: word_unat_eq_iff unat_mod take_bit_eq_mod)
  moreover have "take_bit 4 x = x AND 15" by (simp add: take_bit_eq_mask mask_eq_exp_minus_1)
  ultimately have x: "x AND 15 = x" "\<not> bit x 4" by (simp, metis bit_take_bit_iff less_irrefl)
  show "unat ((x OR (0xE0 OR push_bit 4 i)) AND 15) = unat x"
    using drive_bits [OF assms(2)] x by (simp add: bit.conj_disj_distrib2)
  show "bit (x OR (0xE0 OR push_bit 4 i)) 4 = (i = 1)"
    using drive_bits [OF assms(2)] x by (simp add: bit_or_iff)
qed

lemma split_bytes: "n mod 256 + 256 * (n div 256 mod 256) + 65536 * (n div 65536 mod 256) + 16777216 * (n div 16777216) = (n :: nat)"
proof -
  have e: "n div 65536 = n div 256 div 256" "n div 16777216 = n div 256 div 256 div 256" by (simp_all flip: div_mult2_eq)
  show ?thesis unfolding e
    using div_mult_mod_eq [of n 256] div_mult_mod_eq [of "n div 256" 256] div_mult_mod_eq [of "n div 256 div 256" 256] by linarith
qed

text \<open>The registers after they are written; the device register keeps the selection, so the drive does not become busy.\<close>

lemma write_registers_lba:
  assumes r: "ata_registers io B base v" and block: "unat block < 2 ^ 28" and i: "i < 2" and idle: "idle (v h)" and sel: "second_drive (v h) = (i = 1)"
  shows "\<exists>x. v (write_registers io base i block h) = x \<and> lba x = unat block \<and> second_drive x = (i = 1) \<and> a_count x = 1 \<and> idle x
    \<and> a_media x = a_media (v h) \<and> a_clock x = a_clock (v h)"
proof -
  have bytes: "to_le_bytes block ! k = ucast (drop_bit (8 * k) block)" if "k < 4" for k using that by (simp add: to_le_bytes_def)
  define d where "d = to_le_bytes block ! 3"
  have u: "unat d = unat block div 2 ^ 24" using block by (simp add: d_def bytes unat_byte)
  then have "unat d < 16" using block by simp
  note dev = device_register [OF this i]
  let ?x = "(v h)\<lparr> a_count := 1, a_low := to_le_bytes block ! 0, a_mid := to_le_bytes block ! 1, a_high := to_le_bytes block ! 2,
    a_device := d OR (0xE0 OR push_bit 4 i) \<rparr>"
  have "v (write_registers io base i block h) = ?x"
    using r idle sel dev(2) by (simp add: write_registers_def ata_registers_def Let_def d_def [symmetric] idle_def second_drive_def)
  moreover have "lba ?x = unat block"
    using dev u split_bytes [of "unat block"] bytes [of 0] bytes [of 1] bytes [of 2] unat_byte [of 0 block] unat_byte [of 8 block] unat_byte [of 16 block]
    by (simp add: lba_def)
  ultimately show ?thesis using dev(2) idle by (simp add: idle_def second_drive_def)
qed

subsection \<open>Commands and sectors\<close>

lemma Bus_status_ok:
  assumes "ata_status io base (control_port_base b) v"
  shows "\<exists>s h'. Bus_status io (b, h) = (s, b, h') \<and> calm D 0 (v h) (v h') \<and> s \<noteq> 0 \<and> \<not> status_error s"
proof -
  obtain s h' where "Bus_status io (b, h) = (s, b, h')" "calm D 0 (v h) (v h')" "shows_status s (v h')"
    using Bus_status_shows [OF assms] by blast
  then show ?thesis by (simp add: shows_status_def bit_at_iff)
qed

lemma write_command_reads:
  assumes a: "ata_drive io D B b v" and block: "unat block < 2 ^ 28" and i: "i < 2" and idle: "idle (v h)" and sel: "second_drive (v h) = (i = 1)"
    and budget: "a_clock (v h) + (2 * B + 400000005) * D < 2 ^ 64" and fuel: "400000000 + B < fuel"
  shows "\<exists>h'. write_command fuel io i block 0x20 (b, h) = Some (Inr (), b, h') \<and> kept D (2 * B + 400000005) (v h) (v h')
    \<and> a_data (v h') = a_media (v h) (i = 1) (unat block) \<and> a_phase (v h') = 0 \<and> due B (v h') \<and> second_drive (v h') = (i = 1)"
proof -
  have laws: "ata_registers io B (io_port_base b) v" "ata_data io B (io_port_base b) v"
      "ata_status io (io_port_base b) (control_port_base b) v" "tsc_runs io D v"
    using a by (simp_all add: ata_drive_def)
  have f: "B < fuel" "400000000 < fuel" using fuel by simp_all
  define h1 where "h1 = write_registers io (io_port_base b) i block h"
  have r: "lba (v h1) = unat block" "second_drive (v h1) = (i = 1)" "a_count (v h1) = 1" "Ata.idle (v h1)" "a_media (v h1) = a_media (v h)"
    "a_clock (v h1) = a_clock (v h)"
    using write_registers_lba [OF laws(1) block i idle sel] by (auto simp: h1_def)
  let ?h2 = "outb io (io_port_base b + 7) 0x20 h1"
  let ?ws = "a_media (v h) (i = 1) (unat block)"
  have "busy_again B ((v h1)\<lparr> a_data := ?ws \<rparr>) (v ?h2)"
    using laws(2) [unfolded ata_data_def, THEN spec, of h1] r by simp
  then have v2: "due B (v ?h2)" "a_data (v ?h2) = ?ws" "second_drive (v ?h2) = (i = 1)" "kept D 0 (v h) (v ?h2)"
    using r by (auto simp: busy_again_def due_def kept_def second_drive_def)
  have b2: "a_clock (v ?h2) + (2 * B + 400000005) * D < 2 ^ 64" by (rule kept_budget [OF v2(4)]) (use budget in simp)
  have "a_clock (v ?h2) + 400000003 * D < 2 ^ 64" by (rule less_budget [OF b2]) simp
  from wait_nanos_calm [OF laws(4) this f(2)] obtain h3 where
    h3: "wait_nanos fuel io 400 ?h2 = Some h3" "calm D 400000003 (v ?h2) (v h3)" by (elim exE conjE)
  obtain s4 h4 where h4: "Bus_status io (b, h3) = (s4, b, h4)" "calm D 0 (v h3) (v h4)" using Bus_status_shows [OF laws(3)] by blast
  have "calm D 0 (v h4) (v h5)" if "inb io (io_port_base b + 7) h4 = (s5, h5)" for s5 h5
    using laws(3) [unfolded ata_status_def, rule_format, of "io_port_base b + 7" h4] that by (auto simp: calm_def)
  then obtain s5 h5 where h5: "inb io (io_port_base b + 7) h4 = (s5, h5)" "calm D 0 (v h4) (v h5)" by (cases "inb io (io_port_base b + 7) h4") blast
  obtain s6 h6 where h6: "Bus_status io (b, h5) = (s6, b, h6)" "calm D 0 (v h5) (v h6)" "s6 \<noteq> 0"
    using Bus_status_ok [OF laws(3)] by blast
  obtain s7 h7 where h7: "Bus_status io (b, h6) = (s7, b, h7)" "calm D 0 (v h6) (v h7)" "\<not> status_error s7"
    using Bus_status_ok [OF laws(3)] by blast
  have c7: "calm D 400000003 (v ?h2) (v h7)"
    using calm_trans [OF h3(2) calm_trans [OF h4(2) calm_trans [OF h5(2) calm_trans [OF h6(2) h7(2)]]]] by simp
  have b7: "a_clock (v h7) + (2 * B + 2) * D < 2 ^ 64" by (rule calm_budget [OF c7]) (use b2 in \<open>simp add: algebra_simps\<close>)
  have "a_clock (v h7) + (B + 1) * D < 2 ^ 64" by (rule less_budget [OF b7]) simp
  from poll_not_busy [OF a calm_due [OF c7 v2(1)] this f(1)] obtain h8 where
    h8: "Bus_poll fuel io (\<lambda>s. \<not> busy s) (b, h7) = Some (Inr (), b, h8)" "calm D (B + 1) (v h7) (v h8)" "a_phase (v h8) \<le> 1" by (elim exE conjE)
  have c8: "calm D (400000003 + (B + 1)) (v ?h2) (v h8)" by (rule calm_trans [OF c7 h8(2)])
  have "length ?ws = 256" using laws(2) by (simp add: ata_data_def)
  then have ne: "a_data (v h8) \<noteq> []" using c8 v2(2) by (auto simp: calm_def)
  have "a_clock (v h8) + (B + 1) * D < 2 ^ 64" by (rule calm_budget [OF h8(2)]) (use b7 in \<open>simp add: algebra_simps\<close>)
  from poll_data [OF a calm_due [OF c8 v2(1)] this f(1) h8(3) ne] obtain h9 where
    h9: "Bus_poll fuel io data_request (b, h8) = Some (Inr (), b, h9)" "calm D (B + 1) (v h8) (v h9)" "a_phase (v h9) = 0" by (elim exE conjE)
  have c9: "calm D (400000003 + (B + 1) + (B + 1)) (v ?h2) (v h9)" by (rule calm_trans [OF c8 h9(2)])
  have "kept D (2 * B + 400000005) (v h) (v h9)" by (rule kept_mono [OF kept_trans [OF v2(4) calm_kept [OF c9]]]) simp
  moreover have "write_command fuel io i block 0x20 (b, h) = Some (Inr (), b, h9)"
    using h3(1) h4(1) h5(1) h6(1,3) h7(1,3) h8(1) h9(1) by (simp add: write_command_def h1_def Let_def)
  ultimately show ?thesis
    using c9 v2 h9(3) calm_due [OF c9 v2(1)] by (intro exI [of _ h9] conjI) (simp_all add: calm_def second_drive_def)
qed

text \<open>All words of a transfer are read in order; the last one may make the drive busy again.\<close>

lemma read_data_words_all:
  assumes d: "ata_data io B (io_port_base b) v"
  shows "a_data (v h) = ws \<Longrightarrow> a_phase (v h) = 0 \<Longrightarrow> due B (v h) \<Longrightarrow> \<exists>h'. read_data_words (length ws) io (b, h) = (ws, b, h')
    \<and> a_data (v h') = [] \<and> due B (v h') \<and> second_drive (v h') = second_drive (v h) \<and> kept D 0 (v h) (v h')"
proof (induction ws arbitrary: h)
  case Nil
  then show ?case by (simp add: kept_def)
next
  case (Cons w ws)
  obtain h1 where h1: "inw io (io_port_base b) h = (w, h1)"
      "if ws = [] then busy_again B ((v h)\<lparr> a_data := [] \<rparr>) (v h1) else v h1 = (v h)\<lparr> a_data := ws \<rparr>"
    using d Cons.prems unfolding ata_data_def by meson
  show ?case
  proof (cases "ws = []")
    case True
    then show ?thesis using h1 by (auto simp: read_data_def busy_again_def due_def kept_def second_drive_def)
  next
    case False
    then have v1: "v h1 = (v h)\<lparr> a_data := ws \<rparr>" using h1(2) by simp
    then have "a_data (v h1) = ws" "a_phase (v h1) = 0" "due B (v h1)" using Cons.prems by (simp_all add: due_def)
    from Cons.IH [OF this] obtain h' where "read_data_words (length ws) io (b, h1) = (ws, b, h')"
      "a_data (v h') = []" "due B (v h')" "second_drive (v h') = second_drive (v h1)" "kept D 0 (v h1) (v h')" by (elim exE conjE)
    then show ?thesis using h1(1) v1 by (simp add: read_data_def kept_def second_drive_def)
  qed
qed

definition sector_bytes :: "(bool \<Rightarrow> nat \<Rightarrow> u16 list) \<Rightarrow> bool \<Rightarrow> nat \<Rightarrow> u8 list" where
  "sector_bytes media second n = concat (map to_le_bytes (media second n))"

text \<open>The state between two sectors.\<close>

definition between :: "nat \<Rightarrow> ata_bus \<Rightarrow> ata_view \<Rightarrow> bool" where
  "between B b x \<longleftrightarrow> a_data x = [] \<and> due B x \<and> selection_known b x"

lemma Bus_read_sector:
  assumes a: "ata_drive io D B b v" and block: "unat block < 2 ^ 28" and i: "i < 2" and buf: "length buf = 512"
    and start: "between B b (v h)" and budget: "a_clock (v h) + (6 * B + 800000012) * D < 2 ^ 64" and fuel: "400000000 + B < fuel"
  shows "\<exists>h'. Bus_read fuel io i block buf (b, h)
      = Some (Inr (), sector_bytes (a_media (v h)) (i = 1) (unat block), b\<lparr> selected_drive := Some i \<rparr>, h')
    \<and> kept D (6 * B + 800000012) (v h) (v h') \<and> between B (b\<lparr> selected_drive := Some i \<rparr>) (v h')"
proof -
  let ?b = "b\<lparr> selected_drive := Some i \<rparr>" and ?ws = "a_media (v h) (i = 1) (unat block)"
  have a': "ata_drive io D B ?b v" using a by (simp add: ata_drive_select)
  have laws: "ata_data io B (io_port_base ?b) v" "ata_status io (io_port_base ?b) (control_port_base ?b) v"
    using a' by (simp_all add: ata_drive_def)
  note st = start [unfolded between_def]
  have "a_clock (v h) + (4 * B + 400000007) * D < 2 ^ 64" by (rule less_budget [OF budget]) simp
  with select_drive_ready [OF a _ _ _ i _ fuel, of h] st obtain h1 where
    h1: "select_drive fuel io i (b, h) = Some (Inr (), ?b, h1)" "kept D (4 * B + 400000007) (v h) (v h1)" "idle (v h1)" "due B (v h1)"
      "second_drive (v h1) = (i = 1)" by blast
  have "a_clock (v h1) + (2 * B + 400000005) * D < 2 ^ 64" by (rule kept_budget [OF h1(2)]) (use budget in \<open>simp add: algebra_simps\<close>)
  from write_command_reads [OF a' block i h1(3,5) this fuel] obtain h2 where
    h2: "write_command fuel io i block 0x20 (?b, h1) = Some (Inr (), ?b, h2)" "kept D (2 * B + 400000005) (v h1) (v h2)"
      "a_data (v h2) = ?ws" "a_phase (v h2) = 0" "due B (v h2)" "second_drive (v h2) = (i = 1)"
    using h1(2) by (auto simp: kept_def)
  have l: "length ?ws = 256" using laws(1) by (simp add: ata_data_def)
  obtain h3 where h3: "read_data_words 256 io (?b, h2) = (?ws, ?b, h3)" "a_data (v h3) = []" "due B (v h3)"
      "second_drive (v h3) = second_drive (v h2)" "kept D 0 (v h2) (v h3)"
    using read_data_words_all [OF laws(1) h2(3,4,5), of D] l by auto
  obtain s h4 where h4: "Bus_status io (?b, h3) = (s, ?b, h4)" "calm D 0 (v h3) (v h4)" "\<not> status_error s"
    using Bus_status_ok [OF laws(2)] by blast
  have "kept D (6 * B + 800000012) (v h) (v h4)"
    by (rule kept_mono [OF kept_trans [OF h1(2) kept_trans [OF h2(2) kept_trans [OF h3(5) calm_kept [OF h4(2)]]]]]) simp
  moreover have "between B ?b (v h4)"
    using h4(2) h3(2,4) h2(6) calm_due [OF h4(2) h3(3)] by (simp add: between_def calm_def selection_known_def second_drive_def)
  moreover have "Bus_read fuel io i block buf (b, h) = Some (Inr (), sector_bytes (a_media (v h)) (i = 1) (unat block), ?b, h4)"
    using h1(1) h2(1) h3(1) h4 buf by (simp add: Bus_read_def sector_bytes_def)
  ultimately show ?thesis by blast
qed

lemma length_sector_bytes: "length (media second n) = 256 \<Longrightarrow> length (sector_bytes media second n) = 512"
  by (simp add: sector_bytes_def length_concat o_def sum_list_triv)

text \<open>The loop has read the sectors before the current one, and the rest of the buffer is as it was.\<close>

lemma read_block_loop_sectors:
  assumes fuel: "400000000 + B < fuel" and i: "i < 2" and blocks: "unat offset + n \<le> 2 ^ 28"
  shows "ata_drive io D B b v \<Longrightarrow> between B b (v h) \<Longrightarrow> j \<le> n \<Longrightarrow> length buf = n * 512 \<Longrightarrow>
    a_clock (v h) + (n - j) * (6 * B + 800000012) * D < 2 ^ 64 \<Longrightarrow>
    \<exists>b' h'. read_block_loop fuel io i offset [j..<n] buf (b, h)
        = Some (Inr (), take (j * 512) buf @ concat (map (\<lambda>k. sector_bytes (a_media (v h)) (i = 1) (unat offset + k)) [j..<n]), b', h')
      \<and> kept D ((n - j) * (6 * B + 800000012)) (v h) (v h') \<and> between B b' (v h')"
proof (induction "n - j" arbitrary: j b h buf)
  case 0
  then show ?case by simp
next
  case (Suc m)
  then have j: "j < n" and nj: "n - j = Suc (n - Suc j)" by simp_all
  let ?S = "sector_bytes (a_media (v h)) (i = 1)"
  let ?block = "ucast (offset + word_of_nat j) :: u32"
  have "unat (offset + word_of_nat j) = unat offset + j"
    using blocks j by (subst unat_plus_if') (simp add: unat_of_nat)
  then have block: "unat ?block = unat offset + j"
    using blocks j by (simp add: unsigned_ucast_eq take_bit_eq_mod)
  have chunk: "length (take 512 (drop (j * 512) buf)) = 512"
    using Suc.prems(4) j by (simp add: nat_le_iff_add algebra_simps)
  have budget: "a_clock (v h) + (6 * B + 800000012) * D < 2 ^ 64" using Suc.prems(5) by (simp add: nj algebra_simps)
  obtain h1 where h1: "Bus_read fuel io i ?block (take 512 (drop (j * 512) buf)) (b, h)
        = Some (Inr (), ?S (unat offset + j), b\<lparr> selected_drive := Some i \<rparr>, h1)" "kept D (6 * B + 800000012) (v h) (v h1)"
      "between B (b\<lparr> selected_drive := Some i \<rparr>) (v h1)"
    using Bus_read_sector [OF Suc.prems(1) _ i chunk Suc.prems(2) budget fuel, of ?block] block blocks j by auto
  let ?b = "b\<lparr> selected_drive := Some i \<rparr>"
  define C where "C = take (j * 512) buf @ ?S (unat offset + j) @ drop (j * 512 + 512) buf"
  have m: "a_media (v h1) = a_media (v h)" using h1(2) by (simp add: kept_def)
  have "length (a_media (v h) (i = 1) (unat offset + j)) = 256" using Suc.prems(1) by (simp add: ata_drive_def ata_data_def)
  then have l: "length (?S (unat offset + j)) = 512" by (rule length_sector_bytes)
  have len: "j * 512 + 512 \<le> length buf" using Suc.prems(4) mult_le_mono1 [of "Suc j" n 512] j by simp
  then have lbuf: "length C = n * 512" using Suc.prems(4) l by (simp add: C_def)
  have "a_clock (v h1) + (n - Suc j) * (6 * B + 800000012) * D < 2 ^ 64"
    using kept_budget [OF h1(2), of "(n - Suc j) * (6 * B + 800000012)" "2 ^ 64"] Suc.prems(5) by (simp add: nj algebra_simps)
  moreover have "m = n - Suc j" "ata_drive io D B ?b v" using Suc.hyps(2) Suc.prems(1) by (simp_all add: ata_drive_select)
  ultimately obtain b' h' where r: "read_block_loop fuel io i offset [Suc j..<n] C (?b, h1)
        = Some (Inr (), take (Suc j * 512) C @ concat (map (\<lambda>k. ?S (unat offset + k)) [Suc j..<n]), b', h')"
      "kept D ((n - Suc j) * (6 * B + 800000012)) (v h1) (v h')" "between B b' (v h')"
    using Suc.hyps(1) [of "Suc j" ?b h1 C] h1(3) m lbuf j by auto
  have t: "take (Suc j * 512) C = take (j * 512) buf @ ?S (unat offset + j)" using l len by (simp add: C_def)
  have step: "read_block_loop fuel io i offset [j..<n] buf (b, h) = read_block_loop fuel io i offset [Suc j..<n] C (?b, h1)"
    using h1(1) j by (simp add: upt_conv_Cons SECTOR_SIZE_def C_def Let_def)
  have "kept D ((n - j) * (6 * B + 800000012)) (v h) (v h')"
    by (rule kept_mono [OF kept_trans [OF h1(2) r(2)]]) (simp add: nj)
  moreover have "read_block_loop fuel io i offset [j..<n] buf (b, h)
      = Some (Inr (), take (j * 512) buf @ concat (map (\<lambda>k. ?S (unat offset + k)) [j..<n]), b', h')"
    unfolding step r(1) t using j by (simp add: upt_conv_Cons)
  ultimately show ?case using r(3) by blast
qed

text \<open>
  C10: On a drive that behaves as \<open>ata_drive\<close> says, busy for a while after every command and at the start too, \<open>read_blocks\<close> with a
  buffer for \<open>n\<close> sectors neither panics, hangs nor fails: it returns the length of the buffer, and the buffer holds the bytes of the \<open>n\<close>
  sectors from the offset on, in order, from the drive that was asked for, for every offset within the 28 bits of a block address. The
  media is not changed and no data is left pending. Each poll goes on until the drive is ready, which takes at most \<open>B\<close> ticks and
  less than the second allowed; fuel of 400 million rounds more than \<open>B\<close> is enough, whatever the period of the time-stamp counter.
\<close>

theorem read_blocks_reads_sectors:
  assumes "ata_drive io D B (buses ! unat (drive_bus d)) v" "unat (drive_bus d) < length buses" "drive_id d < 2"
    and "length buffer = n * 512" "unat offset + n \<le> 2 ^ 28" "400000000 + B < fuel"
    and "between B (buses ! unat (drive_bus d)) (v h)" "a_clock (v h) + n * (6 * B + 800000012) * D < 2 ^ 64"
  shows "\<exists>b' h'. read_blocks fuel io d offset buffer (buses, h)
      = Some (Inr (n * 512), concat (map (\<lambda>k. sector_bytes (a_media (v h)) (drive_id d = 1) (unat offset + k)) [0..<n]),
          buses[unat (drive_bus d) := b'], h')
    \<and> a_media (v h') = a_media (v h) \<and> between B b' (v h')"
proof -
  let ?S = "\<lambda>k. sector_bytes (a_media (v h)) (drive_id d = 1) (unat offset + k)"
  obtain b' h' where r: "read_block_loop fuel io (drive_id d) offset [0..<n] buffer (buses ! unat (drive_bus d), h)
      = Some (Inr (), concat (map ?S [0..<n]), b', h')" "kept D (n * (6 * B + 800000012)) (v h) (v h')" "between B b' (v h')"
    using read_block_loop_sectors [OF assms(6,3,5,1,7), of 0 buffer] assms(4,8) by auto
  have len: "length (?S k) = 512" for k using assms(1) by (intro length_sector_bytes) (simp add: ata_drive_def ata_data_def)
  have "length (concat (map ?S [0..<n])) = n * 512" by (simp add: length_concat o_def len sum_list_triv)
  then show ?thesis using r assms(2,4) by (auto simp: read_blocks_def SECTOR_SIZE_def kept_def)
qed

text \<open>A drive on the first bus whose sectors hold their own number, and which is busy for three ticks after a command.\<close>

definition sample_media :: "bool \<Rightarrow> nat \<Rightarrow> u16 list" where
  "sample_media second n = replicate 256 (word_of_nat n)"

definition sample_pio :: "ata_view pio" where
  "sample_pio = \<lparr> inb = (\<lambda>p x. if 1 < a_phase x \<and> a_clock x < a_until x then (0x88, x)
       else (if a_data x = [] then 0x40 else 0x48, x\<lparr> a_phase := 0 \<rparr>)),
     inw = (\<lambda>p x. case a_data x of [] \<Rightarrow> (0, x) 
       | w # ws \<Rightarrow> (w, if ws = [] then x\<lparr> a_data := [], a_phase := 1, a_until := a_clock x + 1 \<rparr> else x\<lparr> a_data := ws \<rparr>)),
     outb = (\<lambda>p b x. if p = 0x1F2 then x\<lparr> a_count := b \<rparr> else if p = 0x1F3 then x\<lparr> a_low := b \<rparr> else if p = 0x1F4 then x\<lparr> a_mid := b \<rparr>
       else if p = 0x1F5 then x\<lparr> a_high := b \<rparr> 
       else if p = 0x1F6 then if bit b 4 = second_drive x then x\<lparr> a_device := b \<rparr> else x\<lparr> a_device := b, a_phase := 2, a_until := a_clock x + 2 \<rparr>
       else if p = 0x1F7 then x\<lparr> a_data := sample_media (bit (a_device x) 4) (lba x), a_phase := 2, a_until := a_clock x + 3 \<rparr> else x),
     rdtsc = (\<lambda>x. (word_of_nat (a_clock x + 1), x\<lparr> a_clock := a_clock x + 1 \<rparr>)), tsc_period_fs = 1000000 \<rparr>"

definition sample_view :: ata_view where
  "sample_view = \<lparr> a_count = 0, a_low = 0, a_mid = 0, a_high = 0, a_device = 0, a_data = [], a_phase = 2, a_until = 2, a_clock = 0,
     a_media = sample_media \<rparr>"

definition sample_drive :: drive where
  "sample_drive = \<lparr> drive_id = 1, drive_bus = 0, drive_model = ''disk'', drive_serial = ''1'', drive_sector_count = 100 \<rparr>"

lemma u64_next: "c < 18446744073709551615 \<Longrightarrow> unat (1 + word_of_nat c :: u64) = Suc c"
  by (subst unat_plus_if') (simp add: unat_of_nat)

abbreviation sample_see :: "ata_view \<Rightarrow> ata_view" where
  "sample_see x \<equiv> x\<lparr> a_media := sample_media \<rparr>"

lemma busy_againI: "u \<le> a_clock x + B \<Longrightarrow> y = x\<lparr> a_phase := p, a_until := u \<rparr> \<Longrightarrow> busy_again B x y"
  by (auto simp: busy_again_def)

lemma sample_busy:
  "busy_again 3 (sample_see (h\<lparr> a_device := b \<rparr>)) (sample_see (h\<lparr> a_device := b, a_phase := 2, a_until := Suc (Suc (a_clock h)) \<rparr>))"
  "busy_again 3 (sample_see (h\<lparr> a_data := ws \<rparr>)) (sample_see (h\<lparr> a_data := ws, a_phase := 2, a_until := a_clock h + 3 \<rparr>))"
  "busy_again 3 (sample_see (h\<lparr> a_data := [] \<rparr>)) (sample_see (h\<lparr> a_data := [], a_phase := 1, a_until := Suc (a_clock h) \<rparr>))"
proof -
  show "busy_again 3 (sample_see (h\<lparr> a_device := b \<rparr>)) (sample_see (h\<lparr> a_device := b, a_phase := 2, a_until := Suc (Suc (a_clock h)) \<rparr>))"
    by (rule busy_againI [where u = "Suc (Suc (a_clock h))" and p = 2]) simp_all
  show "busy_again 3 (sample_see (h\<lparr> a_data := ws \<rparr>)) (sample_see (h\<lparr> a_data := ws, a_phase := 2, a_until := a_clock h + 3 \<rparr>))"
    by (rule busy_againI [where u = "a_clock h + 3" and p = 2]) simp_all
  show "busy_again 3 (sample_see (h\<lparr> a_data := [] \<rparr>)) (sample_see (h\<lparr> a_data := [], a_phase := 1, a_until := Suc (a_clock h) \<rparr>))"
    by (rule busy_againI [where u = "Suc (a_clock h)" and p = 1]) simp_all
qed

lemma sample_see_simps:
  "(sample_see h)\<lparr> a_device := b \<rparr> = sample_see (h\<lparr> a_device := b \<rparr>)" "(sample_see h)\<lparr> a_data := ws \<rparr> = sample_see (h\<lparr> a_data := ws \<rparr>)"
  by simp_all

lemma sample_status:
  "\<exists>s h' p. inb sample_pio port h = (s, h') \<and> sample_see h' = (sample_see h)\<lparr> a_phase := p \<rparr> \<and> p \<le> a_phase (sample_see h)
     \<and> (a_until (sample_see h) \<le> a_clock (sample_see h) \<longrightarrow> p = 0) \<and> shows_status s (sample_see h')"
proof (cases "1 < a_phase h \<and> a_clock h < a_until h")
  case True
  then show ?thesis
    by (intro exI [of _ "0x88"] exI [of _ h] exI [of _ "a_phase h"]) (simp add: sample_pio_def shows_status_def)
next
  case False
  then show ?thesis
    by (intro exI [of _ "if a_data h = [] then 0x40 else 0x48"] exI [of _ "h\<lparr> a_phase := 0 \<rparr>"] exI [of _ 0])
      (auto simp: sample_pio_def shows_status_def)
qed

lemma sample_ata_drive: "ata_drive sample_pio 1 3 (BUSES ! 0) sample_see"
proof -
  have "ata_registers sample_pio 3 0x1F0 sample_see"
    unfolding ata_registers_def sample_see_simps using sample_busy(1) by (simp add: sample_pio_def second_drive_def)
  moreover have "ata_data sample_pio 3 0x1F0 sample_see"
    unfolding ata_data_def sample_see_simps using sample_busy(2,3)
    by (simp add: sample_pio_def second_drive_def sample_media_def lba_def)
  moreover have "ata_status sample_pio 0x1F0 0x3F6 sample_see"
    unfolding ata_status_def by (intro allI ballI sample_status)
  moreover have "tsc_runs sample_pio 1 sample_see"
    by (auto simp: tsc_runs_def sample_pio_def u64_next)
  ultimately show ?thesis by (simp add: ata_drive_def BUSES_def Bus_new_def sample_pio_def)
qed

theorem read_blocks_reads_sectors_witness:
  "\<exists>b' h'. read_blocks 400000004 sample_pio sample_drive 5 (replicate 1024 0) (BUSES, sample_view)
      = Some (Inr (2 * 512), concat (map (\<lambda>k. sector_bytes sample_media True (5 + k)) [0..<2]), BUSES[0 := b'], h')
    \<and> a_data h' = []"
proof -
  have "between 3 (BUSES ! 0) (sample_see sample_view)"
    by (simp add: between_def due_def selection_known_def sample_view_def BUSES_def Bus_new_def)
  then show ?thesis
    using read_blocks_reads_sectors [of sample_pio 1 3 BUSES sample_drive sample_see "replicate 1024 0" 2 5 400000004 sample_view]
      sample_ata_drive
    by (simp add: sample_drive_def sample_view_def BUSES_def between_def) blast
qed

end
