(* ===== verification/Float32.thy ===== *)
theory Float32
  imports Rust_Prelude Complex_Main "HOL-Library.Log_Nat"
begin

section \<open>Single-precision numbers and their comparison\<close>

text \<open>
  The type \<^verbatim>\<open>f32\<close> of the language, as far as the sources use it, and the routines \<^verbatim>\<open>__lesf2\<close> and \<^verbatim>\<open>__ltsf2\<close> of
  \<^verbatim>\<open>crates/math/src/math.rs\<close>, which compare two numbers by their bits. A number is not a number, infinite or finite, with its
  sign and its magnitude as a rational; \<open>f32_of_bits\<close> reads the representation. Results are rounded to the nearest
  representable number, ties to even. Where IEEE 754 leaves \<^verbatim>\<open>min\<close> and \<^verbatim>\<open>max\<close> of two zeros open, the first operand is taken.
\<close>

datatype f32 = NaN | Infinity bool | Finite bool rat

definition magnitude :: "nat \<Rightarrow> nat" where
  "magnitude u = (if u div 2 ^ 23 = 0 then u mod 2 ^ 23 else (2 ^ 23 + u mod 2 ^ 23) * 2 ^ (u div 2 ^ 23 - 1))"

definition bits_value :: "nat \<Rightarrow> rat" where
  "bits_value u = of_nat (magnitude u) / 2 ^ 149"

definition f32_of_bits :: "u32 \<Rightarrow> f32" where
  "f32_of_bits w =
     (let s = bit w 31; u = unat (take_bit 31 w) in
      if u = 255 * 2 ^ 23 then Infinity s else if u > 255 * 2 ^ 23 then NaN
      else Finite s (bits_value u))"

fun f_val :: "f32 \<Rightarrow> rat" where
  "f_val (Finite s m) = (if s then - m else m)"
| "f_val _ = 0"

fun f_lt :: "f32 \<Rightarrow> f32 \<Rightarrow> bool" where
  "f_lt NaN _ = False"
| "f_lt _ NaN = False"
| "f_lt (Infinity s) (Infinity t) = (s \<and> \<not> t)"
| "f_lt (Infinity s) (Finite _ _) = s"
| "f_lt (Finite _ _) (Infinity t) = (\<not> t)"
| "f_lt (Finite s m) (Finite t n) = (f_val (Finite s m) < f_val (Finite t n))"

fun f_eq :: "f32 \<Rightarrow> f32 \<Rightarrow> bool" where
  "f_eq (Infinity s) (Infinity t) = (s = t)"
| "f_eq (Finite s m) (Finite t n) = (f_val (Finite s m) = f_val (Finite t n))"
| "f_eq _ _ = False"

definition f_le :: "f32 \<Rightarrow> f32 \<Rightarrow> bool" where
  "f_le a b \<longleftrightarrow> f_lt a b \<or> f_eq a b"

subsection \<open>Comparison by bits (math.rs)\<close>

definition F32_SIGN_MASK :: u32 where "F32_SIGN_MASK = 0x80000000"
definition F32_EXP_MASK :: u32 where "F32_EXP_MASK = 0x7F800000"

definition lesf2 :: "u32 \<Rightarrow> u32 \<Rightarrow> int" where
  "lesf2 a b =
     (let abs_mask = F32_SIGN_MASK - 1; a_abs = a AND abs_mask; b_abs = b AND abs_mask in
      if a_abs > F32_EXP_MASK \<or> b_abs > F32_EXP_MASK then 1
      else if a_abs OR b_abs = 0 then 0
      else if 0 \<le> sint (a AND b) then
        if sint a < sint b then - 1 else if sint a = sint b then 0 else 1
      else if sint a > sint b then - 1
      else if sint a = sint b then 0 else 1)"

definition ltsf2 :: "u32 \<Rightarrow> u32 \<Rightarrow> int" where
  "ltsf2 a b = lesf2 a b"

lemma magnitude_strict_mono: "u < v \<Longrightarrow> magnitude u < magnitude v"
proof -
  assume uv: "u < v"
  define e f where "e = u div 2 ^ 23" and "f = u mod 2 ^ 23"
  define e' f' where "e' = v div 2 ^ 23" and "f' = v mod 2 ^ 23"
  have f: "f < 2 ^ 23" "f' < 2 ^ 23" by (simp_all add: f_def f'_def)
  have u: "u = e * 2 ^ 23 + f" "v = e' * 2 ^ 23 + f'" by (simp_all add: e_def f_def e'_def f'_def)
  have e: "e \<le> e'" using uv by (simp add: e_def e'_def div_le_mono)
  have m: "magnitude u = (if e = 0 then f else (2 ^ 23 + f) * 2 ^ (e - 1))" "magnitude v = (if e' = 0 then f' else (2 ^ 23 + f') * 2 ^ (e' - 1))"
    by (simp_all add: magnitude_def e_def f_def e'_def f'_def)
  show ?thesis
  proof (cases "e = e'")
    case True
    then show ?thesis using uv u m by auto
  next
    case False
    then have lt: "e < e'" using e by simp
    have low: "magnitude u < 2 ^ 23 * 2 ^ e"
    proof (cases e)
      case (Suc k)
      have "(2 ^ 23 + f) * 2 ^ k < 2 ^ 24 * 2 ^ k" using f by (intro mult_strict_right_mono) simp_all
      then show ?thesis using m Suc by simp
    qed (use f m in simp)
    have "(2 :: nat) ^ 23 * 2 ^ e \<le> 2 ^ 23 * 2 ^ (e' - 1)" using lt by simp
    also have "\<dots> \<le> magnitude v" using lt m by simp
    finally show ?thesis using low by simp
  qed
qed

lemma magnitude_less_iff: "magnitude u < magnitude v \<longleftrightarrow> u < v"
  using magnitude_strict_mono by (metis less_asym' linorder_neqE_nat nat_neq_iff)

lemma magnitude_eq_iff: "magnitude u = magnitude v \<longleftrightarrow> u = v"
  using magnitude_strict_mono by (metis linorder_neqE_nat nat_neq_iff)

lemma magnitude_0 [simp]: "magnitude 0 = 0"
  by (simp add: magnitude_def)

text \<open>A number as its sign and the value of the other bits.\<close>

lemma sint_sign: "sint (w :: u32) = int (unat (take_bit 31 w)) - (if bit w 31 then 2 ^ 31 else 0)"
proof -
  have "sint w = signed_take_bit 31 (uint w)" by (simp add: sint_uint)
  also have "\<dots> = take_bit 31 (uint w) - 2 ^ 31 * of_bool (bit (uint w) 31)"
    using take_bit_Suc_from_most [of 31 "uint w"] by (simp add: signed_take_bit_eq_take_bit_minus)
  also have "take_bit 31 (uint w) = int (unat (take_bit 31 w))" by (simp only: unsigned_take_bit_eq uint_nat take_bit_of_nat)
  finally show ?thesis by (simp add: bit_uint_iff)
qed


definition signed_bits :: "u32 \<Rightarrow> int" where
  "signed_bits w = (if bit w 31 then - int (unat (take_bit 31 w)) else int (unat (take_bit 31 w)))"

lemma bits_value_order:
  "bits_value u < bits_value v \<longleftrightarrow> u < v" "bits_value u = bits_value v \<longleftrightarrow> u = v"
  by (simp_all add: bits_value_def divide_less_cancel magnitude_less_iff magnitude_eq_iff)

lemma bits_value_neg:
  "- bits_value u < bits_value v \<longleftrightarrow> u \<noteq> 0 \<or> v \<noteq> 0" "\<not> bits_value u < - bits_value v"
  "bits_value u = - bits_value v \<longleftrightarrow> u = 0 \<and> v = 0" "- bits_value u = bits_value v \<longleftrightarrow> u = 0 \<and> v = 0"
proof -
  have z: "0 < bits_value n \<longleftrightarrow> n \<noteq> 0" "bits_value n = 0 \<longleftrightarrow> n = 0" for n
    using bits_value_order [of 0 n] bits_value_order [of n 0] by (simp_all add: bits_value_def)
  have p: "0 \<le> bits_value n" for n by (simp add: bits_value_def)
  show "- bits_value u < bits_value v \<longleftrightarrow> u \<noteq> 0 \<or> v \<noteq> 0" "\<not> bits_value u < - bits_value v"
    using z(1) [of u] z(1) [of v] p [of u] p [of v] by linarith+
  have e: "x = - y \<longleftrightarrow> x = 0 \<and> y = 0" "- x = y \<longleftrightarrow> x = 0 \<and> y = 0" if "0 \<le> x" "0 \<le> y" for x y :: rat
    using that by auto
  show "bits_value u = - bits_value v \<longleftrightarrow> u = 0 \<and> v = 0" "- bits_value u = bits_value v \<longleftrightarrow> u = 0 \<and> v = 0"
    using e [OF p p, of u v] by (simp_all only: z)
qed

text \<open>On numbers, the order of the values is the order of sign and bits.\<close>

lemma number_order:
  fixes s t :: bool and u v :: nat
  defines "x \<equiv> if u = 255 * 2 ^ 23 then Infinity s else Finite s (bits_value u)"
    and "y \<equiv> if v = 255 * 2 ^ 23 then Infinity t else Finite t (bits_value v)"
  assumes "u \<le> 255 * 2 ^ 23" "v \<le> 255 * 2 ^ 23"
  shows "f_lt x y \<longleftrightarrow> (if s then - int u else int u) < (if t then - int v else int v)"
    and "f_eq x y \<longleftrightarrow> (if s then - int u else int u) = (if t then - int v else int v)"
  using assms(3,4) unfolding x_def y_def
  by (cases s; cases t; auto simp: bits_value_order bits_value_neg)+

lemma f_lt_bits:
  assumes "unat (take_bit 31 a) \<le> 255 * 2 ^ 23" "unat (take_bit 31 b) \<le> 255 * 2 ^ 23"
  shows "f_lt (f32_of_bits a) (f32_of_bits b) \<longleftrightarrow> signed_bits a < signed_bits b"
    and "f_eq (f32_of_bits a) (f32_of_bits b) \<longleftrightarrow> signed_bits a = signed_bits b"
proof -
  have "f32_of_bits w = (if unat (take_bit 31 w) = 255 * 2 ^ 23 then Infinity (bit w 31) else Finite (bit w 31) (bits_value (unat (take_bit 31 w))))"
    if "unat (take_bit 31 w) \<le> 255 * 2 ^ 23" for w using that by (simp add: f32_of_bits_def Let_def)
  then show "f_lt (f32_of_bits a) (f32_of_bits b) \<longleftrightarrow> signed_bits a < signed_bits b"
    "f_eq (f32_of_bits a) (f32_of_bits b) \<longleftrightarrow> signed_bits a = signed_bits b"
    using number_order [OF assms, of "bit a 31" "bit b 31"] assms by (simp_all only: signed_bits_def)
qed

lemma abs_mask: "w AND (F32_SIGN_MASK - 1) = take_bit 31 w"
  by (simp add: F32_SIGN_MASK_def take_bit_eq_mask mask_eq_exp_minus_1)

lemma is_nan_bits: "take_bit 31 w > F32_EXP_MASK \<longleftrightarrow> unat (take_bit 31 w) > 255 * 2 ^ 23"
  by (simp add: F32_EXP_MASK_def word_less_nat_alt)

lemma f32_of_bits_NaN: "f32_of_bits w = NaN \<longleftrightarrow> unat (take_bit 31 w) > 255 * 2 ^ 23"
  by (auto simp: f32_of_bits_def Let_def)

lemma sint_and_nonneg: "0 \<le> sint (a AND b :: u32) \<longleftrightarrow> \<not> (bit a 31 \<and> bit b 31)"
proof -
  define w where "w = a AND b"
  have "unat (take_bit 31 w) < 2 ^ 31" by (simp only: unsigned_take_bit_eq take_bit_nat_less_exp)
  then obtain n where n: "unat (take_bit 31 w) = n" "n < 2 ^ 31" by blast
  have "0 \<le> sint w \<longleftrightarrow> \<not> bit w 31" unfolding sint_sign n(1) using n(2) by simp
  then show ?thesis by (simp add: w_def bit_and_iff)
qed

text \<open>
  C20: \<open>lesf2\<close>, which only looks at the bits of its arguments, is the comparison of the numbers they represent: it returns 1 when one of
  them is not a number, and otherwise minus one, zero or one as the first number is less than, equal to or greater than the second.
  Zeros of both signs are equal, and infinities are at the ends. \<open>ltsf2\<close> is the same.
\<close>

theorem lesf2_compares:
  "lesf2 a b = (if f32_of_bits a = NaN \<or> f32_of_bits b = NaN then 1
     else if f_lt (f32_of_bits a) (f32_of_bits b) then - 1 else if f_eq (f32_of_bits a) (f32_of_bits b) then 0 else 1)
   \<and> ltsf2 a b = lesf2 a b"
proof (cases "f32_of_bits a = NaN \<or> f32_of_bits b = NaN")
  case True
  then show ?thesis by (auto simp: lesf2_def ltsf2_def Let_def abs_mask is_nan_bits f32_of_bits_NaN)
next
  case False
  define u v where "u = unat (take_bit 31 a)" and "v = unat (take_bit 31 b)"
  have le: "u \<le> 255 * 2 ^ 23" "v \<le> 255 * 2 ^ 23" using False by (auto simp: f32_of_bits_NaN u_def v_def)
  have z: "take_bit 31 a OR take_bit 31 b = 0 \<longleftrightarrow> u = 0 \<and> v = 0" by (auto simp: u_def v_def or_eq_0_iff unat_eq_zero)
  have l: "lesf2 a b = (if u = 0 \<and> v = 0 then 0 else if \<not> (bit a 31 \<and> bit b 31)
      then if sint a < sint b then - 1 else if sint a = sint b then 0 else 1
      else if sint a > sint b then - 1 else if sint a = sint b then 0 else 1)"
    using le by (simp add: lesf2_def Let_def abs_mask is_nan_bits z sint_and_nonneg flip: u_def v_def)
  have s: "sint a = int u - (if bit a 31 then 2 ^ 31 else 0)" "sint b = int v - (if bit b 31 then 2 ^ 31 else 0)"
    by (simp_all add: sint_sign u_def v_def)
  have n: "f_lt (f32_of_bits a) (f32_of_bits b) \<longleftrightarrow> signed_bits a < signed_bits b"
    "f_eq (f32_of_bits a) (f32_of_bits b) \<longleftrightarrow> signed_bits a = signed_bits b"
    using f_lt_bits [of a b] le by (simp_all add: u_def v_def)
  have "int u < 2 ^ 31" "int v < 2 ^ 31" using le by simp_all
  then show ?thesis using False unfolding ltsf2_def l s n by (auto simp: signed_bits_def simp flip: u_def v_def)
qed


subsection \<open>Arithmetic\<close>

definition pow2 :: "int \<Rightarrow> rat" where
  "pow2 k = (if 0 \<le> k then 2 ^ nat k else 1 / 2 ^ nat (- k))"

definition floor_log2 :: "rat \<Rightarrow> int" where
  "floor_log2 q = (case quotient_of q of (n, d) \<Rightarrow> let k = bitlen n - bitlen d in if pow2 k \<le> q then k else k - 1)"

definition round_half_even :: "rat \<Rightarrow> int" where
  "round_half_even x =
     (let k = \<lfloor>x\<rfloor>; d = x - of_int k in if d < 1 / 2 then k else if d > 1 / 2 then k + 1 else if even k then k else k + 1)"

text \<open>The nearest number with 24 binary digits and an exponent of at least -126; \<open>s\<close> is the sign of a zero.\<close>

definition f_round :: "bool \<Rightarrow> rat \<Rightarrow> f32" where
  "f_round s q =
     (if q = 0 then Finite s 0
      else let m = \<bar>q\<bar>; ulp = pow2 (max (floor_log2 m) (- 126) - 23); r = of_int (round_half_even (m / ulp)) * ulp in
      if r \<ge> 2 ^ 128 then Infinity (q < 0) else Finite (q < 0) r)"

fun f_neg :: "f32 \<Rightarrow> f32" where
  "f_neg NaN = NaN"
| "f_neg (Infinity s) = Infinity (\<not> s)"
| "f_neg (Finite s m) = Finite (\<not> s) m"

fun f_add :: "f32 \<Rightarrow> f32 \<Rightarrow> f32" where
  "f_add NaN _ = NaN"
| "f_add _ NaN = NaN"
| "f_add (Infinity s) (Infinity t) = (if s = t then Infinity s else NaN)"
| "f_add (Infinity s) (Finite _ _) = Infinity s"
| "f_add (Finite _ _) (Infinity t) = Infinity t"
| "f_add (Finite s m) (Finite t n) = f_round (s \<and> t) (f_val (Finite s m) + f_val (Finite t n))"

definition f_sub :: "f32 \<Rightarrow> f32 \<Rightarrow> f32" where
  "f_sub a b = f_add a (f_neg b)"

fun f_mul :: "f32 \<Rightarrow> f32 \<Rightarrow> f32" where
  "f_mul NaN _ = NaN"
| "f_mul _ NaN = NaN"
| "f_mul (Infinity s) (Infinity t) = Infinity (s \<noteq> t)"
| "f_mul (Infinity s) (Finite t n) = (if n = 0 then NaN else Infinity (s \<noteq> t))"
| "f_mul (Finite s m) (Infinity t) = (if m = 0 then NaN else Infinity (s \<noteq> t))"
| "f_mul (Finite s m) (Finite t n) = f_round (s \<noteq> t) (f_val (Finite s m) * f_val (Finite t n))"

fun f_div :: "f32 \<Rightarrow> f32 \<Rightarrow> f32" where
  "f_div NaN _ = NaN"
| "f_div _ NaN = NaN"
| "f_div (Infinity s) (Infinity t) = NaN"
| "f_div (Infinity s) (Finite t n) = Infinity (s \<noteq> t)"
| "f_div (Finite s m) (Infinity t) = Finite (s \<noteq> t) 0"
| "f_div (Finite s m) (Finite t n) =
     (if n = 0 then if m = 0 then NaN else Infinity (s \<noteq> t)
      else f_round (s \<noteq> t) (f_val (Finite s m) / f_val (Finite t n)))"

definition f_abs :: "f32 \<Rightarrow> f32" where
  "f_abs a = (case a of NaN \<Rightarrow> NaN | Infinity _ \<Rightarrow> Infinity False | Finite _ m \<Rightarrow> Finite False m)"

definition f_min :: "f32 \<Rightarrow> f32 \<Rightarrow> f32" where
  "f_min a b = (if a = NaN then b else if f_lt b a then b else a)"

definition f_max :: "f32 \<Rightarrow> f32 \<Rightarrow> f32" where
  "f_max a b = (if a = NaN then b else if f_lt a b then b else a)"

text \<open>\<^verbatim>\<open>clamp\<close> panics unless the bounds are ordered.\<close>

definition f_clamp :: "f32 \<Rightarrow> f32 \<Rightarrow> f32 \<Rightarrow> f32 rust" where
  "f_clamp a lo hi = do {
     rust_assert (f_le lo hi);
     let a = (if f_lt a lo then lo else a);
     Some (if f_lt hi a then hi else a)
   }"

text \<open>Casts between integers and numbers: towards zero, and saturating.\<close>

definition f_of_usize :: "usize \<Rightarrow> f32" where
  "f_of_usize w = f_round False (of_nat (unat w))"

definition f_of_i32 :: "u32 \<Rightarrow> f32" where
  "f_of_i32 w = f_round False (of_int (sint w))"

definition f_trunc :: "int \<Rightarrow> int \<Rightarrow> f32 \<Rightarrow> int" where
  "f_trunc lo hi a = (case a of NaN \<Rightarrow> 0 | Infinity s \<Rightarrow> if s then lo else hi
     | Finite s m \<Rightarrow> let q = f_val a in max lo (min hi (if q < 0 then - \<lfloor>- q\<rfloor> else \<lfloor>q\<rfloor>)))"

definition usize_of_f :: "f32 \<Rightarrow> usize" where
  "usize_of_f a = word_of_int (f_trunc 0 (2 ^ 64 - 1) a)"

definition i32_of_f :: "f32 \<Rightarrow> int" where
  "i32_of_f = f_trunc (- (2 ^ 31)) (2 ^ 31 - 1)"

subsection \<open>Whole numbers\<close>

text \<open>Whole numbers of up to 24 bits are represented, and arithmetic on them is exact.\<close>

definition f_int :: "int \<Rightarrow> f32" where
  "f_int n = Finite (n < 0) (of_int \<bar>n\<bar>)"

lemma f_val_int [simp]: "f_val (f_int n) = of_int n"
  by (simp add: f_int_def)

lemma f_int_neq [simp]: "f_int n \<noteq> NaN" "NaN \<noteq> f_int n"
  by (simp_all add: f_int_def)

lemma f_int_inject [simp]: "f_int a = f_int b \<longleftrightarrow> a = b"
  by (auto simp: f_int_def)

lemma f_int_order [simp]:
  "f_lt (f_int a) (f_int b) \<longleftrightarrow> a < b" "f_eq (f_int a) (f_int b) \<longleftrightarrow> a = b" "f_le (f_int a) (f_int b) \<longleftrightarrow> a \<le> b"
proof -
  show lt: "f_lt (f_int a) (f_int b) \<longleftrightarrow> a < b" using f_val_int [of a] f_val_int [of b] unfolding f_int_def by (simp only: f_lt.simps of_int_less_iff)
  show eq: "f_eq (f_int a) (f_int b) \<longleftrightarrow> a = b" using f_val_int [of a] f_val_int [of b] unfolding f_int_def by (simp only: f_eq.simps of_int_eq_iff)
  show "f_le (f_int a) (f_int b) \<longleftrightarrow> a \<le> b" unfolding f_le_def lt eq by linarith
qed

lemma f_int_min_max [simp]: "f_min (f_int a) (f_int b) = f_int (min a b)" "f_max (f_int a) (f_int b) = f_int (max a b)"
  by (auto simp: f_min_def f_max_def min_def max_def)

lemma round_half_even_int [simp]: "round_half_even (of_int k) = k"
  by (simp add: round_half_even_def)

lemma bitlen_pos: "0 < n \<Longrightarrow> 1 \<le> bitlen n"
  using bitlen_nonneg [of n] bitlen_eq_zero_iff [of n] by linarith

lemma floor_log2_int:
  assumes "0 < n"
  shows "floor_log2 (of_int n) = bitlen n - 1"
proof -
  have "quotient_of (of_int n) = (n, 1)" by (simp add: of_int_rat quotient_of_Fract)
  moreover have "2 ^ nat (bitlen n - 1) \<le> n" using bitlen_bounds [OF assms] by simp
  then have "(2 :: rat) ^ nat (bitlen n - 1) \<le> of_int n" by (metis of_int_le_iff of_int_numeral of_int_power)
  moreover have "bitlen 1 = 1" by (simp add: compute_bitlen)
  ultimately show ?thesis using bitlen_pos [OF assms] by (simp add: floor_log2_def pow2_def)
qed

lemma round_magnitude:
  assumes "0 < n" "n \<le> 2 ^ 24"
  defines "ulp \<equiv> pow2 (max (floor_log2 (of_int n)) (- 126) - 23)"
  shows "of_int (round_half_even (of_int n / ulp)) * ulp = of_int n"
proof -
  have b: "1 \<le> bitlen n" "2 ^ nat (bitlen n - 1) \<le> n" using bitlen_pos bitlen_bounds assms by auto
  have u: "ulp = pow2 (bitlen n - 24)" using b by (simp add: ulp_def floor_log2_int [OF assms(1)])
  show ?thesis
  proof (cases "bitlen n \<le> 24")
    case True
    define k where "k = nat (24 - bitlen n)"
    have p: "ulp = 1 / 2 ^ k" using True by (auto simp: u pow2_def k_def)
    have "of_int n / ulp = of_int (n * 2 ^ k)" by (simp add: p)
    then have "round_half_even (of_int n / ulp) = n * 2 ^ k" by (simp only: round_half_even_int)
    then show ?thesis by (simp add: p)
  next
    case False
    then have "24 \<le> nat (bitlen n - 1)" by simp
    then have "(2 :: int) ^ 24 \<le> 2 ^ nat (bitlen n - 1)" by (intro power_increasing) simp_all
    then have n: "n = 2 ^ 24" using b assms(2) by linarith
    have "bitlen (1 * 2 ^ 24) = bitlen 1 + int 24" by (rule bitlen_pow2) simp
    then have "bitlen n = 25" by (simp add: n compute_bitlen [of 1])
    then have p: "ulp = 2" by (simp add: u pow2_def)
    have "of_int n / ulp = of_int (2 ^ 23)" by (simp add: p n)
    then have "round_half_even (of_int n / ulp) = 2 ^ 23" by (simp only: round_half_even_int)
    then show ?thesis by (simp add: p n)
  qed
qed

lemma f_round_int: "\<bar>n\<bar> \<le> 2 ^ 24 \<Longrightarrow> f_round False (of_int n) = f_int n"
  using round_magnitude [of "\<bar>n\<bar>"]
  by (cases "n = 0") (simp_all add: f_round_def f_int_def Let_def)

lemma f_round_sign: "q \<noteq> 0 \<Longrightarrow> f_round s q = f_round False q"
  by (simp add: f_round_def)

lemma f_add_int:
  assumes "\<bar>a + b\<bar> \<le> 2 ^ 24"
  shows "f_add (f_int a) (f_int b) = f_int (a + b)"
proof -
  have "f_add (f_int a) (f_int b) = f_round (a < 0 \<and> b < 0) (of_int (a + b))"
    using f_val_int [of a] f_val_int [of b] unfolding f_int_def by (simp only: f_add.simps of_int_add)
  also have "\<dots> = f_round False (of_int (a + b))"
  proof (cases "a + b = 0")
    case True
    then have "(a < 0 \<and> b < 0) = False" by auto
    then show ?thesis by (simp only:)
  next
    case False
    then show ?thesis by (intro f_round_sign) (simp only: of_int_eq_0_iff not_False_eq_True)
  qed
  finally show ?thesis using f_round_int [OF assms] by simp
qed

lemma f_sub_int:
  assumes "\<bar>a - b\<bar> \<le> 2 ^ 24"
  shows "f_sub (f_int a) (f_int b) = f_int (a - b)"
proof -
  have "f_sub (f_int a) (f_int b) = f_round (a < 0 \<and> \<not> b < 0) (of_int (a - b))"
  proof -
    have "f_neg (f_int b) = Finite (\<not> b < 0) (of_int \<bar>b\<bar>)" by (simp add: f_int_def)
    moreover have "f_val (Finite (\<not> b < 0) (of_int \<bar>b\<bar>)) = - of_int b" by simp
    ultimately show ?thesis using f_val_int [of a] unfolding f_sub_def f_int_def
      by (simp only: f_add.simps of_int_add of_int_minus diff_conv_add_uminus)
  qed
  also have "\<dots> = f_round False (of_int (a - b))"
  proof (cases "a - b = 0")
    case True
    then have "(a < 0 \<and> \<not> b < 0) = False" by auto
    then show ?thesis by (simp only:)
  next
    case False
    then show ?thesis by (intro f_round_sign) (simp only: of_int_eq_0_iff not_False_eq_True)
  qed
  finally show ?thesis using f_round_int [OF assms] by simp
qed

lemma f_of_usize_int:
  assumes "unat w \<le> 2 ^ 24"
  shows "f_of_usize w = f_int (int (unat w))"
proof -
  have "f_of_usize w = f_round False (of_int (int (unat w)))" by (simp only: f_of_usize_def of_int_of_nat_eq)
  moreover have "\<bar>int n\<bar> \<le> 2 ^ 24" if "n \<le> 2 ^ 24" for n using that by simp
  then have "\<bar>int (unat w)\<bar> \<le> 2 ^ 24" using assms by blast
  ultimately show ?thesis using f_round_int by metis
qed

lemma f_of_i32_int: "\<bar>sint w\<bar> \<le> 2 ^ 24 \<Longrightarrow> f_of_i32 w = f_int (sint w)"
  by (simp only: f_of_i32_def f_round_int)

lemma f_trunc_int: "lo \<le> 0 \<Longrightarrow> 0 \<le> hi \<Longrightarrow> f_trunc lo hi (f_int n) = max lo (min hi n)"
  using f_val_int [of n] by (simp add: f_trunc_def f_int_def Let_def)

lemma usize_of_f_int: "0 \<le> n \<Longrightarrow> n < 2 ^ 64 \<Longrightarrow> usize_of_f (f_int n) = word_of_int n"
  by (simp add: usize_of_f_def f_trunc_int)

lemma usize_of_f_neg: "n \<le> 0 \<Longrightarrow> usize_of_f (f_int n) = 0"
  by (simp add: usize_of_f_def f_trunc_int)

lemma i32_of_f_int: "\<bar>n\<bar> < 2 ^ 31 \<Longrightarrow> i32_of_f (f_int n) = n"
  by (simp add: i32_of_f_def f_trunc_int)

lemma f_clamp_int: "f_clamp (f_int a) (f_int lo) (f_int hi) = (if lo \<le> hi then Some (f_int (min hi (max lo a))) else None)"
  by (auto simp: f_clamp_def rust_assert_def Let_def min_def max_def)

text \<open>The cast of any number that lies in an interval of whole numbers from zero on.\<close>

lemma f_finite_int:
  "f_lt (Finite s m) (f_int n) \<longleftrightarrow> f_val (Finite s m) < of_int n" "f_le (f_int n) (Finite s m) \<longleftrightarrow> of_int n \<le> f_val (Finite s m)"
proof -
  show "f_lt (Finite s m) (f_int n) \<longleftrightarrow> f_val (Finite s m) < of_int n"
    using f_val_int [of n] unfolding f_int_def by (simp only: f_lt.simps)
  show "f_le (f_int n) (Finite s m) \<longleftrightarrow> of_int n \<le> f_val (Finite s m)"
    using f_val_int [of n] unfolding f_int_def f_le_def by (simp only: f_lt.simps f_eq.simps le_less)
qed

lemma usize_of_f_bounds:
  assumes "f_le (f_int 0) a" "f_lt a (f_int n)" "n \<le> 2 ^ 64"
  shows "int (unat (usize_of_f a)) < n"
proof -
  obtain s m where a: "a = Finite s m" using assms(1,2) by (cases a) (auto simp: f_le_def f_int_def)
  define q where "q = f_val (Finite s m)"
  have v: "0 \<le> q" "q < of_int n" using assms(1,2) unfolding a f_finite_int q_def by simp_all
  have f: "0 \<le> \<lfloor>q\<rfloor>" "\<lfloor>q\<rfloor> < n" using v by (simp_all add: floor_less_iff)
  have "f_trunc 0 (2 ^ 64 - 1) a = max 0 (min (2 ^ 64 - 1) (if q < 0 then - \<lfloor>- q\<rfloor> else \<lfloor>q\<rfloor>))"
    by (simp only: f_trunc_def a f32.case Let_def q_def)
  also have "\<dots> = \<lfloor>q\<rfloor>" using f assms(3) v by simp
  finally have "usize_of_f a = word_of_int \<lfloor>q\<rfloor>" by (simp add: usize_of_f_def)
  moreover have "\<lfloor>q\<rfloor> mod 2 ^ 64 = \<lfloor>q\<rfloor>" using f assms(3) by (intro mod_pos_pos_trivial) linarith+
  ultimately show ?thesis using f by (simp add: unat_eq_nat_uint uint_word_of_int)
qed

text \<open>The cast of any number to an index: what is below zero, or not a number, becomes zero.\<close>

definition f_index :: "f32 \<Rightarrow> nat" where
  "f_index a = unat (usize_of_f a)"

lemma f_index_eq:
  "f_index a = (case a of NaN \<Rightarrow> 0 | Infinity s \<Rightarrow> if s then 0 else 2 ^ 64 - 1 | Finite s m \<Rightarrow> min (2 ^ 64 - 1) (nat \<lfloor>f_val a\<rfloor>))"
proof -
  define k where "k = f_trunc 0 (2 ^ 64 - 1) a"
  have b: "0 \<le> k" "k < 2 ^ 64" by (auto simp: k_def f_trunc_def Let_def split: f32.split)
  have "unat (word_of_int k :: usize) = nat k" using b by (simp add: unat_eq_nat_uint uint_word_of_int)
  then have "f_index a = nat k" by (simp add: f_index_def usize_of_f_def k_def)
  also have "\<dots> = (case a of NaN \<Rightarrow> 0 | Infinity s \<Rightarrow> if s then 0 else 2 ^ 64 - 1 | Finite s m \<Rightarrow> min (2 ^ 64 - 1) (nat \<lfloor>f_val a\<rfloor>))"
  proof (cases a)
    case (Finite s m)
    define q where "q = f_val (Finite s m)"
    have "k = max 0 (min (2 ^ 64 - 1) (if q < 0 then - \<lfloor>- q\<rfloor> else \<lfloor>q\<rfloor>))" by (simp only: k_def f_trunc_def Finite f32.case Let_def q_def)
    moreover obtain i j where ij: "\<lfloor>q\<rfloor> = i" "\<lfloor>- q\<rfloor> = j" by blast
    moreover have "i < 0 \<and> 0 \<le> j" if "q < 0" using that by (simp flip: ij)
    moreover have "0 \<le> i" if "\<not> q < 0" using that by (simp flip: ij)
    ultimately have "nat k = min (2 ^ 64 - 1) (nat \<lfloor>q\<rfloor>)" by (cases "q < 0") auto
    then show ?thesis by (simp only: Finite f32.case q_def)
  qed (simp_all add: k_def f_trunc_def)
  finally show ?thesis .
qed

lemma f_index_int: "n < 2 ^ 64 \<Longrightarrow> f_index (f_int n) = nat n"
  using f_val_int [of n] by (auto simp: f_index_eq f_int_def)

lemma f_clamp_index:
  assumes "n \<le> 2 ^ 24"
  shows "\<exists>v. f_clamp a (f_int 0) (f_int (int n)) = Some v \<and> f_index v = min n (f_index a)"
proof (cases a)
  case (Finite s m)
  define q where "q = f_val (Finite s m)"
  have le: "f_le (f_int 0) (f_int (int n))" by simp
  have i: "f_index a = min (2 ^ 64 - 1) (nat \<lfloor>q\<rfloor>)" by (simp only: f_index_eq Finite f32.case q_def)
  have lt0: "f_lt a (f_int 0) \<longleftrightarrow> q < 0" using f_finite_int(1) [of s m 0] by (simp add: Finite q_def)
  have ltn: "f_lt (f_int (int n)) a \<longleftrightarrow> of_nat n < q"
    using f_val_int [of "int n"] unfolding f_int_def Finite q_def by (simp only: f_lt.simps of_int_of_nat_eq)
  have n: "f_index (f_int (int n)) = n" "f_index (f_int 0) = 0" using assms f_index_int [of "int n"] f_index_int [of 0] by simp_all
  consider "q < 0" | "0 \<le> q" "of_nat n < q" | "0 \<le> q" "q \<le> of_nat n" by linarith
  then show ?thesis
  proof cases
    case 1
    then have "f_clamp a (f_int 0) (f_int (int n)) = Some (f_int 0)" using lt0 by (simp add: f_clamp_def rust_assert_def Let_def)
    moreover have "f_index a = 0" using 1 by (simp add: i)
    ultimately show ?thesis using n(2) by simp
  next
    case 2
    then have "f_clamp a (f_int 0) (f_int (int n)) = Some (f_int (int n))" using lt0 ltn by (simp add: f_clamp_def rust_assert_def Let_def)
    moreover have "int n \<le> \<lfloor>q\<rfloor>" using 2 by (simp add: le_floor_iff)
    then have "n \<le> f_index a" using assms by (simp add: i)
    ultimately show ?thesis using n(1) by simp
  next
    case 3
    then have "f_clamp a (f_int 0) (f_int (int n)) = Some a" using lt0 ltn by (simp add: f_clamp_def rust_assert_def Let_def)
    moreover have "\<lfloor>q\<rfloor> \<le> int n" using 3 by (simp add: floor_le_iff)
    then have "f_index a \<le> n" unfolding i by (simp only: min_le_iff_disj nat_le_iff simp_thms)
    ultimately show ?thesis by simp
  qed
qed (use assms f_index_int [of "int n"] f_index_int [of 0] in \<open>auto simp: f_clamp_def rust_assert_def Let_def f_index_eq [of NaN] f_index_eq [of "Infinity _"], auto simp: f_int_def\<close>)

text \<open>Rounding does not go below a whole number.\<close>

lemma pow2_floor_log2: "0 < q \<Longrightarrow> pow2 (floor_log2 q) \<le> q"
proof -
  assume "0 < q"
  obtain n d where nd: "quotient_of q = (n, d)" by (cases "quotient_of q")
  have d: "0 < d" "q = of_int n / of_int d" using nd by (auto intro: quotient_of_denom_pos quotient_of_div)
  have n: "0 < n" using \<open>0 < q\<close> d by (simp add: zero_less_divide_iff)
  have bn: "2 ^ nat (bitlen n - 1) \<le> n" "n < 2 ^ nat (bitlen n)" and bd: "d < 2 ^ nat (bitlen d)" using bitlen_bounds n d by blast+
  have p: "1 \<le> bitlen n" "1 \<le> bitlen d" using bitlen_pos n d(1) by blast+
  define i j where "i = nat (bitlen n - 1)" and "j = nat (bitlen d)"
  have "pow2 (bitlen n - bitlen d - 1) = 2 ^ i / 2 ^ j"
  proof (cases "j \<le> i")
    case True
    then have "nat (bitlen n - bitlen d - 1) = i - j" "0 \<le> bitlen n - bitlen d - 1" using p by (auto simp: i_def j_def)
    then show ?thesis using True by (simp add: pow2_def power_diff)
  next
    case False
    then have "nat (- (bitlen n - bitlen d - 1)) = j - i" "\<not> 0 \<le> bitlen n - bitlen d - 1" using p by (auto simp: i_def j_def)
    then show ?thesis using False by (simp add: pow2_def power_diff)
  qed
  also have "\<dots> \<le> q"
  proof -
    have "(2 :: rat) ^ i \<le> of_int n" "of_int d \<le> (2 :: rat) ^ j"
      using bn(1) bd by (metis i_def of_int_le_iff of_int_numeral of_int_power) (metis j_def bd less_imp_le of_int_le_iff of_int_numeral of_int_power)
    then show ?thesis using d n by (simp add: frac_le)
  qed
  finally show ?thesis by (auto simp: floor_log2_def nd Let_def)
qed

lemma round_half_even_ge: "of_int k \<le> x \<Longrightarrow> k \<le> round_half_even x"
  by (auto simp: round_half_even_def Let_def le_floor_iff intro: order.trans [of k "\<lfloor>x\<rfloor>"])

lemma f_round_ge_int:
  assumes "0 \<le> n" "n \<le> 2 ^ 24" "of_int n \<le> q" "0 < q"
  shows "f_le (f_int n) (f_round s q)"
proof -
  define e where "e = max (floor_log2 \<bar>q\<bar>) (- 126)"
  define ulp where "ulp = pow2 (e - 23)"
  define r where "r = of_int (round_half_even (\<bar>q\<bar> / ulp)) * ulp"
  have f: "f_round s q = (if r \<ge> 2 ^ 128 then Infinity False else Finite False r)"
    using assms(4) by (simp add: f_round_def Let_def e_def ulp_def r_def)
  have u: "0 < ulp" by (simp add: ulp_def pow2_def)
  have "of_int n \<le> r"
  proof (cases "e \<le> 23")
    case True
    have ul: "ulp = 1 / 2 ^ nat (23 - e)" using True by (auto simp: ulp_def pow2_def)
    have "of_int (n * 2 ^ nat (23 - e)) \<le> \<bar>q\<bar> / ulp" using assms(3,4) by (simp add: ul)
    then have "n * 2 ^ nat (23 - e) \<le> round_half_even (\<bar>q\<bar> / ulp)" by (rule round_half_even_ge)
    then have "of_int (n * 2 ^ nat (23 - e)) * ulp \<le> r" using u by (simp add: r_def del: of_int_mult of_int_power)
    then show ?thesis by (simp add: ul)
  next
    case False
    then have e: "e = floor_log2 q" using assms(4) by (auto simp: e_def)
    have p: "pow2 e = 2 ^ 23 * ulp"
    proof -
      have "nat e = 23 + nat (e - 23)" using False by simp
      then have "(2 :: rat) ^ nat e = 2 ^ 23 * 2 ^ nat (e - 23)" by (simp only: power_add)
      then show ?thesis using False by (simp add: pow2_def ulp_def)
    qed
    have "of_int (2 ^ 23) \<le> \<bar>q\<bar> / ulp" using pow2_floor_log2 [OF assms(4)] p e u assms(4) by (simp add: le_divide_eq)
    then have "2 ^ 23 \<le> round_half_even (\<bar>q\<bar> / ulp)" by (rule round_half_even_ge)
    then have "of_int (2 ^ 23) * ulp \<le> r" unfolding r_def using u by (intro mult_right_mono) (simp_all only: of_int_le_iff less_imp_le)
    moreover have "(2 :: rat) ^ 24 \<le> 2 ^ nat e" using False by (intro power_increasing) simp_all
    then have "(2 :: rat) ^ 24 \<le> pow2 e" using False by (simp only: pow2_def) simp
    moreover have "(of_int n :: rat) \<le> 2 ^ 24" using assms(2) by (metis of_int_le_iff of_int_numeral of_int_power)
    ultimately show ?thesis using p by simp
  qed
  then show ?thesis unfolding f using f_finite_int(2) [of n False r] by (auto simp: f_le_def f_int_def)
qed

end
