(* ===== verification/Geometry.thy ===== *)
theory Geometry
  imports Float32
begin

section \<open>Points, sizes and areas\<close>

text \<open>
  The crate \<^verbatim>\<open>crates/math\<close>: \<^verbatim>\<open>Axis\<close> (\<^verbatim>\<open>math.rs\<close>), \<^verbatim>\<open>Point\<close> (\<^verbatim>\<open>point.rs\<close>), \<^verbatim>\<open>Size\<close> (\<^verbatim>\<open>size.rs\<close>) and \<^verbatim>\<open>Area\<close>
  (\<^verbatim>\<open>area.rs\<close>). The lemmas read the operations on whole numbers as integer arithmetic: an area is then a set of cells,
  \<open>area_contains\<close> is membership, and \<open>area_intersects\<close> is a common cell.
\<close>

datatype axis = Horizontal | Vertical

record point =
  pt_x :: f32
  pt_y :: f32

record extent =
  ex_width :: f32
  ex_height :: f32

record area =
  ar_pos :: point
  ar_size :: extent

subsection \<open>Axis\<close>

fun axis_cross :: "axis \<Rightarrow> axis" where
  "axis_cross Horizontal = Vertical"
| "axis_cross Vertical = Horizontal"

definition Point_new :: "f32 \<Rightarrow> f32 \<Rightarrow> point" where
  "Point_new x y = \<lparr>pt_x = x, pt_y = y\<rparr>"

definition Size_new :: "f32 \<Rightarrow> f32 \<Rightarrow> extent" where
  "Size_new w h = \<lparr>ex_width = w, ex_height = h\<rparr>"

fun pack_point :: "axis \<Rightarrow> f32 \<Rightarrow> f32 \<Rightarrow> point" where
  "pack_point Horizontal a c = Point_new a c"
| "pack_point Vertical a c = Point_new c a"

fun pack_size :: "axis \<Rightarrow> f32 \<Rightarrow> f32 \<Rightarrow> extent" where
  "pack_size Horizontal a c = Size_new a c"
| "pack_size Vertical a c = Size_new c a"

subsection \<open>Point\<close>

definition Point_ORIGIN :: point where "Point_ORIGIN = Point_new (f_int 0) (f_int 0)"
definition Point_ONE_ONE :: point where "Point_ONE_ONE = Point_new (f_int 1) (f_int 1)"

definition Point_splat :: "f32 \<Rightarrow> point" where
  "Point_splat v = Point_new v v"

fun Point_axis_value :: "point \<Rightarrow> axis \<Rightarrow> f32" where
  "Point_axis_value p Horizontal = pt_x p"
| "Point_axis_value p Vertical = pt_y p"

definition Point_add :: "point \<Rightarrow> point \<Rightarrow> point" where
  "Point_add p q = Point_new (f_add (pt_x p) (pt_x q)) (f_add (pt_y p) (pt_y q))"

definition Point_sub :: "point \<Rightarrow> point \<Rightarrow> point" where
  "Point_sub p q = Point_new (f_sub (pt_x p) (pt_x q)) (f_sub (pt_y p) (pt_y q))"

definition Point_min :: "point \<Rightarrow> point \<Rightarrow> point" where
  "Point_min p q = Point_new (f_min (pt_x p) (pt_x q)) (f_min (pt_y p) (pt_y q))"

definition Point_max :: "point \<Rightarrow> point \<Rightarrow> point" where
  "Point_max p q = Point_new (f_max (pt_x p) (pt_x q)) (f_max (pt_y p) (pt_y q))"

definition Point_clamp :: "point \<Rightarrow> point \<Rightarrow> point \<Rightarrow> point" where
  "Point_clamp p lo hi = Point_min (Point_max p lo) hi"

definition Point_lerp :: "point \<Rightarrow> point \<Rightarrow> f32 \<Rightarrow> point" where
  "Point_lerp p q v =
     (let inv = f_sub (f_int 1) v in
      Point_new (f_add (f_mul inv (pt_x p)) (f_mul v (pt_x q))) (f_add (f_mul inv (pt_y p)) (f_mul v (pt_y q))))"

definition Point_add_size :: "point \<Rightarrow> extent \<Rightarrow> point" where
  "Point_add_size p s = Point_new (f_add (pt_x p) (ex_width s)) (f_add (pt_y p) (ex_height s))"

definition Point_neg :: "point \<Rightarrow> point" where
  "Point_neg p = Point_new (f_neg (pt_x p)) (f_neg (pt_y p))"

subsection \<open>Size\<close>

definition Size_ZERO :: extent where "Size_ZERO = Size_new (f_int 0) (f_int 0)"
definition Size_ONE :: extent where "Size_ONE = Size_new (f_int 1) (f_int 1)"

definition Size_splat :: "f32 \<Rightarrow> extent" where
  "Size_splat v = Size_new v v"

definition Size_from_width :: "f32 \<Rightarrow> extent" where
  "Size_from_width w = \<lparr>ex_width = w, ex_height = f_int 0\<rparr>"

definition Size_from_height :: "f32 \<Rightarrow> extent" where
  "Size_from_height h = \<lparr>ex_width = f_int 0, ex_height = h\<rparr>"

fun Size_axis_value :: "extent \<Rightarrow> axis \<Rightarrow> f32" where
  "Size_axis_value s Horizontal = ex_width s"
| "Size_axis_value s Vertical = ex_height s"

definition Size_scale :: "extent \<Rightarrow> f32 \<Rightarrow> extent" where
  "Size_scale s v = Size_new (f_mul (ex_width s) v) (f_mul (ex_height s) v)"

definition Size_add :: "extent \<Rightarrow> extent \<Rightarrow> extent" where
  "Size_add s t = Size_new (f_add (ex_width s) (ex_width t)) (f_add (ex_height s) (ex_height t))"

definition Size_sub :: "extent \<Rightarrow> extent \<Rightarrow> extent" where
  "Size_sub s t = Size_new (f_sub (ex_width s) (ex_width t)) (f_sub (ex_height s) (ex_height t))"

definition Size_min :: "extent \<Rightarrow> extent \<Rightarrow> extent" where
  "Size_min s t = Size_new (f_min (ex_width s) (ex_width t)) (f_min (ex_height s) (ex_height t))"

definition Size_max :: "extent \<Rightarrow> extent \<Rightarrow> extent" where
  "Size_max s t = Size_new (f_max (ex_width s) (ex_width t)) (f_max (ex_height s) (ex_height t))"

definition Size_clamp :: "extent \<Rightarrow> extent \<Rightarrow> extent \<Rightarrow> extent" where
  "Size_clamp s lo hi = Size_min (Size_max s lo) hi"

definition Size_lerp :: "extent \<Rightarrow> extent \<Rightarrow> f32 \<Rightarrow> extent" where
  "Size_lerp s t v = Size_add (Size_scale s (f_sub (f_int 1) v)) (Size_scale t v)"

definition Size_neg :: "extent \<Rightarrow> extent" where
  "Size_neg s = Size_new (f_neg (ex_width s)) (f_neg (ex_height s))"

subsection \<open>Area\<close>

definition Area_new :: "point \<Rightarrow> extent \<Rightarrow> area" where
  "Area_new p s = \<lparr>ar_pos = p, ar_size = s\<rparr>"

definition Area_ZERO :: area where "Area_ZERO = Area_new Point_ORIGIN Size_ZERO"

definition from_pos :: "point \<Rightarrow> area" where
  "from_pos p = \<lparr>ar_pos = p, ar_size = Size_ZERO\<rparr>"

definition from_size :: "extent \<Rightarrow> area" where
  "from_size s = \<lparr>ar_pos = Point_ORIGIN, ar_size = s\<rparr>"

definition with_pos :: "area \<Rightarrow> point \<Rightarrow> area" where
  "with_pos a p = \<lparr>ar_pos = p, ar_size = ar_size a\<rparr>"

definition with_size :: "area \<Rightarrow> extent \<Rightarrow> area" where
  "with_size a s = \<lparr>ar_pos = ar_pos a, ar_size = s\<rparr>"

definition set_pos :: "area \<Rightarrow> point \<Rightarrow> area" where
  "set_pos a p = a\<lparr>ar_pos := p\<rparr>"

definition set_size :: "area \<Rightarrow> extent \<Rightarrow> area" where
  "set_size a s = a\<lparr>ar_size := s\<rparr>"

abbreviation area_x :: "area \<Rightarrow> f32" where "area_x a \<equiv> pt_x (ar_pos a)"
abbreviation area_y :: "area \<Rightarrow> f32" where "area_y a \<equiv> pt_y (ar_pos a)"
abbreviation area_width :: "area \<Rightarrow> f32" where "area_width a \<equiv> ex_width (ar_size a)"
abbreviation area_height :: "area \<Rightarrow> f32" where "area_height a \<equiv> ex_height (ar_size a)"

definition max_x :: "area \<Rightarrow> f32" where
  "max_x a = f_add (area_x a) (area_width a)"

definition max_y :: "area \<Rightarrow> f32" where
  "max_y a = f_add (area_y a) (area_height a)"

definition area_contains :: "area \<Rightarrow> point \<Rightarrow> bool" where
  "area_contains a p \<longleftrightarrow> f_le (area_x a) (pt_x p) \<and> f_le (area_y a) (pt_y p) \<and> f_lt (pt_x p) (max_x a) \<and> f_lt (pt_y p) (max_y a)"

definition area_intersects :: "area \<Rightarrow> area \<Rightarrow> bool" where
  "area_intersects a b \<longleftrightarrow>
     f_lt (area_x a) (max_x b) \<and> f_lt (area_y a) (max_y b) \<and> f_lt (area_x b) (max_x a) \<and> f_lt (area_y b) (max_y a)"

subsection \<open>Whole numbers\<close>

definition int_point :: "int \<Rightarrow> int \<Rightarrow> point" where
  "int_point x y = Point_new (f_int x) (f_int y)"

definition int_area :: "int \<Rightarrow> int \<Rightarrow> int \<Rightarrow> int \<Rightarrow> area" where
  "int_area x y w h = Area_new (int_point x y) (Size_new (f_int w) (f_int h))"

text \<open>The cells an area of whole numbers covers.\<close>

definition cells :: "int \<Rightarrow> int \<Rightarrow> int \<Rightarrow> int \<Rightarrow> (int \<times> int) set" where
  "cells x y w h = {x ..< x + w} \<times> {y ..< y + h}"

definition in_scale :: "int \<Rightarrow> int \<Rightarrow> bool" where
  "in_scale a b \<longleftrightarrow> \<bar>a\<bar> \<le> 2 ^ 23 \<and> \<bar>b\<bar> \<le> 2 ^ 23"

lemma Point_new_sel [simp]: "pt_x (Point_new x y) = x" "pt_y (Point_new x y) = y"
  by (simp_all add: Point_new_def)

lemma Size_new_sel [simp]: "ex_width (Size_new x y) = x" "ex_height (Size_new x y) = y"
  by (simp_all add: Size_new_def)

lemma int_point_sel [simp]: "pt_x (int_point x y) = f_int x" "pt_y (int_point x y) = f_int y"
  by (simp_all add: int_point_def)

lemma int_area_sel [simp]:
  "area_x (int_area x y w h) = f_int x" "area_y (int_area x y w h) = f_int y"
  "area_width (int_area x y w h) = f_int w" "area_height (int_area x y w h) = f_int h"
  by (simp_all add: int_area_def Area_new_def)

lemma f_add_scale: "in_scale a b \<Longrightarrow> f_add (f_int a) (f_int b) = f_int (a + b)"
  using f_add_int [of a b] by (auto simp: in_scale_def abs_le_iff)

lemma f_sub_scale: "in_scale a b \<Longrightarrow> f_sub (f_int a) (f_int b) = f_int (a - b)"
  using f_sub_int [of a b] by (auto simp: in_scale_def abs_le_iff)

lemma int_area_max [simp]:
  "in_scale x w \<Longrightarrow> max_x (int_area x y w h) = f_int (x + w)" "in_scale y h \<Longrightarrow> max_y (int_area x y w h) = f_int (y + h)"
  by (simp_all add: max_x_def max_y_def f_add_scale)

lemma area_contains_cells:
  assumes "in_scale x w" "in_scale y h"
  shows "area_contains (int_area x y w h) (int_point px py) \<longleftrightarrow> (px, py) \<in> cells x y w h"
  using assms by (auto simp: area_contains_def cells_def)

lemma area_intersects_cells:
  assumes "in_scale x w" "in_scale y h" "in_scale x' w'" "in_scale y' h'" "0 < w" "0 < h" "0 < w'" "0 < h'"
  shows "area_intersects (int_area x y w h) (int_area x' y' w' h') \<longleftrightarrow> cells x y w h \<inter> cells x' y' w' h' \<noteq> {}"
proof
  assume "area_intersects (int_area x y w h) (int_area x' y' w' h')"
  then have "(max x x', max y y') \<in> cells x y w h \<inter> cells x' y' w' h'" using assms by (auto simp: area_intersects_def cells_def)
  then show "cells x y w h \<inter> cells x' y' w' h' \<noteq> {}" by blast
qed (use assms in \<open>auto simp: area_intersects_def cells_def\<close>)

lemma Point_int:
  "in_scale a c \<Longrightarrow> in_scale b d \<Longrightarrow> Point_add (int_point a b) (int_point c d) = int_point (a + c) (b + d)"
  "in_scale a c \<Longrightarrow> in_scale b d \<Longrightarrow> Point_sub (int_point a b) (int_point c d) = int_point (a - c) (b - d)"
  "Point_min (int_point a b) (int_point c d) = int_point (min a c) (min b d)"
  "Point_max (int_point a b) (int_point c d) = int_point (max a c) (max b d)"
  "Point_clamp (int_point a b) (int_point c d) (int_point e f) = int_point (min (max a c) e) (min (max b d) f)"
  by (simp_all add: Point_add_def Point_sub_def Point_min_def Point_max_def Point_clamp_def f_add_scale f_sub_scale int_point_def)

end
