(* ===== verification/Framebuffer_Props.thy ===== *)
theory Framebuffer_Props
  imports Framebuffer
begin

section \<open>What drawing changes\<close>

text \<open>
  On whole coordinates the operations of \<^verbatim>\<open>crates/framebuffer\<close> stay inside their buffer, and each pixel of the result is given:
  \<open>cell\<close> reads the pixel of a column and a row. \<open>overlay\<close>, a segment of a row replaced, is the step of every operation.
\<close>

subsection \<open>Rows and columns\<close>

definition wf_pixels :: "nat \<Rightarrow> nat \<Rightarrow> ('p, 'b) pixels_scheme \<Rightarrow> bool" where
  "wf_pixels W H b \<longleftrightarrow> bf_width b = of_nat W \<and> bf_height b = of_nat H \<and> length (bf_data b) = W * H \<and> W \<le> 2 ^ 22 \<and> H \<le> 2 ^ 22"

definition cell :: "nat \<Rightarrow> 'p list \<Rightarrow> nat \<Rightarrow> nat \<Rightarrow> 'p" where
  "cell W d px py = d ! (py * W + px)"

definition overlay :: "nat \<Rightarrow> 'p list \<Rightarrow> 'p list \<Rightarrow> 'p list" where
  "overlay i s d = take i d @ s @ drop (i + length s) d"

lemma cell_index: "px < W \<Longrightarrow> py < H \<Longrightarrow> py * W + px < W * (H :: nat)"
proof -
  assume p: "px < W" "py < H"
  have "py * W + px < Suc py * W" using p by simp
  also have "\<dots> \<le> H * W" using p by (intro mult_le_mono1) simp
  finally show ?thesis by (simp add: mult.commute)
qed

lemma row_index:
  assumes "px < W" "x + n \<le> (W :: nat)"
  shows "y * W + x \<le> py * W + px \<and> py * W + px < y * W + x + n \<longleftrightarrow> py = y \<and> x \<le> px \<and> px < x + n"
proof (cases py y rule: linorder_cases)
  case less
  have "py * W + px < Suc py * W" using assms by simp
  also have "\<dots> \<le> y * W" using less by (intro mult_le_mono1) simp
  finally show ?thesis using less by simp
next
  case greater
  have "Suc y * W \<le> py * W" using greater by (intro mult_le_mono1) simp
  then show ?thesis using greater assms by auto
qed simp

lemma length_overlay [simp]: "i + length s \<le> length d \<Longrightarrow> length (overlay i s d) = length d"
  by (simp add: overlay_def)

lemma overlay_nth:
  assumes "i + length s \<le> length d" "j < length d"
  shows "overlay i s d ! j = (if i \<le> j \<and> j < i + length s then s ! (j - i) else d ! j)"
  using assms by (auto simp: overlay_def nth_append)

lemma segment_fits: "x + n \<le> W \<Longrightarrow> y < H \<Longrightarrow> y * W + x + n \<le> W * (H :: nat)"
proof -
  assume p: "x + n \<le> W" "y < H"
  have "y * W + x + n \<le> Suc y * W" using p by simp
  also have "\<dots> \<le> H * W" using p by (intro mult_le_mono1) simp
  finally show ?thesis by (simp add: mult.commute)
qed

lemma overlay_cell:
  assumes "length d = W * H" "x + length s \<le> W" "y < H" "px < W" "py < H"
  shows "cell W (overlay (y * W + x) s d) px py = (if py = y \<and> x \<le> px \<and> px < x + length s then s ! (px - x) else cell W d px py)"
proof -
  have "overlay (y * W + x) s d ! (py * W + px) =
    (if y * W + x \<le> py * W + px \<and> py * W + px < y * W + x + length s then s ! (py * W + px - (y * W + x)) else d ! (py * W + px))"
    using assms segment_fits [of x "length s" W y H] cell_index [of px W py H] by (intro overlay_nth) simp_all
  then show ?thesis using row_index [OF assms(4,2), of y py] by (simp add: cell_def)
qed

lemma fill_slice_overlay: "i + n \<le> length d \<Longrightarrow> fill_slice i n c d = Some (overlay i (replicate n c) d)"
  by (simp add: fill_slice_def overlay_def)

lemma copy_overlay:
  "src + n \<le> length d \<Longrightarrow> dst + n \<le> length d \<Longrightarrow> src + n \<le> dst \<Longrightarrow>
   copy_to_nonoverlapping src dst n d = Some (overlay dst (take n (drop src d)) d)"
  by (simp add: copy_to_nonoverlapping_def overlay_def)

subsection \<open>Filling an area\<close>

lemma copy_rows_cells:
  assumes "length d = W * H" "x + n \<le> W" "y + k < H"
    and "\<forall>px. x \<le> px \<and> px < x + n \<longrightarrow> cell W d px y = c"
  shows "\<exists>d'. copy_rows k W (y * W + x) n d = Some d' \<and> length d' = W * H \<and>
    (\<forall>px < W. \<forall>py < H. cell W d' px py = (if x \<le> px \<and> px < x + n \<and> y < py \<and> py \<le> y + k then c else cell W d px py))"
  using assms
proof (induction k arbitrary: y d)
  case (Suc k)
  define s where "s = take n (drop (y * W + x) d)"
  define d1 where "d1 = overlay (Suc y * W + x) s d"
  have fit: "y * W + x + n \<le> length d" "Suc y * W + x + n \<le> length d"
    using Suc.prems segment_fits [of x n W y H] segment_fits [of x n W "Suc y" H] by simp_all
  have sl: "length s = n" using fit by (simp add: s_def)
  have sc: "s ! (px - x) = c" if "x \<le> px" "px < x + n" for px
  proof -
    have "s ! (px - x) = cell W d px y" using that fit by (simp add: s_def cell_def)
    then show ?thesis using Suc.prems(4) that by simp
  qed
  have cp: "copy_to_nonoverlapping (y * W + x) (y * W + x + W) n d = Some d1"
    using fit Suc.prems(2) copy_overlay [of "y * W + x" n d "y * W + x + W"] by (simp add: d1_def s_def ac_simps)
  have l1: "length d1 = W * H" using fit sl Suc.prems(1) by (simp add: d1_def)
  have c1: "cell W d1 px py = (if py = Suc y \<and> x \<le> px \<and> px < x + n then c else cell W d px py)" if "px < W" "py < H" for px py
    using overlay_cell [of d W H x s "Suc y" px py] Suc.prems sl that sc by (simp add: d1_def)
  have "\<exists>d'. copy_rows k W (Suc y * W + x) n d1 = Some d' \<and> length d' = W * H \<and>
    (\<forall>px < W. \<forall>py < H. cell W d' px py = (if x \<le> px \<and> px < x + n \<and> Suc y < py \<and> py \<le> Suc y + k then c else cell W d1 px py))"
    using Suc.prems l1 c1 by (intro Suc.IH) auto
  then obtain d' where d': "copy_rows k W (Suc y * W + x) n d1 = Some d'" "length d' = W * H"
    "\<And>px py. px < W \<Longrightarrow> py < H \<Longrightarrow> cell W d' px py = (if x \<le> px \<and> px < x + n \<and> Suc y < py \<and> py \<le> Suc y + k then c else cell W d1 px py)"
    by blast
  have "copy_rows (Suc k) W (y * W + x) n d = Some d'" using d'(1) cp by (simp add: ac_simps)
  moreover have "cell W d' px py = (if x \<le> px \<and> px < x + n \<and> y < py \<and> py \<le> y + Suc k then c else cell W d px py)"
    if "px < W" "py < H" for px py using d'(3) [OF that] c1 [OF that] by auto
  ultimately show ?case using d'(2) by blast
qed auto

lemma unat_usize_nat: "n < 2 ^ 64 \<Longrightarrow> unat (of_nat n :: usize) = n"
  by (simp add: unsigned_of_nat take_bit_nat_eq_self)

lemma f_of_usize_nat: "n \<le> 2 ^ 24 \<Longrightarrow> f_of_usize (of_nat n) = f_int (int n)"
  using f_of_usize_int [of "of_nat n"] by (simp add: unat_usize_nat)

lemma usize_of_f_nat: "0 \<le> a \<Longrightarrow> a < 2 ^ 64 \<Longrightarrow> usize_of_f (f_int a) = of_nat (nat a)"
  using usize_of_f_int [of a] by simp

lemma unat_index:
  assumes "W \<le> 2 ^ 22" "H \<le> 2 ^ 22" "i \<le> W * H"
  shows "unat (of_nat i :: usize) = i"
proof -
  have "W * H \<le> 2 ^ 22 * 2 ^ 22" using assms by (intro mult_le_mono) simp_all
  then show ?thesis using assms(3) by (intro unat_usize_nat) simp
qed

lemma wf_pixels_size:
  assumes "wf_pixels W H b"
  shows "f_of_usize (bf_width b) = f_int (int W)" "f_of_usize (bf_height b) = f_int (int H)"
    and "bf_area b = int_area 0 0 (int W) (int H)" "buffer_len b = W * H" "buffer b = Some (bf_data b)"
proof -
  have w: "W \<le> 2 ^ 22" "H \<le> 2 ^ 22" "bf_width b = of_nat W" "bf_height b = of_nat H" "length (bf_data b) = W * H"
    using assms by (simp_all add: wf_pixels_def)
  show s: "f_of_usize (bf_width b) = f_int (int W)" "f_of_usize (bf_height b) = f_int (int H)"
    using w(1,2) f_of_usize_nat [of W] f_of_usize_nat [of H] by (simp_all add: w(3,4))
  show "bf_area b = int_area 0 0 (int W) (int H)"
    by (simp add: bf_area_def bf_size_def s from_size_def int_area_def Area_new_def Point_ORIGIN_def int_point_def)
  have "bf_width b * bf_height b = of_nat (W * H)" by (simp add: w(3,4))
  then show l: "buffer_len b = W * H" using unat_index [OF w(1,2) order_refl] by (simp only: buffer_len_def)
  show "buffer b = Some (bf_data b)" by (simp add: buffer_def l w(5))
qed

lemma saturating_sub_nat:
  assumes "W < 2 ^ 64" "n < 2 ^ 64"
  shows "saturating_sub (of_nat W :: usize) (of_nat n) = of_nat (W - n)"
proof -
  have u: "unat (of_nat W :: usize) = W" "unat (of_nat n :: usize) = n" using assms by (simp_all only: unat_usize_nat)
  show ?thesis unfolding saturating_sub_def word_le_nat_alt u by simp
qed

text \<open>One side of the area: where the code starts, and how many pixels it takes.\<close>

lemma fill_side:
  assumes "W \<le> 2 ^ 22"
  shows "\<exists>v. f_clamp x (f_int 0) (f_int (int W)) = Some v \<and> usize_of_f v = of_nat (min W (f_index x))"
    and "\<exists>v. f_clamp w (f_int 0) (f_of_usize (saturating_sub (of_nat W) (usize_of_f x))) = Some v \<and> usize_of_f v = of_nat (min (W - f_index x) (f_index w))"
proof -
  have u: "usize_of_f v = of_nat (f_index v)" for v by (simp add: f_index_def)
  show "\<exists>v. f_clamp x (f_int 0) (f_int (int W)) = Some v \<and> usize_of_f v = of_nat (min W (f_index x))"
    using f_clamp_index [of W x] assms by (auto simp: u)
  have "f_index x < 2 ^ 64" using unat_usize [of "usize_of_f x"] by (simp add: f_index_def)
  then have "saturating_sub (of_nat W) (usize_of_f x) = of_nat (W - f_index x)"
    unfolding u using assms by (intro saturating_sub_nat) simp_all
  moreover have le: "W - f_index x \<le> 2 ^ 24" using assms by simp
  then have "f_of_usize (of_nat (W - f_index x)) = f_int (int (W - f_index x))" by (rule f_of_usize_nat)
  ultimately show "\<exists>v. f_clamp w (f_int 0) (f_of_usize (saturating_sub (of_nat W) (usize_of_f x))) = Some v \<and> usize_of_f v = of_nat (min (W - f_index x) (f_index w))"
    using f_clamp_index [OF le, of w] by (auto simp: u)
qed

lemma of_nat_zero: "n \<le> 2 ^ 22 \<Longrightarrow> (of_nat n :: usize) = 0 \<longleftrightarrow> n = 0"
  using unat_usize_nat [of n] by auto

text \<open>The first row and the copies of it.\<close>

lemma fill_rows_cells:
  assumes "length d = W * H" "0 < N" "0 < K" "X + N \<le> W" "Y + K \<le> H"
  shows "\<exists>d'. fill_slice (Y * W + X) N c d \<bind> copy_rows (K - 1) W (Y * W + X) N = Some d' \<and> length d' = W * H \<and>
    (\<forall>px < W. \<forall>py < H. cell W d' px py = (if X \<le> px \<and> px < X + N \<and> Y \<le> py \<and> py < Y + K then c else cell W d px py))"
proof -
  define d1 where "d1 = overlay (Y * W + X) (replicate N c) d"
  have fit: "Y * W + X + N \<le> W * H" using segment_fits [of X N W Y H] assms by simp
  have f: "fill_slice (Y * W + X) N c d = Some d1" using fill_slice_overlay [of "Y * W + X" N d c] fit assms(1) by (simp add: d1_def)
  have l1: "length d1 = W * H" using fit assms(1) by (simp add: d1_def)
  have c1: "cell W d1 px py = (if py = Y \<and> X \<le> px \<and> px < X + N then c else cell W d px py)" if "px < W" "py < H" for px py
    using overlay_cell [OF assms(1), of X "replicate N c" Y px py] assms that by (auto simp: d1_def)
  have "Y + (K - 1) < H" using assms by linarith
  moreover have "\<forall>px. X \<le> px \<and> px < X + N \<longrightarrow> cell W d1 px Y = c" using c1 assms by auto
  ultimately obtain d' where d: "copy_rows (K - 1) W (Y * W + X) N d1 = Some d'" "length d' = W * H"
    "\<forall>px < W. \<forall>py < H. cell W d' px py = (if X \<le> px \<and> px < X + N \<and> Y < py \<and> py \<le> Y + (K - 1) then c else cell W d1 px py)"
    using copy_rows_cells [OF l1 assms(4), of Y "K - 1" c] by blast
  have "cell W d' px py = (if X \<le> px \<and> px < X + N \<and> Y \<le> py \<and> py < Y + K then c else cell W d px py)" if "px < W" "py < H" for px py
    using d(3) c1 [OF that] that assms(3) by auto
  then show ?thesis using d(1,2) f by auto
qed

lemma fill_rect_cells:
  assumes wf: "wf_pixels W H b"
  shows "\<exists>d. fill_rect a c b = Some (b\<lparr>bf_data := d\<rparr>) \<and> length d = W * H \<and>
    (\<forall>px < W. \<forall>py < H. cell W d px py =
      (if f_index (area_x a) \<le> px \<and> px < f_index (area_x a) + f_index (area_width a) \<and>
          f_index (area_y a) \<le> py \<and> py < f_index (area_y a) + f_index (area_height a) then c else cell W (bf_data b) px py))"
proof -
  have W: "W \<le> 2 ^ 22" "H \<le> 2 ^ 22" "bf_width b = of_nat W" "bf_height b = of_nat H" "length (bf_data b) = W * H"
    using wf by (simp_all add: wf_pixels_def)
  define X Y N K where "X = min W (f_index (area_x a))" and "Y = min H (f_index (area_y a))"
    and "N = min (W - f_index (area_x a)) (f_index (area_width a))" and "K = min (H - f_index (area_y a)) (f_index (area_height a))"
  obtain vx vy vw vh where c: "f_clamp (area_x a) (f_int 0) (f_of_usize (bf_width b)) = Some vx"
    "f_clamp (area_y a) (f_int 0) (f_of_usize (bf_height b)) = Some vy"
    "f_clamp (area_width a) (f_int 0) (f_of_usize (saturating_sub (bf_width b) (usize_of_f (area_x a)))) = Some vw"
    "f_clamp (area_height a) (f_int 0) (f_of_usize (saturating_sub (bf_height b) (usize_of_f (area_y a)))) = Some vh"
    and v: "usize_of_f vx = of_nat X" "usize_of_f vy = of_nat Y" "usize_of_f vw = of_nat N" "usize_of_f vh = of_nat K"
    using fill_side(1) [OF W(1), of "area_x a"] fill_side(1) [OF W(2), of "area_y a"]
      fill_side(2) [OF W(1), of "area_width a" "area_x a"] fill_side(2) [OF W(2), of "area_height a" "area_y a"] wf_pixels_size(1,2) [OF wf] W(3,4)
    by (auto simp: X_def Y_def N_def K_def)
  have le: "N \<le> 2 ^ 22" "K \<le> 2 ^ 22" using W by (simp_all add: N_def K_def)
  have u: "unat (of_nat N :: usize) = N" "unat (of_nat K :: usize) = K" "unat (of_nat W :: usize) = W"
    using le W unat_usize_nat [of N] unat_usize_nat [of K] unat_usize_nat [of W] by simp_all
  have run: "fill_rect a c b = (if N = 0 \<or> K = 0 then Some b else
      let ptr = unat (of_nat Y * of_nat W + of_nat X :: usize) in
      fill_slice ptr N c (bf_data b) \<bind> (\<lambda>d. copy_rows (K - 1) W ptr N d \<bind> (\<lambda>d. Some (b\<lparr>bf_data := d\<rparr>))))"
    unfolding fill_rect_def c by (simp add: v u W(3) of_nat_zero [OF le(1)] of_nat_zero [OF le(2)] Let_def)
  have side: "l \<le> i \<and> i < l + n \<longleftrightarrow> min V l \<le> i \<and> i < min V l + min (V - l) n" if "i < V" for l n i V :: nat
    using that by linarith
  have set: "(f_index (area_x a) \<le> px \<and> px < f_index (area_x a) + f_index (area_width a) \<and>
      f_index (area_y a) \<le> py \<and> py < f_index (area_y a) + f_index (area_height a)) \<longleftrightarrow> X \<le> px \<and> px < X + N \<and> Y \<le> py \<and> py < Y + K"
    if "px < W" "py < H" for px py
    using side [OF that(1), of "f_index (area_x a)" "f_index (area_width a)"] side [OF that(2), of "f_index (area_y a)" "f_index (area_height a)"]
    unfolding X_def Y_def N_def K_def by blast
  show ?thesis
  proof (cases "N = 0 \<or> K = 0")
    case True
    then show ?thesis using run W(5) set by (intro exI [of _ "bf_data b"]) auto
  next
    case False
    then have XN: "0 < N" "0 < K" "X + N \<le> W" "Y + K \<le> H" by (auto simp: X_def Y_def N_def K_def)
    have "Y * W + X \<le> W * H" using segment_fits [of X N W Y H] XN by simp
    then have "unat (of_nat Y * of_nat W + of_nat X :: usize) = Y * W + X" using unat_index [OF W(1,2), of "Y * W + X"] by simp
    moreover obtain d where d: "fill_slice (Y * W + X) N c (bf_data b) \<bind> copy_rows (K - 1) W (Y * W + X) N = Some d" "length d = W * H"
      "\<forall>px < W. \<forall>py < H. cell W d px py = (if X \<le> px \<and> px < X + N \<and> Y \<le> py \<and> py < Y + K then c else cell W (bf_data b) px py)"
      using fill_rows_cells [OF W(5) XN, of c] by blast
    ultimately have "fill_rect a c b = Some (b\<lparr>bf_data := d\<rparr>)" using run False by (auto simp: Let_def bind_eq_Some_conv)
    then show ?thesis using d(2,3) set by auto
  qed
qed

text \<open>
  C11: Filling an area of a framebuffer, whatever numbers it is made of, never panics and never writes outside the buffer. With its
  coordinates cut to whole numbers, and those below zero or that are not numbers to zero, exactly the pixels from its corner
  on, within its width and height, get the colour in the format of the framebuffer.
\<close>

theorem fill_area_fills:
  assumes "wf_pixels W H fb" "to_u32 c (bf_format fb) = Some v"
  shows "\<exists>d. Framebuffer_fill_area fb a c = Some (fb\<lparr>bf_data := d\<rparr>) \<and> length d = W * H \<and>
    (\<forall>px < W. \<forall>py < H. cell W d px py =
      (if f_index (area_x a) \<le> px \<and> px < f_index (area_x a) + f_index (area_width a) \<and>
          f_index (area_y a) \<le> py \<and> py < f_index (area_y a) + f_index (area_height a) then v else cell W (bf_data fb) px py))"
  using fill_rect_cells [OF assms(1), of a v] by (simp add: Framebuffer_fill_area_def assms(2))

definition sample_screen :: framebuffer where
  "sample_screen = \<lparr>bf_ptr = 0x1000, bf_data = [1, 2, 3, 4, 5, 6], bf_width = 3, bf_height = 2, bf_format = BGRX8\<rparr>"

theorem fill_area_fills_witness:
  "\<exists>d. Framebuffer_fill_area sample_screen (int_area 1 0 5 7) Color_WHITE = Some (sample_screen\<lparr>bf_data := d\<rparr>)
     \<and> d = [1, 0xFFFFFF, 0xFFFFFF, 4, 0xFFFFFF, 0xFFFFFF]"
proof -
  have wf: "wf_pixels 3 2 sample_screen" by (simp add: wf_pixels_def sample_screen_def)
  have col: "to_u32 Color_WHITE (bf_format sample_screen) = Some 0xFFFFFF" by (simp add: sample_screen_def Color_WHITE_def Color_rgb_def)
  obtain d where d: "Framebuffer_fill_area sample_screen (int_area 1 0 5 7) Color_WHITE = Some (sample_screen\<lparr>bf_data := d\<rparr>)" "length d = 6"
    "\<forall>px < 3. \<forall>py < 2. cell 3 d px py = (if 1 \<le> px \<and> px < 6 \<and> py < 7 then 0xFFFFFF else cell 3 [1, 2, 3, 4, 5, 6] px py)"
    using fill_area_fills [OF wf col, of "int_area 1 0 5 7"] by (auto simp: sample_screen_def f_index_int)
  have c: "cell 3 d px py = (if 1 \<le> px \<and> px < 6 \<and> py < 7 then 0xFFFFFF else cell 3 [1, 2, 3, 4, 5, 6] px py)" if "px < 3" "py < 2" for px py
    using d(3) that by blast
  have "d ! 0 = 1" "d ! 1 = 0xFFFFFF" "d ! 2 = 0xFFFFFF" "d ! 3 = 4" "d ! 4 = 0xFFFFFF" "d ! 5 = 0xFFFFFF"
    using c [of 0 0] c [of 1 0] c [of 2 0] c [of 0 1] c [of 1 1] c [of 2 1] by (simp_all add: cell_def cells_def) (simp add: numeral_2_eq_2)
  then have "d = [1, 0xFFFFFF, 0xFFFFFF, 4, 0xFFFFFF, 0xFFFFFF]" using d(2) by (intro nth_equalityI) (auto simp: less_Suc_eq numeral_eq_Suc)
  then show ?thesis using d(1) by simp
qed

subsection \<open>Formats and points\<close>

definition drawable :: "pixel_format \<Rightarrow> bool" where
  "drawable f \<longleftrightarrow> f = BGRX8 \<or> f = RGBX8"

lemma point_index_int:
  assumes "wf_pixels W H b"
  shows "point_index b (int_point px py) =
    (if 0 \<le> px \<and> px < int W \<and> 0 \<le> py \<and> py < int H then Some (of_nat (nat py * W + nat px)) else None)"
proof -
  have W: "W \<le> 2 ^ 22" "H \<le> 2 ^ 22" "bf_width b = of_nat W" using assms by (simp_all add: wf_pixels_def)
  have "in_scale 0 (int W)" "in_scale 0 (int H)" using W by (simp_all add: in_scale_def)
  then have c: "area_contains (bf_area b) (int_point px py) \<longleftrightarrow> 0 \<le> px \<and> px < int W \<and> 0 \<le> py \<and> py < int H"
    by (auto simp: wf_pixels_size(3) [OF assms] area_contains_cells cells_def)
  have u: "usize_of_f (f_int a) = of_nat (nat a)" if "0 \<le> a" "a < int V" "V \<le> 2 ^ 22" for a V
    using that by (intro usize_of_f_nat) simp_all
  show ?thesis using W u [of px W] u [of py H] by (simp add: point_index_def c mult.commute)
qed

end
