(* ===== verification/Framebuffer_Text.thy ===== *)
theory Framebuffer_Text
  imports Framebuffer_Props
begin

section \<open>Characters\<close>

text \<open>
  \<^verbatim>\<open>draw_ascii_char\<close> is the same code for both kinds of buffer. The locale states what it needs of \<^verbatim>\<open>draw_pixel\<close>; the loop over
  the offsets is then shown to end, to stay inside the buffer and the font, and to paint the image of the character.
\<close>

locale pixel_painter =
  fixes draw :: "('p, 'b) pixels_scheme \<Rightarrow> point \<Rightarrow> color \<Rightarrow> ('p, 'b) pixels_scheme rust"
    and shade :: "('p, 'b) pixels_scheme \<Rightarrow> color \<Rightarrow> 'p"
    and ready :: "('p, 'b) pixels_scheme \<Rightarrow> bool"
  assumes draw_cell: "wf_pixels W H b \<Longrightarrow> ready b \<Longrightarrow> px < W \<Longrightarrow> py < H \<Longrightarrow>
      draw b (int_point (int px) (int py)) c = Some (b\<lparr>bf_data := (bf_data b)[py * W + px := shade b c]\<rparr>)"
    and draw_any: "wf_pixels W H b \<Longrightarrow> ready b \<Longrightarrow> \<exists>d. draw b p c = Some (b\<lparr>bf_data := d\<rparr>) \<and> length d = W * H"
    and shade_data: "shade (b\<lparr>bf_data := d\<rparr>) = shade b"
    and ready_data: "ready (b\<lparr>bf_data := d\<rparr>) = ready b"

definition glyph :: "nat \<Rightarrow> color \<Rightarrow> color \<Rightarrow> nat \<Rightarrow> nat \<Rightarrow> color" where
  "glyph ch fg bg dx dy = (if dx \<noteq> 0 \<and> bit (BASIC_FONT ! ch ! dy) (8 - dx) then fg else bg)"

lemma font_bit: "k < 8 \<Longrightarrow> (w :: u8) AND drop_bit k 0x80 \<noteq> 0 \<longleftrightarrow> bit w (7 - k)"
proof -
  assume k: "k < 8"
  have "drop_bit k (0x80 :: u8) = push_bit (7 - k) 1"
  proof -
    have "k = 0 \<or> k = 1 \<or> k = 2 \<or> k = 3 \<or> k = 4 \<or> k = 5 \<or> k = 6 \<or> k = 7" using k by linarith
    then show ?thesis by (elim disjE) simp_all
  qed
  then show ?thesis by (simp add: bit_iff_and_push_bit_not_eq_0)
qed

lemma glyph_color_int:
  assumes "ch < 128" "xa < 9" "ya < 16"
  shows "glyph_color ch fg bg (f_int (int xa)) (f_int (int ya)) = Some (glyph ch fg bg xa ya)"
proof (cases xa)
  case (Suc k)
  have "f_sub (f_int (int xa)) (f_int 1) = f_int (int k)" using f_sub_scale [of "int xa" 1] assms(2) Suc by (simp add: in_scale_def)
  moreover have "usize_of_f (f_int (int k)) = of_nat k" "usize_of_f (f_int (int ya)) = of_nat ya" using assms Suc usize_of_f_nat [of "int k"] usize_of_f_nat [of "int ya"] by simp_all
  moreover have "unat (of_nat k :: usize) = k" "unat (of_nat ya :: usize) = ya" using assms Suc unat_usize_nat [of k] unat_usize_nat [of ya] by simp_all
  moreover have "length (BASIC_FONT ! ch) = 16" using length_BASIC_FONT_row assms(1) by simp
  ultimately show ?thesis using assms Suc font_bit [of k] by (simp add: glyph_color_def Let_def glyph_def length_BASIC_FONT)
qed (simp add: glyph_color_def glyph_def)

lemma update_cell:
  assumes "length d = W * H" "x < W" "y < H" "px < W" "py < H"
  shows "cell W (d[y * W + x := c]) px py = (if px = x \<and> py = y then c else cell W d px py)"
proof -
  have "y * W + x = py * W + px \<longleftrightarrow> px = x \<and> py = y" using row_index [OF assms(4), of x 1 y py] assms(2) by auto
  then show ?thesis using cell_index [OF assms(4,5)] cell_index [OF assms(2,3)] assms(1) by (auto simp: cell_def nth_list_update)
qed

text \<open>Offsets that are not whole.\<close>

lemma f_le_int_trans: "f_le (f_int m) a \<Longrightarrow> n \<le> m \<Longrightarrow> f_le (f_int n) a"
proof (cases a)
  case (Finite s q)
  assume "f_le (f_int m) a" "n \<le> m"
  then have "(of_int m :: rat) \<le> f_val (Finite s q)" "(of_int n :: rat) \<le> of_int m" using f_finite_int(2) [of m s q] by (simp_all add: Finite)
  then show ?thesis using f_finite_int(2) [of n s q] by (simp add: Finite)
qed (auto simp: f_le_def f_int_def)

lemma f_not_le: "f_le (f_int m) a \<Longrightarrow> \<not> f_le (f_int n) a \<Longrightarrow> f_lt a (f_int n)"
proof (cases a)
  case (Finite s q)
  then show "\<not> f_le (f_int n) a \<Longrightarrow> f_lt a (f_int n)" using f_finite_int(1) [of s q n] f_finite_int(2) [of n s q] by auto
qed (auto simp: f_le_def f_int_def)

lemma f_add_one_ge:
  assumes "f_le (f_int (int i)) a" "i < 2 ^ 24"
  shows "f_le (f_int (int (Suc i))) (f_add a (f_int 1))"
proof (cases a)
  case (Finite s q)
  define v where "v = f_val (Finite s q)"
  have v: "of_int (int i) \<le> v" using assms(1) f_finite_int(2) [of "int i" s q] by (simp only: Finite v_def)
  have "f_add a (f_int 1) = f_round (s \<and> False) (v + 1)"
    using f_val_int [of 1] unfolding Finite f_int_def v_def by (simp only: f_add.simps) simp
  moreover have "f_le (f_int (int (Suc i))) (f_round (s \<and> False) (v + 1))"
  proof (rule f_round_ge_int)
    have "0 \<le> (of_int (int i) :: rat)" by simp
    then show "0 < v + 1" using v by linarith
    show "of_int (int (Suc i)) \<le> v + 1" using v by simp
  qed (use assms(2) in simp_all)
  ultimately show ?thesis by simp
qed (use assms in \<open>auto simp: f_le_def f_int_def\<close>)

lemma f_round_nonpos: "q \<le> 0 \<Longrightarrow> \<not> f_lt (f_int 0) (f_round s q)"
proof -
  assume q: "q \<le> 0"
  define ulp where "ulp = pow2 (max (floor_log2 \<bar>q\<bar>) (- 126) - 23)"
  have "0 \<le> \<bar>q\<bar> / ulp" by (simp add: ulp_def pow2_def)
  then have "0 \<le> of_int (round_half_even (\<bar>q\<bar> / ulp)) * ulp" using round_half_even_ge [of 0 "\<bar>q\<bar> / ulp"] by (simp add: ulp_def pow2_def)
  then show ?thesis using q by (auto simp: f_round_def Let_def f_int_def ulp_def)
qed

lemma f_neg_offset:
  "f_lt a (f_int 0) \<Longrightarrow> f_le (f_int 0) (f_neg a)"
  "f_lt a (f_int 0) \<Longrightarrow> f_lt (f_int 0) (f_add a (f_int 16)) \<Longrightarrow> f_lt (f_neg a) (f_int 16)"
proof -
  show "f_lt a (f_int 0) \<Longrightarrow> f_le (f_int 0) (f_neg a)" by (cases a) (auto simp: f_int_def f_le_def split: if_splits)
  assume a: "f_lt a (f_int 0)" "f_lt (f_int 0) (f_add a (f_int 16))"
  show "f_lt (f_neg a) (f_int 16)"
  proof (cases a)
    case (Finite s m)
    define v where "v = f_val (Finite s m)"
    have "f_add a (f_int 16) = f_round (s \<and> False) (v + 16)"
      using f_val_int [of 16] unfolding Finite f_int_def v_def by (simp only: f_add.simps) simp
    then have "0 < v + 16" using a(2) f_round_nonpos [of "v + 16"] by (metis not_le)
    then show ?thesis using f_finite_int(1) [of "\<not> s" m 16] by (auto simp: Finite v_def)
  qed (use a in \<open>auto simp: f_int_def\<close>)
qed

lemma glyph_color_total:
  assumes "ch < 128" "f_le (f_int 0) ya" "f_lt ya (f_int 16)"
  shows "\<exists>c. glyph_color ch fg bg xa ya = Some c"
proof -
  have "int (unat (usize_of_f ya)) < 16" by (rule usize_of_f_bounds [OF assms(2,3)]) simp
  then have "unat (usize_of_f ya) < 16" by linarith
  then show ?thesis using assms(1) length_BASIC_FONT length_BASIC_FONT_row [of ch] by (simp add: glyph_color_def Let_def)
qed

text \<open>\<open>painted\<close>: an image of 9 by 16 has been painted from an offset on, row by row, and nothing else has changed.\<close>

definition to_paint :: "nat \<Rightarrow> int \<Rightarrow> int \<Rightarrow> nat \<Rightarrow> nat \<Rightarrow> nat \<Rightarrow> nat \<Rightarrow> bool" where
  "to_paint ox sx sy xa ya px py \<longleftrightarrow> int ox \<le> int px - sx \<and> int px - sx < 9 \<and> int py - sy < 16 \<and>
     (int ya < int py - sy \<or> int ya = int py - sy \<and> int xa \<le> int px - sx)"

definition painted :: "nat \<Rightarrow> nat \<Rightarrow> (nat \<Rightarrow> nat \<Rightarrow> 'p) \<Rightarrow> nat \<Rightarrow> int \<Rightarrow> int \<Rightarrow> nat \<Rightarrow> nat \<Rightarrow> 'p list \<Rightarrow> 'p list \<Rightarrow> bool" where
  "painted W H img ox sx sy xa ya d d' \<longleftrightarrow> (\<forall>px < W. \<forall>py < H. cell W d' px py =
     (if to_paint ox sx sy xa ya px py then img (nat (int px - sx)) (nat (int py - sy)) else cell W d px py))"

lemma painted_steps:
  fixes img :: "nat \<Rightarrow> nat \<Rightarrow> 'p"
  assumes l: "length d = W * H" and p: "x < W" "y < H" "int x = sx + int xa" "int y = sy + int ya" and xa: "ox \<le> xa" "xa < 9" "ya < 16"
  defines "d1 \<equiv> d[y * W + x := img xa ya]"
  shows "9 \<le> Suc xa \<or> int W \<le> sx + int (Suc xa) \<Longrightarrow> 16 \<le> Suc ya \<or> int H \<le> sy + int (Suc ya) \<Longrightarrow> painted W H img ox sx sy xa ya d d1"
    and "9 \<le> Suc xa \<or> int W \<le> sx + int (Suc xa) \<Longrightarrow> painted W H img ox sx sy ox (Suc ya) d1 d' \<Longrightarrow> painted W H img ox sx sy xa ya d d'"
    and "painted W H img ox sx sy (Suc xa) ya d1 d' \<Longrightarrow> painted W H img ox sx sy xa ya d d'"
proof -
  have c1: "cell W d1 px py = (if px = x \<and> py = y then img (nat (int px - sx)) (nat (int py - sy)) else cell W d px py)"
    if "px < W" "py < H" for px py using update_cell [OF l p(1,2) that] p(3,4) by (auto simp: d1_def)
  show "painted W H img ox sx sy xa ya d d1" if "9 \<le> Suc xa \<or> int W \<le> sx + int (Suc xa)" "16 \<le> Suc ya \<or> int H \<le> sy + int (Suc ya)"
  proof -
    have "to_paint ox sx sy xa ya px py \<longleftrightarrow> px = x \<and> py = y" if "px < W" "py < H" for px py
      using \<open>9 \<le> Suc xa \<or> _\<close> \<open>16 \<le> Suc ya \<or> _\<close> that p xa by (auto simp: to_paint_def)
    then show ?thesis using c1 by (simp add: painted_def)
  qed
  show "painted W H img ox sx sy xa ya d d'" if "9 \<le> Suc xa \<or> int W \<le> sx + int (Suc xa)" "painted W H img ox sx sy ox (Suc ya) d1 d'"
  proof -
    have "to_paint ox sx sy xa ya px py \<longleftrightarrow> px = x \<and> py = y \<or> to_paint ox sx sy ox (Suc ya) px py" if "px < W" for px py
      using \<open>9 \<le> Suc xa \<or> _\<close> that p xa by (auto simp: to_paint_def)
    then show ?thesis using c1 that(2) by (simp add: painted_def)
  qed
  show "painted W H img ox sx sy xa ya d d'" if "painted W H img ox sx sy (Suc xa) ya d1 d'"
  proof -
    have "to_paint ox sx sy xa ya px py \<longleftrightarrow> px = x \<and> py = y \<or> to_paint ox sx sy (Suc xa) ya px py" for px py
      using p xa by (auto simp: to_paint_def)
    then show ?thesis using c1 that by (simp add: painted_def)
  qed
qed

context pixel_painter
begin

text \<open>One turn of the loop: it paints the pixel at the offset, and goes on in the row, in the next row, or ends.\<close>

lemma char_loop_turn:
  fixes fg bg :: color
  assumes wf: "wf_pixels W H b" and "ready b" "ch < 128" "xa < 9" "ya < 16"
    and p: "px < W" "py < H" "int px = sx + int xa" "int py = sy + int ya"
  defines "b1 \<equiv> b\<lparr>bf_data := (bf_data b)[py * W + px := shade b (glyph ch fg bg xa ya)]\<rparr>"
  shows "char_loop (Suc n) draw ch fg bg (int_point sx sy) off (f_int (int xa)) (f_int (int ya)) b =
    (if 9 \<le> Suc xa \<or> int W \<le> sx + int (Suc xa) then
       if 16 \<le> Suc ya \<or> int H \<le> sy + int (Suc ya) then Some b1
       else char_loop n draw ch fg bg (int_point sx sy) off off (f_int (int (Suc ya))) b1
     else char_loop n draw ch fg bg (int_point sx sy) off (f_int (int (Suc xa))) (f_int (int ya)) b1)"
proof -
  have le: "int W \<le> 2 ^ 22" "int H \<le> 2 ^ 22" using wf by (simp_all add: wf_pixels_def)
  have s: "- 9 \<le> sx" "sx < int W" "- 16 \<le> sy" "sy < int H" using p assms(4,5) by linarith+
  have "in_scale sx (int xa)" "in_scale sy (int ya)" "in_scale (int xa) 1" "in_scale (int ya) 1" "in_scale sx (int (Suc xa))" "in_scale sy (int (Suc ya))"
    using s le assms(4,5) by (auto simp: in_scale_def)
  note sc = this [THEN f_add_scale]
  have add: "f_add (f_int (int xa)) (f_int 1) = f_int (int (Suc xa))" "f_add (f_int (int ya)) (f_int 1) = f_int (int (Suc ya))"
    using sc(3,4) by (simp_all add: add.commute)
  have pos: "Point_new (f_add (f_int sx) (f_int (int xa))) (f_add (f_int sy) (f_int (int ya))) = int_point (int px) (int py)"
    by (simp add: sc(1,2) p(3,4) int_point_def)
  have "in_scale 0 (int W)" "in_scale 0 (int H)" using le by (simp_all add: in_scale_def)
  then have inb: "area_contains (bf_area b) (int_point (int px) (int py))"
    using p(1,2) by (simp add: wf_pixels_size(3) [OF wf] area_contains_cells cells_def)
  have w1: "wf_pixels W H b1" using wf by (simp add: b1_def wf_pixels_def)
  have ch: "f_of_usize CHAR_WIDTH = f_int 9" "f_of_usize CHAR_HEIGHT = f_int 16"
    using f_of_usize_nat [of 9] f_of_usize_nat [of 16] by (simp_all add: CHAR_WIDTH_def CHAR_HEIGHT_def)
  have nine: "9 \<le> int (Suc xa) \<longleftrightarrow> 9 \<le> Suc xa" "16 \<le> int (Suc ya) \<longleftrightarrow> 16 \<le> Suc ya" by linarith+
  show ?thesis
    unfolding char_loop.simps(2) Let_def int_point_sel pos add
    using inb glyph_color_int [OF assms(3-5)] draw_cell [OF wf assms(2) p(1,2)]
    by (simp only: if_True bind.simps b1_def [symmetric] wf_pixels_size(1,2) [OF w1] ch sc(5,6) f_int_order nine)
qed

lemma char_loop_cells:
  fixes fg bg :: color
  assumes "wf_pixels W H b" "ready b" "ch < 128" "int ox = max 0 (- sx)"
    and "ox \<le> xa" "xa < 9" "sx + int xa < int W" "ya < 16" "0 \<le> sy + int ya" "sy + int ya < int H"
    and "9 * (16 - ya) - xa \<le> n"
  shows "\<exists>d. char_loop n draw ch fg bg (int_point sx sy) (f_int (int ox)) (f_int (int xa)) (f_int (int ya)) b = Some (b\<lparr>bf_data := d\<rparr>)
    \<and> length d = W * H \<and> painted W H (\<lambda>dx dy. shade b (glyph ch fg bg dx dy)) ox sx sy xa ya (bf_data b) d"
  using assms
proof (induction n arbitrary: xa ya b)
  case 0
  then show ?case by linarith
next
  case (Suc n)
  define px py where "px = nat (sx + int xa)" and "py = nat (sy + int ya)"
  have p: "px < W" "py < H" "int px = sx + int xa" "int py = sy + int ya" using Suc.prems by (auto simp: px_def py_def)
  define d1 where "d1 = (bf_data b)[py * W + px := shade b (glyph ch fg bg xa ya)]"
  define b1 where "b1 = b\<lparr>bf_data := d1\<rparr>"
  have b1: "wf_pixels W H b1" "ready b1" "shade b1 = shade b" "bf_data b1 = d1" "\<And>d. b1\<lparr>bf_data := d\<rparr> = b\<lparr>bf_data := d\<rparr>"
    using Suc.prems(1,2) by (simp_all add: b1_def d1_def wf_pixels_def ready_data shade_data)
  have "length (bf_data b) = W * H" using Suc.prems(1) by (simp add: wf_pixels_def)
  note steps = painted_steps [OF this p Suc.prems(5,6,8), of "\<lambda>dx dy. shade b (glyph ch fg bg dx dy)", folded d1_def]
  note turn = char_loop_turn [OF Suc.prems(1-3,6,8) p, where fg = fg and bg = bg and n = n and off = "f_int (int ox)", folded d1_def, folded b1_def]
  consider "9 \<le> Suc xa \<or> int W \<le> sx + int (Suc xa)" "16 \<le> Suc ya \<or> int H \<le> sy + int (Suc ya)"
    | "9 \<le> Suc xa \<or> int W \<le> sx + int (Suc xa)" "\<not> (16 \<le> Suc ya \<or> int H \<le> sy + int (Suc ya))"
    | "\<not> (9 \<le> Suc xa \<or> int W \<le> sx + int (Suc xa))" by blast
  then show ?case
  proof cases
    case 1
    then have "char_loop (Suc n) draw ch fg bg (int_point sx sy) (f_int (int ox)) (f_int (int xa)) (f_int (int ya)) b = Some (b\<lparr>bf_data := d1\<rparr>)"
      using turn by (simp only: if_True b1_def)
    then show ?thesis using steps(1) [OF 1] b1(1,4) by (auto simp: wf_pixels_def)
  next
    case 2
    have "sx + int ox < int W" "ox < 9" "Suc ya < 16" "0 \<le> sy + int (Suc ya)" "sy + int (Suc ya) < int H" "9 * (16 - Suc ya) - ox \<le> n"
      using Suc.prems(5-11) 2 by linarith+
    then obtain d where d: "char_loop n draw ch fg bg (int_point sx sy) (f_int (int ox)) (f_int (int ox)) (f_int (int (Suc ya))) b1 = Some (b\<lparr>bf_data := d\<rparr>)"
      "length d = W * H" "painted W H (\<lambda>dx dy. shade b (glyph ch fg bg dx dy)) ox sx sy ox (Suc ya) d1 d"
      using Suc.IH [OF b1(1,2) Suc.prems(3,4) order_refl, of "Suc ya"] by (auto simp: b1(3-5))
    have "char_loop (Suc n) draw ch fg bg (int_point sx sy) (f_int (int ox)) (f_int (int xa)) (f_int (int ya)) b = Some (b\<lparr>bf_data := d\<rparr>)"
      using turn 2 d(1) by (simp only: if_True if_False)
    then show ?thesis using d(2) steps(2) [OF 2(1) d(3)] by blast
  next
    case 3
    have "ox \<le> Suc xa" "Suc xa < 9" "sx + int (Suc xa) < int W" "9 * (16 - ya) - Suc xa \<le> n" using Suc.prems(5-11) 3 by linarith+
    then obtain d where d: "char_loop n draw ch fg bg (int_point sx sy) (f_int (int ox)) (f_int (int (Suc xa))) (f_int (int ya)) b1 = Some (b\<lparr>bf_data := d\<rparr>)"
      "length d = W * H" "painted W H (\<lambda>dx dy. shade b (glyph ch fg bg dx dy)) ox sx sy (Suc xa) ya d1 d"
      using Suc.IH [OF b1(1,2) Suc.prems(3,4), of "Suc xa" ya] Suc.prems(8-10) by (auto simp: b1(3-5))
    have "char_loop (Suc n) draw ch fg bg (int_point sx sy) (f_int (int ox)) (f_int (int xa)) (f_int (int ya)) b = Some (b\<lparr>bf_data := d\<rparr>)"
      using turn 3 d(1) by (simp only: if_False)
    then show ?thesis using d(2) steps(3) [OF d(3)] by blast
  qed
qed

text \<open>
  At any position, the loop ends and stays inside the font and the buffer: the offsets are at least the numbers of turns
  made in the row and of rows made, so both are bounded.
\<close>

lemma char_loop_total:
  fixes fg bg :: color
  assumes "wf_pixels W H b" "ready b" "ch < 128" "f_le (f_int 0) off"
    and "f_le (f_int (int i)) xa" "i < 9" "f_le (f_int (int j)) ya" "j < 16" "f_lt ya (f_int 16)"
    and "9 * (16 - j) - i \<le> n"
  shows "\<exists>d. char_loop n draw ch fg bg start off xa ya b = Some (b\<lparr>bf_data := d\<rparr>) \<and> length d = W * H"
  using assms
proof (induction n arbitrary: i j xa ya b)
  case 0
  then show ?case by linarith
next
  case (Suc n)
  define pos where "pos = Point_new (f_add (pt_x start) xa) (f_add (pt_y start) ya)"
  define b' where "b' = (if area_contains (bf_area b) pos then do {c \<leftarrow> glyph_color ch fg bg xa ya; draw b pos c} else Some b)"
  have "f_le (f_int 0) ya" using f_le_int_trans [OF Suc.prems(7)] by simp
  then obtain col where col: "glyph_color ch fg bg xa ya = Some col" using glyph_color_total [OF Suc.prems(3)] Suc.prems(9) by blast
  have l: "length (bf_data b) = W * H" using Suc.prems(1) by (simp add: wf_pixels_def)
  obtain d1 where d1: "b' = Some (b\<lparr>bf_data := d1\<rparr>)" "length d1 = W * H"
    using that [of "bf_data b"] that draw_any [OF Suc.prems(1,2), of pos col] col l by (cases "area_contains (bf_area b) pos") (auto simp: b'_def)
  define b1 where "b1 = b\<lparr>bf_data := d1\<rparr>"
  have b1: "wf_pixels W H b1" "ready b1" "\<And>d. b1\<lparr>bf_data := d\<rparr> = b\<lparr>bf_data := d\<rparr>"
    using Suc.prems(1,2) d1(2) by (simp_all add: b1_def wf_pixels_def ready_data)
  have ch: "f_of_usize CHAR_WIDTH = f_int 9" "f_of_usize CHAR_HEIGHT = f_int 16"
    using f_of_usize_nat [of 9] f_of_usize_nat [of 16] by (simp_all add: CHAR_WIDTH_def CHAR_HEIGHT_def)
  define xa' ya' where "xa' = f_add xa (f_int 1)" and "ya' = f_add ya (f_int 1)"
  have run: "char_loop (Suc n) draw ch fg bg start off xa ya b =
    (if f_le (f_int 9) xa' \<or> f_le (f_of_usize (bf_width b1)) (f_add (pt_x start) xa')
     then if f_le (f_int 16) ya' \<or> f_le (f_of_usize (bf_height b1)) (f_add (pt_y start) ya') then Some b1
       else char_loop n draw ch fg bg start off off ya' b1
     else char_loop n draw ch fg bg start off xa' ya b1)"
    using d1(1) by (simp add: Let_def ch flip: b1_def xa'_def ya'_def pos_def b'_def)
  have x: "f_le (f_int (int (Suc i))) xa'" unfolding xa'_def using f_add_one_ge [of i xa] Suc.prems(5,6) by simp
  have y: "f_le (f_int (int (Suc j))) ya'" unfolding ya'_def using f_add_one_ge [of j ya] Suc.prems(7,8) by simp
  consider "f_le (f_int 9) xa' \<or> f_le (f_of_usize (bf_width b1)) (f_add (pt_x start) xa')" "f_le (f_int 16) ya' \<or> f_le (f_of_usize (bf_height b1)) (f_add (pt_y start) ya')"
    | "f_le (f_int 9) xa' \<or> f_le (f_of_usize (bf_width b1)) (f_add (pt_x start) xa')" "\<not> (f_le (f_int 16) ya' \<or> f_le (f_of_usize (bf_height b1)) (f_add (pt_y start) ya'))"
    | "\<not> (f_le (f_int 9) xa' \<or> f_le (f_of_usize (bf_width b1)) (f_add (pt_x start) xa'))" by blast
  then show ?case
  proof cases
    case 1
    then show ?thesis using run d1(2) by (auto simp: b1_def)
  next
    case 2
    have "Suc j < 16" using 2(2) f_le_int_trans [OF y, of 16] by (cases "Suc j < 16") auto
    moreover have "f_lt ya' (f_int 16)" using 2(2) f_not_le [OF y] by blast
    ultimately show ?thesis using run 2 Suc.IH [OF b1(1,2) Suc.prems(3,4), of 0 off "Suc j" ya'] Suc.prems(4,6,10) y by (auto simp: b1(3))
  next
    case 3
    have "Suc i < 9" using 3 f_le_int_trans [OF x, of 9] by (cases "Suc i < 9") auto
    then show ?thesis using run 3 Suc.IH [OF b1(1,2) Suc.prems(3,4) x _ Suc.prems(7-9)] Suc.prems(10) by (auto simp: b1(3))
  qed
qed

lemma draw_ascii_total:
  fixes fg bg :: color
  assumes wf: "wf_pixels W H b" and "ready b" and fuel: "144 \<le> fuel"
  shows "\<exists>d. draw_ascii fuel draw b ch fg bg pos col row = Some (b\<lparr>bf_data := d\<rparr>) \<and> length d = W * H"
proof -
  define sx sy where "sx = f_add (pt_x pos) (f_of_usize (col * CHAR_WIDTH))" and "sy = f_add (pt_y pos) (f_of_usize (row * CHAR_HEIGHT))"
  define a where "a = Area_new (Point_new sx sy) (Size_new (f_of_usize CHAR_WIDTH) (f_of_usize CHAR_HEIGHT))"
  define ox oy where "ox = (if f_lt sx (f_int 0) then f_neg sx else f_int 0)" and "oy = (if f_lt sy (f_int 0) then f_neg sy else f_int 0)"
  have run: "draw_ascii fuel draw b ch fg bg pos col row = (if \<not> area_intersects (bf_area b) a then Some b
      else char_loop fuel draw (if ch < 128 then ch else 63) fg bg (Point_new sx sy) ox ox oy b)"
    by (simp only: draw_ascii_def Let_def sx_def sy_def a_def ox_def oy_def)
  show ?thesis
  proof (cases "area_intersects (bf_area b) a")
    case True
    have "f_of_usize CHAR_HEIGHT = f_int 16" using f_of_usize_nat [of 16] by (simp add: CHAR_HEIGHT_def)
    then have "f_lt (f_int 0) (f_add sy (f_int 16))"
      using True unfolding area_intersects_def wf_pixels_size(3) [OF wf] by (simp add: a_def Area_new_def max_y_def)
    then have o: "f_le (f_int 0) ox" "f_le (f_int 0) oy" "f_lt oy (f_int 16)" using f_neg_offset(1) [of sx] f_neg_offset [of sy] by (auto simp: ox_def oy_def)
    have "\<exists>d. char_loop fuel draw (if ch < 128 then ch else 63) fg bg (Point_new sx sy) ox ox oy b = Some (b\<lparr>bf_data := d\<rparr>) \<and> length d = W * H"
      using o fuel by (intro char_loop_total [OF wf assms(2), where i = 0 and j = 0]) simp_all
    then show ?thesis using True by (simp add: run)
  qed (use wf in \<open>auto simp: run wf_pixels_def intro: exI [of _ "bf_data b"]\<close>)
qed

lemma draw_ascii_cells:
  fixes fg bg :: color
  assumes wf: "wf_pixels W H b" and "ready b" and pos: "0 < W" "0 < H" and xy: "\<bar>x\<bar> \<le> 2 ^ 22" "\<bar>y\<bar> \<le> 2 ^ 22" "9 * c \<le> 2 ^ 22" "16 * r \<le> 2 ^ 22" and "144 \<le> fuel"
  shows "\<exists>d. draw_ascii fuel draw b ch fg bg (int_point x y) (of_nat c) (of_nat r) = Some (b\<lparr>bf_data := d\<rparr>) \<and> length d = W * H \<and>
    (\<forall>px < W. \<forall>py < H. cell W d px py =
      (if (int px, int py) \<in> cells (x + 9 * int c) (y + 16 * int r) 9 16
       then shade b (glyph (if ch < 128 then ch else 63) fg bg (nat (int px - (x + 9 * int c))) (nat (int py - (y + 16 * int r))))
       else cell W (bf_data b) px py))"
proof -
  have le: "int W \<le> 2 ^ 22" "int H \<le> 2 ^ 22" "length (bf_data b) = W * H" using wf by (simp_all add: wf_pixels_def)
  define k sx sy where "k = (if ch < 128 then ch else 63)" and "sx = x + 9 * int c" and "sy = y + 16 * int r"
  have "of_nat c * CHAR_WIDTH = of_nat (9 * c)" "of_nat r * CHAR_HEIGHT = of_nat (16 * r)" by (simp_all add: CHAR_WIDTH_def CHAR_HEIGHT_def)
  then have "f_of_usize (of_nat c * CHAR_WIDTH) = f_int (int (9 * c))" "f_of_usize (of_nat r * CHAR_HEIGHT) = f_int (int (16 * r))"
    using xy f_of_usize_nat [of "9 * c"] f_of_usize_nat [of "16 * r"] by simp_all
  moreover have "in_scale x (int (9 * c))" "in_scale y (int (16 * r))" using xy by (auto simp: in_scale_def)
  ultimately have st: "f_add (f_int x) (f_of_usize (of_nat c * CHAR_WIDTH)) = f_int sx" "f_add (f_int y) (f_of_usize (of_nat r * CHAR_HEIGHT)) = f_int sy"
    by (simp_all add: f_add_scale sx_def sy_def)
  have ar: "Area_new (Point_new (f_int sx) (f_int sy)) (Size_new (f_of_usize CHAR_WIDTH) (f_of_usize CHAR_HEIGHT)) = int_area sx sy 9 16"
    using f_of_usize_nat [of 9] f_of_usize_nat [of 16] by (simp add: CHAR_WIDTH_def CHAR_HEIGHT_def int_area_def int_point_def)
  have "in_scale sx 9" "in_scale sy 16" "in_scale 0 (int W)" "in_scale 0 (int H)" using xy le by (auto simp: in_scale_def sx_def sy_def)
  then have meets: "area_intersects (bf_area b) (int_area sx sy 9 16) \<longleftrightarrow> 0 < sx + 9 \<and> 0 < sy + 16 \<and> sx < int W \<and> sy < int H"
    by (simp add: wf_pixels_size(3) [OF wf] area_intersects_def)
  define ox oy where "ox = nat (- sx)" and "oy = nat (- sy)"
  have off: "(if f_lt (f_int a) (f_int 0) then f_neg (f_int a) else f_int 0) = f_int (int (nat (- a)))" for a by (simp add: f_int_def)
  have run: "draw_ascii fuel draw b ch fg bg (int_point x y) (of_nat c) (of_nat r) =
    (if \<not> (0 < sx + 9 \<and> 0 < sy + 16 \<and> sx < int W \<and> sy < int H) then Some b
     else char_loop fuel draw k fg bg (int_point sx sy) (f_int (int ox)) (f_int (int ox)) (f_int (int oy)) b)"
    unfolding draw_ascii_def Let_def int_point_sel st ar meets off ox_def oy_def k_def by (simp only: int_point_def)
  have "\<exists>d. draw_ascii fuel draw b ch fg bg (int_point x y) (of_nat c) (of_nat r) = Some (b\<lparr>bf_data := d\<rparr>) \<and> length d = W * H \<and>
    (\<forall>px < W. \<forall>py < H. cell W d px py = (if (int px, int py) \<in> cells sx sy 9 16
       then shade b (glyph k fg bg (nat (int px - sx)) (nat (int py - sy))) else cell W (bf_data b) px py))"
  proof (cases "0 < sx + 9 \<and> 0 < sy + 16 \<and> sx < int W \<and> sy < int H")
    case True
    have "k < 128" "int ox = max 0 (- sx)" "ox < 9" "sx + int ox < int W" "oy < 16" "0 \<le> sy + int oy" "sy + int oy < int H" "9 * (16 - oy) - ox \<le> fuel"
      using True pos \<open>144 \<le> fuel\<close> by (auto simp: k_def ox_def oy_def)
    then obtain d where d: "char_loop fuel draw k fg bg (int_point sx sy) (f_int (int ox)) (f_int (int ox)) (f_int (int oy)) b = Some (b\<lparr>bf_data := d\<rparr>)"
      "length d = W * H" "painted W H (\<lambda>dx dy. shade b (glyph k fg bg dx dy)) ox sx sy ox oy (bf_data b) d"
      using char_loop_cells [OF wf assms(2), of k ox sx ox oy sy fuel fg bg] by blast
    have "to_paint ox sx sy ox oy px py \<longleftrightarrow> (int px, int py) \<in> cells sx sy 9 16" for px py
      by (auto simp: to_paint_def cells_def ox_def oy_def)
    then show ?thesis using d True by (auto simp: run painted_def)
  next
    case False
    then have "(int px, int py) \<notin> cells sx sy 9 16" if "px < W" "py < H" for px py using that by (auto simp: cells_def)
    then show ?thesis using False le(3) by (intro exI [of _ "bf_data b"]) (auto simp: run)
  qed
  then show ?thesis by (simp only: k_def sx_def sy_def)
qed

end

subsection \<open>Single pixels\<close>

text \<open>
  At any point, whole or not, \<^verbatim>\<open>draw_pixel\<close> stays inside the buffer: a point inside the area has a column and a row of the
  buffer, and a point that is not, such as one that is not a number, changes nothing.
\<close>

lemma contains_cell:
  assumes "wf_pixels W H b" "area_contains (bf_area b) p"
  shows "f_index (pt_x p) < W" "f_index (pt_y p) < H"
proof -
  have le: "int W \<le> 2 ^ 22" "int H \<le> 2 ^ 22" using assms(1) by (simp_all add: wf_pixels_def)
  then have "in_scale 0 (int W)" "in_scale 0 (int H)" and big: "int W \<le> 2 ^ 64" "int H \<le> 2 ^ 64" by (simp_all add: in_scale_def)
  then have "f_le (f_int 0) (pt_x p)" "f_lt (pt_x p) (f_int (int W))" "f_le (f_int 0) (pt_y p)" "f_lt (pt_y p) (f_int (int H))"
    using assms(2) unfolding area_contains_def wf_pixels_size(3) [OF assms(1)] by simp_all
  then have "int (unat (usize_of_f (pt_x p))) < int W" "int (unat (usize_of_f (pt_y p))) < int H"
    using usize_of_f_bounds [of "pt_x p" "int W"] usize_of_f_bounds [of "pt_y p" "int H"] big by blast+
  then show "f_index (pt_x p) < W" "f_index (pt_y p) < H" unfolding f_index_def by linarith+
qed

lemma put_pixel_cell:
  assumes wf: "wf_pixels W H b" and p: "area_contains (bf_area b) p"
  shows "put_pixel p c b = Some (b\<lparr>bf_data := (bf_data b)[f_index (pt_y p) * W + f_index (pt_x p) := c]\<rparr>)"
proof -
  define x y where "x = f_index (pt_x p)" and "y = f_index (pt_y p)"
  have W: "W \<le> 2 ^ 22" "H \<le> 2 ^ 22" "bf_width b = of_nat W" "length (bf_data b) = W * H" using wf by (simp_all add: wf_pixels_def)
  have i: "y * W + x < W * H" using cell_index contains_cell [OF wf p] unfolding x_def y_def by blast
  have "usize_of_f (pt_y p) * bf_width b + usize_of_f (pt_x p) = of_nat (y * W + x)" by (simp add: W(3) x_def y_def f_index_def)
  then have "unat (usize_of_f (pt_y p) * bf_width b + usize_of_f (pt_x p)) = y * W + x" using unat_index [OF W(1,2), of "y * W + x"] i by simp
  then show ?thesis using i W(4) by (simp add: put_pixel_def write_at_def x_def y_def)
qed

lemma put_pixel_int:
  assumes "wf_pixels W H b" "px < W" "py < H"
  shows "area_contains (bf_area b) (int_point (int px) (int py))"
    and "put_pixel (int_point (int px) (int py)) c b = Some (b\<lparr>bf_data := (bf_data b)[py * W + px := c]\<rparr>)"
proof -
  have "point_index b (int_point (int px) (int py)) = Some (of_nat (py * W + px))" using point_index_int [OF assms(1), of "int px" "int py"] assms by simp
  then show c: "area_contains (bf_area b) (int_point (int px) (int py))" by (auto simp: point_index_def split: if_splits)
  have "W \<le> 2 ^ 22" "H \<le> 2 ^ 22" using assms(1) by (simp_all add: wf_pixels_def)
  then have "f_index (f_int (int px)) = px" "f_index (f_int (int py)) = py"
    using assms(2,3) f_index_int [of "int px"] f_index_int [of "int py"] by simp_all
  then show "put_pixel (int_point (int px) (int py)) c b = Some (b\<lparr>bf_data := (bf_data b)[py * W + px := c]\<rparr>)"
    using put_pixel_cell [OF assms(1) c] by simp
qed

interpretation framebuffer_painter: pixel_painter Framebuffer_draw_pixel "\<lambda>b c. the (to_u32 c (bf_format b))" "\<lambda>b. drawable (bf_format b)"
proof unfold_locales
  show "Framebuffer_draw_pixel b (int_point (int px) (int py)) c = Some (b\<lparr>bf_data := (bf_data b)[py * W + px := the (to_u32 c (bf_format b))]\<rparr>)"
    if "wf_pixels W H b" "drawable (bf_format b)" "px < W" "py < H" for W H b px py c
    using that by (auto simp: Framebuffer_draw_pixel_def put_pixel_int drawable_def)
  show "\<exists>d. Framebuffer_draw_pixel b p c = Some (b\<lparr>bf_data := d\<rparr>) \<and> length d = W * H" if "wf_pixels W H b" "drawable (bf_format b)" for W H b p c
  proof (cases "area_contains (bf_area b) p")
    case True
    then show ?thesis using that put_pixel_cell [OF that(1) True] by (auto simp: Framebuffer_draw_pixel_def drawable_def wf_pixels_def)
  qed (use that in \<open>auto simp: Framebuffer_draw_pixel_def wf_pixels_def intro: exI [of _ "bf_data b"]\<close>)
qed simp_all

interpretation color_painter: pixel_painter ColorBuffer_draw_pixel "\<lambda>b c. c" "\<lambda>b. True"
proof unfold_locales
  show "ColorBuffer_draw_pixel b (int_point (int px) (int py)) c = Some (b\<lparr>bf_data := (bf_data b)[py * W + px := c]\<rparr>)"
    if "wf_pixels W H b" "px < W" "py < H" for W H b px py c
    using that by (simp add: ColorBuffer_draw_pixel_def put_pixel_int)
  show "\<exists>d. ColorBuffer_draw_pixel b p c = Some (b\<lparr>bf_data := d\<rparr>) \<and> length d = W * H" if "wf_pixels W H b" for W H b p c
  proof (cases "area_contains (bf_area b) p")
    case True
    then show ?thesis using that put_pixel_cell [OF that True] by (auto simp: ColorBuffer_draw_pixel_def wf_pixels_def)
  qed (use that in \<open>auto simp: ColorBuffer_draw_pixel_def wf_pixels_def intro: exI [of _ "bf_data b"]\<close>)
qed simp_all

text \<open>
  C19: Drawing a character on a colour buffer at a whole position always ends, within 144 turns of the loop, never panics, and never
  writes outside the buffer. Each pixel of the 9 by 16 cell of the column and row that is inside the buffer gets the colour
  the font has for it, a question mark standing for a character that is not ASCII; the first column is left as a gap, and
  no other pixel changes.
\<close>

theorem draw_ascii_char_paints:
  assumes "wf_pixels W H b" "0 < W" "0 < H" "\<bar>x\<bar> \<le> 2 ^ 22" "\<bar>y\<bar> \<le> 2 ^ 22" "9 * c \<le> 2 ^ 22" "16 * r \<le> 2 ^ 22" "144 \<le> fuel"
  shows "\<exists>d. ColorBuffer_draw_ascii_char fuel b ch fg bg (int_point x y) (of_nat c) (of_nat r) = Some (b\<lparr>bf_data := d\<rparr>) \<and> length d = W * H \<and>
    (\<forall>px < W. \<forall>py < H. cell W d px py =
      (if (int px, int py) \<in> cells (x + 9 * int c) (y + 16 * int r) 9 16
       then glyph (if ch < 128 then ch else 63) fg bg (nat (int px - (x + 9 * int c))) (nat (int py - (y + 16 * int r)))
       else cell W (bf_data b) px py))"
  unfolding ColorBuffer_draw_ascii_char_def using color_painter.draw_ascii_cells [OF assms(1) TrueI assms(2-8)] by blast

definition sample_canvas :: color_buffer where
  "sample_canvas = \<lparr>bf_ptr = 0x1000, bf_data = replicate 15 Color_NONE, bf_width = 5, bf_height = 3\<rparr>"

lemma font_A: "BASIC_FONT ! 65 ! 2 = 0x10"
proof -
  have "BASIC_FONT ! 65 = font_2 ! 1" by (simp add: BASIC_FONT_def nth_append font_part_shape)
  then show ?thesis by (simp add: font_2_def)
qed

theorem draw_ascii_char_paints_witness:
  "\<exists>d. ColorBuffer_draw_ascii_char 144 sample_canvas 65 Color_WHITE Color_BLACK (int_point 0 0) 0 0 = Some (sample_canvas\<lparr>bf_data := d\<rparr>)
     \<and> length d = 15 \<and> d ! 10 = Color_BLACK \<and> d ! 14 = Color_WHITE"
proof -
  have "wf_pixels 5 3 sample_canvas" by (simp add: wf_pixels_def sample_canvas_def)
  from draw_ascii_char_paints [OF this, of 0 0 0 0 144 65 Color_WHITE Color_BLACK] obtain d where
    d: "ColorBuffer_draw_ascii_char 144 sample_canvas 65 Color_WHITE Color_BLACK (int_point 0 0) 0 0 = Some (sample_canvas\<lparr>bf_data := d\<rparr>)"
    "length d = 15"
    "\<forall>px < 5. \<forall>py < 3. cell 5 d px py = (if (int px, int py) \<in> cells 0 0 9 16 then glyph 65 Color_WHITE Color_BLACK px py
       else cell 5 (bf_data sample_canvas) px py)" by auto
  have "cell 5 d 0 2 = Color_BLACK" "cell 5 d 4 2 = Color_WHITE"
    using d(3) font_A by (simp_all add: cells_def glyph_def bit_iff_odd)
  then show ?thesis using d(1,2) by (auto simp: cell_def)
qed

text \<open>
  C18: \<^verbatim>\<open>draw_ascii_char\<close> always ends and never fails, on both kinds of buffer: for any character, any position, whole or not, even one
  that is not a number, and any column and row, the loop ends within 144 turns, never reads outside the font and never
  writes outside the buffer.
\<close>

theorem draw_ascii_char_total:
  assumes "wf_pixels W H b" "wf_pixels W' H' fb" "drawable (bf_format fb)" "144 \<le> fuel"
  shows "(\<exists>d. ColorBuffer_draw_ascii_char fuel b ch fg bg pos col row = Some (b\<lparr>bf_data := d\<rparr>) \<and> length d = W * H)
    \<and> (\<exists>d. Framebuffer_draw_ascii_char fuel fb ch fg bg pos col row = Some (fb\<lparr>bf_data := d\<rparr>) \<and> length d = W' * H')"
  using color_painter.draw_ascii_total [OF assms(1) TrueI assms(4)] framebuffer_painter.draw_ascii_total [OF assms(2-4)]
  by (simp only: ColorBuffer_draw_ascii_char_def Framebuffer_draw_ascii_char_def)

theorem draw_ascii_char_total_witness:
  "(\<exists>d. ColorBuffer_draw_ascii_char 144 sample_canvas 65 Color_WHITE Color_BLACK (Point_new NaN (f_round False (5 / 2))) 1 0 = Some (sample_canvas\<lparr>bf_data := d\<rparr>))
   \<and> (\<exists>d. Framebuffer_draw_ascii_char 144 sample_screen 955 Color_WHITE Color_BLACK (Point_new NaN (f_round False (5 / 2))) 1 0 = Some (sample_screen\<lparr>bf_data := d\<rparr>))"
proof -
  have "wf_pixels 5 3 sample_canvas" "wf_pixels 3 2 sample_screen" "drawable (bf_format sample_screen)"
    by (simp_all add: wf_pixels_def sample_canvas_def sample_screen_def drawable_def)
  from draw_ascii_char_total [OF this order_refl] show ?thesis by blast
qed

end
