(* ===== verification/Composition.thy ===== *)
theory Composition
  imports Framebuffer_Props
begin

section \<open>Composition\<close>

text \<open>
  What \<^verbatim>\<open>composite\<close> does to each pixel of the target. A row of a source is blended by \<^verbatim>\<open>blend\<close>, a source by its rows, and the
  sources one after another; \<open>lay\<close> is the effect of one source on one pixel, and the composition is the fold of it.
\<close>

definition blended :: "pixel_format \<Rightarrow> color \<Rightarrow> u32 \<Rightarrow> u32" where
  "blended f c p = (if co_a c = 0 then p else the (to_u32 c f))"

lemma Color_blend_drawable: "drawable f \<Longrightarrow> Color_blend c p f = Some (blended f c p)"
  by (auto simp: drawable_def Color_blend_def blended_def)

lemma blend_colors_nth:
  assumes "drawable f" "i + length cs \<le> length d"
  shows "\<exists>d'. blend_colors f cs i d = Some d' \<and> length d' = length d \<and>
    (\<forall>j < length d. d' ! j = (if i \<le> j \<and> j < i + length cs then blended f (cs ! (j - i)) (d ! j) else d ! j))"
  using assms(2)
proof (induction cs arbitrary: i d)
  case (Cons c cs)
  define d1 where "d1 = d[i := blended f c (d ! i)]"
  have "Suc i + length cs \<le> length d1" using Cons.prems by (simp add: d1_def)
  from Cons.IH [OF this] obtain d' where d': "blend_colors f cs (Suc i) d1 = Some d'" "length d' = length d1"
    "\<forall>j < length d1. d' ! j = (if Suc i \<le> j \<and> j < Suc i + length cs then blended f (cs ! (j - Suc i)) (d1 ! j) else d1 ! j)" by blast
  have "blend_colors f (c # cs) i d = Some d'" using d'(1) by (simp add: Color_blend_drawable [OF assms(1)] d1_def)
  moreover have "d' ! j = (if i \<le> j \<and> j < i + length (c # cs) then blended f ((c # cs) ! (j - i)) (d ! j) else d ! j)" if "j < length d" for j
    using d'(3) that Cons.prems by (cases "j = i") (auto simp: d1_def nth_Cons' Suc_diff_le not_less_eq_eq)
  ultimately show ?case using d'(2) by (auto simp: d1_def)
qed auto

lemma Framebuffer_blend_cells:
  assumes wf: "wf_pixels W H fb" and f: "drawable (bf_format fb)" and x: "x + length cs \<le> W" "y < H"
  shows "\<exists>d. Framebuffer_blend fb cs (of_nat (y * W + x)) = Some (fb\<lparr>bf_data := d\<rparr>) \<and> length d = W * H \<and>
    (\<forall>px < W. \<forall>py < H. cell W d px py =
      (if py = y \<and> x \<le> px \<and> px < x + length cs then blended (bf_format fb) (cs ! (px - x)) (cell W (bf_data fb) px py)
       else cell W (bf_data fb) px py))"
proof -
  have W: "W \<le> 2 ^ 22" "H \<le> 2 ^ 22" "length (bf_data fb) = W * H" using wf by (simp_all add: wf_pixels_def)
  have fit: "y * W + x + length cs \<le> W * H" using segment_fits [OF x] .
  define s e :: usize where "s = of_nat (y * W + x)" and "e = s + of_nat (length cs)"
  have e: "unat s = y * W + x" "unat e = y * W + x + length cs"
    using unat_index [OF W(1,2), of "y * W + x"] unat_index [OF W(1,2) fit] fit by (simp_all add: s_def e_def)
  obtain d where d: "blend_colors (bf_format fb) cs (y * W + x) (bf_data fb) = Some d" "length d = W * H"
    "\<forall>j < W * H. d ! j = (if y * W + x \<le> j \<and> j < y * W + x + length cs then blended (bf_format fb) (cs ! (j - (y * W + x))) (bf_data fb ! j) else bf_data fb ! j)"
    using blend_colors_nth [OF f, of "y * W + x" cs "bf_data fb"] fit W(3) by auto
  have "s \<le> e \<and> unat e \<le> length (bf_data fb)" using e fit W(3) by (simp add: word_le_nat_alt)
  then have "Framebuffer_blend fb cs s = Some (fb\<lparr>bf_data := d\<rparr>)"
    unfolding Framebuffer_blend_def Let_def wf_pixels_size(5) [OF wf] by (simp add: e d(1) flip: e_def)
  moreover have "cell W d px py = (if py = y \<and> x \<le> px \<and> px < x + length cs then blended (bf_format fb) (cs ! (px - x)) (cell W (bf_data fb) px py)
       else cell W (bf_data fb) px py)" if "px < W" "py < H" for px py
    using d(3) [rule_format, OF cell_index [OF that]] row_index [OF that(1) x(1), of y py] by (auto simp: cell_def)
  ultimately show ?thesis using d(2) by (auto simp: s_def)
qed

lemma f_of_i32_nat: "r \<le> 2 ^ 22 \<Longrightarrow> f_of_i32 (of_nat r) = f_int (int r)"
proof -
  assume r: "r \<le> 2 ^ 22"
  have "sint (of_nat r :: u32) = int r" using r
    by (simp add: signed_of_nat signed_take_bit_int_eq_self)
  then show ?thesis using f_of_i32_int [of "of_nat r"] r by simp
qed

text \<open>A segment of a source's row.\<close>

lemma take_drop_cell:
  assumes "length d = w * h" "a + n \<le> w" "r < h" "i < n"
  shows "take n (drop (r * w + a) d) ! i = cell w d (a + i) r"
  using assms segment_fits [of a n w r h] by (simp add: cell_def add.assoc)

text \<open>A row of no pixels changes nothing.\<close>

lemma Framebuffer_blend_Nil:
  assumes "wf_pixels W H fb" "unat i \<le> W * H"
  shows "Framebuffer_blend fb [] i = Some fb"
  using assms wf_pixels_size(5) [OF assms(1)] by (simp add: Framebuffer_blend_def Let_def wf_pixels_def)

lemma point_index_length: "wf_pixels W H b \<Longrightarrow> point_index b (int_point px py) = Some i \<Longrightarrow> unat i \<le> W * H"
proof -
  assume wf: "wf_pixels W H b" and i: "point_index b (int_point px py) = Some i"
  have p: "nat px < W" "nat py < H" "i = of_nat (nat py * W + nat px)"
    using i unfolding point_index_int [OF wf] by (auto split: if_splits)
  then have "nat py * W + nat px \<le> W * H" using cell_index by (simp add: less_imp_le)
  then show ?thesis using unat_index [of W H] wf p(3) by (simp only: wf_pixels_def)
qed

text \<open>The two corners a row starts at.\<close>

lemma row_starts:
  assumes "0 \<le> b" "b + int r \<le> 2 ^ 22" "0 \<le> a" "a \<le> 2 ^ 22" "\<bar>x\<bar> \<le> 2 ^ 22" "\<bar>y\<bar> \<le> 2 ^ 22"
  shows "Point_new (f_int a) (f_add (f_int b) (f_of_i32 (of_nat r))) = int_point a (b + int r)"
    and "Point_add (int_point a (b + int r)) (int_point x y) = int_point (a + x) (b + int r + y)"
proof -
  have "f_of_i32 (of_nat r) = f_int (int r)" using assms by (intro f_of_i32_nat) simp
  moreover have "in_scale b (int r)" "in_scale a x" "in_scale (b + int r) y" using assms by (auto simp: in_scale_def)
  ultimately show "Point_new (f_int a) (f_add (f_int b) (f_of_i32 (of_nat r))) = int_point a (b + int r)"
    "Point_add (int_point a (b + int r)) (int_point x y) = int_point (a + x) (b + int r + y)"
    by (simp_all add: int_point_def f_add_scale Point_int(1) [unfolded int_point_def])
qed

lemma blend_rows_empty:
  assumes "wf_pixels w h s" "wf_pixels W H t" "n \<le> 0"
    and "0 \<le> b" "b + int (r + k) \<le> int h" "0 \<le> a" "a \<le> int w" "\<bar>x\<bar> \<le> 2 ^ 22" "\<bar>y\<bar> \<le> 2 ^ 22"
  shows "blend_rows k r s t (int_point x y) (f_int a) (f_int b) (f_int n) = Some t"
  using assms(5)
proof (induction k arbitrary: r)
  case (Suc k)
  have le: "int w \<le> 2 ^ 22" "int h \<le> 2 ^ 22" using assms(1) by (simp_all add: wf_pixels_def)
  have "b + int r \<le> 2 ^ 22" "a \<le> 2 ^ 22" using Suc.prems assms(7) le by simp_all
  note st = row_starts [OF assms(4) this(1) assms(6) this(2) assms(8,9)]
  have IH: "blend_rows k (Suc r) s t (int_point x y) (f_int a) (f_int b) (f_int n) = Some t" using Suc by simp
  have z: "usize_of_f (f_int n) = 0" using usize_of_f_neg [OF assms(3)] .
  have l: "length (bf_data s) = w * h" using assms(1) by (simp add: wf_pixels_def)
  show ?case
    using point_index_length [OF assms(1), of a "b + int r"] point_index_length [OF assms(2), of "a + x" "b + int r + y"]
    by (auto simp: Let_def st z wf_pixels_size(5) [OF assms(1)] Framebuffer_blend_Nil [OF assms(2)] IH l split: option.splits)
qed simp


lemma blend_rows_cells:
  assumes ws: "wf_pixels w h s" and "wf_pixels W H t" "drawable (bf_format t)"
    and n: "0 < n" "0 \<le> a" "a + int n \<le> int w" "0 \<le> a + x" "a + x + int n \<le> int W"
    and k: "0 \<le> b" "b + int (r + k) \<le> int h" "0 \<le> b + y" "b + int (r + k) + y \<le> int H"
    and xy: "\<bar>x\<bar> \<le> 2 ^ 22" "\<bar>y\<bar> \<le> 2 ^ 22"
  shows "\<exists>d. blend_rows k r s t (int_point x y) (f_int a) (f_int b) (f_int (int n)) = Some (t\<lparr>bf_data := d\<rparr>) \<and> length d = W * H \<and>
    (\<forall>px < W. \<forall>py < H. cell W d px py =
      (if a + x \<le> int px \<and> int px < a + x + int n \<and> b + y + int r \<le> int py \<and> int py < b + y + int (r + k)
       then blended (bf_format t) (cell w (bf_data s) (nat (int px - x)) (nat (int py - y))) (cell W (bf_data t) px py)
       else cell W (bf_data t) px py))"
  using assms(2,3) k(2,4)
proof (induction k arbitrary: r t)
  case 0
  then show ?case by (intro exI [of _ "bf_data t"]) (auto simp: wf_pixels_def)
next
  case (Suc k)
  have le: "int w \<le> 2 ^ 22" "int h \<le> 2 ^ 22" "W \<le> 2 ^ 22" "H \<le> 2 ^ 22" "w \<le> 2 ^ 22" "h \<le> 2 ^ 22"
    using ws Suc.prems(1) by (simp_all add: wf_pixels_def)
  have l: "length (bf_data s) = w * h" using ws by (simp add: wf_pixels_def)
  have "b + int r \<le> 2 ^ 22" "a \<le> 2 ^ 22" using Suc.prems n le by simp_all
  note st = row_starts [OF k(1) this(1) n(2) this(2) xy]
  define A R X Y where "A = nat a" and "R = nat (b + int r)" and "X = nat (a + x)" and "Y = nat (b + int r + y)"
  have A: "A + n \<le> w" "R < h" "X + n \<le> W" "Y < H" using n k Suc.prems by (auto simp: A_def R_def X_def Y_def)
  have pi: "point_index s (int_point a (b + int r)) = Some (of_nat (R * w + A))"
    "point_index t (int_point (a + x) (b + int r + y)) = Some (of_nat (Y * W + X))"
    using n k Suc.prems by (simp_all add: point_index_int [OF ws] point_index_int [OF Suc.prems(1)] A_def R_def X_def Y_def)
  define si ei :: usize where "si = of_nat (R * w + A)" and "ei = si + of_nat n"
  have fit: "R * w + A + n \<le> w * h" using segment_fits A by blast
  have u: "unat si = R * w + A" "unat ei = R * w + A + n" "ei - si = of_nat n"
    using unat_index [OF le(5,6), of "R * w + A"] unat_index [OF le(5,6) fit] fit by (simp_all add: si_def ei_def)
  have nn: "usize_of_f (f_int (int n)) = of_nat n" "unat (of_nat n :: usize) = n"
    using A le usize_of_f_nat [of "int n"] unat_usize_nat [of n] by simp_all
  have pi': "point_index s (int_point a (b + int r)) = Some si" using pi(1) by (simp only: si_def)
  define cs where "cs = take n (drop (R * w + A) (bf_data s))"
  have cs: "length cs = n" using fit l by (simp add: cs_def)
  obtain d1 where d1: "Framebuffer_blend t cs (of_nat (Y * W + X)) = Some (t\<lparr>bf_data := d1\<rparr>)" "length d1 = W * H"
    "\<forall>px < W. \<forall>py < H. cell W d1 px py = (if py = Y \<and> X \<le> px \<and> px < X + n
        then blended (bf_format t) (cs ! (px - X)) (cell W (bf_data t) px py) else cell W (bf_data t) px py)"
    using Framebuffer_blend_cells [OF Suc.prems(1,2), of X cs Y] A cs by auto
  define t1 where "t1 = t\<lparr>bf_data := d1\<rparr>"
  have w1: "wf_pixels W H t1" "drawable (bf_format t1)" using Suc.prems d1(2) by (simp_all add: t1_def wf_pixels_def)
  obtain d where d: "blend_rows k (Suc r) s t1 (int_point x y) (f_int a) (f_int b) (f_int (int n)) = Some (t1\<lparr>bf_data := d\<rparr>)" "length d = W * H"
    "\<forall>px < W. \<forall>py < H. cell W d px py =
      (if a + x \<le> int px \<and> int px < a + x + int n \<and> b + y + int (Suc r) \<le> int py \<and> int py < b + y + int (Suc r + k)
       then blended (bf_format t1) (cell w (bf_data s) (nat (int px - x)) (nat (int py - y))) (cell W (bf_data t1) px py)
       else cell W (bf_data t1) px py)"
    using Suc.IH [OF w1, of "Suc r"] Suc.prems(3,4) by auto
  have "blend_rows (Suc k) r s t (int_point x y) (f_int a) (f_int b) (f_int (int n)) = Some (t\<lparr>bf_data := d\<rparr>)"
    using d(1) d1(1) u fit nn l
    by (simp add: Let_def st pi' pi(2) wf_pixels_size(5) [OF ws] cs_def t1_def word_le_nat_alt flip: ei_def)
  moreover have "cell W d px py = (if a + x \<le> int px \<and> int px < a + x + int n \<and> b + y + int r \<le> int py \<and> int py < b + y + int (r + Suc k)
       then blended (bf_format t) (cell w (bf_data s) (nat (int px - x)) (nat (int py - y))) (cell W (bf_data t) px py)
       else cell W (bf_data t) px py)" if p: "px < W" "py < H" for px py
  proof (cases "py = Y \<and> X \<le> px \<and> px < X + n")
    case True
    then have c: "nat (int px - x) = A + (px - X)" "nat (int py - y) = R" using n k by (auto simp: A_def R_def X_def Y_def)
    have "cs ! (px - X) = cell w (bf_data s) (A + (px - X)) R"
      unfolding cs_def using True A by (intro take_drop_cell [OF l]) auto
    then have "cell W d1 px py = blended (bf_format t) (cell w (bf_data s) (nat (int px - x)) (nat (int py - y))) (cell W (bf_data t) px py)"
      using d1(3) p True c by simp
    then show ?thesis using d(3) p True n k by (auto simp: X_def Y_def t1_def)
  next
    case False
    then have "cell W d1 px py = cell W (bf_data t) px py" using d1(3) p by auto
    moreover have "\<not> (a + x \<le> int px \<and> int px < a + x + int n \<and> int py = b + y + int r)" using False n k by (auto simp: X_def Y_def)
    ultimately show ?thesis using d(3) p by (auto simp: t1_def)
  qed
  ultimately show ?case using d(2) by blast
qed

text \<open>\<open>laid\<close> is a pixel after a source at a place has been laid over a set of cells.\<close>

definition laid :: "pixel_format \<Rightarrow> nat \<Rightarrow> color list \<Rightarrow> int \<Rightarrow> int \<Rightarrow> (int \<times> int) set \<Rightarrow> int \<Rightarrow> int \<Rightarrow> u32 \<Rightarrow> u32" where
  "laid f w d x y S px py p = (if (px, py) \<in> S then blended f (cell w d (nat (px - x)) (nat (py - y))) p else p)"

definition laid_over :: "nat \<Rightarrow> nat \<Rightarrow> nat \<Rightarrow> color_buffer \<Rightarrow> int \<Rightarrow> int \<Rightarrow> (int \<times> int) set \<Rightarrow> framebuffer \<Rightarrow> framebuffer rust \<Rightarrow> bool" where
  "laid_over W H w s x y S t r \<longleftrightarrow> (\<exists>d. r = Some (t\<lparr>bf_data := d\<rparr>) \<and> length d = W * H \<and>
     (\<forall>px < W. \<forall>py < H. cell W d px py = laid (bf_format t) w (bf_data s) x y S (int px) (int py) (cell W (bf_data t) px py)))"

lemma laid_over_none:
  assumes "wf_pixels W H t" "\<And>px py. px < W \<Longrightarrow> py < H \<Longrightarrow> (int px, int py) \<notin> S"
  shows "laid_over W H w s x y S t (Some t)"
  unfolding laid_over_def using assms by (intro exI [of _ "bf_data t"]) (auto simp: laid_def wf_pixels_def)

lemma laid_over_cong:
  assumes "laid_over W H w s x y S t r" "\<And>px py. px < W \<Longrightarrow> py < H \<Longrightarrow> (int px, int py) \<in> S \<longleftrightarrow> (int px, int py) \<in> S'"
  shows "laid_over W H w s x y S' t r"
  using assms by (auto simp: laid_over_def laid_def)

text \<open>The end of \<open>composite_buffer\<close>: the part of the source from one corner to another.\<close>

lemma composite_part:
  assumes ws: "wf_pixels w h s" and wt: "wf_pixels W H t" and f: "drawable (bf_format t)"
    and x: "0 \<le> a" "c \<le> int w" "0 \<le> a + x" "c + x \<le> int W" "\<bar>x\<bar> \<le> 2 ^ 22"
    and y: "0 \<le> b" "e \<le> int h" "0 \<le> b + y" "e + y \<le> int H" "\<bar>y\<bar> \<le> 2 ^ 22"
  shows "laid_over W H w s x y ({a + x ..< c + x} \<times> {b + y ..< e + y}) t
    (if c < 0 \<or> e < 0 \<or> int w < a \<or> int h < b then Some t
     else blend_rows (nat (i32_of_f (f_sub (f_min (f_int (int h)) (f_int e)) (f_max (f_int b) (f_int 0))))) 0 s t (int_point x y)
       (f_max (f_int a) (f_int 0)) (f_max (f_int b) (f_int 0)) (f_sub (f_min (f_int (int w)) (f_int c)) (f_max (f_int a) (f_int 0))))"
    (is "laid_over W H w s x y ?S t (if ?out then Some t else ?rows)")
proof (cases ?out)
  case True
  then have "?S = {}" using x y by auto
  then show ?thesis using True laid_over_none [OF wt] by auto
next
  case False
  have le: "int w \<le> 2 ^ 22" "int h \<le> 2 ^ 22" using ws by (simp_all add: wf_pixels_def)
  have "in_scale c a" "in_scale e b" using False x y le by (auto simp: in_scale_def)
  moreover have "\<bar>e - b\<bar> < 2 ^ 31" "min (int w) c = c" "min (int h) e = e" "max a 0 = a" "max b 0 = b" using False x y le by auto
  ultimately have rows: "?rows = blend_rows (nat (e - b)) 0 s t (int_point x y) (f_int a) (f_int b) (f_int (c - a))"
    by (simp only: f_sub_scale f_int_min_max i32_of_f_int)
  consider "e \<le> b" | "b < e" "c \<le> a" | "b < e" "a < c" by linarith
  then show ?thesis
  proof cases
    case 1
    then show ?thesis using False rows laid_over_none [OF wt] by auto
  next
    case 2
    then have "?rows = Some t" unfolding rows using False x y by (intro blend_rows_empty [OF ws wt]) auto
    then show ?thesis using False 2 laid_over_none [OF wt] by auto
  next
    case 3
    obtain n k where nk: "c = a + int n" "e = b + int k" "0 < n" using that [of "nat (c - a)" "nat (e - b)"] 3 by simp
    have "\<exists>d. blend_rows k 0 s t (int_point x y) (f_int a) (f_int b) (f_int (int n)) = Some (t\<lparr>bf_data := d\<rparr>) \<and> length d = W * H \<and>
      (\<forall>px < W. \<forall>py < H. cell W d px py =
        (if a + x \<le> int px \<and> int px < a + x + int n \<and> b + y + int 0 \<le> int py \<and> int py < b + y + int (0 + k)
         then blended (bf_format t) (cell w (bf_data s) (nat (int px - x)) (nat (int py - y))) (cell W (bf_data t) px py)
         else cell W (bf_data t) px py))"
      using x y nk by (intro blend_rows_cells [OF ws wt f]) auto
    moreover have "?rows = blend_rows k 0 s t (int_point x y) (f_int a) (f_int b) (f_int (int n))" unfolding rows using nk by simp
    ultimately show ?thesis using False nk unfolding laid_over_def laid_def by (auto simp: algebra_simps)
  qed
qed

text \<open>
  The cells of a source at a place that a composition with a damaged area repaints. The area is taken in the coordinates
  of the target to find whether it meets the source, and in those of the source to clip it.
\<close>

definition repainted :: "(int \<times> int \<times> int \<times> int) option \<Rightarrow> int \<Rightarrow> int \<Rightarrow> int \<Rightarrow> int \<Rightarrow> (int \<times> int) set" where
  "repainted D x y w h = cells x y w h \<inter>
     (case D of None \<Rightarrow> UNIV
      | Some (dx, dy, dw, dh) \<Rightarrow>
        if x < dx + dw \<and> y < dy + dh \<and> dx < x + w \<and> dy < y + h
        then if dw < w \<and> dh < h then cells (x + dx) (y + dy) dw dh else UNIV else {})"

definition small_damage :: "(int \<times> int \<times> int \<times> int) option \<Rightarrow> bool" where
  "small_damage D \<longleftrightarrow> (case D of None \<Rightarrow> True
     | Some (dx, dy, dw, dh) \<Rightarrow> \<bar>dx\<bar> \<le> 2 ^ 22 \<and> \<bar>dy\<bar> \<le> 2 ^ 22 \<and> \<bar>dw\<bar> \<le> 2 ^ 22 \<and> \<bar>dh\<bar> \<le> 2 ^ 22)"

abbreviation damage_area :: "(int \<times> int \<times> int \<times> int) option \<Rightarrow> area option" where
  "damage_area \<equiv> map_option (\<lambda>(dx, dy, dw, dh). int_area dx dy dw dh)"

lemma clip_axis:
  fixes p x d l m V :: int
  assumes "0 \<le> p" "p < V"
  shows "max (max x 0 - x) d + x \<le> p \<and> p < min (min V (x + l) - x) (d + m) + x \<longleftrightarrow> x \<le> p \<and> p < x + l \<and> x + d \<le> p \<and> p < x + d + m"
  using assms by linarith

lemma composite_buffer_laid:
  assumes ws: "wf_pixels w h s" and wt: "wf_pixels W H t" and f: "drawable (bf_format t)"
    and xy: "\<bar>x\<bar> \<le> 2 ^ 22" "\<bar>y\<bar> \<le> 2 ^ 22" and D: "small_damage D"
  shows "laid_over W H w s x y (repainted D x y (int w) (int h)) t (composite_buffer (damage_area D) s t (int_point x y))"
proof -
  have le: "int w \<le> 2 ^ 22" "int h \<le> 2 ^ 22" "int W \<le> 2 ^ 22" "int H \<le> 2 ^ 22" using ws wt by (simp_all add: wf_pixels_def)
  define a b c e where "a = max x 0 - x" and "b = max y 0 - y" and "c = min (int W) (x + int w) - x" and "e = min (int H) (y + int h) - y"
  have sc: "in_scale x (int w)" "in_scale y (int h)" "in_scale (max x 0) x" "in_scale (max y 0) y"
    "in_scale (min (int W) (x + int w)) x" "in_scale (min (int H) (y + int h)) y"
    using le xy by (auto simp: in_scale_def)
  have abce: "0 \<le> a" "0 \<le> b" "0 \<le> a + x" "0 \<le> b + y" "c \<le> int w" "e \<le> int h" "c + x \<le> int W" "e + y \<le> int H"
    by (auto simp: a_def b_def c_def e_def)
  have sizes: "bf_size s = Size_new (f_int (int w)) (f_int (int h))" "bf_size t = Size_new (f_int (int W)) (f_int (int H))"
    by (simp_all add: bf_size_def wf_pixels_size(1,2) [OF ws] wf_pixels_size(1,2) [OF wt])
  have wp: "with_pos (bf_area s) (int_point x y) = int_area x y (int w) (int h)"
    by (simp add: wf_pixels_size(3) [OF ws] with_pos_def int_area_def Area_new_def)
  have st: "Point_sub (Point_new (f_int (max x 0)) (f_int (max y 0))) (int_point x y) = int_point a b"
    "Point_sub (Point_new (f_int (min (int W) (x + int w))) (f_int (min (int H) (y + int h)))) (int_point x y) = int_point c e"
    using Point_int(2) [OF sc(3,4)] Point_int(2) [OF sc(5,6)] by (simp_all add: int_point_def a_def b_def c_def e_def)
  define tail where "tail ss se =
    (if f_lt (pt_x se) (f_int 0) \<or> f_lt (pt_y se) (f_int 0) \<or> f_lt (f_int (int w)) (pt_x ss) \<or> f_lt (f_int (int h)) (pt_y ss) then Some t
     else blend_rows (nat (i32_of_f (f_sub (f_min (f_int (int h)) (pt_y se)) (f_max (pt_y ss) (f_int 0))))) 0 s t (int_point x y)
       (f_max (pt_x ss) (f_int 0)) (f_max (pt_y ss) (f_int 0)) (f_sub (f_min (f_int (int w)) (pt_x se)) (f_max (pt_x ss) (f_int 0))))" for ss se :: point
  have run: "composite_buffer DA s t (int_point x y) =
    (if min (int W) (x + int w) < 0 \<or> min (int H) (y + int h) < 0 \<or> int W < max x 0 \<or> int H < max y 0 then Some t
     else case (case DA of None \<Rightarrow> Some (int_point a b, int_point c e)
       | Some damage \<Rightarrow> if \<not> area_intersects (int_area x y (int w) (int h)) damage then None
         else if f_lt (area_width damage) (f_int (int w)) \<and> f_lt (area_height damage) (f_int (int h))
         then Some (Point_max (int_point a b) (ar_pos damage), Point_min (int_point c e) (Point_add_size (ar_pos damage) (ar_size damage)))
         else Some (int_point a b, int_point c e))
       of None \<Rightarrow> Some t | Some (ss, se) \<Rightarrow> tail ss se)" for DA
    unfolding composite_buffer_def Let_def sizes Size_new_sel Point_add_size_def int_point_sel Point_new_sel f_int_min_max
      f_add_scale [OF sc(1)] f_add_scale [OF sc(2)] st wp f_int_order tail_def by (rule refl)
  have out: "laid_over W H w s x y (repainted D x y (int w) (int h)) t (Some t)"
    if "min (int W) (x + int w) < 0 \<or> min (int H) (y + int h) < 0 \<or> int W < max x 0 \<or> int H < max y 0"
    using that by (intro laid_over_none [OF wt]) (auto simp: repainted_def cells_def)
  have part: "laid_over W H w s x y ({a' + x ..< c' + x} \<times> {b' + y ..< e' + y}) t (tail (int_point a' b') (int_point c' e'))"
    if "a \<le> a'" "b \<le> b'" "c' \<le> c" "e' \<le> e" for a' b' c' e'
    unfolding tail_def int_point_sel f_int_order using that abce xy by (intro composite_part [OF ws wt f]) linarith+
  have all: "laid_over W H w s x y (cells x y (int w) (int h)) t (tail (int_point a b) (int_point c e))"
    by (rule laid_over_cong [OF part [OF order_refl order_refl order_refl order_refl]]) (auto simp: cells_def a_def b_def c_def e_def)
  show ?thesis
  proof (cases "min (int W) (x + int w) < 0 \<or> min (int H) (y + int h) < 0 \<or> int W < max x 0 \<or> int H < max y 0")
    case True
    then show ?thesis using out [OF True] by (simp only: run if_True)
  next
    case inside: False
    show ?thesis
    proof (cases D)
      case None
      have "composite_buffer (damage_area D) s t (int_point x y) = tail (int_point a b) (int_point c e)"
        unfolding run using inside None by simp
      then show ?thesis using all None by (simp add: repainted_def)
    next
      case (Some q)
      obtain dx dy dw dh where q: "q = (dx, dy, dw, dh)" by (cases q) auto
      have d: "in_scale dx dw" "in_scale dy dh" using D unfolding Some q by (auto simp: small_damage_def in_scale_def)
      have meets: "area_intersects (int_area x y (int w) (int h)) (int_area dx dy dw dh) \<longleftrightarrow> x < dx + dw \<and> y < dy + dh \<and> dx < x + int w \<and> dy < y + int h"
        using sc d by (simp add: area_intersects_def)
      have corners: "Point_max (int_point a b) (int_point dx dy) = int_point (max a dx) (max b dy)"
        "Point_min (int_point c e) (Point_add_size (int_point dx dy) (Size_new (f_int dw) (f_int dh))) = int_point (min c (dx + dw)) (min e (dy + dh))"
        using d by (simp_all add: Point_int Point_add_size_def f_add_scale flip: int_point_def)
      have comp: "composite_buffer (damage_area D) s t (int_point x y) =
        (if \<not> (x < dx + dw \<and> y < dy + dh \<and> dx < x + int w \<and> dy < y + int h) then Some t
         else if dw < int w \<and> dh < int h then tail (int_point (max a dx) (max b dy)) (int_point (min c (dx + dw)) (min e (dy + dh)))
         else tail (int_point a b) (int_point c e))"
        unfolding run using inside by (simp add: Some q meets) (simp add: int_area_def Area_new_def corners)
      have clipped: "laid_over W H w s x y (cells x y (int w) (int h) \<inter> cells (x + dx) (y + dy) dw dh) t
        (tail (int_point (max a dx) (max b dy)) (int_point (min c (dx + dw)) (min e (dy + dh))))"
        by (rule laid_over_cong [OF part]) (simp_all add: cells_def a_def b_def c_def e_def clip_axis, blast)
      have none: "laid_over W H w s x y {} t (Some t)" by (rule laid_over_none [OF wt]) simp
      show ?thesis unfolding comp using none all clipped by (simp add: repainted_def Some q)
    qed
  qed
qed

type_synonym layer = "color_buffer \<times> int \<times> int"

fun layer_ok :: "layer \<Rightarrow> bool" where
  "layer_ok (s, x, y) \<longleftrightarrow> wf_pixels (unat (bf_width s)) (unat (bf_height s)) s \<and> \<bar>x\<bar> \<le> 2 ^ 22 \<and> \<bar>y\<bar> \<le> 2 ^ 22"

text \<open>A pixel after a layer has been laid over it.\<close>

fun lay :: "pixel_format \<Rightarrow> (int \<times> int \<times> int \<times> int) option \<Rightarrow> int \<Rightarrow> int \<Rightarrow> layer \<Rightarrow> u32 \<Rightarrow> u32" where
  "lay f D px py (s, x, y) p =
     laid f (unat (bf_width s)) (bf_data s) x y (repainted D x y (int (unat (bf_width s))) (int (unat (bf_height s)))) px py p"

abbreviation placed :: "layer \<Rightarrow> color_buffer \<times> point" where
  "placed \<equiv> \<lambda>(s, x, y). (s, int_point x y)"

lemma composite_cells:
  assumes "wf_pixels W H t" "drawable (bf_format t)" "list_all layer_ok ls" "small_damage D"
  shows "\<exists>d. composite (damage_area D) (map placed ls) t = Some (t\<lparr>bf_data := d\<rparr>) \<and> length d = W * H \<and>
    (\<forall>px < W. \<forall>py < H. cell W d px py = fold (lay (bf_format t) D (int px) (int py)) ls (cell W (bf_data t) px py))"
  using assms(1-3)
proof (induction ls arbitrary: t)
  case Nil
  then show ?case by (intro exI [of _ "bf_data t"]) (simp add: wf_pixels_def)
next
  case (Cons l ls)
  obtain s x y where l: "l = (s, x, y)" by (cases l) auto
  have ok: "wf_pixels (unat (bf_width s)) (unat (bf_height s)) s" "\<bar>x\<bar> \<le> 2 ^ 22" "\<bar>y\<bar> \<le> 2 ^ 22" using Cons.prems(3) l by simp_all
  obtain d1 where d1: "composite_buffer (damage_area D) s t (int_point x y) = Some (t\<lparr>bf_data := d1\<rparr>)" "length d1 = W * H"
    "\<forall>px < W. \<forall>py < H. cell W d1 px py = lay (bf_format t) D (int px) (int py) l (cell W (bf_data t) px py)"
    using composite_buffer_laid [OF ok(1) Cons.prems(1,2) ok(2,3) assms(4)] unfolding laid_over_def l lay.simps by blast
  have "wf_pixels W H (t\<lparr>bf_data := d1\<rparr>)" "drawable (bf_format (t\<lparr>bf_data := d1\<rparr>))" "list_all layer_ok ls"
    using Cons.prems d1(2) by (simp_all add: wf_pixels_def)
  from Cons.IH [OF this] obtain d where d: "composite (damage_area D) (map placed ls) (t\<lparr>bf_data := d1\<rparr>) = Some (t\<lparr>bf_data := d\<rparr>)" "length d = W * H"
    "\<forall>px < W. \<forall>py < H. cell W d px py = fold (lay (bf_format t) D (int px) (int py)) ls (cell W d1 px py)" by auto
  have "composite (damage_area D) (map placed (l # ls)) t = Some (t\<lparr>bf_data := d\<rparr>)" using d(1) d1(1) by (simp add: l)
  then show ?case using d(2,3) d1(3) by auto
qed

subsection \<open>The damaged area\<close>

text \<open>
  The cells of the target that are damaged; whether the damaged area meets a layer; and whether the layer is larger than
  it in both directions, in which case the layer is clipped.
\<close>

fun damaged :: "(int \<times> int \<times> int \<times> int) option \<Rightarrow> (int \<times> int) set" where
  "damaged None = UNIV"
| "damaged (Some (dx, dy, dw, dh)) = cells dx dy dw dh"

fun meets :: "(int \<times> int \<times> int \<times> int) option \<Rightarrow> layer \<Rightarrow> bool" where
  "meets None l = True"
| "meets (Some (dx, dy, dw, dh)) (s, x, y) \<longleftrightarrow>
     x < dx + dw \<and> y < dy + dh \<and> dx < x + int (unat (bf_width s)) \<and> dy < y + int (unat (bf_height s))"

fun exceeds :: "(int \<times> int \<times> int \<times> int) option \<Rightarrow> layer \<Rightarrow> bool" where
  "exceeds None l = False"
| "exceeds (Some (dx, dy, dw, dh)) (s, x, y) \<longleftrightarrow> dw < int (unat (bf_width s)) \<and> dh < int (unat (bf_height s))"

fun at_origin :: "layer \<Rightarrow> bool" where
  "at_origin (s, x, y) \<longleftrightarrow> x = 0 \<and> y = 0"

lemma repainted_None: "repainted None x y w h = cells x y w h"
  by (simp add: repainted_def)

lemma lay_damaged:
  assumes "exceeds D l \<longrightarrow> at_origin l" "(px, py) \<in> damaged D"
  shows "lay f D px py l p = lay f None px py l p"
proof (cases D)
  case (Some q)
  obtain dx dy dw dh where q: "q = (dx, dy, dw, dh)" by (cases q) auto
  obtain s x y where l: "l = (s, x, y)" by (cases l) auto
  let ?w = "int (unat (bf_width s))" and ?h = "int (unat (bf_height s))"
  have "dx \<le> px \<and> px < dx + dw \<and> dy \<le> py \<and> py < dy + dh" using assms(2) by (simp add: Some q cells_def)
  moreover have "dw < ?w \<and> dh < ?h \<Longrightarrow> x = 0 \<and> y = 0" using assms(1) by (simp add: Some q l)
  ultimately have "(px, py) \<in> repainted D x y ?w ?h \<longleftrightarrow> (px, py) \<in> cells x y ?w ?h"
    unfolding repainted_def Some q option.case prod.case by (auto simp: cells_def)
  then show ?thesis by (simp only: l lay.simps laid_def repainted_None)
qed simp

lemma lay_undamaged:
  assumes "exceeds D l \<longrightarrow> at_origin l" "(px, py) \<notin> damaged D"
  shows "lay f D px py l p = (if meets D l \<and> \<not> exceeds D l then lay f None px py l p else p)"
proof (cases D)
  case (Some q)
  obtain dx dy dw dh where q: "q = (dx, dy, dw, dh)" by (cases q) auto
  obtain s x y where l: "l = (s, x, y)" by (cases l) auto
  let ?w = "int (unat (bf_width s))" and ?h = "int (unat (bf_height s))"
  have "(px, py) \<notin> cells dx dy dw dh" using assms(2) by (simp add: Some q)
  moreover have "dw < ?w \<and> dh < ?h \<Longrightarrow> x = 0 \<and> y = 0" using assms(1) by (simp add: Some q l)
  ultimately have "(px, py) \<in> repainted D x y ?w ?h \<longleftrightarrow> meets D l \<and> \<not> exceeds D l \<and> (px, py) \<in> cells x y ?w ?h"
    unfolding repainted_def Some q option.case prod.case by (auto simp: l)
  then show ?thesis by (simp only: l lay.simps laid_def repainted_None) simp
qed (use assms in simp)

lemma fold_lay_damaged:
  assumes "list_all (\<lambda>l. exceeds D l \<longrightarrow> at_origin l) ls"
  shows "(px, py) \<in> damaged D \<Longrightarrow> fold (lay f D px py) ls p = fold (lay f None px py) ls p"
    and "(px, py) \<notin> damaged D \<Longrightarrow>
      fold (lay f D px py) ls p = fold (lay f None px py) (filter (\<lambda>l. meets D l \<and> \<not> exceeds D l) ls) p"
proof -
  assume i: "(px, py) \<in> damaged D"
  show "fold (lay f D px py) ls p = fold (lay f None px py) ls p"
    by (rule fold_cong) (use assms lay_damaged [OF _ i, of _ f] in \<open>auto simp: list_all_iff fun_eq_iff simp del: lay.simps\<close>)
next
  assume o: "(px, py) \<notin> damaged D"
  show "fold (lay f D px py) ls p = fold (lay f None px py) (filter (\<lambda>l. meets D l \<and> \<not> exceeds D l) ls) p"
    using assms
  proof (induction ls arbitrary: p)
    case (Cons l ls)
    then show ?case using lay_undamaged [OF _ o, of l f p] by (simp del: lay.simps)
  qed simp
qed

text \<open>
  C9: Composition repairs the damage. On whole coordinates, and when every layer that is larger than the damaged area in
  both directions lies at the origin of the target, composition never panics and never leaves a buffer, and gives every
  pixel of the target. A damaged pixel becomes what all layers give when they are laid over it in their order, each where
  its pixels are, a transparent pixel leaving what is below; without a damaged area these are all pixels. A pixel outside
  the damaged area is left alone by the layers larger than it, and by those it does not meet; a smaller layer that it meets
  is drawn whole.
\<close>

theorem composite_layers:
  assumes "wf_pixels W H t" "drawable (bf_format t)" "list_all layer_ok ls" "small_damage D"
    and "list_all (\<lambda>l. exceeds D l \<longrightarrow> at_origin l) ls"
  shows "\<exists>d. composite (damage_area D) (map placed ls) t = Some (t\<lparr>bf_data := d\<rparr>) \<and> length d = W * H \<and>
    (\<forall>px < W. \<forall>py < H. cell W d px py =
       (if (int px, int py) \<in> damaged D then fold (lay (bf_format t) None (int px) (int py)) ls (cell W (bf_data t) px py)
        else fold (lay (bf_format t) None (int px) (int py)) (filter (\<lambda>l. meets D l \<and> \<not> exceeds D l) ls) (cell W (bf_data t) px py)))"
  using composite_cells [OF assms(1-4)] fold_lay_damaged [OF assms(5)] by auto

definition sample_layer :: color_buffer where
  "sample_layer = \<lparr>bf_ptr = 0x2000, bf_data = [Color_WHITE, Color_NONE, Color_BLACK, Color_WHITE], bf_width = 2, bf_height = 2\<rparr>"

theorem composite_layers_witness:
  "\<exists>d. composite (Some (int_area 0 1 1 1)) [(sample_layer, int_point 0 0)] sample_screen = Some (sample_screen\<lparr>bf_data := d\<rparr>)
     \<and> d = [1, 2, 3, 0, 5, 6]"
proof -
  define ls :: "layer list" where "ls = [(sample_layer, 0, 0)]"
  define D where "D = Some (0 :: int, 1 :: int, 1 :: int, 1 :: int)"
  have "wf_pixels 3 2 sample_screen" "drawable (bf_format sample_screen)" "list_all layer_ok ls" "small_damage D"
    "list_all (\<lambda>l. exceeds D l \<longrightarrow> at_origin l) ls"
    by (simp_all add: wf_pixels_def sample_screen_def sample_layer_def drawable_def small_damage_def ls_def D_def)
  from composite_layers [OF this] obtain d where
    d: "composite (damage_area D) (map placed ls) sample_screen = Some (sample_screen\<lparr>bf_data := d\<rparr>)" "length d = 6"
    "\<forall>px < 3. \<forall>py < 2. cell 3 d px py = (if (int px, int py) \<in> damaged D
       then fold (lay BGRX8 None (int px) (int py)) ls (cell 3 [1, 2, 3, 4, 5, 6] px py)
       else fold (lay BGRX8 None (int px) (int py)) (filter (\<lambda>l. meets D l \<and> \<not> exceeds D l) ls) (cell 3 [1, 2, 3, 4, 5, 6] px py))"
    by (auto simp: sample_screen_def)
  have c: "cell 3 d px py = (if (int px, int py) \<in> damaged D
       then fold (lay BGRX8 None (int px) (int py)) ls (cell 3 [1, 2, 3, 4, 5, 6] px py)
       else fold (lay BGRX8 None (int px) (int py)) (filter (\<lambda>l. meets D l \<and> \<not> exceeds D l) ls) (cell 3 [1, 2, 3, 4, 5, 6] px py))"
    if "px < 3" "py < 2" for px py
    using d(3) that by blast
  have "d ! 0 = 1" "d ! 1 = 2" "d ! 2 = 3" "d ! 3 = 0" "d ! 4 = 5" "d ! 5 = 6"
    using c [of 0 0] c [of 1 0] c [of 2 0] c [of 0 1] c [of 1 1] c [of 2 1]
    by (simp_all add: cell_def ls_def D_def laid_def repainted_def cells_def sample_layer_def blended_def Color_WHITE_def Color_BLACK_def
        Color_NONE_def Color_rgb_def Color_rgba_def) (simp add: numeral_2_eq_2)
  then have "d = [1, 2, 3, 0, 5, 6]" using d(2) by (intro nth_equalityI) (auto simp: less_Suc_eq numeral_eq_Suc)
  then show ?thesis using d(1) by (simp add: ls_def D_def)
qed

text \<open>
  A large layer away from the origin is not repaired. The clipping takes the damaged area, which is given in the
  coordinates of the target, for one of the source. So when a layer larger than the damaged area in both directions lies
  at least the width of the area to the side of the origin, or at least its height above or below, no damaged pixel is
  repainted at all, whatever the layer holds there.
\<close>

lemma damage_misplaced:
  assumes "wf_pixels W H t" "drawable (bf_format t)" "layer_ok (s, x, y)" "small_damage (Some (dx, dy, dw, dh))"
    and "exceeds (Some (dx, dy, dw, dh)) (s, x, y)" "dw \<le> \<bar>x\<bar> \<or> dh \<le> \<bar>y\<bar>"
  shows "\<exists>d. composite (Some (int_area dx dy dw dh)) [(s, int_point x y)] t = Some (t\<lparr>bf_data := d\<rparr>) \<and>
    (\<forall>px < W. \<forall>py < H. (int px, int py) \<in> cells dx dy dw dh \<longrightarrow> cell W d px py = cell W (bf_data t) px py)"
proof -
  obtain d where d: "composite (Some (int_area dx dy dw dh)) [(s, int_point x y)] t = Some (t\<lparr>bf_data := d\<rparr>)"
    "\<forall>px < W. \<forall>py < H. cell W d px py = lay (bf_format t) (Some (dx, dy, dw, dh)) (int px) (int py) (s, x, y) (cell W (bf_data t) px py)"
    using composite_cells [OF assms(1,2) _ assms(4), of "[(s, x, y)]"] assms(3) by auto
  have "(px, py) \<notin> repainted (Some (dx, dy, dw, dh)) x y (int (unat (bf_width s))) (int (unat (bf_height s)))"
    if "(px, py) \<in> cells dx dy dw dh" for px py
    using that assms(5,6) by (auto simp: repainted_def cells_def)
  then show ?thesis using d by (auto simp: laid_def)
qed

lemma damage_misplaced_sample:
  "\<exists>d. composite (Some (int_area 2 0 1 1)) [(sample_layer, int_point 1 0)] sample_screen = Some (sample_screen\<lparr>bf_data := d\<rparr>)
     \<and> cell 3 d 2 0 = 3"
proof -
  have "wf_pixels 3 2 sample_screen" "drawable (bf_format sample_screen)" "layer_ok (sample_layer, 1, 0)" "small_damage (Some (2, 0, 1, 1))"
    "exceeds (Some (2, 0, 1, 1)) (sample_layer, 1, 0)" "1 \<le> \<bar>1 :: int\<bar> \<or> 1 \<le> \<bar>0 :: int\<bar>"
    by (simp_all add: wf_pixels_def sample_screen_def sample_layer_def drawable_def small_damage_def)
  from damage_misplaced [OF this] obtain d where
    d: "composite (Some (int_area 2 0 1 1)) [(sample_layer, int_point 1 0)] sample_screen = Some (sample_screen\<lparr>bf_data := d\<rparr>)"
    "\<forall>px < 3. \<forall>py < 2. (int px, int py) \<in> cells 2 0 1 1 \<longrightarrow> cell 3 d px py = cell 3 (bf_data sample_screen) px py" by blast
  have "cell 3 d 2 0 = 3" using d(2) [rule_format, of 2 0] by (simp add: cells_def cell_def sample_screen_def)
  then show ?thesis using d(1) by blast
qed

end
