(* ===== verification/Shell_Props.thy ===== *)
theory Shell_Props
  imports Shell
begin

section \<open>What the shell shows\<close>

text \<open>
  \<open>displays\<close> is the invariant of the shell: the buffers have their sizes, the background is opaque, the pointer is at a whole
  position on the screen, and each pixel of the screen is what the three layers make of it.
\<close>

subsection \<open>The scene\<close>

definition backdrop :: "shell \<Rightarrow> int \<Rightarrow> int \<Rightarrow> u32" where
  "backdrop st px py = fold (lay (bf_format (sh_fb st)) None px py) [(sh_bottom st, 0, 0), (sh_top st, 0, 0)] 0"

definition scene :: "shell \<Rightarrow> int \<Rightarrow> int \<Rightarrow> int \<Rightarrow> int \<Rightarrow> u32" where
  "scene st mx my px py = lay (bf_format (sh_fb st)) None px py (sh_mouse st, mx, my) (backdrop st px py)"

definition shell_ok :: "nat \<Rightarrow> nat \<Rightarrow> shell \<Rightarrow> bool" where
  "shell_ok W H st \<longleftrightarrow> 10 \<le> W \<and> 16 \<le> H \<and> wf_pixels W H (sh_fb st) \<and> drawable (bf_format (sh_fb st))
     \<and> wf_pixels W H (sh_bottom st) \<and> (\<forall>c \<in> set (bf_data (sh_bottom st)). co_a c \<noteq> 0)
     \<and> wf_pixels W H (sh_top st) \<and> wf_pixels 10 16 (sh_mouse st)
     \<and> sh_width st = f_int (int W) \<and> sh_height st = f_int (int H)"

definition pointer_at :: "nat \<Rightarrow> nat \<Rightarrow> int \<Rightarrow> int \<Rightarrow> shell \<Rightarrow> bool" where
  "pointer_at W H mx my st \<longleftrightarrow> sh_mouse_pos st = int_point mx my \<and> 0 \<le> mx \<and> mx < int W \<and> 0 \<le> my \<and> my < int H"

definition displays :: "nat \<Rightarrow> nat \<Rightarrow> int \<Rightarrow> int \<Rightarrow> shell \<Rightarrow> bool" where
  "displays W H mx my st \<longleftrightarrow> shell_ok W H st \<and> pointer_at W H mx my st \<and>
     (\<forall>px < W. \<forall>py < H. cell W (bf_data (sh_fb st)) px py = scene st mx my (int px) (int py))"

definition same_layers :: "shell \<Rightarrow> shell \<Rightarrow> bool" where
  "same_layers st st' \<longleftrightarrow> sh_bottom st' = sh_bottom st \<and> sh_top st' = sh_top st \<and> sh_mouse st' = sh_mouse st
     \<and> bf_format (sh_fb st') = bf_format (sh_fb st)"

lemma same_layers_scene:
  "same_layers st st' \<Longrightarrow> backdrop st' = backdrop st" "same_layers st st' \<Longrightarrow> scene st' = scene st"
  by (simp_all add: same_layers_def backdrop_def scene_def fun_eq_iff)

lemma wf_pixels_unat: "wf_pixels W H b \<Longrightarrow> unat (bf_width b) = W" "wf_pixels W H b \<Longrightarrow> unat (bf_height b) = H"
proof -
  assume w: "wf_pixels W H b"
  then have "W \<le> 2 ^ 22" "H \<le> 2 ^ 22" by (simp_all add: wf_pixels_def)
  then show "unat (bf_width b) = W" "unat (bf_height b) = H"
    using w unat_usize_nat [of W] unat_usize_nat [of H] by (simp_all add: wf_pixels_def)
qed

text \<open>The layers on a pixel of the screen.\<close>

declare lay.simps [simp del]

lemma lay_full:
  assumes "wf_pixels W H s" "px < W" "py < H"
  shows "lay f D (int px) (int py) (s, 0, 0) p =
    (if (int px, int py) \<in> repainted D 0 0 (int W) (int H) then blended f (cell W (bf_data s) px py) p else p)"
  by (simp add: lay.simps wf_pixels_unat [OF assms(1)] laid_def)

lemma lay_bottom:
  assumes "shell_ok W H st" "px < W" "py < H"
  shows "lay f None (int px) (int py) (sh_bottom st, 0, 0) p = the (to_u32 (cell W (bf_data (sh_bottom st)) px py) f)"
proof -
  have w: "wf_pixels W H (sh_bottom st)" "\<forall>c \<in> set (bf_data (sh_bottom st)). co_a c \<noteq> 0" using assms(1) by (simp_all add: shell_ok_def)
  then have "py * W + px < length (bf_data (sh_bottom st))" using cell_index [OF assms(2,3)] by (simp add: wf_pixels_def)
  then have "co_a (cell W (bf_data (sh_bottom st)) px py) \<noteq> 0" using w(2) by (auto simp: cell_def)
  moreover have "(int px, int py) \<in> repainted None 0 0 (int W) (int H)" using assms(2,3) by (simp add: repainted_def cells_def)
  ultimately show ?thesis using lay_full [OF w(1) assms(2,3)] by (simp add: blended_def)
qed

lemma fold_backdrop:
  assumes "shell_ok W H st" "px < W" "py < H"
  shows "fold (lay (bf_format (sh_fb st)) None (int px) (int py)) [(sh_bottom st, 0, 0), (sh_top st, 0, 0)] p = backdrop st (int px) (int py)"
  by (simp only: backdrop_def fold_simps comp_apply lay_bottom [OF assms])

subsection \<open>Repainting\<close>

lemma shell_layers_ok:
  assumes ok: "shell_ok W H st" and p: "pointer_at W H mx my st"
  shows "list_all layer_ok [(sh_bottom st, 0, 0), (sh_top st, 0, 0), (sh_mouse st, mx, my)]"
    and "shell_layers st = map placed [(sh_bottom st, 0, 0), (sh_top st, 0, 0), (sh_mouse st, mx, my)]"
proof -
  have w: "wf_pixels W H (sh_bottom st)" "wf_pixels W H (sh_top st)" "wf_pixels 10 16 (sh_mouse st)" using ok by (simp_all add: shell_ok_def)
  have "W \<le> 2 ^ 22" "H \<le> 2 ^ 22" using w(1) by (simp_all add: wf_pixels_def)
  then show "list_all layer_ok [(sh_bottom st, 0, 0), (sh_top st, 0, 0), (sh_mouse st, mx, my)]"
    using w p by (auto simp: wf_pixels_unat [OF w(1)] wf_pixels_unat [OF w(2)] wf_pixels_unat [OF w(3)] pointer_at_def)
  show "shell_layers st = map placed [(sh_bottom st, 0, 0), (sh_top st, 0, 0), (sh_mouse st, mx, my)]"
    using p by (simp add: shell_layers_def pointer_at_def Point_ORIGIN_def int_point_def)
qed

lemma repaint_cells:
  assumes ok: "shell_ok W H st" and p: "pointer_at W H mx my st" and D: "small_damage (Some D)"
  shows "\<exists>d. repaint (case D of (x, y, w, h) \<Rightarrow> int_area x y w h) st = Some (st\<lparr>sh_fb := (sh_fb st)\<lparr>bf_data := d\<rparr>\<rparr>) \<and> length d = W * H \<and>
    (\<forall>px < W. \<forall>py < H. cell W d px py = fold (lay (bf_format (sh_fb st)) (Some D) (int px) (int py))
       [(sh_bottom st, 0, 0), (sh_top st, 0, 0), (sh_mouse st, mx, my)] (cell W (bf_data (sh_fb st)) px py))"
proof -
  have w: "wf_pixels W H (sh_fb st)" "drawable (bf_format (sh_fb st))" using ok by (simp_all add: shell_ok_def)
  from composite_cells [OF w shell_layers_ok(1) [OF ok p] D] obtain d where
    d: "composite (damage_area (Some D)) (shell_layers st) (sh_fb st) = Some ((sh_fb st)\<lparr>bf_data := d\<rparr>)" "length d = W * H"
    "\<forall>px < W. \<forall>py < H. cell W d px py = fold (lay (bf_format (sh_fb st)) (Some D) (int px) (int py))
       [(sh_bottom st, 0, 0), (sh_top st, 0, 0), (sh_mouse st, mx, my)] (cell W (bf_data (sh_fb st)) px py)"
    by (auto simp: shell_layers_ok(2) [OF ok p])
  then have "repaint (case D of (x, y, w, h) \<Rightarrow> int_area x y w h) st = Some (st\<lparr>sh_fb := (sh_fb st)\<lparr>bf_data := d\<rparr>\<rparr>)" by (simp add: repaint_def)
  then show ?thesis using d(2,3) by blast
qed

lemma shell_ok_data:
  "shell_ok W H st \<Longrightarrow> length d = W * H \<Longrightarrow> shell_ok W H (st\<lparr>sh_fb := (sh_fb st)\<lparr>bf_data := d\<rparr>\<rparr>)"
  "same_layers st (st\<lparr>sh_fb := (sh_fb st)\<lparr>bf_data := d\<rparr>\<rparr>)"
  by (simp_all add: shell_ok_def wf_pixels_def same_layers_def)

text \<open>A key repaints the whole screen.\<close>

lemma key_press_displays:
  assumes "shell_ok W H st" "pointer_at W H mx my st"
  shows "\<exists>st'. handle_event (KeyPress k) st = Some st' \<and> displays W H mx my st' \<and> same_layers st st'"
proof -
  have w: "wf_pixels W H (sh_fb st)" "wf_pixels W H (sh_bottom st)" "wf_pixels W H (sh_top st)" "wf_pixels 10 16 (sh_mouse st)"
    using assms(1) by (simp_all add: shell_ok_def)
  have WH: "W \<le> 2 ^ 22" "H \<le> 2 ^ 22" "10 \<le> W" "16 \<le> H" using assms(1) by (simp_all add: shell_ok_def wf_pixels_def)
  have "from_size (bf_size (sh_fb st)) = int_area 0 0 (int W) (int H)" using wf_pixels_size(3) [OF w(1)] by (simp add: bf_area_def)
  moreover have "small_damage (Some (0, 0, int W, int H))" using WH by (simp add: small_damage_def)
  ultimately obtain d where d: "handle_event (KeyPress k) st = Some (st\<lparr>sh_fb := (sh_fb st)\<lparr>bf_data := d\<rparr>\<rparr>)" "length d = W * H"
    "\<forall>px < W. \<forall>py < H. cell W d px py = fold (lay (bf_format (sh_fb st)) (Some (0, 0, int W, int H)) (int px) (int py))
       [(sh_bottom st, 0, 0), (sh_top st, 0, 0), (sh_mouse st, mx, my)] (cell W (bf_data (sh_fb st)) px py)"
    using repaint_cells [OF assms, of "(0, 0, int W, int H)"] by auto
  have full: "repainted (Some (0, 0, int W, int H)) 0 0 (int W) (int H) = repainted None 0 0 (int W) (int H)"
    "repainted (Some (0, 0, int W, int H)) mx my 10 16 = repainted None mx my 10 16"
    using WH assms(2) by (auto simp: repainted_def pointer_at_def)
  have "lay (bf_format (sh_fb st)) (Some (0, 0, int W, int H)) px py l = lay (bf_format (sh_fb st)) None px py l"
    if "l \<in> {(sh_bottom st, 0, 0), (sh_top st, 0, 0), (sh_mouse st, mx, my)}" for l px py
    using that by (auto simp: fun_eq_iff lay.simps full wf_pixels_unat [OF w(2)] wf_pixels_unat [OF w(3)] wf_pixels_unat [OF w(4)])
  then have "cell W d px py = scene st mx my (int px) (int py)" if "px < W" "py < H" for px py
    using d(3) that fold_backdrop [OF assms(1) that] by (simp add: scene_def)
  then have "displays W H mx my (st\<lparr>sh_fb := (sh_fb st)\<lparr>bf_data := d\<rparr>\<rparr>)"
    using assms shell_ok_data(1) [OF assms(1) d(2)] same_layers_scene(2) [OF shell_ok_data(2)] by (simp add: displays_def pointer_at_def)
  then show ?thesis using d(1) shell_ok_data(2) by blast
qed

subsection \<open>Movements of the mouse\<close>

definition clip :: "nat \<Rightarrow> int \<Rightarrow> int" where
  "clip W x = max 0 (min (int W - 1) x)"

lemma move_mouse_int:
  assumes ok: "shell_ok W H st" and p: "pointer_at W H mx my st" and d: "\<bar>sint dx\<bar> \<le> 2 ^ 21" "\<bar>sint dy\<bar> \<le> 2 ^ 21"
  shows "move_mouse st dx dy = (st\<lparr>sh_mouse_pos := int_point (clip W (mx + sint dx)) (clip H (my + sint dy))\<rparr>,
    int_area mx my (10 + \<bar>sint dx\<bar>) (16 + \<bar>sint dy\<bar>))"
proof -
  have WH: "int W \<le> 2 ^ 22" "int H \<le> 2 ^ 22" "sh_width st = f_int (int W)" "sh_height st = f_int (int H)" using ok by (simp_all add: shell_ok_def wf_pixels_def)
  have pos: "sh_mouse_pos st = int_point mx my" "0 \<le> mx" "mx < int W" "0 \<le> my" "my < int H" using p by (simp_all add: pointer_at_def)
  have f: "f_of_i32 dx = f_int (sint dx)" "f_of_i32 dy = f_int (sint dy)" using d by (auto intro: f_of_i32_int)
  have ab: "f_abs (f_int n) = f_int \<bar>n\<bar>" for n by (simp add: f_abs_def f_int_def)
  have sz: "f_of_usize POINTER_WIDTH = f_int 10" "f_of_usize POINTER_HEIGHT = f_int 16"
    using f_of_usize_nat [of 10] f_of_usize_nat [of 16] by (simp_all add: POINTER_WIDTH_def POINTER_HEIGHT_def)
  have "in_scale (int W) 1" "in_scale (int H) 1" "in_scale mx (sint dx)" "in_scale my (sint dy)" "in_scale 10 \<bar>sint dx\<bar>" "in_scale 16 \<bar>sint dy\<bar>"
    using WH pos d by (auto simp: in_scale_def)
  then show ?thesis unfolding move_mouse_def Let_def f WH(3,4) pos(1) int_point_sel
    by (simp add: f_add_scale f_sub_scale ab sz clip_def int_area_def int_point_def max.commute)
qed

text \<open>
  A movement shows the scene at the new position if the pointer's image there meets the damaged area, and the backdrop alone
  if it does not.
\<close>

lemma mouse_move_cells:
  assumes dis: "displays W H mx my st" and d: "\<bar>sint dx\<bar> \<le> 2 ^ 21" "\<bar>sint dy\<bar> \<le> 2 ^ 21"
  defines "mx' \<equiv> clip W (mx + sint dx)" and "my' \<equiv> clip H (my + sint dy)"
  shows "\<exists>st'. handle_event (MouseMove dx dy) st = Some st' \<and> shell_ok W H st' \<and> pointer_at W H mx' my' st' \<and> same_layers st st' \<and>
    (\<forall>px < W. \<forall>py < H. cell W (bf_data (sh_fb st')) px py =
      (if mx < mx' + 10 \<and> my < my' + 16 then scene st mx' my' (int px) (int py) else backdrop st (int px) (int py)))"
proof -
  have ok: "shell_ok W H st" and p: "pointer_at W H mx my st" using dis by (simp_all add: displays_def)
  have w: "wf_pixels W H (sh_bottom st)" "wf_pixels W H (sh_top st)" "wf_pixels 10 16 (sh_mouse st)" and WH: "10 \<le> W" "16 \<le> H" "W \<le> 2 ^ 22" "H \<le> 2 ^ 22"
    using ok by (simp_all add: shell_ok_def wf_pixels_def)
  have pos: "0 \<le> mx" "mx < int W" "0 \<le> my" "my < int H" using p by (simp_all add: pointer_at_def)
  define D where "D = (mx, my, 10 + \<bar>sint dx\<bar>, 16 + \<bar>sint dy\<bar>)"
  define st1 where "st1 = st\<lparr>sh_mouse_pos := int_point mx' my'\<rparr>"
  have st1: "shell_ok W H st1" "pointer_at W H mx' my' st1" "same_layers st st1"
    using ok WH by (auto simp: st1_def shell_ok_def pointer_at_def same_layers_def mx'_def my'_def clip_def)
  have small: "small_damage (Some D)" using pos WH d by (auto simp: small_damage_def D_def)
  obtain e where e: "repaint (case D of (x, y, w, h) \<Rightarrow> int_area x y w h) st1 = Some (st1\<lparr>sh_fb := (sh_fb st1)\<lparr>bf_data := e\<rparr>\<rparr>)" "length e = W * H"
    "\<forall>px < W. \<forall>py < H. cell W e px py = fold (lay (bf_format (sh_fb st1)) (Some D) (int px) (int py))
       [(sh_bottom st1, 0, 0), (sh_top st1, 0, 0), (sh_mouse st1, mx', my')] (cell W (bf_data (sh_fb st1)) px py)"
    using repaint_cells [OF st1(1,2) small] by blast
  define st' where "st' = st1\<lparr>sh_fb := (sh_fb st1)\<lparr>bf_data := e\<rparr>\<rparr>"
  have run: "handle_event (MouseMove dx dy) st = Some st'"
    using e(1) by (simp add: move_mouse_int [OF ok p d] D_def st'_def flip: mx'_def my'_def st1_def)
  have ok': "shell_ok W H st'" "pointer_at W H mx' my' st'" "same_layers st st'"
    using shell_ok_data(1) [OF st1(1) e(2)] st1(2,3) by (simp_all add: st'_def pointer_at_def same_layers_def)
  let ?f = "bf_format (sh_fb st)"
  let ?meets = "mx < mx' + 10 \<and> my < my' + 16"
  have top: "lay ?f (Some D) (int px) (int py) (sh_top st, 0, 0) (lay ?f (Some D) (int px) (int py) (sh_bottom st, 0, 0) c) = backdrop st (int px) (int py)"
    if q: "px < W" "py < H" "c = scene st mx my (int px) (int py)" for px py c
  proof (cases "(int px, int py) \<in> repainted (Some D) 0 0 (int W) (int H)")
    case True
    moreover have "(int px, int py) \<in> repainted None 0 0 (int W) (int H)" using q by (simp add: repainted_def cells_def)
    ultimately have "lay ?f (Some D) (int px) (int py) (s, 0, 0) v = lay ?f None (int px) (int py) (s, 0, 0) v" if "wf_pixels W H s" for s v
      using lay_full [OF that q(1,2)] by simp
    then show ?thesis using w fold_backdrop [OF ok q(1,2), of c] by simp
  next
    case False
    have "(int px, int py) \<notin> cells mx my 10 16"
      using False q(1,2) pos WH by (auto simp: repainted_def cells_def D_def split: if_splits)
    then have "c = backdrop st (int px) (int py)" using q(3) by (simp add: scene_def lay.simps laid_def repainted_def wf_pixels_unat [OF w(3)])
    then show ?thesis using False lay_full [OF w(1) q(1,2)] lay_full [OF w(2) q(1,2)] by simp
  qed
  have "mx' < mx + (10 + \<bar>sint dx\<bar>)" "my' < my + (16 + \<bar>sint dy\<bar>)" using pos by (auto simp: mx'_def my'_def clip_def)
  then have "repainted (Some D) mx' my' 10 16 = (if ?meets then repainted None mx' my' 10 16 else {})"
    by (simp add: repainted_def D_def)
  then have mouse: "lay ?f (Some D) px py (sh_mouse st, mx', my') v = (if ?meets then lay ?f None px py (sh_mouse st, mx', my') v else v)" for px py v
    by (simp add: lay.simps wf_pixels_unat [OF w(3)] laid_def)
  have "cell W (bf_data (sh_fb st')) px py = (if ?meets then scene st mx' my' (int px) (int py) else backdrop st (int px) (int py))"
    if q: "px < W" "py < H" for px py
  proof -
    have "cell W (bf_data (sh_fb st)) px py = scene st mx my (int px) (int py)" using dis q by (simp add: displays_def)
    then show ?thesis using e(3) q top [OF q] mouse by (simp add: st'_def st1_def scene_def)
  qed
  then show ?thesis using run ok' by blast
qed

subsection \<open>Draining the queue of input events\<close>

text \<open>Events that do not end the main loop, and movements that do not leap: left or up by less than the size of the pointer.\<close>

fun steady :: "input_event \<Rightarrow> bool" where
  "steady (KeyPress k) \<longleftrightarrow> k \<noteq> 16"
| "steady (MouseMove dx dy) \<longleftrightarrow> - 10 < sint dx \<and> sint dx \<le> 2 ^ 21 \<and> - 16 < sint dy \<and> sint dy \<le> 2 ^ 21"
| "steady (MouseWheel d) \<longleftrightarrow> True"

fun pointer_after :: "nat \<Rightarrow> nat \<Rightarrow> input_event \<Rightarrow> int \<times> int \<Rightarrow> int \<times> int" where
  "pointer_after W H (MouseMove dx dy) (x, y) = (clip W (x + sint dx), clip H (y + sint dy))"
| "pointer_after W H e p = p"

lemma handle_event_displays:
  assumes dis: "displays W H (fst p) (snd p) st" and e: "steady e"
  shows "\<exists>st'. handle_event e st = Some st' \<and> displays W H (fst (pointer_after W H e p)) (snd (pointer_after W H e p)) st'"
proof (cases e)
  case (KeyPress k)
  then show ?thesis using key_press_displays [of W H st "fst p" "snd p" k] dis by (auto simp: displays_def)
next
  case (MouseMove dx dy)
  define x y where "x = clip W (fst p + sint dx)" and "y = clip H (snd p + sint dy)"
  have d: "\<bar>sint dx\<bar> \<le> 2 ^ 21" "\<bar>sint dy\<bar> \<le> 2 ^ 21" using e by (auto simp: MouseMove)
  have "0 \<le> fst p" "fst p < int W" "0 \<le> snd p" "snd p < int H" using dis by (simp_all add: displays_def pointer_at_def)
  then have meets: "fst p < x + 10 \<and> snd p < y + 16" using e by (auto simp: MouseMove x_def y_def clip_def)
  obtain st' where st': "handle_event e st = Some st'" "shell_ok W H st'" "pointer_at W H x y st'" "same_layers st st'"
    "\<forall>px < W. \<forall>py < H. cell W (bf_data (sh_fb st')) px py = scene st x y (int px) (int py)"
    using mouse_move_cells [OF dis d] meets unfolding MouseMove by (simp only: if_True simp_thms flip: x_def y_def) blast
  then have "displays W H x y st'" by (simp add: displays_def same_layers_scene(2) [OF st'(4)])
  then show ?thesis using st'(1) by (cases p) (simp add: MouseMove x_def y_def)
qed (use dis in simp)

lemma drain_events_run:
  assumes "displays W H (fst p) (snd p) st" "\<forall>e \<in> set (List.map_filter id q). steady e"
  shows "\<exists>st'. drain_events q st = Some (False, replicate (length q) None, st') \<and>
    (case fold (pointer_after W H) (List.map_filter id q) p of (x, y) \<Rightarrow> displays W H x y st')"
  using assms
proof (induction q arbitrary: p st)
  case (Cons e q)
  show ?case
  proof (cases e)
    case None
    then show ?thesis using Cons.IH [OF Cons.prems(1)] Cons.prems(2) by (auto simp: map_filter_simps id_def)
  next
    case (Some v)
    have "steady v" "\<forall>e \<in> set (List.map_filter id q). steady e" using Cons.prems(2) by (simp_all add: Some map_filter_simps id_def)
    moreover obtain st1 where st1: "handle_event v st = Some st1" "displays W H (fst (pointer_after W H v p)) (snd (pointer_after W H v p)) st1"
      using handle_event_displays [OF Cons.prems(1) \<open>steady v\<close>] by blast
    moreover have "v \<noteq> KeyPress 16" using \<open>steady v\<close> by auto
    ultimately show ?thesis using Cons.IH [OF st1(2)] by (auto simp: Some map_filter_simps id_def)
  qed
qed (use split_beta in \<open>auto simp: map_filter_simps\<close>)

subsection \<open>Set-up\<close>

lemma clear_pixels_wf:
  assumes "wf_pixels W H b"
  shows "clear_pixels c b = Some (b\<lparr>bf_data := replicate (W * H) c\<rparr>)"
  using assms wf_pixels_size(4) [OF assms] by (simp add: clear_pixels_def fill_slice_def wf_pixels_def)

lemma size_in_bytes_wf:
  assumes "wf_pixels W H b"
  shows "unat (size_in_bytes b) = 4 * (W * H)" "4 * (W * H) \<le> 2 ^ 46"
proof -
  have W: "W \<le> 2 ^ 22" "H \<le> 2 ^ 22" "bf_width b = of_nat W" "bf_height b = of_nat H" using assms by (simp_all add: wf_pixels_def)
  have "W * H \<le> 2 ^ 22 * 2 ^ 22" using W(1,2) by (intro mult_le_mono) simp_all
  then have "4 * (W * H) \<le> 4 * (2 ^ 22 * 2 ^ 22)" by (rule mult_le_mono2)
  then show le: "4 * (W * H) \<le> 2 ^ 46" by (rule order.trans) simp
  have "size_in_bytes b = of_nat (4 * (W * H))" by (simp add: size_in_bytes_def W(3,4))
  moreover have "unat (of_nat (4 * (W * H)) :: usize) = 4 * (W * H)" using le by (intro unat_usize_nat) (rule le_less_trans, assumption, simp)
  ultimately show "unat (size_in_bytes b) = 4 * (W * H)" by simp
qed

lemma new_layer_wf:
  assumes "wf_pixels W H fb"
  shows "\<exists>b. new_layer fb ptr c = Some b \<and> bf_data b = replicate (W * H) c \<and> wf_pixels W H b"
proof -
  define b0 where "b0 = to_color_buffer (with_new_addr (\<lambda>_. replicate (unat (size_in_bytes fb) div 4) 0) fb ptr)"
  have w: "wf_pixels W H b0"
    using assms size_in_bytes_wf(1) [OF assms] by (simp add: b0_def wf_pixels_def to_color_buffer_def with_new_addr_def)
  obtain d where "ColorBuffer_draw_pixel b0 (Point_sub (Point_add_size Point_ORIGIN (ar_size (bf_area b0))) Point_ONE_ONE) Color_NONE = Some (b0\<lparr>bf_data := d\<rparr>)" "length d = W * H"
    using color_painter.draw_any [OF w] by blast
  moreover from this(2) have "wf_pixels W H (b0\<lparr>bf_data := d\<rparr>)" using w by (simp add: wf_pixels_def)
  ultimately have "new_layer fb ptr c = Some (b0\<lparr>bf_data := replicate (W * H) c\<rparr>)"
    using clear_pixels_wf [of W H "b0\<lparr>bf_data := d\<rparr>" c] by (simp add: new_layer_def Let_def ColorBuffer_clear_screen_def flip: b0_def)
  then show ?thesis using w by (simp add: wf_pixels_def)
qed

text \<open>The image of the pointer.\<close>

lemma draw_pointer_cells:
  assumes "wf_pixels 10 16 b" "list_all (\<lambda>(x, y). x < 10 \<and> y < 16) ps"
  shows "\<exists>d. draw_pointer ps b = Some (b\<lparr>bf_data := d\<rparr>) \<and> length d = 160 \<and>
    (\<forall>x < 10. \<forall>y < 16. cell 10 d x y = (if (x, y) \<in> set ps then POINTER_IMAGE ! x ! y else cell 10 (bf_data b) x y))"
  using assms
proof (induction ps arbitrary: b)
  case Nil
  then show ?case by (intro exI [of _ "bf_data b"]) (simp add: wf_pixels_def)
next
  case (Cons p ps)
  obtain x y where p: "p = (x, y)" "x < 10" "y < 16" using Cons.prems(2) by auto
  define d1 where "d1 = (bf_data b)[y * 10 + x := POINTER_IMAGE ! x ! y]"
  have "Point_new (f_of_usize (of_nat x)) (f_of_usize (of_nat y)) = int_point (int x) (int y)"
    using p f_of_usize_nat [of x] f_of_usize_nat [of y] by (simp add: int_point_def)
  then have s: "ColorBuffer_draw_pixel b (Point_new (f_of_usize (of_nat x)) (f_of_usize (of_nat y))) (POINTER_IMAGE ! x ! y) = Some (b\<lparr>bf_data := d1\<rparr>)"
    using color_painter.draw_cell [OF Cons.prems(1) TrueI p(2,3)] by (simp add: d1_def)
  have l: "length (bf_data b) = 10 * 16" using Cons.prems(1) by (simp add: wf_pixels_def)
  have "wf_pixels 10 16 (b\<lparr>bf_data := d1\<rparr>)" "list_all (\<lambda>(x, y). x < 10 \<and> y < 16) ps" using Cons.prems by (simp_all add: wf_pixels_def d1_def)
  from Cons.IH [OF this] obtain d where d: "draw_pointer ps (b\<lparr>bf_data := d1\<rparr>) = Some (b\<lparr>bf_data := d\<rparr>)" "length d = 160"
    "\<forall>x < 10. \<forall>y < 16. cell 10 d x y = (if (x, y) \<in> set ps then POINTER_IMAGE ! x ! y else cell 10 d1 x y)" by auto
  have "draw_pointer (p # ps) b = Some (b\<lparr>bf_data := d\<rparr>)" using s d(1) by (simp add: p(1))
  then show ?case using d(2,3) update_cell [OF l p(2,3)] by (auto simp: p(1) d1_def)
qed

lemma pointer_points_all: "list_all (\<lambda>(x, y). x < 10 \<and> y < 16) pointer_points" "x < 10 \<Longrightarrow> y < 16 \<Longrightarrow> (x, y) \<in> set pointer_points"
  by (auto simp: pointer_points_def POINTER_WIDTH_def POINTER_HEIGHT_def list_all_iff intro!: bexI [of _ y])

lemma draw_text_wf:
  assumes "wf_pixels W H b" "144 \<le> fuel"
  shows "\<exists>d. draw_text fuel p col cs b = Some (b\<lparr>bf_data := d\<rparr>) \<and> length d = W * H"
  using assms(1)
proof (induction cs arbitrary: b col)
  case Nil
  then show ?case by (intro exI [of _ "bf_data b"]) (simp add: wf_pixels_def)
next
  case (Cons ch cs)
  obtain d1 where d1: "ColorBuffer_draw_ascii_char fuel b (of_char ch) FG_COLOR Color_NONE p (of_nat col) 0 = Some (b\<lparr>bf_data := d1\<rparr>)" "length d1 = W * H"
    using color_painter.draw_ascii_total [OF Cons.prems TrueI assms(2)] by (simp only: ColorBuffer_draw_ascii_char_def) blast
  then have "wf_pixels W H (b\<lparr>bf_data := d1\<rparr>)" using Cons.prems by (simp add: wf_pixels_def)
  from Cons.IH [OF this, of "Suc col"] show ?case using d1(1) by auto
qed

lemma all_cells:
  assumes "length d = W * H" "\<forall>px < W. \<forall>py < H. P (cell W d px py)"
  shows "\<forall>c \<in> set d. P c"
proof
  fix c assume "c \<in> set d"
  then obtain i where i: "i < W * H" "c = d ! i" using assms(1) by (auto simp: in_set_conv_nth)
  have "0 < W" using i(1) by (cases W) auto
  then have "i mod W < W" "i div W < H" "i = (i div W) * W + i mod W" using i(1) by (auto simp: less_mult_imp_div_less mult.commute)
  then show "P c" using assms(2) i(2) by (metis cell_def)
qed

lemma fill_opaque:
  assumes "wf_pixels W H b" "bf_data b = replicate (W * H) BG_COLOR"
  shows "\<exists>d. ColorBuffer_fill_area b a PANEL_COLOR = Some (b\<lparr>bf_data := d\<rparr>) \<and> length d = W * H \<and> (\<forall>c \<in> set d. co_a c \<noteq> 0)"
proof -
  obtain d where d: "ColorBuffer_fill_area b a PANEL_COLOR = Some (b\<lparr>bf_data := d\<rparr>)" "length d = W * H"
    "\<forall>px < W. \<forall>py < H. cell W d px py = PANEL_COLOR \<or> cell W d px py = cell W (bf_data b) px py"
    using fill_rect_cells [OF assms(1), of a PANEL_COLOR] by (auto simp: ColorBuffer_fill_area_def)
  have "co_a (cell W d px py) \<noteq> 0" if "px < W" "py < H" for px py
  proof -
    have "cell W (bf_data b) px py = BG_COLOR" using cell_index [OF that] by (simp add: cell_def assms(2))
    then show ?thesis using d(3) [rule_format, OF that] by (auto simp: PANEL_COLOR_def BG_COLOR_def Color_rgb_def)
  qed
  then show ?thesis using all_cells [OF d(2), of "\<lambda>c. co_a c \<noteq> 0"] d(1,2) by blast
qed

lemma f_div_two: "even n \<Longrightarrow> \<bar>n\<bar> \<le> 2 ^ 24 \<Longrightarrow> 0 \<le> n \<Longrightarrow> f_div (f_int n) (f_int 2) = f_int (n div 2)"
proof -
  assume n: "even n" "\<bar>n\<bar> \<le> 2 ^ 24" "0 \<le> n"
  have q: "(of_int n :: rat) / 2 = of_int (n div 2)" using n(1) by (auto elim!: evenE)
  have "f_div (f_int n) (f_int 2) = f_round False (of_int n / 2)" using n(3) by (simp add: f_int_def)
  also have "\<dots> = f_int (n div 2)" unfolding q using n by (intro f_round_int) linarith
  finally show ?thesis .
qed

lemma first_composite:
  assumes ok: "shell_ok W H st" and p: "pointer_at W H mx my st"
  shows "\<exists>d. composite None (shell_layers st) (sh_fb st) = Some ((sh_fb st)\<lparr>bf_data := d\<rparr>) \<and> displays W H mx my (st\<lparr>sh_fb := (sh_fb st)\<lparr>bf_data := d\<rparr>\<rparr>)"
proof -
  define ls :: "layer list" where "ls = [(sh_bottom st, 0, 0), (sh_top st, 0, 0), (sh_mouse st, mx, my)]"
  have w: "wf_pixels W H (sh_fb st)" "drawable (bf_format (sh_fb st))" using ok by (simp_all add: shell_ok_def)
  have "small_damage None" by (simp add: small_damage_def)
  from composite_cells [OF w shell_layers_ok(1) [OF ok p] this] obtain d where
    d: "composite None (shell_layers st) (sh_fb st) = Some ((sh_fb st)\<lparr>bf_data := d\<rparr>)" "length d = W * H"
    "\<forall>px < W. \<forall>py < H. cell W d px py = fold (lay (bf_format (sh_fb st)) None (int px) (int py)) ls (cell W (bf_data (sh_fb st)) px py)"
    by (auto simp: shell_layers_ok(2) [OF ok p] ls_def)
  have "cell W d px py = scene st mx my (int px) (int py)" if "px < W" "py < H" for px py
    using d(3) that fold_backdrop [OF ok that] by (simp add: ls_def scene_def)
  then have "displays W H mx my (st\<lparr>sh_fb := (sh_fb st)\<lparr>bf_data := d\<rparr>\<rparr>)"
    using ok p shell_ok_data(1) [OF ok d(2)] same_layers_scene(2) [OF shell_ok_data(2)] by (simp add: displays_def pointer_at_def)
  then show ?thesis using d(1) by blast
qed

lemma shell_setup_run:
  assumes wf: "wf_pixels W H fb" and f: "drawable (bf_format fb)" and WH: "10 \<le> W" "16 \<le> H" "even W" "even H" and fuel: "144 \<le> fuel"
  shows "\<exists>st. shell_setup fuel (Some fb) mouse_ptr top_ptr bottom_ptr = Some st \<and> displays W H (int W div 2) (int H div 2) st
    \<and> (\<forall>x < 10. \<forall>y < 16. cell 10 (bf_data (sh_mouse st)) x y = POINTER_IMAGE ! x ! y)"
proof -
  have le: "W \<le> 2 ^ 22" "H \<le> 2 ^ 22" using wf by (simp_all add: wf_pixels_def)
  obtain v where v: "to_u32 BG_COLOR (bf_format fb) = Some v" using f by (auto simp: drawable_def)
  define fb1 where "fb1 = fb\<lparr>bf_data := replicate (W * H) v\<rparr>"
  have clear: "Framebuffer_clear_screen fb BG_COLOR = Some fb1" using clear_pixels_wf [OF wf, of v] by (simp add: Framebuffer_clear_screen_def v fb1_def)
  have w1: "wf_pixels W H fb1" "bf_format fb1 = bf_format fb" using wf by (simp_all add: fb1_def wf_pixels_def)
  define m0 where "m0 = to_color_buffer (Framebuffer_new (\<lambda>_. replicate 160 0) mouse_ptr POINTER_WIDTH POINTER_HEIGHT)"
  have m0: "wf_pixels 10 16 m0" by (simp add: m0_def wf_pixels_def to_color_buffer_def Framebuffer_new_def POINTER_WIDTH_def POINTER_HEIGHT_def)
  obtain md where md: "draw_pointer pointer_points m0 = Some (m0\<lparr>bf_data := md\<rparr>)" "length md = 160"
    "\<forall>x < 10. \<forall>y < 16. cell 10 md x y = (if (x, y) \<in> set pointer_points then POINTER_IMAGE ! x ! y else cell 10 (bf_data m0) x y)"
    using draw_pointer_cells [OF m0 pointer_points_all(1)] by blast
  define m where "m = m0\<lparr>bf_data := md\<rparr>"
  have m: "draw_pointer pointer_points m0 = Some m" "wf_pixels 10 16 m" "\<forall>x < 10. \<forall>y < 16. cell 10 (bf_data m) x y = POINTER_IMAGE ! x ! y"
    using md m0 pointer_points_all(2) by (simp_all add: m_def wf_pixels_def)
  have bytes: "unat (size_in_bytes fb1) \<le> 2 ^ 63 - 4096" using size_in_bytes_wf [OF w1(1)] by (simp only:) (rule order.trans, assumption, simp)
  obtain t where t: "new_layer fb1 top_ptr Color_NONE = Some t" "wf_pixels W H t" using new_layer_wf [OF w1(1)] by blast
  obtain b where b: "new_layer fb1 bottom_ptr BG_COLOR = Some b" "bf_data b = replicate (W * H) BG_COLOR" "wf_pixels W H b" using new_layer_wf [OF w1(1)] by blast
  define dw dh where "dw = f_of_usize (bf_width fb)" and "dh = f_of_usize (bf_height fb)"
  define vw vh vy where "vw = f_div dw (f_round False (131 / 100))" and "vh = f_div dh (f_round False (107 / 100))" and "vy = f_div (f_sub dh vh) (f_int 2)"
  obtain b' where b': "ColorBuffer_fill_area b (Area_new (Point_new (f_sub dw vw) vy) (Size_new vw vh)) PANEL_COLOR = Some b'" "wf_pixels W H b'" "\<forall>c \<in> set (bf_data b'). co_a c \<noteq> 0"
  proof -
    obtain d where "ColorBuffer_fill_area b (Area_new (Point_new (f_sub dw vw) vy) (Size_new vw vh)) PANEL_COLOR = Some (b\<lparr>bf_data := d\<rparr>)" "length d = W * H" "\<forall>c \<in> set d. co_a c \<noteq> 0"
      using fill_opaque [OF b(3,2)] by blast
    then show ?thesis using that [of "b\<lparr>bf_data := d\<rparr>"] b(3) by (simp add: wf_pixels_def)
  qed
  obtain t' where t': "draw_text fuel (Point_new (f_int 5) (f_div (f_sub vy (f_of_usize CHAR_HEIGHT)) (f_int 2))) 0 ''Rhubarb v0.0.0'' t = Some t'" "wf_pixels W H t'"
  proof -
    obtain d where "draw_text fuel (Point_new (f_int 5) (f_div (f_sub vy (f_of_usize CHAR_HEIGHT)) (f_int 2))) 0 ''Rhubarb v0.0.0'' t = Some (t\<lparr>bf_data := d\<rparr>)" "length d = W * H"
      using draw_text_wf [OF t(2) fuel] by blast
    then show ?thesis using that [of "t\<lparr>bf_data := d\<rparr>"] t(2) by (simp add: wf_pixels_def)
  qed
  define st where "st = \<lparr>sh_fb = fb1, sh_bottom = b', sh_top = t', sh_mouse = m, sh_width = dw, sh_height = dh, sh_mouse_pos = Point_new (f_div dw (f_int 2)) (f_div dh (f_int 2))\<rparr>"
  have d: "dw = f_int (int W)" "dh = f_int (int H)" using wf_pixels_size(1,2) [OF wf] by (simp_all add: dw_def dh_def)
  have st: "shell_ok W H st" using WH w1 f m(2) b'(2,3) t'(2) d by (simp add: st_def shell_ok_def)
  have at: "pointer_at W H (int W div 2) (int H div 2) st"
    using WH le f_div_two [of "int W"] f_div_two [of "int H"] d by (simp add: st_def pointer_at_def int_point_def) linarith
  obtain e where e: "composite None (shell_layers st) (sh_fb st) = Some ((sh_fb st)\<lparr>bf_data := e\<rparr>)"
    "displays W H (int W div 2) (int H div 2) (st\<lparr>sh_fb := (sh_fb st)\<lparr>bf_data := e\<rparr>\<rparr>)" using first_composite [OF st at] by blast
  have "shell_setup fuel (Some fb) mouse_ptr top_ptr bottom_ptr = Some (st\<lparr>sh_fb := (sh_fb st)\<lparr>bf_data := e\<rparr>\<rparr>)"
    using e(1) unfolding shell_setup_def Let_def
    by (simp only: bind.simps clear m(1) m0_def [symmetric] bytes rust_assert_simps t(1) b(1) b'(1) t'(1) st_def [symmetric] vw_def [symmetric] vh_def [symmetric] vy_def [symmetric] dw_def [symmetric] dh_def [symmetric]) (simp add: st_def)
  then show ?thesis using e(2) m(3) by (auto simp: st_def)
qed

text \<open>
  C12: A session of the shell. On a framebuffer of even width and height, at least as large as the pointer, the set-up never panics and
  ends; the screen then shows the text over the background, with the pointer's image in the middle. Whatever slots of the
  queue of input events hold, as long as no event is key 16 and no movement leaps left or up by the size of the pointer,
  draining it handles every event, leaves the queue empty, and the screen shows the same layers with the pointer where the
  movements have taken it, within the screen.
\<close>

theorem shell_session:
  assumes "wf_pixels W H fb" "drawable (bf_format fb)" "10 \<le> W" "16 \<le> H" "even W" "even H" "144 \<le> fuel"
    and "\<forall>e \<in> set (List.map_filter id q). steady e"
  shows "\<exists>st st'. shell_setup fuel (Some fb) mouse_ptr top_ptr bottom_ptr = Some st
    \<and> displays W H (int W div 2) (int H div 2) st
    \<and> (\<forall>x < 10. \<forall>y < 16. cell 10 (bf_data (sh_mouse st)) x y = POINTER_IMAGE ! x ! y)
    \<and> drain_events q st = Some (False, replicate (length q) None, st')
    \<and> (case fold (pointer_after W H) (List.map_filter id q) (int W div 2, int H div 2) of (x, y) \<Rightarrow> displays W H x y st')"
proof -
  obtain st where st: "shell_setup fuel (Some fb) mouse_ptr top_ptr bottom_ptr = Some st" "displays W H (int W div 2) (int H div 2) st"
    "\<forall>x < 10. \<forall>y < 16. cell 10 (bf_data (sh_mouse st)) x y = POINTER_IMAGE ! x ! y"
    using shell_setup_run [OF assms(1-7)] by blast
  from this(2) have "displays W H (fst (int W div 2, int H div 2)) (snd (int W div 2, int H div 2)) st" by simp
  from drain_events_run [OF this assms(8)] obtain st' where st': "drain_events q st = Some (False, replicate (length q) None, st')"
    "case fold (pointer_after W H) (List.map_filter id q) (int W div 2, int H div 2) of (x, y) \<Rightarrow> displays W H x y st'" by (elim exE conjE)
  show ?thesis by (intro exI [of _ st] exI [of _ st'] conjI; fact st st')
qed

definition sample_display :: "nat \<Rightarrow> framebuffer" where
  "sample_display n = \<lparr>bf_ptr = 0x100000, bf_data = replicate (n * 16) 0, bf_width = of_nat n, bf_height = 16, bf_format = BGRX8\<rparr>"

lemma sample_display_ok: "n \<le> 2 ^ 22 \<Longrightarrow> wf_pixels n 16 (sample_display n)" "drawable (bf_format (sample_display n))"
  by (simp_all add: sample_display_def wf_pixels_def drawable_def)

theorem shell_session_witness:
  "\<exists>st st'. shell_setup 144 (Some (sample_display 20)) 0x1000 0x2000 0x3000 = Some st
     \<and> drain_events [Some (MouseMove 3 (- 2)), None, Some (KeyPress 5)] st = Some (False, [None, None, None], st') \<and> displays 20 16 13 6 st'"
proof -
  have "wf_pixels 20 16 (sample_display 20)" using sample_display_ok(1) [of 20] by simp
  moreover have "\<forall>e \<in> set (List.map_filter id [Some (MouseMove 3 (- 2)), None, Some (KeyPress 5)]). steady e" by (simp add: map_filter_simps)
  ultimately show ?thesis
    using shell_session [of 20 16 "sample_display 20" 144 "[Some (MouseMove 3 (- 2)), None, Some (KeyPress 5)]" "0x1000" "0x2000" "0x3000"] sample_display_ok(2)
    by (auto simp: map_filter_simps clip_def numeral_3_eq_3)
qed

text \<open>
  C17: A leap hides the pointer. When a movement takes the pointer to the left by its width or more, or up by its height or more, in
  one event, the new place of the pointer does not meet the area the shell repaints, and the whole screen shows the text and
  the background without a pointer, although its position is the new one.
\<close>

theorem pointer_lost:
  assumes "displays W H mx my st" "\<bar>sint dx\<bar> \<le> 2 ^ 21" "\<bar>sint dy\<bar> \<le> 2 ^ 21"
    and "clip W (mx + sint dx) + 10 \<le> mx \<or> clip H (my + sint dy) + 16 \<le> my"
  shows "\<exists>st'. handle_event (MouseMove dx dy) st = Some st' \<and> pointer_at W H (clip W (mx + sint dx)) (clip H (my + sint dy)) st'
    \<and> (\<forall>px < W. \<forall>py < H. cell W (bf_data (sh_fb st')) px py = backdrop st' (int px) (int py))"
proof -
  have "\<not> (mx < clip W (mx + sint dx) + 10 \<and> my < clip H (my + sint dy) + 16)" using assms(4) by linarith
  then obtain st' where "handle_event (MouseMove dx dy) st = Some st'" "pointer_at W H (clip W (mx + sint dx)) (clip H (my + sint dy)) st'" "same_layers st st'"
    "\<forall>px < W. \<forall>py < H. cell W (bf_data (sh_fb st')) px py = backdrop st (int px) (int py)"
    using mouse_move_cells [OF assms(1-3)] by (simp only: if_False) blast
  then show ?thesis using same_layers_scene(1) by metis
qed

theorem pointer_lost_witness:
  "\<exists>st st'. displays 20 16 10 8 st \<and> handle_event (MouseMove (- 10) 0) st = Some st' \<and> pointer_at 20 16 0 8 st'
     \<and> cell 20 (bf_data (sh_fb st')) 0 8 = backdrop st' 0 8"
proof -
  obtain st where st: "displays 20 16 10 8 st"
    using shell_setup_run [of 20 16 "sample_display 20" 144 0 0 0] sample_display_ok [of 20] by auto
  have d: "\<bar>sint (- 10 :: u32)\<bar> \<le> 2 ^ 21" "\<bar>sint (0 :: u32)\<bar> \<le> 2 ^ 21" "clip 20 (10 + sint (- 10 :: u32)) + 10 \<le> 10 \<or> clip 16 (8 + sint (0 :: u32)) + 16 \<le> 8"
    by (simp_all add: clip_def)
  obtain st' where st': "handle_event (MouseMove (- 10) 0) st = Some st'" "pointer_at 20 16 (clip 20 (10 + sint (- 10 :: u32))) (clip 16 (8 + sint (0 :: u32))) st'"
    "\<forall>px < 20. \<forall>py < 16. cell 20 (bf_data (sh_fb st')) px py = backdrop st' (int px) (int py)"
    using pointer_lost [OF st d] by blast
  have "cell 20 (bf_data (sh_fb st')) 0 8 = backdrop st' 0 8" using st'(3) [rule_format, of 0 8] by simp
  moreover have "pointer_at 20 16 0 8 st'" using st'(2) by (simp add: clip_def)
  ultimately show ?thesis using st st'(1) by blast
qed

subsection \<open>Answering requests\<close>

fun answer :: "shell_input \<Rightarrow> shell_output" where
  "answer (AccessModuleRequest addr process_id process_name module_name section_name) = AllowModuleAccess addr process_id"

lemma service_requests_run:
  assumes "queue_holds n (shell_in q) ms" "queue_holds n (shell_out q) out" "length out + length ms \<le> n" "length ms < fuel"
  shows "\<exists>q'. service_requests fuel q = Some q' \<and> queue_holds n (shell_in q') [] \<and> queue_holds n (shell_out q') (out @ map answer ms)"
  using assms
proof (induction fuel arbitrary: q ms out)
  case (Suc fuel)
  show ?case
  proof (cases ms)
    case Nil
    then show ?thesis using Suc.prems(1,2) queue_holds_pop_empty [of n "shell_in q"] by simp
  next
    case (Cons m ms')
    obtain addr pid a b c where m: "m = AccessModuleRequest addr pid a b c" by (cases m)
    obtain i where i: "SizedQueue_pop (shell_in q) = Some (Some m, i)" "queue_holds n i ms'"
      using queue_holds_pop [OF Suc.prems(1) [unfolded Cons]] by (elim exE conjE)
    obtain u where u: "SizedQueue_push (answer m) (shell_out q) = Some u" "queue_holds n u (out @ [answer m])"
      using queue_holds_push [OF Suc.prems(2)] Suc.prems(3) Cons by fastforce
    have "\<exists>q'. service_requests fuel (q\<lparr>shell_in := i, shell_out := u\<rparr>) = Some q' \<and> queue_holds n (shell_in q') []
        \<and> queue_holds n (shell_out q') ((out @ [answer m]) @ map answer ms')"
      using i(2) u(2) Suc.prems(3,4) Cons by (intro Suc.IH) simp_all
    then show ?thesis using i(1) u(1) by (simp add: m Cons)
  qed
qed simp

text \<open>
  C16: Every request of the kernel is answered. When the queue to the shell holds some requests and there is room for the answers in
  the queue to the kernel, the loop ends after one round more than there are requests, the first queue is then empty, and
  the second holds, behind what it held, the permissions for the addresses and processes of the requests, in their order.
\<close>

theorem requests_answered:
  assumes "SizedQueue_inv 8 (shell_in q)" "SizedQueue_inv 8 (shell_out q)"
    and "length (SizedQueue_contents 8 (shell_out q)) + length (SizedQueue_contents 8 (shell_in q)) \<le> 8"
    and "length (SizedQueue_contents 8 (shell_in q)) < fuel"
  shows "\<exists>q'. service_requests fuel q = Some q' \<and> SizedQueue_contents 8 (shell_in q') = []
    \<and> SizedQueue_contents 8 (shell_out q') = SizedQueue_contents 8 (shell_out q) @ map answer (SizedQueue_contents 8 (shell_in q))"
  using service_requests_run [OF assms(1,2) [unfolded SizedQueue_inv_def] assms(3,4)] queue_holds_contents(1) by metis

definition access_request :: shell_input where
  "access_request = AccessModuleRequest 0x4000 7 (SizedString_new_truncate 32 ''input_driver'') (SizedString_new_truncate 32 ''log'') (SizedString_new_truncate 32 ''STATE'')"

theorem requests_answered_witness:
  "\<exists>q i q'. SizedQueue_push access_request (shell_in ShellQueue_new) = Some i \<and> q = ShellQueue_new\<lparr>shell_in := i\<rparr>
     \<and> service_requests 2 q = Some q' \<and> SizedQueue_contents 8 (shell_in q') = [] \<and> SizedQueue_contents 8 (shell_out q') = [AllowModuleAccess 0x4000 7]"
proof -
  have e: "queue_holds 8 (shell_in ShellQueue_new) []" "queue_holds 8 (shell_out ShellQueue_new) []"
    using SizedQueue_new_holds [of 8] by (simp_all add: ShellQueue_new_def SHELL_INPUT_QUEUE_SIZE_def)
  obtain i where i: "SizedQueue_push access_request (shell_in ShellQueue_new) = Some i" "queue_holds 8 i [access_request]"
    using queue_holds_push [OF e(1)] by fastforce
  define q where "q = ShellQueue_new\<lparr>shell_in := i\<rparr>"
  have h: "SizedQueue_inv 8 (shell_in q)" "SizedQueue_contents 8 (shell_in q) = [access_request]" "SizedQueue_inv 8 (shell_out q)" "SizedQueue_contents 8 (shell_out q) = []"
    using queue_holds_contents [OF i(2)] queue_holds_contents [OF e(2)] by (simp_all add: q_def)
  have "\<exists>q'. service_requests 2 q = Some q' \<and> SizedQueue_contents 8 (shell_in q') = []
      \<and> SizedQueue_contents 8 (shell_out q') = SizedQueue_contents 8 (shell_out q) @ map answer (SizedQueue_contents 8 (shell_in q))"
    by (rule requests_answered) (simp_all add: h)
  then obtain q' where q': "service_requests 2 q = Some q'" "SizedQueue_contents 8 (shell_in q') = []" "SizedQueue_contents 8 (shell_out q') = [AllowModuleAccess 0x4000 7]"
    unfolding h by (auto simp: access_request_def)
  show ?thesis by (intro exI [of _ q] exI [of _ i] exI [of _ q'] conjI; fact i q_def q')
qed

end
