(* ===== verification/Bootloader.thy ===== *)
theory Bootloader
  imports Elf Loader_Names
begin

section \<open>The bootloader\<close>

text \<open>
  The UEFI application that starts the kernel (\<^verbatim>\<open>bootloader/src/main.rs\<close>): it copies the segments of
  the kernel's ELF file to the addresses they are linked at, copies every object file of the boot volume to pages of its
  own, and hands the kernel a \<^typ>\<open>boot_info\<close>.

  The firmware is a parameter: the files of the boot volume, the answers of \<^verbatim>\<open>boot::allocate_pages\<close>, the
  graphics mode and the memory map it reports when its services end. Memory is the map of bytes the kernel's file system
  reads, at the identity mapping the firmware sets up; the firmware leaves what the loader writes to it alone. The vector
  the kernel file is read to is placed by the firmware's heap, so its address is part of the parameter too.
\<close>

record firmware_file =
  ff_name :: string
  ff_size :: u64
  ff_bytes :: "u8 list"
  ff_dir :: bool

datatype gop_format = GopRgb | GopBgr | GopBitmask | GopBltOnly

record gop_mode =
  gm_width :: usize
  gm_height :: usize
  gm_stride :: usize
  gm_format :: gop_format
  gm_buffer :: u64
  gm_buffer_size :: usize

record memory_descriptor =
  phys_start :: u64
  md_page_count :: u64
  md_ty :: u32

record 'u firmware =
  fw_entries :: "firmware_file list"
  fw_open :: "string \<Rightarrow> firmware_file option"
  fw_allocate_pages :: "u64 option \<Rightarrow> usize \<Rightarrow> 'u \<Rightarrow> usize option \<times> 'u"
  fw_vec_addr :: usize
  fw_gop :: gop_mode
  fw_rsdp :: "u64 option"
  fw_map_len :: usize
  fw_memory_map :: "memory_descriptor list"

subsection \<open>The kernel\<close>

text \<open>
  \<^verbatim>\<open>elf.program_iter()\<close> run to its end. The program headers are counted in 16 bits, so 65537 turns always
  suffice.
\<close>

fun program_iter :: "nat \<Rightarrow> elf_file \<Rightarrow> u16 \<Rightarrow> program_header list rust" where
  "program_iter 0 f next_index = None"
| "program_iter (Suc fuel) f next_index = do {
     (h, next_index) \<leftarrow> ProgramIter_next f next_index;
     (case h of
        None \<Rightarrow> Some []
      | Some h \<Rightarrow> do {
          hs \<leftarrow> program_iter fuel f next_index;
          Some (h # hs)
        })
   }"

definition elf_programs :: "elf_file \<Rightarrow> program_header list rust" where
  "elf_programs f = program_iter 65537 f 0"

definition is_load :: "program_header \<Rightarrow> bool rust" where
  "is_load h = (case ProgramHeader_get_type h of Inl _ \<Rightarrow> panic | Inr t \<Rightarrow> Some (t = PhLoad))"

fun program_range :: "program_header list \<Rightarrow> usize \<Rightarrow> usize \<Rightarrow> (usize \<times> usize) rust" where
  "program_range [] start_addr end_addr = Some (start_addr, end_addr)"
| "program_range (h # hs) start_addr end_addr = do {
     load \<leftarrow> is_load h;
     if \<not> load then program_range hs start_addr end_addr
     else program_range hs (min start_addr (virtual_addr h)) (max end_addr (virtual_addr h + mem_size h))
   }"

text \<open>
  One segment. A slice at address zero, or one that is longer than half of the address space or runs past its end, is
  undefined behaviour of \<^verbatim>\<open>from_raw_parts_mut\<close>.
\<close>

definition copy_segment :: "slice \<Rightarrow> program_header \<Rightarrow> byte_store \<Rightarrow> byte_store rust" where
  "copy_segment buf h m = do {
     let addr = virtual_addr h;
     let offset = p_offset h;
     let size_in_file = file_size h;
     let size_in_memory = mem_size h;
     rust_assert (addr \<noteq> 0 \<and> unat size_in_memory < 2 ^ 63 \<and> unat addr + unat size_in_memory \<le> 2 ^ 64);
     rust_assert (size_in_file \<le> size_in_memory);
     src \<leftarrow> slice_range buf offset (offset + size_in_file);
     rust_assert (length (sl_bytes src) = unat size_in_file);
     let m = write_bytes addr (sl_bytes src) m;
     Some (write_bytes (addr + size_in_file) (replicate (unat (size_in_memory - size_in_file)) 0) m)
   }"

fun copy_segments :: "slice \<Rightarrow> program_header list \<Rightarrow> byte_store \<Rightarrow> byte_store rust" where
  "copy_segments buf [] m = Some m"
| "copy_segments buf (h # hs) m = do {
     load \<leftarrow> is_load h;
     if \<not> load then copy_segments buf hs m
     else do {
       m \<leftarrow> copy_segment buf h m;
       copy_segments buf hs m
     }
   }"

definition file_read :: "firmware_file \<Rightarrow> nat \<Rightarrow> u8 list" where
  "file_read f n = take n (ff_bytes f)"

definition kernel_buffer :: "'u firmware \<Rightarrow> slice rust" where
  "kernel_buffer fw = do {
     f \<leftarrow> fw_open fw ''kernel'';
     rust_assert (\<not> ff_dir f);
     let n = unat (ff_size f);
     let bs = file_read f n;
     Some \<lparr> sl_addr = fw_vec_addr fw, sl_bytes = bs @ replicate (n - length bs) 0 \<rparr>
   }"

definition load_kernel :: "'u firmware \<Rightarrow> byte_store \<Rightarrow> 'u \<Rightarrow> ((usize \<times> usize \<times> u64) \<times> byte_store \<times> 'u) rust" where
  "load_kernel fw m s = do {
     buf \<leftarrow> kernel_buffer fw;
     r \<leftarrow> ElfFile_new buf;
     elf \<leftarrow> (case r of Inl _ \<Rightarrow> panic | Inr elf \<Rightarrow> Some elf);
     headers \<leftarrow> elf_programs elf;
     (start_addr, end_addr) \<leftarrow> program_range headers (-1) 0;
     let page_count = div_ceil (end_addr - start_addr) PAGE_SIZE;
     let (p, s) = fw_allocate_pages fw (Some start_addr) page_count s;
     _ \<leftarrow> p;
     m \<leftarrow> copy_segments buf headers m;
     Some ((start_addr, end_addr, entry_point (body (elf_header elf))), m, s)
   }"

subsection \<open>The root objects\<close>

definition MAX_OBJECT_NAME_LEN :: nat where "MAX_OBJECT_NAME_LEN = 32"

definition object_name_bytes :: "string \<Rightarrow> u8 list rust" where
  "object_name_bytes file_name = do {
     let actual_name_end = length file_name - 2;
     rust_assert (actual_name_end \<le> MAX_OBJECT_NAME_LEN);
     Some (take actual_name_end (bytes_of_str file_name) @ replicate (MAX_OBJECT_NAME_LEN - actual_name_end) 0)
   }"

definition load_root_object :: "'u firmware \<Rightarrow> firmware_file \<Rightarrow> byte_store \<Rightarrow> 'u \<Rightarrow> (root_object_info \<times> byte_store \<times> 'u) rust" where
  "load_root_object fw info m s = do {
     file \<leftarrow> fw_open fw (ff_name info);
     rust_assert (\<not> ff_dir file);
     let size = ff_size info;
     let page_count = div_ceil size PAGE_SIZE;
     let (p, s) = fw_allocate_pages fw None page_count s;
     ptr \<leftarrow> p;
     let buf_len = unat (page_count * PAGE_SIZE);
     let bs = file_read file buf_len;
     rust_assert (length bs = unat size);
     let m = write_bytes ptr bs m;
     let m = write_bytes (ptr + word_of_nat (length bs)) (replicate (buf_len - length bs) 0) m;
     name \<leftarrow> object_name_bytes (ff_name info);
     Some (\<lparr> ro_name = name, ro_addr = ptr, ro_size = size \<rparr>, m, s)
   }"

fun load_objects :: "'u firmware \<Rightarrow> firmware_file list \<Rightarrow> byte_store \<Rightarrow> 'u \<Rightarrow> (root_object_info list \<times> byte_store \<times> 'u) rust" where
  "load_objects fw [] m s = Some ([], m, s)"
| "load_objects fw (info # infos) m s =
     (if \<not> ends_with (ff_name info) ''.o'' then load_objects fw infos m s
      else do {
        (obj, m, s) \<leftarrow> load_root_object fw info m s;
        (objs, m, s) \<leftarrow> load_objects fw infos m s;
        Some (obj # objs, m, s)
      })"

definition load_root_objects :: "'u firmware \<Rightarrow> byte_store \<Rightarrow> 'u \<Rightarrow> (root_object_info list \<times> byte_store \<times> 'u) rust" where
  "load_root_objects fw m s = load_objects fw (fw_entries fw) m s"

subsection \<open>The display and the memory map\<close>

definition get_display_info :: "gop_mode \<Rightarrow> display_info rust" where
  "get_display_info mode = do {
     (format, addr, size) \<leftarrow> (case gm_format mode of
         GopRgb \<Rightarrow> Some (RGBX8, gm_buffer mode, gm_buffer_size mode)
       | GopBgr \<Rightarrow> Some (BGRX8, gm_buffer mode, gm_buffer_size mode)
       | GopBltOnly \<Rightarrow> Some (PF_NONE, 0, 0)
       | GopBitmask \<Rightarrow> panic);
     Some \<lparr> di_width = ucast (gm_width mode), di_height = ucast (gm_height mode), di_stride = ucast (gm_stride mode),
       di_format = format, framebuffer_addr = addr, framebuffer_size = size \<rparr>
   }"

text \<open>The memory types of the UEFI specification that the loader names.\<close>

definition LOADER_CODE :: u32 where "LOADER_CODE = 1"
definition LOADER_DATA :: u32 where "LOADER_DATA = 2"
definition BOOT_SERVICES_CODE :: u32 where "BOOT_SERVICES_CODE = 3"
definition BOOT_SERVICES_DATA :: u32 where "BOOT_SERVICES_DATA = 4"
definition CONVENTIONAL :: u32 where "CONVENTIONAL = 7"

definition boot_region :: "memory_descriptor \<Rightarrow> memory_region" where
  "boot_region desc = \<lparr> region_base = phys_start desc, region_size = md_page_count desc * PAGE_SIZE,
     region_kind = (if md_ty desc \<in> {CONVENTIONAL, LOADER_CODE, LOADER_DATA, BOOT_SERVICES_CODE, BOOT_SERVICES_DATA}
       then Free else Uefi (md_ty desc)) \<rparr>"

subsection \<open>The entry point\<close>

text \<open>
  What the kernel is entered with: the boot information, the address jumped to and the memory. The vector of regions has
  the capacity it was asked for.
\<close>

definition bootloader_main :: "'u firmware \<Rightarrow> byte_store \<Rightarrow> 'u \<Rightarrow> (boot_info \<times> u64 \<times> byte_store) rust" where
  "bootloader_main fw m s = do {
     ((kernel_start, kernel_end, kernel_entry_point), m, s) \<leftarrow> load_kernel fw m s;
     (root_objects, m, s) \<leftarrow> load_root_objects fw m s;
     display_info \<leftarrow> get_display_info (fw_gop fw);
     let capacity = fw_map_len fw + 8;
     rust_assert (unat capacity \<ge> length (fw_memory_map fw));
     Some (\<lparr> rsdp_address = fw_rsdp fw, kernel_start = kernel_start, kernel_end = kernel_end,
         memory_map = map boot_region (fw_memory_map fw), root_object_map = root_objects, display_info = display_info \<rparr>,
       kernel_entry_point, m)
   }"

end
