(* ===== verification/Bootloader_Props.thy ===== *)
theory Bootloader_Props
  imports Bootloader
begin

section \<open>What the bootloader leaves in memory\<close>

text \<open>
  The kernel image and the root objects are both sequences of writes to ranges of memory that do not overlap
  (\<^verbatim>\<open>write_all\<close>). Every segment of the kernel is where its header says, the file bytes first and zeros after
  them; every object of the boot volume is read back by the kernel's own file system; and the pages of the objects are
  among the frames the kernel later allocates.
\<close>

subsection \<open>Writes to separate ranges\<close>

definition apart :: "usize \<times> nat \<Rightarrow> usize \<times> nat \<Rightarrow> bool" where
  "apart p q \<longleftrightarrow> unat (fst p) + snd p \<le> unat (fst q) \<or> unat (fst q) + snd q \<le> unat (fst p)"

definition span :: "usize \<times> u8 list \<Rightarrow> usize \<times> nat" where
  "span w = (fst w, length (snd w))"

definition inside :: "usize \<Rightarrow> usize \<times> nat \<Rightarrow> bool" where
  "inside x p \<longleftrightarrow> unat (fst p) \<le> unat x \<and> unat x < unat (fst p) + snd p"

definition write_all :: "(usize \<times> u8 list) list \<Rightarrow> byte_store \<Rightarrow> byte_store" where
  "write_all ws m = fold (\<lambda>(a, bs). write_bytes a bs) ws m"

definition separate :: "(usize \<times> u8 list) list \<Rightarrow> bool" where
  "separate ws \<longleftrightarrow> sorted_wrt (\<lambda>v w. apart (span v) (span w)) ws \<and> (\<forall>w \<in> set ws. unat (fst w) + length (snd w) \<le> 2 ^ 64)"

lemma write_all_simps [simp]:
  "write_all [] m = m"
  "write_all ((a, bs) # ws) m = write_all ws (write_bytes a bs m)"
  by (simp_all add: write_all_def)

lemma write_bytes_inside:
  assumes "unat a + length bs \<le> 2 ^ 64"
  shows "write_bytes a bs m x = (if inside x (a, length bs) then bs ! (unat x - unat a) else m x)"
proof -
  have "unat (x - a) = (if unat a \<le> unat x then unat x - unat a else unat x + 2 ^ 64 - unat a)"
    using unat_sub_if' [of x a] by simp
  then show ?thesis using assms by (auto simp: write_bytes_def Let_def inside_def)
qed

lemma write_bytes_append:
  assumes "length xs + length ys \<le> 2 ^ 64" "length xs < 2 ^ 64"
  shows "write_bytes (a + word_of_nat (length xs)) ys (write_bytes a xs m) = write_bytes a (xs @ ys) m"
proof
  fix x
  define d where "d = x - a"
  have l: "unat (word_of_nat (length xs) :: usize) = length xs" using assms(2) by (simp add: unat_of_nat take_bit_nat_eq_self)
  have e: "x - (a + word_of_nat (length xs)) = d - word_of_nat (length xs)" by (simp add: d_def)
  have "unat (x - (a + word_of_nat (length xs))) =
      (if length xs \<le> unat d then unat d - length xs else unat d + 2 ^ 64 - length xs)"
    unfolding e using unat_sub_if' [of d "word_of_nat (length xs)"] l by simp
  then show "write_bytes (a + word_of_nat (length xs)) ys (write_bytes a xs m) x = write_bytes a (xs @ ys) m x"
    using assms by (auto simp: write_bytes_def Let_def nth_append d_def [symmetric])
qed

lemma write_all_outside:
  assumes "\<forall>w \<in> set ws. unat (fst w) + length (snd w) \<le> 2 ^ 64" and "\<forall>w \<in> set ws. \<not> inside x (span w)"
  shows "write_all ws m x = m x"
  using assms
proof (induction ws arbitrary: m)
  case (Cons w ws)
  obtain a bs where w: "w = (a, bs)" by (cases w)
  have "write_bytes a bs m x = m x" using Cons.prems by (simp add: w span_def write_bytes_inside)
  then show ?case using Cons.IH [of "write_bytes a bs m"] Cons.prems by (simp add: w)
qed simp

lemma apart_inside: "apart p q \<Longrightarrow> inside x p \<Longrightarrow> \<not> inside x q"
  by (auto simp: apart_def inside_def)

lemma write_all_inside:
  assumes "separate ws" and "w \<in> set ws" and "inside x (span w)"
  shows "write_all ws m x = snd w ! (unat x - unat (fst w))"
  using assms
proof (induction ws arbitrary: m)
  case (Cons v ws)
  obtain a bs where v: "v = (a, bs)" by (cases v)
  show ?case
  proof (cases "w \<in> set ws")
    case True
    then show ?thesis using Cons.IH [of "write_bytes a bs m"] Cons.prems by (simp add: v separate_def)
  next
    case False
    then have w: "w = (a, bs)" using Cons.prems(2) v by simp
    have "\<not> inside x (span u)" if "u \<in> set ws" for u
      using Cons.prems(1,3) that apart_inside [of "span w" "span u" x] by (simp add: separate_def v w)
    then have "write_all ws (write_bytes a bs m) x = write_bytes a bs m x"
      using Cons.prems(1) by (intro write_all_outside) (simp_all add: separate_def)
    then show ?thesis using Cons.prems(1,3) by (simp add: v w separate_def span_def write_bytes_inside)
  qed
qed simp

text \<open>Each range reads back as it was written.\<close>

lemma read_write_all:
  assumes "separate ws" and "(a, bs) \<in> set ws"
  shows "read_bytes (write_all ws m) a (length bs) = bs"
proof (rule nth_equalityI)
  fix i assume "i < length (read_bytes (write_all ws m) a (length bs))"
  then have i: "i < length bs" by simp
  have b: "unat a + length bs \<le> 2 ^ 64" using assms by (auto simp: separate_def)
  have u: "unat (a + word_of_nat i) = unat a + i"
  proof -
    have "unat (word_of_nat i :: usize) = i" using b i by (simp add: unat_of_nat take_bit_nat_eq_self)
    then show ?thesis using b i unat_plus_if' [of a "word_of_nat i"] by simp
  qed
  then have "inside (a + word_of_nat i) (span (a, bs))" using i by (simp add: inside_def span_def)
  from write_all_inside [OF assms this, of m] show "read_bytes (write_all ws m) a (length bs) ! i = bs ! i"
    using i u by (simp add: read_bytes_def)
qed simp

subsection \<open>The kernel image\<close>

definition load_headers :: "program_header list \<Rightarrow> program_header list" where
  "load_headers hs = filter (\<lambda>h. ProgramHeader_get_type h = Inr PhLoad) hs"

definition typed :: "program_header list \<Rightarrow> bool" where
  "typed hs \<longleftrightarrow> (\<forall>h \<in> set hs. \<exists>t. ProgramHeader_get_type h = Inr t)"

definition image_start :: "program_header list \<Rightarrow> usize" where
  "image_start hs = fold (\<lambda>h a. min a (virtual_addr h)) (load_headers hs) (-1)"

definition image_end :: "program_header list \<Rightarrow> usize" where
  "image_end hs = fold (\<lambda>h a. max a (virtual_addr h + mem_size h)) (load_headers hs) 0"

text \<open>A segment inside the file and the address space, and what memory holds of it once loaded.\<close>

definition segment_ok :: "slice \<Rightarrow> program_header \<Rightarrow> bool" where
  "segment_ok buf h \<longleftrightarrow> virtual_addr h \<noteq> 0 \<and> unat (mem_size h) < 2 ^ 63 \<and> unat (virtual_addr h) + unat (mem_size h) < 2 ^ 64
     \<and> file_size h \<le> mem_size h \<and> unat (p_offset h) + unat (file_size h) \<le> length (sl_bytes buf)"

definition segment_image :: "slice \<Rightarrow> program_header \<Rightarrow> u8 list" where
  "segment_image buf h = take (unat (file_size h)) (drop (unat (p_offset h)) (sl_bytes buf))
     @ replicate (unat (mem_size h) - unat (file_size h)) 0"

definition segments :: "slice \<Rightarrow> program_header list \<Rightarrow> (usize \<times> u8 list) list" where
  "segments buf hs = map (\<lambda>h. (virtual_addr h, segment_image buf h)) (load_headers hs)"

lemma load_headers_simps [simp]:
  "load_headers [] = []"
  "load_headers (h # hs) = (if ProgramHeader_get_type h = Inr PhLoad then h # load_headers hs else load_headers hs)"
  by (simp_all add: load_headers_def)

lemma is_load_typed: "ProgramHeader_get_type h = Inr t \<Longrightarrow> is_load h = Some (ProgramHeader_get_type h = Inr PhLoad)"
  by (simp add: is_load_def)

lemma program_range_fold:
  assumes "typed hs"
  shows "program_range hs a b = Some (fold (\<lambda>h a. min a (virtual_addr h)) (load_headers hs) a,
    fold (\<lambda>h b. max b (virtual_addr h + mem_size h)) (load_headers hs) b)"
  using assms
proof (induction hs arbitrary: a b)
  case (Cons h hs)
  then obtain t where "ProgramHeader_get_type h = Inr t" by (auto simp: typed_def)
  note is_load_typed [OF this]
  then show ?case using Cons by (simp add: typed_def)
qed simp

lemma fold_min_le: "fold (\<lambda>h a. min a (f h)) hs a \<le> (a :: 'b :: linorder)"
proof (induction hs arbitrary: a)
  case (Cons g hs)
  show ?case using Cons [of "min a (f g)"] by simp
qed simp

lemma fold_min_mem: "h \<in> set hs \<Longrightarrow> fold (\<lambda>h a. min a (f h)) hs a \<le> (f h :: 'b :: linorder)"
proof (induction hs arbitrary: a)
  case (Cons g hs)
  then show ?case using fold_min_le [of f hs "min a (f g)"] by (auto intro: order_trans)
qed simp

lemma fold_max_ge: "(a :: 'b :: linorder) \<le> fold (\<lambda>h a. max a (f h)) hs a"
proof (induction hs arbitrary: a)
  case (Cons g hs)
  show ?case using Cons [of "max a (f g)"] by simp
qed simp

lemma fold_max_mem: "h \<in> set hs \<Longrightarrow> (f h :: 'b :: linorder) \<le> fold (\<lambda>h a. max a (f h)) hs a"
proof (induction hs arbitrary: a)
  case (Cons g hs)
  then show ?case using fold_max_ge [of "max a (f g)" f hs] by (auto intro: order_trans)
qed simp

lemma length_segment_image:
  "segment_ok buf h \<Longrightarrow> length (segment_image buf h) = unat (mem_size h)"
  by (auto simp: segment_image_def segment_ok_def word_le_nat_alt)

lemma copy_segment_image:
  assumes "segment_ok buf h" and "length (sl_bytes buf) < 2 ^ 64"
  shows "copy_segment buf h m = Some (write_bytes (virtual_addr h) (segment_image buf h) m)"
proof -
  let ?xs = "take (unat (file_size h)) (drop (unat (p_offset h)) (sl_bytes buf))"
  note ok = assms(1) [unfolded segment_ok_def]
  have u: "unat (p_offset h + file_size h) = unat (p_offset h) + unat (file_size h)"
    using ok assms(2) unat_plus_if' [of "p_offset h" "file_size h"] by simp
  have l: "length ?xs = unat (file_size h)" using ok by auto
  have r: "slice_range buf (p_offset h) (p_offset h + file_size h)
      = Some \<lparr> sl_addr = sl_addr buf + p_offset h, sl_bytes = ?xs \<rparr>"
    using ok u by (simp add: slice_range_def word_le_nat_alt)
  have d: "unat (mem_size h - file_size h) = unat (mem_size h) - unat (file_size h)"
    using ok unat_sub_if' [of "mem_size h" "file_size h"] by (simp add: word_le_nat_alt)
  have "write_bytes (virtual_addr h + word_of_nat (length ?xs)) (replicate (unat (mem_size h) - unat (file_size h)) 0)
      (write_bytes (virtual_addr h) ?xs m) = write_bytes (virtual_addr h) (segment_image buf h) m"
    unfolding segment_image_def using l ok by (intro write_bytes_append) (auto simp: word_le_nat_alt)
  then show ?thesis using ok l r d by (simp add: copy_segment_def Let_def)
qed

lemma copy_segments_write_all:
  assumes "typed hs" and "\<forall>h \<in> set (load_headers hs). segment_ok buf h" and "length (sl_bytes buf) < 2 ^ 64"
  shows "copy_segments buf hs m = Some (write_all (segments buf hs) m)"
  using assms(1,2)
proof (induction hs arbitrary: m)
  case (Cons h hs)
  then obtain t where "ProgramHeader_get_type h = Inr t" by (auto simp: typed_def)
  note is_load_typed [OF this]
  then show ?case
    using Cons copy_segment_image [OF _ assms(3), of h m] by (simp add: typed_def segments_def)
qed (simp add: segments_def)

text \<open>The iterator visits at most 65535 headers, so the fuel of \<^const>\<open>elf_programs\<close> is never what ends it.\<close>

lemma program_iter_fuel:
  assumes "unat (ph_count (body (elf_header f))) - unat i < n" "n \<le> n'"
  shows "program_iter n f i = program_iter n' f i"
  using assms
proof (induction n arbitrary: n' i)
  case (Suc n)
  then obtain k where k: "n' = Suc k" "n \<le> k" by (cases n') auto
  have "program_iter n f j = program_iter k f j" if j: "ProgramIter_next f i = Some (Some h, j)" for h j
  proof (rule Suc.IH)
    have lt: "i < ph_count (body (elf_header f))" and "j = i + 1"
      using j by (auto simp: ProgramIter_next_def bind_eq_Some_conv split: if_splits)
    moreover have "unat (i + 1) = unat i + 1"
      using lt unsigned_less [where ?'a = nat and w = "ph_count (body (elf_header f))"] unat_plus_if' [of i 1] by (simp add: word_less_nat_alt)
    ultimately show "unat (ph_count (body (elf_header f))) - unat j < n" using Suc.prems(1) by (simp add: word_less_nat_alt)
  qed (rule k(2))
  then show ?case
    by (cases "ProgramIter_next f i") (auto simp: k(1) split: option.splits)
qed simp

lemma load_kernel_eq:
  assumes "kernel_buffer fw = Some buf" and "length (sl_bytes buf) < 2 ^ 64"
    and "ElfFile_new buf = Some (Inr elf)" and "elf_programs elf = Some hs" and "typed hs"
    and "\<forall>h \<in> set (load_headers hs). segment_ok buf h"
    and "fw_allocate_pages fw (Some (image_start hs)) (div_ceil (image_end hs - image_start hs) 4096) s = (Some p, s')"
  shows "load_kernel fw m s = Some ((image_start hs, image_end hs, entry_point (body (elf_header elf))),
    write_all (segments buf hs) m, s')"
proof -
  have "program_range hs (-1) 0 = Some (image_start hs, image_end hs)"
    using program_range_fold [OF assms(5)] by (simp add: image_start_def image_end_def)
  moreover have "copy_segments buf hs m = Some (write_all (segments buf hs) m)"
    using assms(5,6,2) by (rule copy_segments_write_all)
  ultimately show ?thesis using assms(1,3,4,7) by (simp add: load_kernel_def PAGE_SIZE_def KIBIBYTE_def)
qed

subsection \<open>Properties of the kernel image\<close>

text \<open>
  C13: The kernel is loaded as its file says. When the kernel file is a well-formed ELF file whose loadable segments lie
  inside the file and do not overlap in memory, and the firmware grants the pages asked for, \<^verbatim>\<open>load_kernel\<close>
  returns the address range and the entry point; the pages asked for cover the range and the range covers every segment;
  memory holds the file bytes of every segment at its address, then zeros to the size the segment has in memory; and no
  other byte of memory has changed.
\<close>

theorem load_kernel_image:
  assumes "kernel_buffer fw = Some buf" and "length (sl_bytes buf) < 2 ^ 64"
    and "ElfFile_new buf = Some (Inr elf)" and "elf_programs elf = Some hs" and "typed hs" and "load_headers hs \<noteq> []"
    and "\<forall>h \<in> set (load_headers hs). segment_ok buf h" and "separate (segments buf hs)"
    and "fw_allocate_pages fw (Some (image_start hs)) (div_ceil (image_end hs - image_start hs) 4096) s = (Some p, s')"
  shows "\<exists>m'. load_kernel fw m s = Some ((image_start hs, image_end hs, entry_point (body (elf_header elf))), m', s')
    \<and> unat (image_end hs) \<le> unat (image_start hs) + unat (div_ceil (image_end hs - image_start hs) 4096) * 4096
    \<and> (\<forall>h \<in> set (load_headers hs). unat (image_start hs) \<le> unat (virtual_addr h)
         \<and> unat (virtual_addr h) + unat (mem_size h) \<le> unat (image_end hs)
         \<and> read_bytes m' (virtual_addr h) (unat (mem_size h)) = segment_image buf h)
    \<and> (\<forall>x. (\<forall>h \<in> set (load_headers hs). \<not> inside x (virtual_addr h, unat (mem_size h))) \<longrightarrow> m' x = m x)"
proof -
  let ?m = "write_all (segments buf hs) m" and ?a = "image_start hs" and ?b = "image_end hs"
  have l: "load_kernel fw m s = Some ((?a, ?b, entry_point (body (elf_header elf))), ?m, s')"
    using assms(1-5,7,9) by (rule load_kernel_eq)
  have seg: "unat ?a \<le> unat (virtual_addr h) \<and> unat (virtual_addr h) + unat (mem_size h) \<le> unat ?b
      \<and> read_bytes ?m (virtual_addr h) (unat (mem_size h)) = segment_image buf h" if h: "h \<in> set (load_headers hs)" for h
  proof -
    have ok: "segment_ok buf h" using assms(7) h by blast
    have "unat (virtual_addr h + mem_size h) = unat (virtual_addr h) + unat (mem_size h)"
      using ok unat_plus_if' [of "virtual_addr h" "mem_size h"] by (simp add: segment_ok_def)
    moreover have "(virtual_addr h, segment_image buf h) \<in> set (segments buf hs)" using h by (simp add: segments_def)
    from read_write_all [OF assms(8) this, of m] have
      "read_bytes ?m (virtual_addr h) (unat (mem_size h)) = segment_image buf h"
      by (simp add: length_segment_image [OF ok])
    ultimately show ?thesis
      using fold_min_mem [OF h, of virtual_addr "-1"] fold_max_mem [OF h, of "\<lambda>h. virtual_addr h + mem_size h" 0]
      by (simp add: image_start_def image_end_def word_le_nat_alt)
  qed
  moreover have "?m x = m x" if "\<forall>h \<in> set (load_headers hs). \<not> inside x (virtual_addr h, unat (mem_size h))" for x
    using that assms(7,8)
    by (intro write_all_outside) (simp_all add: separate_def segments_def span_def length_segment_image)
  moreover have "unat ?b \<le> unat ?a + unat (div_ceil (?b - ?a) 4096) * 4096"
  proof -
    obtain h where "h \<in> set (load_headers hs)" using assms(6) by (meson list.set_sel(1))
    from seg [OF this] have "unat (?b - ?a) = unat ?b - unat ?a" using unat_sub_if' [of ?b ?a] by simp
    then show ?thesis using unat_div_ceil [of "4096 :: usize" "?b - ?a"] round_up_ge [of 4096 "unat (?b - ?a)"]
      round_up_dvd [of 4096 "unat (?b - ?a)"] by simp
  qed
  ultimately show ?thesis using l by blast
qed

subsection \<open>The root objects\<close>

definition object_files :: "firmware_file list \<Rightarrow> firmware_file list" where
  "object_files fs = filter (\<lambda>f. ends_with (ff_name f) ''.o'') fs"

definition stem :: "firmware_file \<Rightarrow> string" where
  "stem f = take (length (ff_name f) - 2) (ff_name f)"

definition object_pages :: "firmware_file \<Rightarrow> usize" where
  "object_pages f = div_ceil (ff_size f) 4096"

text \<open>
  A regular file that the volume opens by its name and that has the size its directory entry says. The name is ASCII and
  fits the boot information's name field.
\<close>

definition object_ok :: "'u firmware \<Rightarrow> firmware_file \<Rightarrow> bool" where
  "object_ok fw f \<longleftrightarrow> fw_open fw (ff_name f) = Some f \<and> \<not> ff_dir f \<and> unat (ff_size f) = length (ff_bytes f)
     \<and> length (stem f) \<le> 32 \<and> (\<forall>c \<in> set (stem f). c \<noteq> CHR 0x00 \<and> (of_char c :: nat) < 128)"

text \<open>The answers of the firmware to a sequence of requests for pages.\<close>

fun grants :: "'u firmware \<Rightarrow> usize list \<Rightarrow> 'u \<Rightarrow> (usize list \<times> 'u) option" where
  "grants fw [] s = Some ([], s)"
| "grants fw (n # ns) s = (case fw_allocate_pages fw None n s of
     (None, s) \<Rightarrow> None
   | (Some p, s) \<Rightarrow> (case grants fw ns s of None \<Rightarrow> None | Some (ps, s) \<Rightarrow> Some (p # ps, s)))"

lemma grants_length: "grants fw ns s = Some (ps, s') \<Longrightarrow> length ps = length ns"
  by (induction ns arbitrary: s ps) (auto split: prod.splits option.splits)

text \<open>What is written for an object, and its entry in the boot information.\<close>

definition object_image :: "firmware_file \<Rightarrow> u8 list" where
  "object_image f = ff_bytes f @ replicate (unat (object_pages f) * 4096 - length (ff_bytes f)) 0"

definition object_info :: "firmware_file \<Rightarrow> usize \<Rightarrow> root_object_info" where
  "object_info f p = \<lparr> ro_name = bytes_of_str (stem f) @ replicate (32 - length (stem f)) 0, ro_addr = p, ro_size = ff_size f \<rparr>"

lemma object_info_simps [simp]: "ro_addr (object_info f p) = p" "ro_size (object_info f p) = ff_size f"
  by (simp_all add: object_info_def)

definition object_writes :: "firmware_file list \<Rightarrow> usize list \<Rightarrow> (usize \<times> u8 list) list" where
  "object_writes fs ps = map (\<lambda>(f, p). (p, object_image f)) (zip fs ps)"

lemma object_files_simps [simp]:
  "object_files [] = []"
  "object_files (f # fs) = (if ends_with (ff_name f) ''.o'' then f # object_files fs else object_files fs)"
  by (simp_all add: object_files_def)

lemma object_room:
  assumes "unat (ff_size f) = length (ff_bytes f)"
  shows "length (ff_bytes f) \<le> unat (object_pages f) * 4096" "unat (object_pages f) * 4096 < length (ff_bytes f) + 4096"
proof -
  have "unat (object_pages f) * 4096 = round_up (length (ff_bytes f)) 4096"
    using unat_div_ceil [of "4096 :: usize" "ff_size f"] round_up_dvd [of 4096 "length (ff_bytes f)"] assms
    by (simp add: object_pages_def)
  then show "length (ff_bytes f) \<le> unat (object_pages f) * 4096" "unat (object_pages f) * 4096 < length (ff_bytes f) + 4096"
    using round_up_ge [of 4096 "length (ff_bytes f)"] round_up_le [of 4096 "length (ff_bytes f)"] by simp_all
qed

lemma length_object_image:
  "unat (ff_size f) = length (ff_bytes f) \<Longrightarrow> length (object_image f) = unat (object_pages f) * 4096"
  using object_room(1) [of f] by (simp add: object_image_def)

lemma object_name_bytes_stem:
  assumes "length (stem f) \<le> 32"
  shows "object_name_bytes (ff_name f) = Some (bytes_of_str (stem f) @ replicate (32 - length (stem f)) 0)"
proof -
  have "length (stem f) = length (ff_name f) - 2" by (simp add: stem_def)
  then show ?thesis
    using assms by (simp add: object_name_bytes_def MAX_OBJECT_NAME_LEN_def bytes_of_str_def take_map Let_def) (simp add: stem_def)
qed

lemma load_root_object_image:
  assumes ok: "object_ok fw f" and p: "fw_allocate_pages fw None (object_pages f) s = (Some p, s')"
    and room: "length (object_image f) < 2 ^ 64"
  shows "load_root_object fw f m s = Some (object_info f p, write_bytes p (object_image f) m, s')"
proof -
  note f = ok [unfolded object_ok_def]
  have n: "unat (object_pages f * 4096) = unat (object_pages f) * 4096"
    using room f unat_mult_lem [of "object_pages f" "4096 :: usize"] by (simp add: length_object_image)
  have r: "length (ff_bytes f) \<le> unat (object_pages f) * 4096" using object_room(1) f by blast
  then have "file_read f (unat (object_pages f) * 4096) = ff_bytes f" by (simp add: file_read_def)
  moreover have "write_bytes (p + word_of_nat (length (ff_bytes f)))
      (replicate (unat (object_pages f) * 4096 - length (ff_bytes f)) 0) (write_bytes p (ff_bytes f) m)
      = write_bytes p (object_image f) m"
    unfolding object_image_def using room r by (intro write_bytes_append) (simp_all add: object_image_def)
  ultimately show ?thesis
    using f p n object_name_bytes_stem [of f]
    by (simp add: load_root_object_def object_pages_def [symmetric] PAGE_SIZE_def KIBIBYTE_def object_info_def Let_def)
qed

lemma load_objects_image:
  assumes "\<forall>f \<in> set (object_files fs). object_ok fw f" and "grants fw (map object_pages (object_files fs)) s = Some (ps, s')"
    and "\<forall>f \<in> set (object_files fs). length (object_image f) < 2 ^ 64"
  shows "load_objects fw fs m s = Some (map (\<lambda>(f, p). object_info f p) (zip (object_files fs) ps),
    write_all (object_writes (object_files fs) ps) m, s') \<and> length ps = length (object_files fs)"
  using assms
proof (induction fs arbitrary: m s ps)
  case (Cons f fs)
  show ?case
  proof (cases "ends_with (ff_name f) ''.o''")
    case True
    with Cons.prems(2) obtain p t qs where
      p: "fw_allocate_pages fw None (object_pages f) s = (Some p, t)" "grants fw (map object_pages (object_files fs)) t = Some (qs, s')"
      "ps = p # qs" by (auto split: prod.splits option.splits)
    have "load_root_object fw f m s = Some (object_info f p, write_bytes p (object_image f) m, t)"
      using Cons.prems(1,3) True p(1) by (intro load_root_object_image) simp_all
    moreover have "load_objects fw fs (write_bytes p (object_image f) m) t = Some (map (\<lambda>(f, p). object_info f p) (zip (object_files fs) qs),
      write_all (object_writes (object_files fs) qs) (write_bytes p (object_image f) m), s') \<and> length qs = length (object_files fs)"
      using Cons.prems(1,3) True p(2) by (intro Cons.IH) simp_all
    ultimately show ?thesis using True p(3) by (simp add: object_writes_def)
  qed (use Cons in simp)
qed (simp add: object_writes_def)

text \<open>The name field reads back as the stem.\<close>

lemma utf8_ascii: "\<forall>b \<in> set bs. b \<le> 0x7F \<Longrightarrow> utf8_valid bs"
  by (induction bs) auto

lemma dropWhile_none: "\<forall>x \<in> set xs. \<not> P x \<Longrightarrow> dropWhile P xs = xs"
  by (cases xs) simp_all

lemma name_str_object_info:
  assumes "object_ok fw f"
  shows "name_str (object_info f p) = Some (stem f)"
proof -
  have c: "\<forall>c \<in> set (stem f). c \<noteq> CHR 0x00 \<and> (of_char c :: nat) < 128" using assms by (simp add: object_ok_def)
  have "(word_of_nat (of_char c) :: u8) \<le> 0x7F" if "c \<in> set (stem f)" for c
  proof -
    have l: "(of_char c :: nat) < 128" using c that by blast
    then have "(of_char c :: nat) mod 2 ^ LENGTH(8) = of_char c" by (intro mod_less) simp
    then have "unat (word_of_nat (of_char c) :: u8) = of_char c" by (simp only: unat_of_nat)
    then show ?thesis using l by (simp add: word_le_nat_alt)
  qed
  then have u: "utf8_valid (bytes_of_str (stem f) @ replicate (32 - length (stem f)) 0)"
    by (intro utf8_ascii) (auto simp: bytes_of_str_def)
  have z: "str_of_bytes (replicate n 0) = replicate n (CHR 0x00)" for n by (simp add: str_of_bytes_def map_replicate_const char_of_def)
  have a: "dropWhile (\<lambda>x. x = CHR 0x00) (stem f @ replicate n (CHR 0x00)) = (if stem f = [] then [] else stem f @ replicate n (CHR 0x00))" for n
    using c by (cases "stem f") auto
  have b: "dropWhile (\<lambda>x. x = CHR 0x00) (replicate n (CHR 0x00) @ rev (stem f)) = rev (stem f)" for n
  proof -
    have "dropWhile (\<lambda>x. x = CHR 0x00) (rev (stem f)) = rev (stem f)" 
      using c by (intro dropWhile_none) auto
    then show ?thesis by (induction n) simp_all
  qed
  have "str_of_bytes (bytes_of_str (stem f) @ replicate n 0) = stem f @ replicate n (CHR 0x00)" for n
    using z [of n] str_of_bytes_of_str [of "stem f"] by (simp add: str_of_bytes_def)
  then show ?thesis using u a b by (simp add: name_str_def object_info_def trim_matches_def)
qed

lemma take_read_bytes: "n \<le> k \<Longrightarrow> take n (read_bytes m a k) = read_bytes m a n"
  by (simp add: read_bytes_def take_map min_def)

lemma find_object_info:
  assumes "\<forall>f \<in> set fs. object_ok fw f" and "distinct (map stem fs)" and "length ps = length fs"
  shows "i < length fs \<Longrightarrow> List.find (\<lambda>obj. name_str obj = Some (stem (fs ! i))) (map (\<lambda>(f, p). object_info f p) (zip fs ps))
      = Some (object_info (fs ! i) (ps ! i))"
    and "n \<notin> set (map stem fs) \<Longrightarrow> List.find (\<lambda>obj. name_str obj = Some n) (map (\<lambda>(f, p). object_info f p) (zip fs ps)) = None"
proof -
  have s: "name_str (object_info (fs ! j) (ps ! j)) = Some (stem (fs ! j))" if "j < length fs" for j
    using name_str_object_info assms(1) that nth_mem by blast
  assume i: "i < length fs"
  have "stem (fs ! j) \<noteq> stem (fs ! i)" if "j < i" for j
    using that i assms(2) nth_eq_iff_index_eq [OF assms(2), of j i] by simp
  then show "List.find (\<lambda>obj. name_str obj = Some (stem (fs ! i))) (map (\<lambda>(f, p). object_info f p) (zip fs ps))
      = Some (object_info (fs ! i) (ps ! i))"
    unfolding find_Some_iff using i assms(3) s by (intro exI [of _ i]) simp
next
  assume "n \<notin> set (map stem fs)"
  moreover have "name_str (object_info f p) = Some (stem f)" if "(f, p) \<in> set (zip fs ps)" for f p
    using assms(1) set_zip_leftD [OF that] name_str_object_info by blast
  ultimately show "List.find (\<lambda>obj. name_str obj = Some n) (map (\<lambda>(f, p). object_info f p) (zip fs ps)) = None"
    unfolding find_None_iff by (auto dest: set_zip_leftD)
qed

lemma object_writes_nth:
  "length ps = length fs \<Longrightarrow> i < length fs \<Longrightarrow> (ps ! i, object_image (fs ! i)) \<in> set (object_writes fs ps)"
  by (force simp: object_writes_def set_zip)

lemma load_root_objects_eq:
  assumes "\<forall>f \<in> set (object_files (fw_entries fw)). object_ok fw f"
    and "grants fw (map object_pages (object_files (fw_entries fw))) s = Some (ps, s')" and "0 \<notin> set ps"
    and "separate (object_writes (object_files (fw_entries fw)) ps)"
  shows "load_root_objects fw m s = Some (map (\<lambda>(f, p). object_info f p) (zip (object_files (fw_entries fw)) ps),
    write_all (object_writes (object_files (fw_entries fw)) ps) m, s')"
proof -
  let ?fs = "object_files (fw_entries fw)"
  have lp: "length ps = length ?fs" using grants_length [OF assms(2)] by simp
  have "length (object_image f) < 2 ^ 64" if f: "f \<in> set ?fs" for f
  proof -
    obtain i where i: "i < length ?fs" "?fs ! i = f" using f by (auto simp: in_set_conv_nth)
    have "unat (ps ! i) + length (object_image f) \<le> 2 ^ 64"
      using assms(4) object_writes_nth [OF lp i(1)] i(2) by (auto simp: separate_def)
    moreover have "ps ! i \<noteq> 0" using assms(3) i(1) lp by (metis nth_mem)
    ultimately show ?thesis by (simp add: unat_eq_0 [symmetric] del: unat_eq_0)
  qed
  then show ?thesis using load_objects_image [OF assms(1,2)] by (simp add: load_root_objects_def)
qed

subsection \<open>Properties of the boot information\<close>

text \<open>
  C14: What the bootloader puts into memory is what the kernel's file system reads. When the object files of the boot
  volume have distinct ASCII names of at most 32 characters and the firmware grants separate pages for them,
  \<^verbatim>\<open>load_root_objects\<close> succeeds, and from the entries it returns and the memory it leaves the kernel reads
  back the exact contents of every object file by the file's name without its extension; for every other name it reports
  that there is no such object.
\<close>

theorem root_objects_readable:
  assumes "\<forall>f \<in> set (object_files (fw_entries fw)). object_ok fw f \<and> \<not> starts_with (stem f) ''/''"
    and "distinct (map stem (object_files (fw_entries fw)))"
    and "grants fw (map object_pages (object_files (fw_entries fw))) s = Some (ps, s')" and "0 \<notin> set ps"
    and "separate (object_writes (object_files (fw_entries fw)) ps)"
  shows "\<exists>objs m'. load_root_objects fw m s = Some (objs, m', s')
    \<and> (\<forall>f \<in> set (object_files (fw_entries fw)).
         read_object objs m' va (stem f) = Some (Inr \<lparr> sl_addr = va, sl_bytes = ff_bytes f \<rparr>))
    \<and> (\<forall>n. \<not> starts_with n ''/'' \<longrightarrow> n \<notin> set (map stem (object_files (fw_entries fw)))
         \<longrightarrow> read_object objs m' va n = Some (Inl ''no object found''))"
proof -
  let ?fs = "object_files (fw_entries fw)"
  let ?objs = "map (\<lambda>(f, p). object_info f p) (zip ?fs ps)" and ?m = "write_all (object_writes ?fs ps) m"
  have ok: "\<forall>f \<in> set ?fs. object_ok fw f" using assms(1) by blast
  have lp: "length ps = length ?fs" using grants_length [OF assms(3)] by simp
  have l: "load_root_objects fw m s = Some (?objs, ?m, s')" by (rule load_root_objects_eq [OF ok assms(3-5)])
  have named: "name_str obj \<noteq> None" if "obj \<in> set ?objs" for obj
    using that ok name_str_object_info [where fw = fw] by (auto dest!: set_zip_leftD)
  have ro: "read_object ?objs ?m va n = Some (case List.find (\<lambda>obj. name_str obj = Some n) ?objs of
      None \<Rightarrow> Inl ''no object found''
    | Some obj \<Rightarrow> Inr \<lparr> sl_addr = va, sl_bytes = read_bytes ?m (ro_addr obj) (unat (ro_size obj)) \<rparr>)"
    if "\<not> starts_with n ''/''" for n
    using named that by (rule read_object_eq)
  have "read_object ?objs ?m va (stem f) = Some (Inr \<lparr> sl_addr = va, sl_bytes = ff_bytes f \<rparr>)" if f: "f \<in> set ?fs" for f
  proof -
    obtain i where i: "i < length ?fs" "?fs ! i = f" using f by (auto simp: in_set_conv_nth)
    have "read_bytes ?m (ps ! i) (length (object_image f)) = object_image f"
      using read_write_all [OF assms(5) object_writes_nth [OF lp i(1)]] i(2) by simp
    then have "read_bytes ?m (ps ! i) (length (ff_bytes f)) = ff_bytes f"
      using take_read_bytes [of "length (ff_bytes f)" "length (object_image f)" ?m "ps ! i"] by (simp add: object_image_def)
    moreover have "unat (ff_size f) = length (ff_bytes f)" using ok f by (simp add: object_ok_def)
    moreover have "\<not> starts_with (stem f) ''/''" using assms(1) f by blast
    ultimately show ?thesis
      using ro [of "stem f"] find_object_info(1) [OF ok assms(2) lp i(1)] i(2)
      by simp
  qed
  moreover have "read_object ?objs ?m va n = Some (Inl ''no object found'')"
    if "\<not> starts_with n ''/''" "n \<notin> set (map stem ?fs)" for n
    using ro [OF that(1)] find_object_info(2) [OF ok assms(2) lp that(2)] by simp
  ultimately show ?thesis using l by blast
qed

text \<open>A boot volume with a kernel of two segments and two object files, and firmware that hands out pages in order.\<close>

definition sample_program :: "u32 \<Rightarrow> u64 \<Rightarrow> u64 \<Rightarrow> u64 \<Rightarrow> u64 \<Rightarrow> program_header" where
  "sample_program t off va fs ms = \<lparr> p_type = t, p_flags = 5, p_offset = off, virtual_addr = va, physical_addr = va,
     file_size = fs, mem_size = ms, p_align = 4096 \<rparr>"

definition encode_program :: "program_header \<Rightarrow> u8 list" where
  "encode_program h = to_le_bytes (p_type h) @ to_le_bytes (p_flags h) @ to_le_bytes (p_offset h) @ to_le_bytes (virtual_addr h)
     @ to_le_bytes (physical_addr h) @ to_le_bytes (file_size h) @ to_le_bytes (mem_size h) @ to_le_bytes (p_align h)"

lemma encode_program_simps [simp]:
  "decode_ProgramHeader (encode_program h) = h" "length (encode_program h) = 56"
  by (simp_all add: decode_ProgramHeader_def encode_program_def le_at_simps)

definition sample_programs :: "program_header list" where
  "sample_programs = [sample_program 1 232 0x200000 3 3, sample_program 4 0 0 0 0, sample_program 1 235 0x201000 1 4]"

definition kernel_body :: header_body where
  "kernel_body = \<lparr> e_type = 2, machine = 62, e_version = 1, entry_point = 0x200000, ph_offset = 64, sh_offset = 0,
     e_flags = 0, header_size = 64, ph_entry_size = 56, ph_count = 3, sh_entry_size = 64, sh_count = 0, sh_str_index = 0 \<rparr>"

definition kernel_bytes :: "u8 list" where
  "kernel_bytes = encode_HeaderIdent sample_ident @ encode_HeaderBody kernel_body
     @ concat (map encode_program sample_programs) @ [1, 2, 3, 4]"

definition kernel_slice :: slice where
  "kernel_slice = \<lparr> sl_addr = 0x1000, sl_bytes = kernel_bytes \<rparr>"

definition kernel_elf :: elf_file where
  "kernel_elf = \<lparr> elf_input = kernel_slice, elf_header = \<lparr> ident = sample_ident, body = kernel_body \<rparr> \<rparr>"

definition sample_files :: "firmware_file list" where
  "sample_files =
    [\<lparr> ff_name = ''kernel'', ff_size = 236, ff_bytes = kernel_bytes, ff_dir = False \<rparr>,
     \<lparr> ff_name = ''shell.o'', ff_size = 2, ff_bytes = [9, 8], ff_dir = False \<rparr>,
     \<lparr> ff_name = ''EFI'', ff_size = 0, ff_bytes = [], ff_dir = True \<rparr>,
     \<lparr> ff_name = ''log.o'', ff_size = 1, ff_bytes = [7], ff_dir = False \<rparr>]"

definition sample_firmware :: "usize firmware" where
  "sample_firmware = \<lparr> fw_entries = sample_files, fw_open = (\<lambda>n. List.find (\<lambda>f. ff_name f = n) sample_files),
     fw_allocate_pages = (\<lambda>a n s. case a of Some p \<Rightarrow> (Some p, s) | None \<Rightarrow> (Some s, s + n * 4096)),
     fw_vec_addr = 0x1000,
     fw_gop = \<lparr> gm_width = 640, gm_height = 480, gm_stride = 640, gm_format = GopBgr, gm_buffer = 0x80000000,
       gm_buffer_size = 0x12C000 \<rparr>,
     fw_rsdp = None, fw_map_len = 2,
     fw_memory_map =
       [\<lparr> phys_start = 0x200000, md_page_count = 2, md_ty = 2 \<rparr>, \<lparr> phys_start = 0x202000, md_page_count = 2, md_ty = 7 \<rparr>,
        \<lparr> phys_start = 0x204000, md_page_count = 2, md_ty = 2 \<rparr>, \<lparr> phys_start = 0x206000, md_page_count = 1, md_ty = 6 \<rparr>] \<rparr>"

lemma length_kernel_bytes [simp]: "length kernel_bytes = 236"
  by (simp add: kernel_bytes_def sample_programs_def)

lemma kernel_buffer_sample: "kernel_buffer sample_firmware = Some kernel_slice"
  by (simp add: kernel_buffer_def sample_firmware_def sample_files_def file_read_def kernel_slice_def)

lemma kernel_elf_new: "ElfFile_new kernel_slice = Some (Inr kernel_elf)"
proof -
  have "Header_parse kernel_slice = Some (Inr \<lparr> ident = sample_ident, body = kernel_body \<rparr>)"
    unfolding kernel_slice_def
    by (rule Header_parse_encoded) (simp_all, simp_all add: kernel_bytes_def, simp_all add: sample_ident_def MAGIC_NUM_def)
  then show ?thesis by (simp add: ElfFile_new_def kernel_elf_def)
qed

lemma kernel_programs: "elf_programs kernel_elf = Some sample_programs"
proof -
  have n: "ProgramIter_next kernel_elf 0 = Some (Some (sample_programs ! 0), 1)"
    "ProgramIter_next kernel_elf 1 = Some (Some (sample_programs ! 1), 2)"
    "ProgramIter_next kernel_elf 2 = Some (Some (sample_programs ! 2), 3)"
    "ProgramIter_next kernel_elf 3 = Some (None, 3)"
    by (simp_all add: ProgramIter_next_def get_program_header_def ProgramHeader_parse_def kernel_elf_def kernel_body_def
        slice_range_def pod_read_def kernel_slice_def Let_def)
      (simp_all add: kernel_bytes_def sample_programs_def word_le_nat_alt)
  have "program_iter 4 kernel_elf 0 = program_iter 65537 kernel_elf 0"
    by (rule program_iter_fuel) (simp_all add: kernel_elf_def kernel_body_def)
  moreover have "program_iter 4 kernel_elf 0 = Some sample_programs"
    by (simp add: n numeral_eq_Suc) (simp add: sample_programs_def)
  ultimately show ?thesis by (simp add: elf_programs_def)
qed

lemma sample_types:
  "ProgramHeader_get_type (sample_program 1 off va fs ms) = Inr PhLoad"
  "ProgramHeader_get_type (sample_program 4 off va fs ms) = Inr PhNote"
  by (simp_all add: ProgramHeader_get_type_def sample_program_def)

lemma sample_program_fields:
  "virtual_addr (sample_program t off va fs ms) = va" "mem_size (sample_program t off va fs ms) = ms"
  by (simp_all add: sample_program_def)

lemma sample_loads:
  "load_headers sample_programs = [sample_program 1 232 0x200000 3 3, sample_program 1 235 0x201000 1 4]" "typed sample_programs"
  by (simp_all add: sample_programs_def sample_types typed_def)

lemma sample_image:
  "segment_image kernel_slice (sample_program 1 232 0x200000 3 3) = [1, 2, 3]"
  "segment_image kernel_slice (sample_program 1 235 0x201000 1 4) = [4, 0, 0, 0]"
  by (simp_all add: segment_image_def sample_program_def kernel_slice_def)
    (simp_all add: kernel_bytes_def sample_programs_def numeral_eq_Suc)

lemma sample_range: "image_start sample_programs = 0x200000" "image_end sample_programs = 0x201004"
proof -
  have "\<not> (- 1 :: usize) \<le> 0x200000" by code_simp
  then show "image_start sample_programs = 0x200000" "image_end sample_programs = 0x201004"
    by (simp_all add: image_start_def image_end_def sample_loads sample_program_def min_def max_def)
qed

lemma sample_segments:
  "\<forall>h \<in> set (load_headers sample_programs). segment_ok kernel_slice h" "separate (segments kernel_slice sample_programs)"
  "fw_allocate_pages sample_firmware (Some (image_start sample_programs))
    (div_ceil (image_end sample_programs - image_start sample_programs) 4096) s = (Some 0x200000, s)"
  "length (sl_bytes kernel_slice) < 2 ^ 64"
proof -
  have "segment_ok kernel_slice (sample_program 1 232 0x200000 3 3)" "segment_ok kernel_slice (sample_program 1 235 0x201000 1 4)"
    by (simp_all add: segment_ok_def sample_program_def kernel_slice_def word_le_nat_alt)
  then show "\<forall>h \<in> set (load_headers sample_programs). segment_ok kernel_slice h" by (simp add: sample_loads)
  show "length (sl_bytes kernel_slice) < 2 ^ 64" by (simp add: kernel_slice_def)
qed (simp_all add: segments_def sample_loads sample_image sample_program_fields separate_def apart_def span_def sample_range
    sample_firmware_def)

theorem load_kernel_image_witness:
  "\<exists>m'. load_kernel sample_firmware (\<lambda>_. 7) 0x204000 = Some ((0x200000, 0x201004, 0x200000), m', 0x204000)
    \<and> read_bytes m' 0x200000 3 = [1, 2, 3] \<and> read_bytes m' 0x201000 4 = [4, 0, 0, 0] \<and> m' 0x200003 = 7"
proof -
  have "entry_point (body (elf_header kernel_elf)) = 0x200000" by (simp add: kernel_elf_def kernel_body_def)
  with load_kernel_image [OF kernel_buffer_sample sample_segments(4) kernel_elf_new kernel_programs sample_loads(2) _
      sample_segments(1,2) sample_segments(3) [of "0x204000"], where m = "\<lambda>_. 7"]
  obtain m' where m: "load_kernel sample_firmware (\<lambda>_. 7) 0x204000 = Some ((0x200000, 0x201004, 0x200000), m', 0x204000)"
    "\<forall>h \<in> set (load_headers sample_programs). read_bytes m' (virtual_addr h) (unat (mem_size h)) = segment_image kernel_slice h"
    "\<forall>x. (\<forall>h \<in> set (load_headers sample_programs). \<not> inside x (virtual_addr h, unat (mem_size h))) \<longrightarrow> m' x = 7"
    by (auto simp: sample_range sample_loads(1))
  have "\<forall>h \<in> set (load_headers sample_programs). \<not> inside 0x200003 (virtual_addr h, unat (mem_size h))"
    by (simp add: sample_loads(1) sample_program_fields inside_def)
  then have "m' 0x200003 = 7" using m(3) by blast
  moreover have "read_bytes m' 0x200000 3 = [1, 2, 3]" "read_bytes m' 0x201000 4 = [4, 0, 0, 0]"
    using m(2) by (simp_all add: sample_loads(1) sample_program_fields sample_image)
  ultimately show ?thesis using m(1) by blast
qed

definition sample_objects :: "firmware_file list" where
  "sample_objects =
    [\<lparr> ff_name = ''shell.o'', ff_size = 2, ff_bytes = [9, 8], ff_dir = False \<rparr>,
     \<lparr> ff_name = ''log.o'', ff_size = 1, ff_bytes = [7], ff_dir = False \<rparr>]"

lemma sample_object_files: "object_files (fw_entries sample_firmware) = sample_objects"
  by (simp add: sample_firmware_def sample_files_def sample_objects_def ends_with_def)

lemma sample_stems: "map stem sample_objects = [''shell'', ''log'']"
  by (simp add: sample_objects_def stem_def)

lemma sample_object_pages: "map object_pages sample_objects = [1, 1]"
  by (simp add: sample_objects_def object_pages_def div_ceil_def)

lemma sample_grants: "grants sample_firmware (map object_pages sample_objects) 0x204000 = Some ([0x204000, 0x205000], 0x206000)"
  by (simp add: sample_object_pages sample_firmware_def)

lemma sample_objects_ok: "\<forall>f \<in> set sample_objects. object_ok sample_firmware f \<and> \<not> starts_with (stem f) ''/''"
  by (simp add: sample_objects_def object_ok_def stem_def sample_firmware_def sample_files_def starts_with_def)

lemma sample_objects_separate: "separate (object_writes sample_objects [0x204000, 0x205000])"
proof -
  have "length (object_image f) = 4096" if "f \<in> set sample_objects" for f
    using that sample_object_pages by (auto simp: sample_objects_def length_object_image)
  then show ?thesis by (simp add: object_writes_def separate_def apart_def span_def sample_objects_def)
qed

theorem root_objects_readable_witness:
  "\<exists>objs m'. load_root_objects sample_firmware (\<lambda>_. 7) 0x204000 = Some (objs, m', 0x206000)
    \<and> read_object objs m' 0 ''shell'' = Some (Inr \<lparr> sl_addr = 0, sl_bytes = [9, 8] \<rparr>)
    \<and> read_object objs m' 0 ''kernel'' = Some (Inl ''no object found'')"
proof -
  have d: "distinct (map stem sample_objects)" by (simp add: sample_stems)
  have z: "0 \<notin> set [0x204000, 0x205000 :: usize]" by simp
  from root_objects_readable [of sample_firmware, unfolded sample_object_files, OF sample_objects_ok d sample_grants z
      sample_objects_separate, of "\<lambda>_. 7" 0]
  obtain objs m' where m: "load_root_objects sample_firmware (\<lambda>_. 7) 0x204000 = Some (objs, m', 0x206000)"
    "\<forall>f \<in> set sample_objects. read_object objs m' 0 (stem f) = Some (Inr \<lparr> sl_addr = 0, sl_bytes = ff_bytes f \<rparr>)"
    "\<forall>n. \<not> starts_with n ''/'' \<longrightarrow> n \<notin> set (map stem sample_objects) \<longrightarrow> read_object objs m' 0 n = Some (Inl ''no object found'')"
    by (elim exE conjE)
  have "read_object objs m' 0 ''shell'' = Some (Inr \<lparr> sl_addr = 0, sl_bytes = [9, 8] \<rparr>)"
    using m(2) by (simp add: sample_objects_def stem_def)
  moreover have "read_object objs m' 0 ''kernel'' = Some (Inl ''no object found'')"
    using m(3) by (simp add: sample_stems starts_with_def)
  ultimately show ?thesis using m(1) by blast
qed

text \<open>The frames that hold a byte of an object, the frames of a region of the firmware's map, and those \<^verbatim>\<open>memory::init\<close> reserves.\<close>

definition object_frames :: "root_object_info \<Rightarrow> nat set" where
  "object_frames obj = {n. unat (ro_addr obj) < n * 4096 + 4096 \<and> n * 4096 < unat (ro_addr obj) + unat (ro_size obj)}"

definition descriptor_frames :: "memory_descriptor \<Rightarrow> nat set" where
  "descriptor_frames d =
     {n. unat (phys_start d) \<le> n * 4096 \<and> n * 4096 + 4096 \<le> unat (phys_start d) + unat (md_page_count d * 4096)}"

definition reserved_frames :: "boot_info \<Rightarrow> nat set" where
  "reserved_frames bi = {..<256}
     \<union> {unat (kernel_start bi) div 4096 ..<
          unat (kernel_start bi) div 4096 + pages_spanned (kernel_end bi - kernel_start bi)}
     \<union> {unat (framebuffer_addr (display_info bi)) div 4096 ..<
          unat (framebuffer_addr (display_info bi)) div 4096
            + pages_spanned (framebuffer_addr (display_info bi) + framebuffer_size (display_info bi))}"

text \<open>
  C15: The pages of the root objects are not kept. They are allocated as \<^verbatim>\<open>LOADER_DATA\<close>, so the firmware's map lists
  them with that type, and the map the bootloader builds reports every region of that type as free; \<^verbatim>\<open>memory::init\<close>
  reserves the first MiB, the kernel and the range of the framebuffer only. So after the bootloader has run to its end and the
  kernel has set up its frame allocator, every frame below 1 GiB that holds a byte of a root object and is not in one of those three ranges
  is free: it can be handed out and overwritten before the loader reads the object.
\<close>

theorem object_frames_free:
  assumes "bootloader_main fw m s = Some (bi, entry, m')"
    and "\<forall>d \<in> set (fw_memory_map fw). region_ok (boot_region d)" and "regions_disjoint (map boot_region (fw_memory_map fw))"
    and "is_physical (kernel_start bi)" and "is_physical (framebuffer_addr (display_info bi))"
    and "\<forall>obj \<in> set (root_object_map bi). \<forall>n \<in> object_frames obj.
           \<exists>d \<in> set (fw_memory_map fw). md_ty d = LOADER_DATA \<and> n \<in> descriptor_frames d"
  shows "\<exists>fa. init_frame_allocator bi FrameAllocator_new = Some fa
    \<and> (\<forall>obj \<in> set (root_object_map bi). \<forall>n \<in> object_frames obj. n < 262144 \<longrightarrow> n \<notin> reserved_frames bi \<longrightarrow> n \<in> free_set fa)"
proof -
  have m: "memory_map bi = map boot_region (fw_memory_map fw)"
    using assms(1) by (auto simp: bootloader_main_def bind_eq_Some_conv Let_def split: prod.splits)
  then have ok: "\<forall>r \<in> set (memory_map bi). region_ok r" "regions_disjoint (memory_map bi)" using assms(2,3) by simp_all
  have "n \<in> region_frames (boot_region d)" if "md_ty d = LOADER_DATA" "n \<in> descriptor_frames d" for n d
    using that by (simp add: region_frames_def boot_region_def descriptor_frames_def PAGE_SIZE_def KIBIBYTE_def)
  then have "n \<in> \<Union> (region_frames ` set (memory_map bi))" if "obj \<in> set (root_object_map bi)" "n \<in> object_frames obj" for obj n
    using that assms(6) m by fastforce
  then show ?thesis
    using init_frame_allocator_free_set [OF length_new_bitmap ok assms(4,5)] by (force simp: reserved_frames_def)
qed

lemma sample_boot_main:
  "\<exists>bi m'. bootloader_main sample_firmware m 0x204000 = Some (bi, 0x200000, m') \<and> kernel_start bi = 0x200000
    \<and> kernel_end bi = 0x201004 \<and> framebuffer_addr (display_info bi) = 0x80000000
    \<and> root_object_map bi = map (\<lambda>(f, p). object_info f p) (zip sample_objects [0x204000, 0x205000]) \<and> name_str (hd (root_object_map bi)) = Some ''shell''"
proof -
  have "load_kernel sample_firmware m 0x204000 = Some ((0x200000, 0x201004, 0x200000),
      write_all (segments kernel_slice sample_programs) m, 0x204000)"
    using load_kernel_eq [OF kernel_buffer_sample sample_segments(4) kernel_elf_new kernel_programs sample_loads(2)
        sample_segments(1) sample_segments(3) [of "0x204000"], where m = m]
    by (simp add: sample_range kernel_elf_def kernel_body_def)
  moreover have "load_root_objects sample_firmware m' 0x204000 = Some (map (\<lambda>(f, p). object_info f p)
      (zip sample_objects [0x204000, 0x205000]), write_all (object_writes sample_objects [0x204000, 0x205000]) m', 0x206000)" for m'
    by (rule load_root_objects_eq [of sample_firmware, unfolded sample_object_files, OF _ sample_grants _ sample_objects_separate])
      (use sample_objects_ok in simp_all)
  moreover have "get_display_info (fw_gop sample_firmware) = Some \<lparr> di_width = 640, di_height = 480, di_stride = 640,
      di_format = BGRX8, framebuffer_addr = 0x80000000, framebuffer_size = 0x12C000 \<rparr>"
    by (simp add: get_display_info_def sample_firmware_def)
  moreover have "length (fw_memory_map sample_firmware) \<le> unat (fw_map_len sample_firmware + 8)"
    by (simp add: sample_firmware_def)
  moreover have "name_str (object_info (hd sample_objects) p) = Some ''shell''" for p
    using name_str_object_info [of sample_firmware "hd sample_objects" p] sample_objects_ok sample_stems
    by (simp add: sample_objects_def)
  ultimately show ?thesis by (simp add: bootloader_main_def sample_objects_def)
qed

theorem object_frames_free_witness:
  "\<exists>bi m' fa. bootloader_main sample_firmware (\<lambda>_. 7) 0x204000 = Some (bi, 0x200000, m')
    \<and> name_str (hd (root_object_map bi)) = Some ''shell'' \<and> 516 \<in> object_frames (hd (root_object_map bi))
    \<and> init_frame_allocator bi FrameAllocator_new = Some fa \<and> 516 \<in> free_set fa"
proof -
  obtain bi m' where b: "bootloader_main sample_firmware (\<lambda>_. 7) 0x204000 = Some (bi, 0x200000, m')" "kernel_start bi = 0x200000"
    "kernel_end bi = 0x201004" "framebuffer_addr (display_info bi) = 0x80000000"
    "root_object_map bi = map (\<lambda>(f, p). object_info f p) (zip sample_objects [0x204000, 0x205000])"
    "name_str (hd (root_object_map bi)) = Some ''shell''"
    using sample_boot_main [of "\<lambda>_. 7"] by (elim exE conjE)
  have p: "is_physical (kernel_start bi)" "is_physical (framebuffer_addr (display_info bi))"
    by (simp_all add: b is_physical_iff)
  have ok: "\<forall>d \<in> set (fw_memory_map sample_firmware). region_ok (boot_region d)"
    by (simp add: sample_firmware_def region_ok_def boot_region_def PAGE_SIZE_def KIBIBYTE_def)
  have dis: "regions_disjoint (map boot_region (fw_memory_map sample_firmware))"
    by (simp add: sample_firmware_def regions_disjoint_Cons region_frames_def boot_region_def PAGE_SIZE_def KIBIBYTE_def
        CONVENTIONAL_def LOADER_CODE_def LOADER_DATA_def BOOT_SERVICES_CODE_def BOOT_SERVICES_DATA_def)
      (auto simp: regions_disjoint_def)
  let ?d = "\<lparr> phys_start = 0x204000, md_page_count = 2, md_ty = 2 \<rparr>"
  have f: "object_frames (object_info (sample_objects ! 0) 0x204000) = {516}" "object_frames (object_info (sample_objects ! 1) 0x205000) = {517}"
    by (auto simp: object_frames_def sample_objects_def)
  have d: "?d \<in> set (fw_memory_map sample_firmware)" "md_ty ?d = LOADER_DATA" "516 \<in> descriptor_frames ?d" "517 \<in> descriptor_frames ?d"
    by (simp_all add: sample_firmware_def LOADER_DATA_def descriptor_frames_def)
  have set: "set (root_object_map bi) = {object_info (sample_objects ! 0) 0x204000, object_info (sample_objects ! 1) 0x205000}"
    "hd (root_object_map bi) = object_info (sample_objects ! 0) 0x204000"
    by (simp_all add: b(5) sample_objects_def)
  have "\<forall>obj \<in> set (root_object_map bi). \<forall>n \<in> object_frames obj.
      \<exists>d \<in> set (fw_memory_map sample_firmware). md_ty d = LOADER_DATA \<and> n \<in> descriptor_frames d"
    unfolding set ball_simps f using d by (intro conjI TrueI; blast)
  from object_frames_free [OF b(1) ok dis p this] obtain fa where fa: "init_frame_allocator bi FrameAllocator_new = Some fa"
    "\<forall>obj \<in> set (root_object_map bi). \<forall>n \<in> object_frames obj. n < 262144 \<longrightarrow> n \<notin> reserved_frames bi \<longrightarrow> n \<in> free_set fa" by blast
  have "516 \<notin> reserved_frames bi" by (simp add: reserved_frames_def b pages_spanned_def round_up_def)
  then have "516 \<in> free_set fa" using fa(2) f(1) unfolding set(1) by simp
  then show ?thesis using b(1,6) fa(1) f(1) set(2) by auto
qed

end
