(* ===== verification/Spec2Isabelle.thy ===== *)
theory Spec2Isabelle
  imports Rust_Prelude Memory_Types Paging Frame_Alloc Heap_LLFF Address_Space Spin_Mutex Process_Ipc Rust_Bytes Disassembler Disassembler_Props Elf Loader_Names Loader Loader_Props Scheduler Scheduler_Props Scheduler_Runs Pci Memory_Init Virtio Virtio_Props Clock Uart Ata Float32 Geometry Font Framebuffer Framebuffer_Props Framebuffer_Text Composition Shell Shell_Props Bootloader Bootloader_Props
begin

text \<open>
  \<^bold>\<open>A verification of rhubarb, an operating system for x86-64 in Rust.\<close>

  \<^bold>\<open>The system.\<close> A UEFI application (\<^verbatim>\<open>bootloader/\<close>) copies the kernel and the object files of all programs into memory and
  enters the kernel. The kernel (\<^verbatim>\<open>kernel/\<close>) sets up its frame allocator and page tables, loads and links the shell and the drivers
  from their relocatable object files, and runs them as processes in address spaces of their own, switched by timer
  interrupts and by software interrupts. Processes talk to the kernel and to each other through queues in memory
  they share (\<^verbatim>\<open>crates/process\<close>, \<^verbatim>\<open>crates/input\<close>), guarded by spinning mutexes. The input driver polls VirtIO devices it finds on the
  PCI bus, and the shell (\<^verbatim>\<open>shell/\<close>) draws layers on the framebuffer.

  \<^bold>\<open>Conventions.\<close> The sources are built in release mode, so machine integers are words that wrap around. A value of type \<open>'a rust\<close> is
  an option: \<open>None\<close> stands for a panic, for undefined behaviour such as an access outside a buffer, and for a loop that does not end.
  A \<^verbatim>\<open>Result\<close> is a sum; with a state it is an \<open>outcome\<close>, whose \<open>qbind\<close> is the question mark operator. State is passed explicitly, in
  records named after the structures of the sources. Hardware, firmware and crates from outside the repository are arguments,
  fields of a record such as \<open>pio\<close>, \<open>cpu_env\<close>, \<open>loader_env\<close> or the firmware of the bootloader; what the code relies on of them is a hypothesis of the
  theorem, with a witness in which a concrete function satisfies it.

  \<^bold>\<open>Theories, the sources they model and what they show.\<close>

  \<^item> \<open>Rust_Prelude\<close>, \<open>Rust_Bytes\<close>: integers, results, strings and byte slices of the language, with the lemmas on words and lists the others
    share.
  \<^item> \<open>Memory_Types\<close> (\<^verbatim>\<open>crates/memory-types\<close>, \<^verbatim>\<open>crates/bit-utils\<close>): addresses, pages, frames, entries and ranges. \<open>Paging\<close> (\<^verbatim>\<open>paging.rs\<close>): four-level page tables
    over a store of tables; \<open>map_to\<close> refines the update of a partial map from pages to frames, for any allocator of the locale \<open>frame_source\<close>.
  \<^item> \<open>Frame_Alloc\<close> (\<^verbatim>\<open>kernel/src/memory.rs\<close>, \<^verbatim>\<open>FrameAllocator\<close>): the bitmap, its invariant, and the set of free frames as its specification: what boot
    leaves free, what allocation and deallocation do to it.
  \<^item> \<open>Address_Space\<close>, \<open>Memory_Init\<close> (\<^verbatim>\<open>kernel/src/memory.rs\<close>): address spaces, kernel mappings, the tracker and \<^verbatim>\<open>memory::init\<close>. The kernel's allocator
    interprets \<open>frame_source\<close>; mapping, the views of new address spaces, and that dropping one gives all its frames back.
  \<^item> \<open>Heap_LLFF\<close> (\<^verbatim>\<open>crates/heap\<close>): the list of holes. The locale \<open>heap_allocator\<close> proves any client safe from the contract of one allocation and one
    deallocation; the first-fit allocator interprets it. Round trip, progress, and the request that wraps around.
  \<^item> \<open>Spin_Mutex\<close> (\<^verbatim>\<open>crates/spin-mutex\<close>, \<^verbatim>\<open>crates/defer-mutex\<close>): the loops of \<open>lock\<close> against any behaviour of the others between two accesses, and a step
    relation that interleaves any number of processes, with mutual exclusion by rule induction.
  \<^item> \<open>Process_Ipc\<close> (\<^verbatim>\<open>crates/process\<close>, \<^verbatim>\<open>crates/input\<close>): queues and messages. The ring buffer interprets the locale \<open>bounded_fifo\<close>; pushing onto a full one
    loses messages.
  \<^item> \<open>Disassembler\<close>, \<open>Disassembler_Props\<close> (\<^verbatim>\<open>crates/abi/src/asm.rs\<close>): every opcode; termination on every input, and moves between registers decoded.
  \<^item> \<open>Elf\<close> (\<^verbatim>\<open>crates/elf\<close>, \<^verbatim>\<open>crates/pod\<close>): headers, sections, symbols and relocations; what was encoded is read back.
  \<^item> \<open>Loader_Names\<close>, \<open>Loader\<close>, \<open>Loader_Props\<close> (\<^verbatim>\<open>kernel/src/loader.rs\<close>, the file system of \<^verbatim>\<open>kernel/src/main.rs\<close>): loading and linking. Where each section
    lies and what it holds, what a relocation writes, and that loading with all dependencies ends.
  \<^item> \<open>Scheduler\<close>, \<open>Scheduler_Props\<close>, \<open>Scheduler_Runs\<close> (\<^verbatim>\<open>kernel/src/scheduler.rs\<close>, handlers of \<^verbatim>\<open>idt.rs\<close>, \<^verbatim>\<open>apic.rs\<close>, \<^verbatim>\<open>gdt.rs\<close>): the run queue and the interrupt
    handlers; an invariant of every sequence of events, turns under the timer, and the faults that stop the kernel.
  \<^item> \<open>Pci\<close> (\<^verbatim>\<open>drivers/pci\<close>), \<open>Virtio\<close>, \<open>Virtio_Props\<close> (\<^verbatim>\<open>drivers/virtio\<close>, the input driver of \<^verbatim>\<open>shell/apps\<close>), \<open>Clock\<close> (\<^verbatim>\<open>crates/time\<close>, \<^verbatim>\<open>drivers/rtc\<close>), \<open>Uart\<close>
    (\<^verbatim>\<open>drivers/uart-16550\<close>), \<open>Ata\<close> (\<^verbatim>\<open>drivers/ata\<close>, \<^verbatim>\<open>crates/io\<close>): the drivers over port and memory accesses. All devices of the bus are enumerated once;
    events pass a virtqueue in order for every interleaving with the device; blocks are read from a drive that is busy for a while after
    every command.
  \<^item> \<open>Float32\<close>, \<open>Geometry\<close> (\<^verbatim>\<open>crates/math\<close>): single-precision numbers with their rounding, the comparison on their bits, points, sizes and
    areas. \<open>Font\<close>, \<open>Framebuffer\<close>, \<open>Framebuffer_Props\<close>, \<open>Framebuffer_Text\<close>, \<open>Composition\<close> (\<^verbatim>\<open>crates/framebuffer\<close>): what drawing does to each pixel; the locale
    \<open>pixel_painter\<close> is interpreted by both kinds of buffer.
  \<^item> \<open>Shell\<close>, \<open>Shell_Props\<close> (\<^verbatim>\<open>shell/src/shell.rs\<close>): what the screen shows after any input, and the answers to the kernel.
  \<^item> \<open>Bootloader\<close>, \<open>Bootloader_Props\<close> (\<^verbatim>\<open>bootloader/src/main.rs\<close>, \<^verbatim>\<open>crates/boot-info\<close>): the kernel image and the root objects in memory, read back through the
    kernel's file system, and their pages in its frame allocator.
  \<^item> This theory: the translation of an address for a process, across the library of processes, the interrupt handler, the scheduler and
    the page tables.

  \<^bold>\<open>Bounds and fuel.\<close> A loop whose end depends on other parties has fuel, and the theorems say how much is enough. Loading recurses at
  most once for each object the bootloader provides, since every nested load enters a new name: at that depth no nested call is made, whatever it would
  do. The enumeration of the PCI bus takes at most 65537 steps, one for each address and one for the end. A character has 9 by 16 pixels, so 144
  turns draw it. The polls of a drive give up after a second; a round of the loop advances the time-stamp counter, so 400 million rounds,
  and one for each tick the drive may be busy, are enough. The shell's loop over requests takes one round more than there are
  requests. A mutex has no bound: the theorem says which turns suffice and that a schedule exists which starves the caller.
  Coordinates are bounded by \<open>2 ^ 22\<close>, so that sums of several stay below \<open>2 ^ 24\<close>, up to which \<^verbatim>\<open>f32\<close> represents every integer. Requests to the
  heap are bounded where an address would wrap around; what happens beyond is a theorem of its own.

  \<^bold>\<open>Not modelled.\<close> Log output and formatting (\<^verbatim>\<open>crates/log\<close>, the two \<^verbatim>\<open>serial.rs\<close>, the implementations of \<^verbatim>\<open>Debug\<close> and \<^verbatim>\<open>Display\<close>) compute nothing others
  use. Port instructions and the other inline assembly are parameters. \<^verbatim>\<open>acpi.rs\<close>, \<^verbatim>\<open>tsc.rs\<close> and the set-up of descriptor tables and of
  the local APIC are calls into other crates. \<^verbatim>\<open>drivers/pit\<close> only waits for a timer, \<^verbatim>\<open>virtio_gpu.rs\<close> has no caller, and \<^verbatim>\<open>tools/runner\<close> runs on the host.
  The order of memory accesses is that of a single processor. The translation look-aside buffer is not modelled; flushing it has no effect on the
  tables.
\<close>

subsection \<open>Translating an address for a process\<close>

text \<open>
  \<^verbatim>\<open>process::translate_address\<close>: the process raises interrupt 0x42 with the address in \<^verbatim>\<open>rdi\<close>
  and zero in \<^verbatim>\<open>rax\<close>, and reads the answer from \<^verbatim>\<open>rax\<close> when it is resumed.
\<close>

definition translate_address_call ::
    "cpu_env \<Rightarrow> execution_context \<Rightarrow> usize \<Rightarrow> kernel \<Rightarrow> ((translate_address_error + usize) \<times> execution_context \<times> kernel) rust" where
  "translate_address_call env ctx addr k = do {
     (ctx, k) \<leftarrow> translate_addr_interrupt_handler env
       (ctx\<lparr> ec_registers := (ec_registers ctx)\<lparr> rax := 0, rdi := addr \<rparr> \<rparr>) k;
     r \<leftarrow> translate_address (rax (ec_registers ctx));
     Some (r, ctx, k)
   }"

lemma translate_page_physical: "translate_page mem l4 p = Some (Inr f) \<Longrightarrow> frame_physical f"
  by (auto simp: translate_page_lookup leaf_frame_def Frame_from_base_addr_def
      split: Option.bind_splits sum.splits option.splits if_splits dest: Frame_containing_physical)

lemma frame_plus_offset:
  assumes "frame_physical f"
  shows "Address_add (frame_base_addr f) (page_offset a) = Some (frame_base_addr f + page_offset a)"
    and "sint (frame_base_addr f + page_offset a) \<ge> 0"
proof -
  have o: "unat (page_offset a) < 4096" by (simp add: page_offset_def PAGE_TABLE_OFFSET_WIDTH_eq unat_mod)
  have b: "unat (frame_base_addr f) = unat (frame_number f) * 4096" "unat (frame_number f) < 2 ^ 35"
    using assms frame_physical_base(1) by (auto simp: frame_physical_iff)
  have l: "unat (frame_base_addr f) + unat (page_offset a) < 2 ^ 47" using o b by simp
  then have u: "unat (frame_base_addr f + page_offset a) < 2 ^ 47" by (simp add: unat_plus_if')
  show "Address_add (frame_base_addr f) (page_offset a) = Some (frame_base_addr f + page_offset a)"
    using l Address_new_physical [OF u] by (simp add: Address_add_def checked_add_def)
  show "sint (frame_base_addr f + page_offset a) \<ge> 0"
  proof -
    have "unat (drop_bit 63 (frame_base_addr f + page_offset a)) = 0" using u by (simp only: unat_drop_bit) simp
    then have "drop_bit 63 (frame_base_addr f + page_offset a) = 0" by (simp only: unat_eq_zero)
    then have "\<not> bit (frame_base_addr f + page_offset a) 63" by (simp add: bit_iff_odd_drop_bit)
    then show ?thesis using bit_last_iff [of "frame_base_addr f + page_offset a"] by simp
  qed
qed

lemma AddressSpace_translate_address_page:
  assumes "translate_page (km_tables km) (l4_addr sp) (Page_containing_addr a) = Some r"
  shows "AddressSpace_translate_address sp km a
    = Some (case r of Inl _ \<Rightarrow> None | Inr f \<Rightarrow> Some (frame_base_addr f + page_offset a))"
proof -
  have "map_option (map_sum id (\<lambda>tr. (at_frame tr, at_offset tr))) (translate_addr (km_tables km) (l4_addr sp) a)
      = Some (map_sum id (\<lambda>f. (f, page_offset a)) r)"
    using assms unfolding translate_addr_def translate_page_def page_indices_containing Let_def
    by (auto split: Option.bind_splits sum.splits if_splits)
  then obtain z where z: "translate_addr (km_tables km) (l4_addr sp) a = Some z"
    "map_sum id (\<lambda>tr. (at_frame tr, at_offset tr)) z = map_sum id (\<lambda>f. (f, page_offset a)) r" by auto
  show ?thesis
  proof (cases r)
    case (Inr f)
    then have "frame_physical f" using assms translate_page_physical by blast
    then show ?thesis
      using z Inr frame_plus_offset(1) by (cases z) (simp_all add: AddressSpace_translate_address_def)
  qed (use z in \<open>cases z; simp add: AddressSpace_translate_address_def\<close>)
qed

text \<open>
  C5: \<^verbatim>\<open>translate_address\<close> answers with the physical address behind a virtual one, through the whole system.
  While the shell posts nothing and the page tables of the running process can be walked, the call returns to the
  process that made it: with the address of the frame its own tables map the page to, plus the offset in the page, or with
  \<^verbatim>\<open>AddressNotMapped\<close> when they map it to none. It never reports \<^verbatim>\<open>PermissionDenied\<close> and never
  reaches the \<^verbatim>\<open>unreachable!\<close> of the library, since a physical address is never negative as a signed integer. The process is still
  the current one, its other registers, its frame and the floating-point state are unchanged, and the scheduler's invariant holds.
\<close>

theorem translate_address_end_to_end:
  assumes "user_ok env k" "quiet env k" "k_current k = Some p" "k_process_id k \<noteq> - 1"
    and "translate_page (km_tables (k_memory k)) (l4_addr (p_address_space p)) (Page_containing_addr (Address_new addr)) = Some r"
  shows "\<exists>k' v. translate_address_call env ctx addr k
      = Some (case r of Inl _ \<Rightarrow> Inl AddressNotMapped | Inr f \<Rightarrow> Inr (frame_base_addr f + page_offset (Address_new addr)),
          ctx\<lparr> ec_registers := (ec_registers ctx)\<lparr> rax := v, rdi := addr \<rparr> \<rparr>, k')
    \<and> k_current k' = Some (p\<lparr> p_fxsave_area := k_fpu k \<rparr>) \<and> k_fpu k' = k_fpu k \<and> user_ok env k'"
proof -
  let ?c = "ctx\<lparr> ec_registers := (ec_registers ctx)\<lparr> rax := 0, rdi := addr \<rparr> \<rparr>"
  let ?v = "case r of Inl _ \<Rightarrow> word_of_int (- 2) | Inr f \<Rightarrow> frame_base_addr f + page_offset (Address_new addr)"
  let ?c' = "ctx\<lparr> ec_registers := (ec_registers ctx)\<lparr> rax := ?v, rdi := addr \<rparr> \<rparr>"
  let ?p = "p\<lparr> p_context := Some ?c', p_fxsave_area := k_fpu k \<rparr>"
  let ?k = "k\<lparr> k_current := Some ?p \<rparr>"
  have pc: "p_context p = None" using assms(1,3) by (simp add: user_ok_def)
  have "quiet env ?k = quiet env k" by (rule quiet_cong) (simp_all add: k_memory_def)
  then obtain ks where ks: "schedule_next env ?k = dispatch env (set_memory (AddressSpace_enter ks (k_memory ?k)) ?k) \<bind> take_context"
    using assms(2) quiet_schedule [of env ?k] by metis
  let ?k' = "(set_memory (AddressSpace_enter (p_address_space p) (AddressSpace_enter ks (k_memory k))) k)\<lparr>
    k_current := Some (p\<lparr> p_fxsave_area := k_fpu k \<rparr>) \<rparr>"
  have s: "schedule_next env ?k = Some (?c', ?k')"
    unfolding ks using pc by (simp add: dispatch_def take_context_def set_memory_def k_memory_def)
  have "AddressSpace_translate_address (p_address_space p) (k_memory k) (Address_new addr)
      = Some (case r of Inl _ \<Rightarrow> None | Inr f \<Rightarrow> Some (frame_base_addr f + page_offset (Address_new addr)))"
    by (rule AddressSpace_translate_address_page [OF assms(5)])
  then have "translate_current (k\<lparr> k_current := Some (p\<lparr> p_context := Some ?c, p_fxsave_area := k_fpu k \<rparr>) \<rparr>) = Some ?k"
    by (cases r) (simp_all add: translate_current_def k_memory_def)
  then have h: "translate_addr_interrupt_handler env ?c k = Some (?c', ?k')"
    using s assms(3) pc by (simp add: translate_addr_interrupt_handler_def interrupt_handler_def set_current_context_def)
  have "user_ok env ?k' \<and> id_step k ?k'"
    by (rule handler_ok [OF assms(1) h [unfolded translate_addr_interrupt_handler_def] assms(4)])
      (rule conjI, erule (1) translate_current_ok(1), erule (1) translate_current_ok(2))
  then have "user_ok env ?k'" ..
  moreover have "translate_address ?v = Some (case r of Inl _ \<Rightarrow> Inl AddressNotMapped
      | Inr f \<Rightarrow> Inr (frame_base_addr f + page_offset (Address_new addr)))"
  proof (cases r)
    case (Inr f)
    then have "0 \<le> sint (frame_base_addr f + page_offset (Address_new addr))"
      using frame_plus_offset(2) [OF translate_page_physical] assms(5) by blast
    then show ?thesis using Inr by (simp add: translate_address_def)
  qed (simp add: translate_address_def)
  ultimately show ?thesis
    using h by (intro exI [of _ ?k'] exI [of _ ?v]) (simp add: translate_address_call_def)
qed

text \<open>The page at 0x5000 of the example's running process is mapped to the frame at 0x300000.\<close>

definition sample_tables :: table_store where
  "sample_tables t i =
     (if t = 0x258000 \<and> i = 0 then 0x259003 else if t = 0x259000 \<and> i = 0 then 0x25A003
      else if t = 0x25A000 \<and> i = 0 then 0x25B003 else if t = 0x25B000 \<and> i = 5 then 0x300003 else 0)"

theorem translate_address_end_to_end_witness:
  "\<exists>ctx k'. translate_address_call sample_cpu (sample_context 7) 0x5123
      (set_memory ((sample_memory FrameAllocator_new)\<lparr> km_tables := sample_tables \<rparr>) sample_running) = Some (Inr 0x300123, ctx, k')"
proof -
  let ?k = "set_memory ((sample_memory FrameAllocator_new)\<lparr> km_tables := sample_tables \<rparr>) sample_running"
  let ?p = "(sample_process 1 NormalPriority)\<lparr> p_context := None \<rparr>"
  have m: "k_memory sample_running = sample_memory FrameAllocator_new"
    by (simp add: sample_running_def sample_kernel_def k_memory_def Loader_new_def)
  have "tables_ok ?k = tables_ok sample_running" by (rule ok_cong(2)) simp
  then have u: "user_ok sample_cpu ?k"
    using sample_running_ok(1) m
    by (simp add: user_ok_def AddressSpace_is_current_def)
  have "quiet sample_cpu ?k = quiet sample_cpu sample_running"
    by (rule quiet_cong) (simp_all add: m)
  then have q: "quiet sample_cpu ?k" using sample_running_ok(2) by simp
  have c: "k_current ?k = Some ?p" "k_process_id ?k \<noteq> - 1" by (simp_all add: sample_running_def)
  have "translate_page sample_tables 0x258000 (Page 5) = Some (Inr (Frame 0x300))" by code_simp
  moreover have "l4_addr (p_address_space ?p) = 0x258000"
    by (simp add: sample_process_def sample_space_def l4_addr_def) code_simp
  moreover have "Page_containing_addr (Address_new 0x5123) = Page 5" by code_simp
  ultimately have t: "translate_page (km_tables (k_memory ?k)) (l4_addr (p_address_space ?p))
      (Page_containing_addr (Address_new 0x5123)) = Some (Inr (Frame 0x300))" by simp
  have "frame_base_addr (Frame 0x300) + page_offset (Address_new 0x5123) = 0x300123" by code_simp
  then show ?thesis using translate_address_end_to_end [OF u q c t, of "sample_context 7"] by auto
qed

end
